(* ===== verification/Lifecycle.thy ===== *)
theory Lifecycle
  imports MuxPrelude
begin

text \<open>
  The engine lifecycle of \<open>engine/internal/runtime/runtime.go\<close>: the states, the
  transition table and \<open>Transition\<close>, which runs under the mutex and is one atomic
  operation here. A refused transition returns the pair of states of the error message.
  A Go \<open>State\<close> is a string; \<open>OtherState\<close> stands for a string that is none of the six
  constants and falls into the \<open>default\<close> case of the table.
\<close>

section \<open>Data\<close>

datatype lc_state = Stopped | Starting | Running | Degraded | Stopping | Failed | OtherState string

record snapshot =
  sn_state :: lc_state
  sn_sequence :: u64
  sn_changed_at :: time
  sn_reason :: string

record state_change =
  previous :: lc_state
  current :: snapshot

datatype lc_error = InvalidTransition lc_state lc_state

section \<open>Operations\<close>

definition new_runtime :: "time \<Rightarrow> snapshot" where
  "new_runtime now = \<lparr>sn_state = Stopped, sn_sequence = 0, sn_changed_at = now, sn_reason = ''''\<rparr>"

fun can_transition :: "lc_state \<Rightarrow> lc_state \<Rightarrow> bool" where
  "can_transition Stopped next = (next = Starting)"
| "can_transition Starting next = (next = Running \<or> next = Stopping \<or> next = Failed)"
| "can_transition Running next = (next = Degraded \<or> next = Stopping \<or> next = Failed)"
| "can_transition Degraded next = (next = Running \<or> next = Stopping \<or> next = Failed)"
| "can_transition Stopping next = (next = Stopped \<or> next = Failed)"
| "can_transition Failed next = (next = Starting \<or> next = Stopped)"
| "can_transition (OtherState s) next = False"

definition transition :: "snapshot \<Rightarrow> time \<Rightarrow> lc_state \<Rightarrow> string \<Rightarrow> snapshot \<times> (lc_error + state_change)" where
  "transition r now next reason =
     (let prev = sn_state r in
      if prev = next then (r, Inr \<lparr>previous = prev, current = r\<rparr>)
      else if \<not> can_transition prev next then (r, Inl (InvalidTransition prev next))
      else let changed = (if now < sn_changed_at r then sn_changed_at r else now);
               r' = \<lparr>sn_state = next, sn_sequence = sn_sequence r + 1,
                     sn_changed_at = changed, sn_reason = reason\<rparr>
           in (r', Inr \<lparr>previous = prev, current = r'\<rparr>))"

text \<open>A run of requests, each with the clock it reads; the snapshots after each request.\<close>

fun lc_run :: "snapshot \<Rightarrow> (time \<times> lc_state \<times> string) list \<Rightarrow> snapshot list" where
  "lc_run r [] = []"
| "lc_run r ((now, next, reason) # reqs) =
     (let r' = fst (transition r now next reason) in r' # lc_run r' reqs)"

section \<open>Lemmas\<close>

definition lc_edge :: "snapshot \<Rightarrow> snapshot \<Rightarrow> bool" where
  "lc_edge r r' \<longleftrightarrow>
     r' = r \<or>
     (can_transition (sn_state r) (sn_state r') \<and> sn_sequence r' = sn_sequence r + 1
      \<and> sn_changed_at r \<le> sn_changed_at r')"

lemma transition_edge: "lc_edge r (fst (transition r now next reason))"
  by (auto simp: transition_def lc_edge_def Let_def)

lemma can_transition_irrefl: "\<not> can_transition s s"
  by (cases s) auto

lemma can_transition_known: "can_transition s t \<Longrightarrow> t \<noteq> OtherState u"
  by (cases s) auto

lemma lc_run_edges: "successively lc_edge (r # lc_run r reqs)"
proof (induction reqs arbitrary: r)
  case (Cons q reqs)
  obtain now nx reason where q: "q = (now, nx, reason)" by (cases q)
  then show ?case
    using Cons.IH [of "fst (transition r now nx reason)"] transition_edge [of r now nx reason]
    by (simp add: Let_def)
qed simp

lemma successively_edge_sorted:
  "successively lc_edge rs \<Longrightarrow> sorted (map sn_changed_at rs)"
proof (induction rs rule: induct_list012)
  case (3 a b rs)
  then have "sn_changed_at a \<le> sn_changed_at b" by (auto simp: lc_edge_def)
  with 3 show ?case by (auto intro: order_trans)
qed auto

section \<open>Properties\<close>

text \<open>\<open>Transition\<close> on every branch: asking for the current state changes nothing and
  succeeds; a request outside the table leaves the snapshot untouched and names both
  states; a request in the table enters the new state with the given reason, advances the
  sequence by exactly one and stamps a time that is never earlier than the previous one,
  whatever the clock says.
\<close>

theorem transition_spec:
  "transition r now next reason =
     (if next = sn_state r then (r, Inr \<lparr>previous = sn_state r, current = r\<rparr>)
      else if can_transition (sn_state r) next
      then let r' = \<lparr>sn_state = next, sn_sequence = sn_sequence r + 1,
                     sn_changed_at = max now (sn_changed_at r), sn_reason = reason\<rparr>
           in (r', Inr \<lparr>previous = sn_state r, current = r'\<rparr>)
      else (r, Inl (InvalidTransition (sn_state r) next)))"
  by (auto simp: transition_def Let_def max_def)

text \<open>Along any run of transition requests from a new runtime, consecutive snapshots are
  equal or joined by an edge of the transition table with the sequence advanced by one,
  and the recorded times never go back.
\<close>

theorem lifecycle_run_is_path:
  "successively lc_edge (new_runtime t0 # lc_run (new_runtime t0) reqs) \<and>
   sorted (map sn_changed_at (new_runtime t0 # lc_run (new_runtime t0) reqs))"
  using lc_run_edges successively_edge_sorted by blast

end
