(* ===== verification/Adapter.thy ===== *)
theory Adapter
  imports MuxPrelude
begin

text \<open>
  The adapter and channel types of \<open>engine/internal/proxy/config.go\<close>, the scheduling
  strategies and the binding key of \<open>adaptive.go\<close>, and the address-family helpers of
  \<open>dial.go\<close> and \<open>family_health.go\<close> that the scheduler, the health table and the dialer
  share. A strategy is a Go string; the constants keep their values.
\<close>

record adapter =
  name :: string
  source_ip :: string
  if_index :: int
  source_ipv6 :: string
  ipv6_if_index :: int
  weight :: int
  dns_servers :: "string list"

record channel =
  ch_name :: string
  ch_port :: int
  ch_adapters :: "string list"

abbreviation (input) strategy_round_robin :: string where "strategy_round_robin \<equiv> ''round-robin''"
abbreviation (input) strategy_weighted :: string where "strategy_weighted \<equiv> ''weighted''"
abbreviation (input) strategy_adaptive :: string where "strategy_adaptive \<equiv> ''adaptive-throughput''"
abbreviation (input) strategy_latency :: string where "strategy_latency \<equiv> ''latency-first''"

definition normalize_strategy :: "string \<Rightarrow> bool \<Rightarrow> string option" where
  "normalize_strategy strategy weighted =
     (if strategy = '''' then Some (if weighted then strategy_weighted else strategy_round_robin)
      else if strategy = strategy_round_robin \<or> strategy = strategy_weighted
            \<or> strategy = strategy_adaptive \<or> strategy = strategy_latency then Some strategy
      else None)"

record binding_key =
  bk_name :: string
  bk_ip :: string
  bk_ipv6 :: string
  bk_index :: int
  bk_index6 :: int

definition performance_key :: "adapter \<Rightarrow> binding_key" where
  "performance_key a =
     \<lparr>bk_name = name a, bk_ip = source_ip a, bk_ipv6 = source_ipv6 a,
      bk_index = if_index a, bk_index6 = ipv6_if_index a\<rparr>"

definition network_family :: "string \<Rightarrow> string" where
  "network_family network =
     (if network \<noteq> [] \<and> last network = CHR ''6'' then ''ipv6'' else ''ipv4'')"

definition adapter_supports_network :: "adapter \<Rightarrow> string \<Rightarrow> bool" where
  "adapter_supports_network a network =
     (if network = ''tcp6'' \<or> network = ''udp6'' then source_ipv6 a \<noteq> '''' else source_ip a \<noteq> '''')"

definition adapters_for_channel :: "adapter list \<Rightarrow> channel \<Rightarrow> adapter list" where
  "adapters_for_channel adapters ch = filter (\<lambda>a. name a \<in> set (ch_adapters ch)) adapters"

lemma normalize_strategy_known:
  "normalize_strategy s w = Some t \<Longrightarrow>
   t \<in> {strategy_round_robin, strategy_weighted, strategy_adaptive, strategy_latency}"
  by (auto simp: normalize_strategy_def split: if_splits)

lemma performance_key_name [simp]: "bk_name (performance_key a) = name a"
  by (simp add: performance_key_def)

end
