(* ===== verification/Registry.thy ===== *)
theory Registry
  imports Adapter
begin

text \<open>
  The connection registry of \<open>engine/internal/proxy/registry.go\<close>: the live connections and
  the traffic counters per adapter. Counters are shared by pointer between the registry's
  map and the sessions, so both live in stores and are named by addresses. Every counter is
  a 64-bit word, as in the code, where a decrement adds \<open>^uint64(0)\<close>.

  Each method is one step: its parts are a map update under the mutex and additions to
  atomic counters, which commute. A connection (\<open>net.Conn\<close>) is a number, with its remote
  address an argument. The fields of the CDN observer are not part of the model.
\<close>

unbundle bit_operations_syntax

section \<open>State\<close>

record counters =
  ct_adapter :: adapter
  ct_active :: u64
  ct_up :: u64
  ct_down :: u64

record session =
  se_id :: u64
  se_protocol :: string
  se_channel :: string
  se_client :: string
  se_listener :: string
  se_started :: time
  se_conn :: nat
  se_upstream :: "nat option"
  se_target :: string
  se_remote :: string
  se_adapter :: string
  se_counters :: "nat option"
  se_direct :: bool
  se_finished :: bool
  se_up :: u64
  se_down :: u64

record registry =
  rg_next_id :: u64
  rg_started :: time
  rg_connections :: "u64 \<Rightarrow> nat option"
  rg_adapters :: "string \<Rightarrow> nat option"
  rg_order :: "string list"
  rg_direct_active :: u64
  rg_direct_up :: u64
  rg_direct_down :: u64
  rg_counters :: "nat \<Rightarrow> counters"
  rg_next_counters :: nat
  rg_sessions :: "nat \<Rightarrow> session"
  rg_next_session :: nat
  rg_closed :: "nat set"

definition no_adapter :: adapter where
  "no_adapter = \<lparr>name = '''', source_ip = '''', if_index = 0, source_ipv6 = '''', ipv6_if_index = 0,
                 weight = 0, dns_servers = []\<rparr>"

definition new_counters :: "adapter \<Rightarrow> counters" where
  "new_counters a = \<lparr>ct_adapter = a, ct_active = 0, ct_up = 0, ct_down = 0\<rparr>"

definition no_session :: session where
  "no_session = \<lparr>se_id = 0, se_protocol = '''', se_channel = '''', se_client = '''', se_listener = '''',
     se_started = 0, se_conn = 0, se_upstream = None, se_target = '''', se_remote = '''', se_adapter = '''',
     se_counters = None, se_direct = False, se_finished = False, se_up = 0, se_down = 0\<rparr>"

section \<open>Operations\<close>

definition add_counters :: "registry \<Rightarrow> adapter \<Rightarrow> registry" where
  "add_counters r a =
     r\<lparr>rg_adapters := (rg_adapters r)(name a \<mapsto> rg_next_counters r), rg_order := rg_order r @ [name a],
       rg_counters := (rg_counters r)(rg_next_counters r := new_counters a),
       rg_next_counters := rg_next_counters r + 1\<rparr>"

definition new_registry :: "time \<Rightarrow> adapter list \<Rightarrow> registry" where
  "new_registry now adapters =
     foldl add_counters
       \<lparr>rg_next_id = 0, rg_started = now, rg_connections = (\<lambda>_. None), rg_adapters = (\<lambda>_. None), rg_order = [],
        rg_direct_active = 0, rg_direct_up = 0, rg_direct_down = 0,
        rg_counters = (\<lambda>_. new_counters no_adapter), rg_next_counters = 0,
        rg_sessions = (\<lambda>_. no_session), rg_next_session = 0, rg_closed = {}\<rparr> adapters"

definition begin_address ::
  "registry \<Rightarrow> time \<Rightarrow> string \<Rightarrow> string \<Rightarrow> string \<Rightarrow> string \<Rightarrow> nat \<Rightarrow> nat \<times> registry" where
  "begin_address r now protocol channel client listener conn =
     (let i = rg_next_id r + 1; s = rg_next_session r
      in (s, r\<lparr>rg_next_id := i, rg_connections := (rg_connections r)(i \<mapsto> s), rg_next_session := s + 1,
               rg_sessions := (rg_sessions r)
                 (s := no_session\<lparr>se_id := i, se_protocol := protocol, se_channel := channel, se_client := client,
                         se_listener := listener, se_started := now, se_conn := conn\<rparr>)\<rparr>))"

text \<open>\<open>remote\<close> is the text of the upstream's remote address, None when it has none.\<close>

definition reg_attach ::
  "registry \<Rightarrow> nat \<Rightarrow> nat \<Rightarrow> string option \<Rightarrow> string \<Rightarrow> adapter \<Rightarrow> registry" where
  "reg_attach r s upstream remote target a =
     (let r1 = (if rg_adapters r (name a) = None then add_counters r a else r);
          c = the (rg_adapters r1 (name a));
          se = rg_sessions r1 s;
          se' = se\<lparr>se_upstream := Some upstream, se_target := target,
                   se_remote := (case remote of None \<Rightarrow> se_remote se | Some x \<Rightarrow> x),
                   se_adapter := name a, se_counters := Some c\<rparr>;
          ct = rg_counters r1 c
      in r1\<lparr>rg_sessions := (rg_sessions r1)(s := se'),
            rg_counters := (rg_counters r1)(c := ct\<lparr>ct_active := ct_active ct + 1\<rparr>)\<rparr>)"

definition reg_attach_direct :: "registry \<Rightarrow> nat \<Rightarrow> nat \<Rightarrow> string option \<Rightarrow> string \<Rightarrow> registry" where
  "reg_attach_direct r s upstream remote target =
     (let se = rg_sessions r s;
          se' = se\<lparr>se_upstream := Some upstream, se_target := target,
                   se_remote := (case remote of None \<Rightarrow> se_remote se | Some x \<Rightarrow> x),
                   se_adapter := '''', se_direct := True\<rparr>
      in r\<lparr>rg_sessions := (rg_sessions r)(s := se'), rg_direct_active := rg_direct_active r + 1\<rparr>)"

definition reg_add_up :: "registry \<Rightarrow> nat \<Rightarrow> u64 \<Rightarrow> registry" where
  "reg_add_up r s amount =
     (if amount = 0 then r
      else let se = rg_sessions r s;
               r1 = r\<lparr>rg_sessions := (rg_sessions r)(s := se\<lparr>se_up := se_up se + amount\<rparr>)\<rparr>
           in case se_counters se of
                Some c \<Rightarrow> r1\<lparr>rg_counters := (rg_counters r1)
                              (c := (rg_counters r1 c)\<lparr>ct_up := ct_up (rg_counters r1 c) + amount\<rparr>)\<rparr>
              | None \<Rightarrow> if se_direct se then r1\<lparr>rg_direct_up := rg_direct_up r1 + amount\<rparr> else r1)"

definition reg_add_down :: "registry \<Rightarrow> nat \<Rightarrow> u64 \<Rightarrow> registry" where
  "reg_add_down r s amount =
     (if amount = 0 then r
      else let se = rg_sessions r s;
               r1 = r\<lparr>rg_sessions := (rg_sessions r)(s := se\<lparr>se_down := se_down se + amount\<rparr>)\<rparr>
           in case se_counters se of
                Some c \<Rightarrow> r1\<lparr>rg_counters := (rg_counters r1)
                              (c := (rg_counters r1 c)\<lparr>ct_down := ct_down (rg_counters r1 c) + amount\<rparr>)\<rparr>
              | None \<Rightarrow> if se_direct se then r1\<lparr>rg_direct_down := rg_direct_down r1 + amount\<rparr> else r1)"

definition reg_finish :: "registry \<Rightarrow> nat \<Rightarrow> registry" where
  "reg_finish r s =
     (let se = rg_sessions r s in
      if se_finished se then r
      else let r1 = r\<lparr>rg_sessions := (rg_sessions r)(s := se\<lparr>se_finished := True\<rparr>),
                      rg_connections := (rg_connections r)(se_id se := None)\<rparr>
           in case se_counters se of
                Some c \<Rightarrow> r1\<lparr>rg_counters := (rg_counters r1)
                              (c := (rg_counters r1 c)\<lparr>ct_active := ct_active (rg_counters r1 c) + NOT 0\<rparr>)\<rparr>
              | None \<Rightarrow> if se_direct se then r1\<lparr>rg_direct_active := rg_direct_active r1 + NOT 0\<rparr> else r1)"

text \<open>\<open>CloseAll\<close> closes the client and upstream connections of every live session.\<close>

definition reg_close_all :: "registry \<Rightarrow> registry" where
  "reg_close_all r =
     r\<lparr>rg_closed := rg_closed r \<union>
        (\<Union>s\<in>ran (rg_connections r). insert (se_conn (rg_sessions r s)) (set_option (se_upstream (rg_sessions r s))))\<rparr>"

section \<open>Snapshot\<close>

record adapter_telemetry =
  at_name :: string
  at_connections :: u64
  at_up :: u64
  at_down :: u64

record telemetry =
  tm_adapters :: "adapter_telemetry list"
  tm_sessions :: "session list"
  tm_total_connections :: u64
  tm_total_up :: u64
  tm_total_down :: u64

text \<open>\<open>live\<close> lists the ids of the connection map in the order the loop visits them.\<close>

definition reg_snapshot :: "registry \<Rightarrow> u64 list \<Rightarrow> bool \<Rightarrow> telemetry" where
  "reg_snapshot r live incl =
     (let item = (\<lambda>n. let c = rg_counters r (the (rg_adapters r n))
                      in \<lparr>at_name = name (ct_adapter c), at_connections = ct_active c, at_up = ct_up c,
                          at_down = ct_down c\<rparr>);
          items = map item (rg_order r)
      in \<lparr>tm_adapters = items,
          tm_sessions = (if incl
                         then List.map_filter (\<lambda>i. map_option (rg_sessions r) (rg_connections r i)) live else []),
          tm_total_connections = foldl (\<lambda>t i. t + at_connections i) 0 items + rg_direct_active r,
          tm_total_up = foldl (\<lambda>t i. t + at_up i) 0 items + rg_direct_up r,
          tm_total_down = foldl (\<lambda>t i. t + at_down i) 0 items + rg_direct_down r\<rparr>)"

section \<open>Use of the registry\<close>

text \<open>
  The steps the server and the UDP associations make (\<open>server.go\<close> 490--555 and 618--658,
  \<open>udp.go\<close> 368--375, 426--433, 450, 504, 532): a session is attached at most once and before
  it is finished, bytes are added once it is attached, and \<open>Finish\<close> may come any number of times.
\<close>

definition attached :: "session \<Rightarrow> bool" where
  "attached se = (se_counters se \<noteq> None \<or> se_direct se)"

inductive reg_step :: "registry \<Rightarrow> registry \<Rightarrow> bool" where
  Begin: "reg_step r (snd (begin_address r now protocol channel client listener conn))"
| Attach: "s < rg_next_session r \<Longrightarrow> \<not> attached (rg_sessions r s) \<Longrightarrow> \<not> se_finished (rg_sessions r s) \<Longrightarrow>
           reg_step r (reg_attach r s upstream remote target a)"
| Direct: "s < rg_next_session r \<Longrightarrow> \<not> attached (rg_sessions r s) \<Longrightarrow> \<not> se_finished (rg_sessions r s) \<Longrightarrow>
           reg_step r (reg_attach_direct r s upstream remote target)"
| Up: "s < rg_next_session r \<Longrightarrow> attached (rg_sessions r s) \<Longrightarrow> reg_step r (reg_add_up r s n)"
| Down: "s < rg_next_session r \<Longrightarrow> attached (rg_sessions r s) \<Longrightarrow> reg_step r (reg_add_down r s n)"
| Finish: "s < rg_next_session r \<Longrightarrow> reg_step r (reg_finish r s)"
| CloseAll: "reg_step r (reg_close_all r)"

inductive reachable :: "time \<Rightarrow> adapter list \<Rightarrow> registry \<Rightarrow> bool" for now adapters where
  Start: "reachable now adapters (new_registry now adapters)"
| Step: "reachable now adapters r \<Longrightarrow> reg_step r r' \<Longrightarrow> reachable now adapters r'"

inductive_cases reg_stepE: "reg_step r r'"

end
