(* ===== verification/RegistryFacts.thy ===== *)
theory RegistryFacts
  imports Registry
begin

text \<open>
  What the registry guarantees along any use of it: every counter is the sum over the
  sessions attached to it (so a repeated \<open>Finish\<close> never underflows one), the map of
  connections holds exactly the unfinished sessions, and a snapshot adds up.
\<close>

section \<open>Contributions of one session\<close>

definition w_active :: "nat option \<Rightarrow> session \<Rightarrow> u64" where
  "w_active c se = (if attached se \<and> se_counters se = c \<and> \<not> se_finished se then 1 else 0)"

definition w_up :: "nat option \<Rightarrow> session \<Rightarrow> u64" where
  "w_up c se = (if attached se \<and> se_counters se = c then se_up se else 0)"

definition w_down :: "nat option \<Rightarrow> session \<Rightarrow> u64" where
  "w_down c se = (if attached se \<and> se_counters se = c then se_down se else 0)"

definition total_of :: "(session \<Rightarrow> u64) \<Rightarrow> registry \<Rightarrow> u64" where
  "total_of f r = (\<Sum>s<rg_next_session r. f (rg_sessions r s))"

lemmas weights = w_active_def w_up_def w_down_def attached_def

lemma sum_fun_upd:
  fixes f :: "'a \<Rightarrow> 'v::ab_group_add" and s n :: nat
  assumes "s < n"
  shows "(\<Sum>i<n. f ((g(s := x)) i)) = (\<Sum>i<n. f (g i)) + (f x - f (g s))"
proof -
  have "(\<Sum>i<n. f ((g(s := x)) i)) = f x + (\<Sum>i\<in>{..<n} - {s}. f ((g(s := x)) i))"
    using assms by (subst sum.remove [OF finite_lessThan, of s]) auto
  also have "(\<Sum>i\<in>{..<n} - {s}. f ((g(s := x)) i)) = (\<Sum>i\<in>{..<n} - {s}. f (g i))"
    by (rule sum.cong) auto
  also have "\<dots> = (\<Sum>i<n. f (g i)) - f (g s)" using assms by (simp add: sum.remove [of "{..<n}" s])
  finally show ?thesis by simp
qed

lemma total_upd:
  "s < rg_next_session r \<Longrightarrow>
   total_of f (r\<lparr>rg_sessions := (rg_sessions r)(s := x)\<rparr>) = total_of f r + (f x - f (rg_sessions r s))"
  by (simp add: total_of_def sum_fun_upd del: fun_upd_apply)

lemma total_cong:
  "rg_sessions r = rg_sessions r' \<Longrightarrow> rg_next_session r = rg_next_session r' \<Longrightarrow> total_of f r = total_of f r'"
  by (simp add: total_of_def)

section \<open>The invariant\<close>

definition counters_ok :: "registry \<Rightarrow> bool" where
  "counters_ok r \<longleftrightarrow>
     (\<forall>c<rg_next_counters r. ct_active (rg_counters r c) = total_of (w_active (Some c)) r \<and>
        ct_up (rg_counters r c) = total_of (w_up (Some c)) r \<and>
        ct_down (rg_counters r c) = total_of (w_down (Some c)) r) \<and>
     rg_direct_active r = total_of (w_active None) r \<and> rg_direct_up r = total_of (w_up None) r \<and>
     rg_direct_down r = total_of (w_down None) r"

definition session_ok :: "nat \<Rightarrow> nat \<Rightarrow> session \<Rightarrow> bool" where
  "session_ok n s se \<longleftrightarrow>
     (\<forall>c. se_counters se = Some c \<longrightarrow> c < n \<and> \<not> se_direct se) \<and>
     (\<not> attached se \<longrightarrow> se_up se = 0 \<and> se_down se = 0) \<and> se_id se = of_nat (s + 1)"

definition sessions_ok :: "registry \<Rightarrow> bool" where
  "sessions_ok r \<longleftrightarrow>
     (\<forall>s<rg_next_session r. session_ok (rg_next_counters r) s (rg_sessions r s)) \<and>
     rg_next_id r = of_nat (rg_next_session r)"

lemma session_ok_mono: "session_ok n s se \<Longrightarrow> n \<le> m \<Longrightarrow> session_ok m s se"
  by (auto simp: session_ok_def)

definition adapters_ok :: "registry \<Rightarrow> bool" where
  "adapters_ok r \<longleftrightarrow>
     distinct (rg_order r) \<and> dom (rg_adapters r) = set (rg_order r) \<and> length (rg_order r) = rg_next_counters r \<and>
     (\<forall>i<rg_next_counters r. rg_adapters r (rg_order r ! i) = Some i \<and>
        name (ct_adapter (rg_counters r i)) = rg_order r ! i)"

definition reg_ok :: "registry \<Rightarrow> bool" where
  "reg_ok r \<longleftrightarrow> counters_ok r \<and> sessions_ok r \<and> adapters_ok r"

text \<open>An update that touches one session only in fields the sums see through \<open>f\<close>.\<close>

lemma adapters_ok_frame:
  assumes "adapters_ok r" and "rg_order q = rg_order r" "rg_adapters q = rg_adapters r"
    "rg_next_counters q = rg_next_counters r" "\<And>c. ct_adapter (rg_counters q c) = ct_adapter (rg_counters r c)"
  shows "adapters_ok q"
  using assms by (simp add: adapters_ok_def)

section \<open>Every step keeps it\<close>

lemma add_counters_ok:
  assumes r: "reg_ok r" and a: "rg_adapters r (name a) = None"
  shows "reg_ok (add_counters r a)"
proof -
  let ?n = "rg_next_counters r"
  have z: "total_of (w_active (Some ?n)) r = 0" "total_of (w_up (Some ?n)) r = 0" "total_of (w_down (Some ?n)) r = 0"
  proof -
    have "se_counters (rg_sessions r s) \<noteq> Some ?n" if "s < rg_next_session r" for s
      using r that by (auto simp: reg_ok_def sessions_ok_def session_ok_def)
    then show "total_of (w_active (Some ?n)) r = 0" "total_of (w_up (Some ?n)) r = 0" "total_of (w_down (Some ?n)) r = 0"
      unfolding total_of_def weights by (auto intro!: sum.neutral)
  qed
  have t: "total_of f (add_counters r a) = total_of f r" for f
    by (rule total_cong) (simp_all add: add_counters_def)
  have "counters_ok (add_counters r a)"
    using r z unfolding counters_ok_def t
    by (auto simp: reg_ok_def counters_ok_def add_counters_def new_counters_def less_Suc_eq)
  moreover have "sessions_ok (add_counters r a)"
    using r session_ok_mono [of "?n"] by (simp add: reg_ok_def sessions_ok_def add_counters_def)
  moreover have "adapters_ok (add_counters r a)"
  proof -
    have ao: "adapters_ok r" using r by (simp add: reg_ok_def)
    have fresh: "name a \<notin> set (rg_order r)" using ao a by (auto simp: adapters_ok_def)
    have len: "length (rg_order r) = ?n" using ao by (simp add: adapters_ok_def)
    then have ne: "rg_order r ! i \<noteq> name a" if "i < ?n" for i using fresh that nth_mem by metis
    show ?thesis
      using ao fresh len ne by (auto simp: adapters_ok_def add_counters_def new_counters_def nth_append less_Suc_eq)
  qed
  ultimately show ?thesis by (simp add: reg_ok_def)
qed

lemma begin_ok: "reg_ok r \<Longrightarrow> reg_ok (snd (begin_address r now protocol channel client listener conn))"
proof -
  assume r: "reg_ok r"
  let ?q = "snd (begin_address r now protocol channel client listener conn)"
  let ?n = "rg_next_session r"
  have q: "rg_next_session ?q = ?n + 1" "\<And>s. s < ?n \<Longrightarrow> rg_sessions ?q s = rg_sessions r s"
    "se_counters (rg_sessions ?q ?n) = None" "se_direct (rg_sessions ?q ?n) = False" "se_up (rg_sessions ?q ?n) = 0"
    "se_down (rg_sessions ?q ?n) = 0" "se_id (rg_sessions ?q ?n) = rg_next_id r + 1" "rg_next_id ?q = rg_next_id r + 1"
    "rg_counters ?q = rg_counters r" "rg_next_counters ?q = rg_next_counters r" "rg_direct_active ?q = rg_direct_active r"
    "rg_direct_up ?q = rg_direct_up r" "rg_direct_down ?q = rg_direct_down r" "rg_order ?q = rg_order r"
    "rg_adapters ?q = rg_adapters r"
    by (simp_all add: begin_address_def Let_def no_session_def)
  have t: "total_of f ?q = total_of f r + f (rg_sessions ?q ?n)" for f
    by (simp add: total_of_def q(1,2))
  have f: "w_active c (rg_sessions ?q ?n) = 0" "w_up c (rg_sessions ?q ?n) = 0" "w_down c (rg_sessions ?q ?n) = 0" for c
    by (simp_all add: weights q)
  have "counters_ok ?q" using r unfolding counters_ok_def t f q by (simp add: reg_ok_def counters_ok_def)
  moreover have "sessions_ok ?q"
  proof -
    have so: "sessions_ok r" using r by (simp add: reg_ok_def)
    then have id: "rg_next_id r + 1 = of_nat (?n + 1)" by (simp add: sessions_ok_def)
    have "session_ok (rg_next_counters r) ?n (rg_sessions ?q ?n)"
      unfolding session_ok_def q(3-7) id by simp
    then show ?thesis
      using so unfolding sessions_ok_def q(1,8,10) id by (simp add: less_Suc_eq q(2) all_conj_distrib del: of_nat_Suc of_nat_add)
  qed
  moreover have "adapters_ok ?q"
  proof (rule adapters_ok_frame [of r])
    show "adapters_ok r" using r by (simp add: reg_ok_def)
  qed (simp_all only: q)
  ultimately show ?thesis by (simp add: reg_ok_def)
qed

text \<open>One session changes, and one of the counters by the same amounts.\<close>

lemma one_session_ok:
  assumes r: "reg_ok r" and s: "s < rg_next_session r"
    and q: "rg_sessions q = (rg_sessions r)(s := (rg_sessions q s))" "rg_next_session q = rg_next_session r"
      "rg_next_counters q = rg_next_counters r" "rg_next_id q = rg_next_id r"
      "rg_order q = rg_order r" "rg_adapters q = rg_adapters r"
      "\<And>c. ct_adapter (rg_counters q c) = ct_adapter (rg_counters r c)"
    and c: "\<And>c. c < rg_next_counters r \<Longrightarrow>
        ct_active (rg_counters q c) = ct_active (rg_counters r c) + (w_active (Some c) (rg_sessions q s) - w_active (Some c) (rg_sessions r s)) \<and>
        ct_up (rg_counters q c) = ct_up (rg_counters r c) + (w_up (Some c) (rg_sessions q s) - w_up (Some c) (rg_sessions r s)) \<and>
        ct_down (rg_counters q c) = ct_down (rg_counters r c) + (w_down (Some c) (rg_sessions q s) - w_down (Some c) (rg_sessions r s))"
    and d: "rg_direct_active q = rg_direct_active r + (w_active None (rg_sessions q s) - w_active None (rg_sessions r s))"
      "rg_direct_up q = rg_direct_up r + (w_up None (rg_sessions q s) - w_up None (rg_sessions r s))"
      "rg_direct_down q = rg_direct_down r + (w_down None (rg_sessions q s) - w_down None (rg_sessions r s))"
    and se: "session_ok (rg_next_counters r) s (rg_sessions q s)"
  shows "reg_ok q"
proof -
  have t: "total_of f q = total_of f r + (f (rg_sessions q s) - f (rg_sessions r s))" for f
    using sum_fun_upd [OF s, of f "rg_sessions r" "rg_sessions q s"] unfolding q(1) [symmetric] by (simp add: total_of_def q(2))
  have "counters_ok q" using r c d unfolding counters_ok_def t q(3) by (simp add: reg_ok_def counters_ok_def)
  moreover have "sessions_ok q" using r se by (metis (no_types, lifting) fun_upd_apply q(1-4) reg_ok_def sessions_ok_def)
  moreover have "adapters_ok q"
  proof (rule adapters_ok_frame [of r])
    show "adapters_ok r" using r by (simp add: reg_ok_def)
  qed (simp_all only: q)
  ultimately show ?thesis by (simp add: reg_ok_def)
qed

lemma session_okD:
  "reg_ok r \<Longrightarrow> s < rg_next_session r \<Longrightarrow> session_ok (rg_next_counters r) s (rg_sessions r s)"
  by (simp add: reg_ok_def sessions_ok_def)

lemma attach_direct_ok:
  assumes r: "reg_ok r" and s: "s < rg_next_session r" and a: "\<not> attached (rg_sessions r s)"
    and f: "\<not> se_finished (rg_sessions r s)"
  shows "reg_ok (reg_attach_direct r s upstream remote target)"
  using session_okD [OF r s] a f
  by (intro one_session_ok [OF r s])
    (simp_all add: reg_attach_direct_def Let_def weights session_ok_def)

lemma attach_known_ok:
  assumes r: "reg_ok r" and s: "s < rg_next_session r" and a: "\<not> attached (rg_sessions r s)"
    and f: "\<not> se_finished (rg_sessions r s)" and c: "rg_adapters r (name x) = Some c"
  shows "reg_ok (reg_attach r s upstream remote target x)"
proof -
  have lt: "c < rg_next_counters r"
  proof -
    have "name x \<in> set (rg_order r)" using r c by (auto simp: reg_ok_def adapters_ok_def)
    then obtain i where "i < rg_next_counters r" "rg_order r ! i = name x"
      using r by (auto simp: reg_ok_def adapters_ok_def in_set_conv_nth)
    then show ?thesis using r c by (auto simp: reg_ok_def adapters_ok_def)
  qed
  show ?thesis
    using session_okD [OF r s] a f lt
    by (intro one_session_ok [OF r s]) (simp_all add: reg_attach_def Let_def c weights session_ok_def)
qed

lemma add_counters_sel [simp]:
  "rg_sessions (add_counters r a) = rg_sessions r" "rg_next_session (add_counters r a) = rg_next_session r"
  "rg_adapters (add_counters r a) (name a) = Some (rg_next_counters r)"
  by (simp_all add: add_counters_def)

lemma attach_ok:
  assumes r: "reg_ok r" and s: "s < rg_next_session r" and a: "\<not> attached (rg_sessions r s)"
    and f: "\<not> se_finished (rg_sessions r s)"
  shows "reg_ok (reg_attach r s upstream remote target x)"
proof (cases "rg_adapters r (name x)")
  case None
  have "reg_attach r s upstream remote target x = reg_attach (add_counters r x) s upstream remote target x"
    using None by (simp add: reg_attach_def Let_def)
  then show ?thesis
    using attach_known_ok [OF add_counters_ok [OF r None]] s a f by simp
next
  case (Some c)
  then show ?thesis using attach_known_ok [OF r s a f] by simp
qed

lemma add_bytes_ok:
  assumes r: "reg_ok r" and s: "s < rg_next_session r" and a: "attached (rg_sessions r s)"
  shows "reg_ok (reg_add_up r s n)" "reg_ok (reg_add_down r s n)"
proof -
  let ?se = "rg_sessions r s"
  have ok: "session_ok (rg_next_counters r) s ?se" by (rule session_okD [OF r s])
  show "reg_ok (reg_add_up r s n)"
  proof (cases "n = 0")
    case False
    then show ?thesis using ok a
      by (cases "se_counters ?se"; intro one_session_ok [OF r s])
        (simp_all add: reg_add_up_def Let_def weights session_ok_def)
  qed (use r in \<open>simp add: reg_add_up_def\<close>)
  show "reg_ok (reg_add_down r s n)"
  proof (cases "n = 0")
    case False
    then show ?thesis using ok a
      by (cases "se_counters ?se"; intro one_session_ok [OF r s])
        (simp_all add: reg_add_down_def Let_def weights session_ok_def)
  qed (use r in \<open>simp add: reg_add_down_def\<close>)
qed

lemma finish_ok:
  assumes r: "reg_ok r" and s: "s < rg_next_session r"
  shows "reg_ok (reg_finish r s)"
proof (cases "se_finished (rg_sessions r s)")
  case False
  then show ?thesis using session_okD [OF r s]
    by (cases "se_counters (rg_sessions r s)"; cases "se_direct (rg_sessions r s)"; intro one_session_ok [OF r s])
      (simp_all add: reg_finish_def Let_def weights session_ok_def)
qed (use r in \<open>simp add: reg_finish_def\<close>)

lemma close_all_ok: "reg_ok r \<Longrightarrow> reg_ok (reg_close_all r)"
  by (simp add: reg_ok_def counters_ok_def sessions_ok_def adapters_ok_def reg_close_all_def total_of_def)

lemma reg_step_ok: "reg_step r r' \<Longrightarrow> reg_ok r \<Longrightarrow> reg_ok r'"
  by (erule reg_stepE) (simp_all add: begin_ok attach_ok attach_direct_ok add_bytes_ok finish_ok close_all_ok)

lemma add_all_counters_ok:
  "reg_ok r \<Longrightarrow> distinct (map name as) \<Longrightarrow> set (rg_order r) \<inter> name ` set as = {} \<Longrightarrow>
   reg_ok (foldl add_counters r as)"
proof (induction "as" arbitrary: r)
  case (Cons a as)
  have "rg_adapters r (name a) = None" using Cons.prems(1,3) by (auto simp: reg_ok_def adapters_ok_def)
  then have "reg_ok (add_counters r a)" by (rule add_counters_ok [OF Cons.prems(1)])
  moreover have "set (rg_order (add_counters r a)) \<inter> name ` set as = {}" using Cons.prems by (auto simp: add_counters_def)
  ultimately show ?case using Cons.IH Cons.prems by simp
qed simp

lemma new_registry_ok: "distinct (map name as) \<Longrightarrow> reg_ok (new_registry now as)"
  unfolding new_registry_def
  by (rule add_all_counters_ok) (auto simp: reg_ok_def counters_ok_def sessions_ok_def adapters_ok_def total_of_def)

lemma reachable_ok: "reachable now as r \<Longrightarrow> distinct (map name as) \<Longrightarrow> reg_ok r"
  by (induction rule: reachable.induct) (auto intro: new_registry_ok reg_step_ok)

lemma sum_indicator: "(\<Sum>s<(n :: nat). if P s then 1 else 0 :: u64) = of_nat (card {s. s < n \<and> P s})"
proof (induction n)
  case (Suc n)
  have "{s. s < Suc n \<and> P s} = (if P n then insert n {s. s < n \<and> P s} else {s. s < n \<and> P s})"
    by (auto simp: less_Suc_eq)
  then show ?case using Suc by simp
qed simp

lemma total_active: "total_of (w_active c) r = of_nat (card {s. s < rg_next_session r \<and>
   attached (rg_sessions r s) \<and> se_counters (rg_sessions r s) = c \<and> \<not> se_finished (rg_sessions r s)})"
  by (simp add: total_of_def w_active_def sum_indicator)

section \<open>The map of connections\<close>

definition conns_ok :: "registry \<Rightarrow> bool" where
  "conns_ok r \<longleftrightarrow> (\<forall>i s. rg_connections r i = Some s \<longleftrightarrow>
     s < rg_next_session r \<and> \<not> se_finished (rg_sessions r s) \<and> se_id (rg_sessions r s) = i)"

lemma ids_distinct:
  assumes "reg_ok r" and "rg_next_session r < 2 ^ 64" and "s < rg_next_session r" and "t < rg_next_session r"
    and "se_id (rg_sessions r s) = se_id (rg_sessions r t)"
  shows "s = t"
proof -
  have "(of_nat (s + 1) :: u64) = of_nat (t + 1)"
    using session_okD [OF assms(1,3)] session_okD [OF assms(1,4)] assms(5) by (simp add: session_ok_def)
  then have "unat (of_nat (s + 1) :: u64) = unat (of_nat (t + 1) :: u64)" by simp
  moreover have "s + 1 < 2 ^ 64" "t + 1 < 2 ^ 64" using assms(2-4) by auto
  ultimately show ?thesis by (simp add: unat_of_nat del: of_nat_Suc of_nat_add)
qed

lemma step_next: "reg_step r r' \<Longrightarrow> rg_next_session r \<le> rg_next_session r'"
  by (erule reg_stepE)
    (auto simp: begin_address_def reg_attach_def reg_attach_direct_def reg_add_up_def reg_add_down_def
      reg_finish_def reg_close_all_def add_counters_def Let_def split: option.splits)

lemma conns_frame:
  "conns_ok r \<Longrightarrow> rg_connections q = rg_connections r \<Longrightarrow> rg_next_session q = rg_next_session r \<Longrightarrow>
   (\<And>s. se_finished (rg_sessions q s) = se_finished (rg_sessions r s) \<and> se_id (rg_sessions q s) = se_id (rg_sessions r s)) \<Longrightarrow>
   conns_ok q"
  by (simp add: conns_ok_def)

lemma step_conns:
  assumes st: "reg_step r r'" and r: "reg_ok r" and c: "conns_ok r" and b: "rg_next_session r' < 2 ^ 64"
  shows "conns_ok r'"
  using st
proof (cases rule: reg_step.cases)
  case (Begin now protocol channel client listener conn)
  have id: "rg_next_id r = of_nat (rg_next_session r)" using r by (simp add: reg_ok_def sessions_ok_def)
  have r': "rg_next_session r' = rg_next_session r + 1" using Begin by (simp add: begin_address_def Let_def)
  have "reg_ok r'" using reg_step_ok [OF st r] .
  then have fresh: "se_id (rg_sessions r' s) \<noteq> se_id (rg_sessions r' (rg_next_session r))" if "s < rg_next_session r" for s
    using ids_distinct [of r' s "rg_next_session r"] b that r' by auto
  have se: "rg_sessions r' s = rg_sessions r s" if "s < rg_next_session r" for s
    using that Begin by (simp add: begin_address_def Let_def)
  have new: "se_id (rg_sessions r' (rg_next_session r)) = rg_next_id r + 1"
    "\<not> se_finished (rg_sessions r' (rg_next_session r))"
    "rg_connections r' = (rg_connections r)(rg_next_id r + 1 \<mapsto> rg_next_session r)"
    using Begin by (simp_all add: begin_address_def Let_def no_session_def)
  show ?thesis using c fresh unfolding conns_ok_def r' new(3) by (auto simp: less_Suc_eq new(1,2) se)
next
  case (Finish s)
  show ?thesis
  proof (cases "se_finished (rg_sessions r s)")
    case True
    then have "r' = r" using Finish by (simp add: reg_finish_def)
    then show ?thesis using c by simp
  next
    case False
    have q: "rg_connections r' = (rg_connections r)(se_id (rg_sessions r s) := None)"
      "rg_next_session r' = rg_next_session r"
      "\<And>t. se_finished (rg_sessions r' t) = (t = s \<or> se_finished (rg_sessions r t))"
      "\<And>t. se_id (rg_sessions r' t) = se_id (rg_sessions r t)"
      using Finish False by (simp_all add: reg_finish_def Let_def split: option.split)
    have "se_id (rg_sessions r t) \<noteq> se_id (rg_sessions r s)" if "t < rg_next_session r" "t \<noteq> s" for t
      using ids_distinct [OF r _ that(1) Finish(2)] b q(2) that(2) by auto
    then show ?thesis using c Finish(2) unfolding conns_ok_def q by auto
  qed
qed (use c in \<open>auto intro!: conns_frame [OF c] simp: reg_attach_def reg_attach_direct_def reg_add_up_def reg_add_down_def
      reg_close_all_def add_counters_def Let_def split: option.split if_splits\<close>)

lemma reachable_conns:
  "reachable now as r \<Longrightarrow> distinct (map name as) \<Longrightarrow> rg_next_session r < 2 ^ 64 \<Longrightarrow> conns_ok r"
proof (induction rule: reachable.induct)
  case Start
  have "rg_connections (foldl add_counters r as) = rg_connections r \<and>
      rg_next_session (foldl add_counters r as) = rg_next_session r" for r
    by (induction "as" arbitrary: r) (simp_all add: add_counters_def)
  then show ?case by (simp add: conns_ok_def new_registry_def)
next
  case (Step r r')
  then show ?case using step_conns [OF Step(2) reachable_ok [OF Step(1,4)]] step_next [OF Step(2)] by simp
qed

section \<open>Totals\<close>

lemma foldl_add_map: "foldl (\<lambda>t i. t + f i) (t0 :: u64) xs = t0 + sum_list (map f xs)"
  by (induction xs arbitrary: t0) (simp_all add: ac_simps)

lemma order_sum:
  assumes "adapters_ok r"
  shows "sum_list (map (\<lambda>n. f (rg_counters r (the (rg_adapters r n)))) (rg_order r)) =
         (\<Sum>c<rg_next_counters r. f (rg_counters r c) :: u64)"
proof -
  have "map (\<lambda>n. f (rg_counters r (the (rg_adapters r n)))) (rg_order r) = map (\<lambda>c. f (rg_counters r c)) [0..<rg_next_counters r]"
    using assms by (intro nth_equalityI) (auto simp: adapters_ok_def)
  then show ?thesis by (simp add: interv_sum_list_conv_sum_set_nat atLeast0LessThan)
qed

text \<open>Summing a per-counter contribution over all counters and the direct traffic.\<close>

lemma sum_contributions:
  assumes r: "reg_ok r" and f: "\<And>c se. f c se = (if attached se \<and> se_counters se = c then g se else (0 :: u64))"
  shows "(\<Sum>c<rg_next_counters r. total_of (f (Some c)) r) + total_of (f None) r =
         total_of (\<lambda>se. if attached se then g se else 0) r"
proof -
  let ?n = "rg_next_counters r" and ?m = "rg_next_session r"
  have "(\<Sum>c<?n. total_of (f (Some c)) r) = (\<Sum>s<?m. \<Sum>c<?n. f (Some c) (rg_sessions r s))"
    unfolding total_of_def by (rule sum.swap)
  moreover have "(\<Sum>c<?n. f (Some c) (rg_sessions r s)) + f None (rg_sessions r s) =
      (if attached (rg_sessions r s) then g (rg_sessions r s) else 0)" if s: "s < ?m" for s
  proof (cases "se_counters (rg_sessions r s)")
    case None
    then show ?thesis by (simp add: f)
  next
    case (Some k)
    then have "k < ?n" using session_okD [OF r s] by (simp add: session_ok_def)
    have a: "attached (rg_sessions r s)" using Some by (simp add: attached_def)
    have "(\<Sum>c<?n. f (Some c) (rg_sessions r s)) = (\<Sum>c<?n. if k = c then g (rg_sessions r s) else 0)"
      using Some a by (intro sum.cong) (auto simp: f)
    also have "\<dots> = g (rg_sessions r s)" using \<open>k < ?n\<close> by simp
    finally show ?thesis using Some a by (simp add: f)
  qed
  ultimately show ?thesis unfolding total_of_def by (simp add: sum.distrib [symmetric])
qed

section \<open>Properties\<close>

text \<open>
  C7. The active count of an adapter is the number of unfinished sessions attached to it,
  and the direct count that of the unfinished direct sessions, in every state the server
  and the UDP associations can bring the registry to. A repeated \<open>Finish\<close> of a session
  changes nothing, so no counter ever wraps below zero.
\<close>

theorem active_counts_exact:
  assumes "reachable now adapters r" and "distinct (map name adapters)" and "rg_adapters r n = Some c"
  shows "ct_active (rg_counters r c) = of_nat (card {s. s < rg_next_session r \<and>
            se_counters (rg_sessions r s) = Some c \<and> \<not> se_finished (rg_sessions r s)}) \<and>
         rg_direct_active r = of_nat (card {s. s < rg_next_session r \<and> se_counters (rg_sessions r s) = None \<and>
            se_direct (rg_sessions r s) \<and> \<not> se_finished (rg_sessions r s)}) \<and>
         reg_finish (reg_finish r s) s = reg_finish r s"
proof -
  have r: "reg_ok r" by (rule reachable_ok [OF assms(1,2)])
  have "n \<in> set (rg_order r)" using r assms(3) by (auto simp: reg_ok_def adapters_ok_def)
  then have c: "c < rg_next_counters r"
    using r assms(3) by (auto simp: reg_ok_def adapters_ok_def in_set_conv_nth)
  have "{s. s < rg_next_session r \<and> attached (rg_sessions r s) \<and> se_counters (rg_sessions r s) = Some c \<and>
           \<not> se_finished (rg_sessions r s)} =
        {s. s < rg_next_session r \<and> se_counters (rg_sessions r s) = Some c \<and> \<not> se_finished (rg_sessions r s)}"
    "{s. s < rg_next_session r \<and> attached (rg_sessions r s) \<and> se_counters (rg_sessions r s) = None \<and>
           \<not> se_finished (rg_sessions r s)} =
     {s. s < rg_next_session r \<and> se_counters (rg_sessions r s) = None \<and> se_direct (rg_sessions r s) \<and>
           \<not> se_finished (rg_sessions r s)}"
    by (auto simp: attached_def)
  moreover have "reg_finish (reg_finish r s) s = reg_finish r s"
    by (simp add: reg_finish_def Let_def split: option.split)
  ultimately show ?thesis
    using r c total_active [of "Some c" r] total_active [of None r] by (simp add: reg_ok_def counters_ok_def)
qed

definition one_flow :: registry where
  "one_flow =
     reg_attach (snd (begin_address (new_registry 0 [no_adapter]) 5 ''tcp'' '''' ''c'' '''' 1)) 0 2 None ''t'' no_adapter"

lemma one_flow_reachable: "reachable 0 [no_adapter] one_flow"
proof -
  let ?r1 = "snd (begin_address (new_registry 0 [no_adapter]) 5 ''tcp'' '''' ''c'' '''' 1)"
  have "reachable 0 [no_adapter] ?r1" by (rule reachable.Step [OF reachable.Start reg_step.Begin])
  moreover have "reg_step ?r1 (reg_attach ?r1 0 2 None ''t'' no_adapter)"
    by (rule reg_step.Attach)
      (simp_all add: begin_address_def Let_def new_registry_def add_counters_def attached_def no_session_def)
  ultimately show ?thesis unfolding one_flow_def by (rule reachable.Step)
qed

theorem active_counts_exact_witness:
  "ct_active (rg_counters one_flow 0) = 1"
proof -
  have "rg_adapters one_flow '''' = Some 0"
    by (simp add: one_flow_def reg_attach_def begin_address_def new_registry_def add_counters_def Let_def no_adapter_def)
  from active_counts_exact [OF one_flow_reachable _ this]
  have "ct_active (rg_counters one_flow 0) = of_nat (card {s. s < rg_next_session one_flow \<and>
            se_counters (rg_sessions one_flow s) = Some 0 \<and> \<not> se_finished (rg_sessions one_flow s)})" by simp
  also have "{s. s < rg_next_session one_flow \<and> se_counters (rg_sessions one_flow s) = Some 0 \<and>
            \<not> se_finished (rg_sessions one_flow s)} = {0}"
    by (auto simp: one_flow_def reg_attach_def begin_address_def new_registry_def add_counters_def Let_def no_adapter_def
        no_session_def)
  finally show ?thesis by simp
qed

text \<open>The map of live connections holds exactly the unfinished sessions, each under its own
  id: as long as fewer than 2^64 sessions were begun, no session displaces another.
\<close>

theorem live_connections_exact:
  assumes "reachable now adapters r" and "distinct (map name adapters)" and "rg_next_session r < 2 ^ 64"
  shows "rg_connections r i = Some s \<longleftrightarrow>
         s < rg_next_session r \<and> \<not> se_finished (rg_sessions r s) \<and> se_id (rg_sessions r s) = i"
  using reachable_conns [OF assms] by (simp add: conns_ok_def)

theorem live_connections_exact_witness: "rg_connections one_flow 1 = Some 0"
proof -
  have "rg_next_session one_flow = 1" "\<not> se_finished (rg_sessions one_flow 0)" "se_id (rg_sessions one_flow 0) = 1"
    by (simp_all add: one_flow_def reg_attach_def begin_address_def new_registry_def add_counters_def Let_def
        no_adapter_def no_session_def)
  then show ?thesis using live_connections_exact [OF one_flow_reachable, of 1 0] by simp
qed

text \<open>A snapshot adds up: its total of connections is the number of unfinished sessions
  that were attached (to an adapter or directly), and its totals of bytes are the sums of
  the bytes of all attached sessions, finished ones included (modulo 2^64).
\<close>

theorem snapshot_adds_up:
  assumes "reachable now adapters r" and "distinct (map name adapters)"
  shows "tm_total_connections (reg_snapshot r live incl) = of_nat (card {s. s < rg_next_session r \<and>
            attached (rg_sessions r s) \<and> \<not> se_finished (rg_sessions r s)}) \<and>
         tm_total_up (reg_snapshot r live incl) = (\<Sum>s | s < rg_next_session r \<and> attached (rg_sessions r s). se_up (rg_sessions r s)) \<and>
         tm_total_down (reg_snapshot r live incl) = (\<Sum>s | s < rg_next_session r \<and> attached (rg_sessions r s). se_down (rg_sessions r s))"
proof -
  have r: "reg_ok r" by (rule reachable_ok [OF assms])
  have ao: "adapters_ok r" and co: "counters_ok r" using r by (simp_all add: reg_ok_def)
  have sumset: "(\<Sum>s | s < n \<and> P s. h s) = (\<Sum>s<n. if P s then h s else (0 :: u64))" for n P and h :: "nat \<Rightarrow> u64"
  proof -
    have "{s. s < n \<and> P s} = {s \<in> {..<n}. P s}" by auto
    then show ?thesis by (simp only: sum.inter_filter [OF finite_lessThan])
  qed
  have w: "w_active c se = (if attached se \<and> se_counters se = c then if se_finished se then 0 else 1 else 0)"
    "w_up c se = (if attached se \<and> se_counters se = c then se_up se else 0)"
    "w_down c se = (if attached se \<and> se_counters se = c then se_down se else 0)" for c se
    unfolding w_active_def w_up_def w_down_def by (cases "se_finished se") (simp_all only: simp_thms if_False if_True if_cancel)
  have "tm_total_connections (reg_snapshot r live incl) = (\<Sum>c<rg_next_counters r. ct_active (rg_counters r c)) + rg_direct_active r"
    "tm_total_up (reg_snapshot r live incl) = (\<Sum>c<rg_next_counters r. ct_up (rg_counters r c)) + rg_direct_up r"
    "tm_total_down (reg_snapshot r live incl) = (\<Sum>c<rg_next_counters r. ct_down (rg_counters r c)) + rg_direct_down r"
    unfolding order_sum [OF ao, symmetric] by (simp_all add: reg_snapshot_def Let_def foldl_add_map comp_def)
  moreover have "(\<Sum>c<rg_next_counters r. ct_active (rg_counters r c)) = (\<Sum>c<rg_next_counters r. total_of (w_active (Some c)) r)"
    "(\<Sum>c<rg_next_counters r. ct_up (rg_counters r c)) = (\<Sum>c<rg_next_counters r. total_of (w_up (Some c)) r)"
    "(\<Sum>c<rg_next_counters r. ct_down (rg_counters r c)) = (\<Sum>c<rg_next_counters r. total_of (w_down (Some c)) r)"
    using co by (auto simp: counters_ok_def)
  moreover have "rg_direct_active r = total_of (w_active None) r" "rg_direct_up r = total_of (w_up None) r"
    "rg_direct_down r = total_of (w_down None) r" using co by (simp_all add: counters_ok_def)
  ultimately have "tm_total_connections (reg_snapshot r live incl) = total_of (\<lambda>se. if attached se then if se_finished se then 0 else 1 else 0) r"
    "tm_total_up (reg_snapshot r live incl) = total_of (\<lambda>se. if attached se then se_up se else 0) r"
    "tm_total_down (reg_snapshot r live incl) = total_of (\<lambda>se. if attached se then se_down se else 0) r"
    using sum_contributions [OF r, of w_active, OF w(1)] sum_contributions [OF r, of w_up, OF w(2)]
      sum_contributions [OF r, of w_down, OF w(3)] by simp_all
  moreover have "(if a then if b then 0 else 1 else 0 :: u64) = (if a \<and> \<not> b then 1 else 0)" for a b by simp
  ultimately show ?thesis unfolding sumset by (simp add: total_of_def sum_indicator)
qed

theorem snapshot_adds_up_witness: "tm_total_connections (reg_snapshot one_flow [1] True) = 1"
proof -
  have "{s. s < rg_next_session one_flow \<and> attached (rg_sessions one_flow s) \<and> \<not> se_finished (rg_sessions one_flow s)} = {0}"
    by (auto simp: one_flow_def reg_attach_def begin_address_def new_registry_def add_counters_def Let_def no_adapter_def
        no_session_def attached_def)
  then show ?thesis using snapshot_adds_up [OF one_flow_reachable, of "[1]" True] by simp
qed

end
