(* ===== verification/GoNet.thy ===== *)
theory GoNet
  imports MuxPrelude
begin

text \<open>
  The parts of Go's \<open>net\<close>, \<open>net/netip\<close> and \<open>strconv\<close> the code calls, modelled from the
  standard library's documented behaviour: textual IP addresses, their classes, and
  \<open>host:port\<close> strings. A \<open>net.IP\<close> that \<open>ParseIP\<close> returns is its 16-byte form, so an
  IPv4 address is a v4-mapped one there and \<open>To4\<close> gives its four bytes back. A
  \<open>netip.Addr\<close> is \<open>V4\<close> or \<open>V6\<close> with its bytes; zones are kept apart (\<open>ParseIP\<close> refuses
  them).
\<close>

section \<open>Decimal and hexadecimal numbers\<close>

definition digit_val :: "char \<Rightarrow> nat option" where
  "digit_val c = (let n = of_char c in if 48 \<le> n \<and> n \<le> 57 then Some (n - 48) else None)"

definition hex_val :: "char \<Rightarrow> nat option" where
  "hex_val c =
     (let n = of_char c in
      if 48 \<le> n \<and> n \<le> 57 then Some (n - 48)
      else if 97 \<le> n \<and> n \<le> 102 then Some (n - 97 + 10)
      else if 65 \<le> n \<and> n \<le> 70 then Some (n - 65 + 10) else None)"

fun parse_digits :: "string \<Rightarrow> nat \<Rightarrow> nat option" where
  "parse_digits [] acc = Some acc"
| "parse_digits (c # cs) acc = (case digit_val c of None \<Rightarrow> None | Some d \<Rightarrow> parse_digits cs (acc * 10 + d))"

definition parse_nat :: "string \<Rightarrow> nat option" where
  "parse_nat s = (if s = [] then None else parse_digits s 0)"

fun parse_hex :: "string \<Rightarrow> nat \<Rightarrow> nat" where
  "parse_hex [] acc = acc"
| "parse_hex (c # cs) acc = (case hex_val c of None \<Rightarrow> acc | Some d \<Rightarrow> parse_hex cs (acc * 16 + d))"

definition is_hex :: "char \<Rightarrow> bool" where
  "is_hex c = (hex_val c \<noteq> None)"

definition hex_digit :: "nat \<Rightarrow> char" where
  "hex_digit d = (if d < 10 then char_of (48 + d) else char_of (87 + d))"

fun itoa_hex :: "nat \<Rightarrow> string" where
  "itoa_hex n = (if n < 16 then [hex_digit n] else itoa_hex (n div 16) @ [hex_digit (n mod 16)])"

declare itoa_hex.simps [simp del]

section \<open>Splitting and joining\<close>

fun split_on :: "char \<Rightarrow> string \<Rightarrow> string list" where
  "split_on sep [] = [[]]"
| "split_on sep (c # cs) =
     (if c = sep then [] # split_on sep cs
      else case split_on sep cs of [] \<Rightarrow> [[c]] | f # fs \<Rightarrow> (c # f) # fs)"

fun join_with :: "string \<Rightarrow> string list \<Rightarrow> string" where
  "join_with sep [] = []"
| "join_with sep [s] = s"
| "join_with sep (s # ss) = s @ sep @ join_with sep ss"

section \<open>IPv4 text\<close>

text \<open>\<open>parseIPv4Fields\<close>: four decimal octets without leading zeros.\<close>

definition parse_octet :: "string \<Rightarrow> u8 option" where
  "parse_octet s =
     (if length s > 1 \<and> hd s = CHR ''0'' then None
      else case parse_nat s of None \<Rightarrow> None | Some n \<Rightarrow> if n > 255 then None else Some (of_nat n))"

definition parse_ipv4 :: "string \<Rightarrow> bytes option" where
  "parse_ipv4 s =
     (case map parse_octet (split_on CHR ''.'' s) of
        [Some a, Some b, Some c, Some d] \<Rightarrow> Some [a, b, c, d]
      | _ \<Rightarrow> None)"

definition format_ipv4 :: "bytes \<Rightarrow> string" where
  "format_ipv4 bs = join_with ''.'' (map (\<lambda>b. itoa_nat (unat b)) bs)"

section \<open>IPv6 text\<close>

text \<open>
  The loop of \<open>parseIPv6\<close>: \<open>out\<close> are the bytes written so far, \<open>ell\<close> the position of
  the ellipsis. The result is the bytes, the ellipsis and the rest of the string.
\<close>

function v6_loop :: "string \<Rightarrow> bytes \<Rightarrow> nat option \<Rightarrow> (bytes \<times> nat option \<times> string) option" where
  "v6_loop s out ell =
     (if 16 \<le> length out then Some (out, ell, s)
      else
        let hex = takeWhile is_hex s; rest = dropWhile is_hex s; acc = parse_hex hex 0 in
        if hex = [] \<or> length hex > 4 then None
        else if rest \<noteq> [] \<and> hd rest = CHR ''.'' then
          (if ell = None \<and> length out \<noteq> 12 then None
           else if length out + 4 > 16 then None
           else case parse_ipv4 s of None \<Rightarrow> None | Some bs \<Rightarrow> Some (out @ bs, ell, []))
        else
          let out' = out @ [of_nat (acc div 256), of_nat (acc mod 256)] in
          if rest = [] then Some (out', ell, [])
          else if hd rest \<noteq> CHR '':'' \<or> tl rest = [] then None
          else if hd (tl rest) = CHR '':'' then
            (if ell \<noteq> None then None
             else if tl (tl rest) = [] then Some (out', Some (length out'), [])
             else v6_loop (tl (tl rest)) out' (Some (length out')))
          else v6_loop (tl rest) out' ell)"
  by pat_completeness auto
termination
proof (relation "measure (\<lambda>(s, out, ell). length s)", simp, goal_cases)
  case (1 s out ell hex rest acc out')
  then have "length rest \<le> length s" "tl rest \<noteq> []" by (simp_all add: length_dropWhile_le)
  then show ?case by (cases rest) (auto simp: less_eq_Suc_le)
next
  case (2 s out ell hex rest acc out')
  then have "length rest \<le> length s" "tl rest \<noteq> []" by (simp_all add: length_dropWhile_le)
  then show ?case by (cases rest) auto
qed

declare v6_loop.simps [simp del]

definition parse_ipv6 :: "string \<Rightarrow> bytes option" where
  "parse_ipv6 s0 =
     (let lead = (take 2 s0 = ''::''); s = (if lead then drop 2 s0 else s0);
          ell = (if lead then Some 0 else None)
      in if lead \<and> s = [] then Some (replicate 16 0)
         else case v6_loop s [] ell of
           None \<Rightarrow> None
         | Some (out, ell', rest) \<Rightarrow>
             if rest \<noteq> [] then None
             else if length out < 16 then
               (case ell' of None \<Rightarrow> None
                | Some e \<Rightarrow> Some (take e out @ replicate (16 - length out) 0 @ drop e out))
             else if ell' \<noteq> None then None else Some out)"

text \<open>The printer compresses the first longest run of at least two zero groups.\<close>

fun groups :: "bytes \<Rightarrow> nat list" where
  "groups (a # b # bs) = (unat a * 256 + unat b) # groups bs"
| "groups bs = []"

definition zero_run :: "nat list \<Rightarrow> nat" where
  "zero_run gs = length (takeWhile (\<lambda>g. g = 0) gs)"

fun best_run :: "nat \<Rightarrow> nat list \<Rightarrow> nat \<times> nat \<Rightarrow> nat \<times> nat" where
  "best_run i [] best = best"
| "best_run i (g # gs) best =
     (let n = zero_run (g # gs) in best_run (i + 1) gs (if n > snd best then (i, n) else best))"

definition format_ipv6 :: "bytes \<Rightarrow> string" where
  "format_ipv6 bs =
     (let gs = groups bs; (i, n) = best_run 0 gs (0, 1) in
      if n > 1
      then join_with '':'' (map itoa_hex (take i gs)) @ ''::'' @ join_with '':'' (map itoa_hex (drop (i + n) gs))
      else join_with '':'' (map itoa_hex gs))"

section \<open>net.IP\<close>

definition v4_prefix :: bytes where
  "v4_prefix = replicate 10 0 @ [255, 255]"

definition as16 :: "bytes \<Rightarrow> bytes" where
  "as16 ip = (if length ip = 4 then v4_prefix @ ip else ip)"

definition to4 :: "bytes \<Rightarrow> bytes option" where
  "to4 ip = (if length ip = 4 then Some ip
             else if length ip = 16 \<and> take 12 ip = v4_prefix then Some (drop 12 ip) else None)"

text \<open>\<open>net.ParseIP\<close>: the first of the characters dot, colon, percent decides the family.\<close>

definition parse_ip :: "string \<Rightarrow> bytes option" where
  "parse_ip s =
     (case dropWhile (\<lambda>c. c \<notin> {CHR ''.'', CHR '':'', CHR ''%''}) s of
        [] \<Rightarrow> None
      | c # _ \<Rightarrow> if c = CHR ''.'' then map_option as16 (parse_ipv4 s)
                  else if c = CHR '':'' then parse_ipv6 s else None)"

definition ip_string :: "bytes \<Rightarrow> string" where
  "ip_string ip = (case to4 ip of Some b4 \<Rightarrow> format_ipv4 b4 | None \<Rightarrow> format_ipv6 ip)"

definition ip_unspecified :: "bytes \<Rightarrow> bool" where
  "ip_unspecified ip = (as16 ip = v4_prefix @ replicate 4 0 \<or> as16 ip = replicate 16 0)"

definition ip_loopback :: "bytes \<Rightarrow> bool" where
  "ip_loopback ip = (case to4 ip of Some b4 \<Rightarrow> b4 ! 0 = 127 | None \<Rightarrow> ip = replicate 15 0 @ [1])"

definition ip_multicast :: "bytes \<Rightarrow> bool" where
  "ip_multicast ip = (case to4 ip of Some b4 \<Rightarrow> and (b4 ! 0) 0xF0 = 0xE0 | None \<Rightarrow> length ip = 16 \<and> ip ! 0 = 0xFF)"

definition ip_link_local :: "bytes \<Rightarrow> bool" where
  "ip_link_local ip =
     (case to4 ip of Some b4 \<Rightarrow> b4 ! 0 = 169 \<and> b4 ! 1 = 254
      | None \<Rightarrow> length ip = 16 \<and> ip ! 0 = 0xFE \<and> and (ip ! 1) 0xC0 = 0x80)"

section \<open>host:port\<close>

definition after_last :: "char \<Rightarrow> string \<Rightarrow> string" where
  "after_last c s = rev (takeWhile (\<lambda>x. x \<noteq> c) (rev s))"

definition before_last :: "char \<Rightarrow> string \<Rightarrow> string" where
  "before_last c s = rev (tl (dropWhile (\<lambda>x. x \<noteq> c) (rev s)))"

definition split_host_port :: "string \<Rightarrow> (string \<times> string) option" where
  "split_host_port s =
     (if CHR '':'' \<notin> set s then None
      else if hd s = CHR ''['' then
        (if CHR '']'' \<notin> set s then None
         else let host = takeWhile (\<lambda>c. c \<noteq> CHR '']'') (tl s); rest = drop (length host + 2) s in
              if rest = [] \<or> hd rest \<noteq> CHR '':'' \<or> CHR '':'' \<in> set (tl rest) then None
              else if CHR ''['' \<in> set (tl s) \<or> CHR '']'' \<in> set rest then None
              else Some (host, tl rest))
      else let host = before_last CHR '':'' s in
           if CHR '':'' \<in> set host \<or> CHR ''['' \<in> set s \<or> CHR '']'' \<in> set s then None
           else Some (host, after_last CHR '':'' s))"

definition join_host_port :: "string \<Rightarrow> string \<Rightarrow> string" where
  "join_host_port host port =
     (if CHR '':'' \<in> set host then ''['' @ host @ '']:'' @ port else host @ '':'' @ port)"

section \<open>netip.Addr\<close>

text \<open>A 16-byte address carries its zone; a v4-mapped one is still a 16-byte address until \<open>Unmap\<close>.\<close>

datatype addr = A4 bytes | A6 bytes string

definition parse_addr :: "string \<Rightarrow> addr option" where
  "parse_addr s =
     (case dropWhile (\<lambda>c. c \<notin> {CHR ''.'', CHR '':'', CHR ''%''}) s of
        [] \<Rightarrow> None
      | c # _ \<Rightarrow>
          if c = CHR ''.'' then map_option A4 (parse_ipv4 s)
          else if c = CHR '':''
          then (let body = takeWhile (\<lambda>x. x \<noteq> CHR ''%'') s; rest = dropWhile (\<lambda>x. x \<noteq> CHR ''%'') s in
                if rest \<noteq> [] \<and> tl rest = [] then None
                else map_option (\<lambda>b. A6 b (tl rest)) (parse_ipv6 body))
          else None)"

fun addr_is4in6 :: "addr \<Rightarrow> bool" where
  "addr_is4in6 (A4 b) = False"
| "addr_is4in6 (A6 b z) = (take 12 b = v4_prefix)"

fun addr_unmap :: "addr \<Rightarrow> addr" where
  "addr_unmap (A4 b) = A4 b"
| "addr_unmap (A6 b z) = (if take 12 b = v4_prefix then A4 (drop 12 b) else A6 b z)"

fun addr_is6 :: "addr \<Rightarrow> bool" where
  "addr_is6 (A4 b) = False"
| "addr_is6 (A6 b z) = True"

fun addr_is4 :: "addr \<Rightarrow> bool" where
  "addr_is4 (A4 b) = True"
| "addr_is4 (A6 b z) = False"

fun addr_zone :: "addr \<Rightarrow> string" where
  "addr_zone (A4 b) = ''''"
| "addr_zone (A6 b z) = z"

fun addr_with_zone :: "addr \<Rightarrow> string \<Rightarrow> addr" where
  "addr_with_zone (A4 b) z = A4 b"
| "addr_with_zone (A6 b z') z = A6 b z"

fun addr_bytes :: "addr \<Rightarrow> bytes" where
  "addr_bytes (A4 b) = b"
| "addr_bytes (A6 b z) = b"

definition addr_unspecified :: "addr \<Rightarrow> bool" where
  "addr_unspecified a = (a = A4 (replicate 4 0) \<or> a = A6 (replicate 16 0) '''')"

definition addr_multicast :: "addr \<Rightarrow> bool" where
  "addr_multicast a =
     (case addr_unmap a of A4 b \<Rightarrow> and (b ! 0) 0xF0 = 0xE0 | A6 b z \<Rightarrow> b ! 0 = 0xFF)"

definition addr_link_local :: "addr \<Rightarrow> bool" where
  "addr_link_local a =
     (case addr_unmap a of A4 b \<Rightarrow> b ! 0 = 169 \<and> b ! 1 = 254
      | A6 b z \<Rightarrow> b ! 0 = 0xFE \<and> and (b ! 1) 0xC0 = 0x80)"

fun addr_string :: "addr \<Rightarrow> string" where
  "addr_string (A4 b) = format_ipv4 b"
| "addr_string (A6 b z) =
     (if take 12 b = v4_prefix then ''::ffff:'' @ format_ipv4 (drop 12 b) else format_ipv6 b) @
     (if z = '''' then '''' else CHR ''%'' # z)"

section \<open>Round trips\<close>

lemma digit_val_char [simp]: "d < 10 \<Longrightarrow> digit_val (char_of (48 + d)) = Some d"
  by (simp add: digit_val_def)

lemma parse_digits_append:
  "parse_digits (xs @ ys) acc = (case parse_digits xs acc of None \<Rightarrow> None | Some a \<Rightarrow> parse_digits ys a)"
  by (induction xs arbitrary: acc) (simp_all split: option.splits)

lemma parse_digits_itoa: "parse_digits (itoa_nat n) 0 = Some n"
proof (induction n rule: itoa_nat.induct)
  case (1 n)
  show ?case
  proof (cases "n < 10")
    case True
    then show ?thesis by (subst itoa_nat.simps) simp
  next
    case False
    then show ?thesis using 1 by (subst itoa_nat.simps) (simp add: parse_digits_append)
  qed
qed

lemma parse_nat_itoa [simp]: "parse_nat (itoa_nat n) = Some n"
  by (simp add: parse_nat_def parse_digits_itoa)

lemma itoa_digits: "c \<in> set (itoa_nat n) \<Longrightarrow> digit_val c \<noteq> None"
proof (induction n rule: itoa_nat.induct)
  case (1 n)
  then show ?case by (subst (asm) (2) itoa_nat.simps) (auto split: if_splits)
qed

lemma itoa_hd: "10 \<le> n \<Longrightarrow> hd (itoa_nat n) \<noteq> CHR ''0''"
proof (induction n rule: itoa_nat.induct)
  case (1 n)
  show ?case
  proof (cases "n div 10 < 10")
    case True
    then have "itoa_nat n = [char_of (48 + n div 10), char_of (48 + n mod 10)]"
      using 1(2) by (subst itoa_nat.simps) (simp add: itoa_nat.simps [of "n div 10"])
    moreover have "digit_val (char_of (48 + n div 10)) = Some (n div 10)" using True by simp
    moreover have "digit_val (CHR ''0'') = Some 0" by (simp add: digit_val_def)
    moreover have "n div 10 \<noteq> 0" using 1(2) by simp
    ultimately show ?thesis by auto
  next
    case False
    then show ?thesis using 1 by (subst itoa_nat.simps) simp
  qed
qed

lemma itoa_short: "n < 10 \<Longrightarrow> length (itoa_nat n) = 1"
  by (subst itoa_nat.simps) simp

lemma parse_octet_itoa [simp]: "parse_octet (itoa_nat (unat (b :: u8))) = Some b"
proof -
  have "unat b < 256" using unsigned_less [of b] by simp
  moreover have "\<not> (length (itoa_nat (unat b)) > 1 \<and> hd (itoa_nat (unat b)) = CHR ''0'')"
    using itoa_hd [of "unat b"] itoa_short [of "unat b"] by (cases "unat b < 10") auto
  ultimately show ?thesis by (simp add: parse_octet_def)
qed

lemma split_on_none: "sep \<notin> set s \<Longrightarrow> split_on sep s = [s]"
  by (induction s) auto

lemma split_on_append: "sep \<notin> set s \<Longrightarrow> split_on sep (s @ sep # t) = s # split_on sep t"
  by (induction s) auto

lemma itoa_no_dot [simp]:
  "CHR ''.'' \<notin> set (itoa_nat n)" "CHR '':'' \<notin> set (itoa_nat n)" "CHR ''%'' \<notin> set (itoa_nat n)"
  using itoa_digits [of "CHR ''.''" n] itoa_digits [of "CHR '':''" n] itoa_digits [of "CHR ''%''" n]
  by (auto simp: digit_val_def)

text \<open>Printing an IPv4 address and parsing it back gives the address.\<close>

lemma parse_format_ipv4: "parse_ipv4 (format_ipv4 [a, b, c, d]) = Some [a, b, c, d]"
  by (simp add: parse_ipv4_def format_ipv4_def split_on_append split_on_none)

lemma length_1_cases: "length xs = 4 \<Longrightarrow> \<exists>a b c d. xs = [a, b, c, d]"
  by (auto simp: length_Suc_conv numeral_eq_Suc)

lemma parse_ip_format_ipv4: "length b = 4 \<Longrightarrow> parse_ip (format_ipv4 b) = Some (v4_prefix @ b)"
proof -
  assume "length b = 4"
  then obtain x y z w where b: "b = [x, y, z, w]" using length_1_cases by blast
  let ?P = "\<lambda>c. c \<notin> {CHR ''.'', CHR '':'', CHR ''%''}"
  have p: "\<forall>c\<in>set (itoa_nat n). ?P c" for n by (metis insertE itoa_no_dot singletonD)
  then have "dropWhile ?P (itoa_nat n @ CHR ''.'' # t) = CHR ''.'' # t" for n t
    by (subst dropWhile_append2) simp_all
  then show ?thesis
    using parse_format_ipv4 [of x y z w] unfolding b parse_ip_def format_ipv4_def
    by (simp add: as16_def)
qed

lemma to4_v4 [simp]: "length b = 4 \<Longrightarrow> to4 (v4_prefix @ b) = Some b"
  by (simp add: to4_def v4_prefix_def)

lemma parse_ipv4_length: "parse_ipv4 s = Some b \<Longrightarrow> length b = 4"
  by (auto simp: parse_ipv4_def split: list.splits option.splits)

text \<open>A host without brackets, or one with colons and no brackets, splits back from its join.\<close>

lemma before_after_last:
  assumes "c \<notin> set t"
  shows "before_last c (s @ c # t) = s" "after_last c (s @ c # t) = t"
proof -
  have ne: "\<And>x. x \<in> set (rev t) \<Longrightarrow> x \<noteq> c" using assms by auto
  have "dropWhile (\<lambda>x. x \<noteq> c) (rev t @ c # rev s) = c # rev s"
    by (subst dropWhile_append2) (use ne in auto)
  moreover have "takeWhile (\<lambda>x. x \<noteq> c) (rev t @ c # rev s) = rev t"
    by (subst takeWhile_append2) (use ne in auto)
  ultimately show "before_last c (s @ c # t) = s" "after_last c (s @ c # t) = t"
    by (simp_all add: before_last_def after_last_def)
qed

lemma split_join_host_port:
  assumes "set host \<inter> {CHR ''['', CHR '']''} = {}" and "set port \<inter> {CHR '':'', CHR ''['', CHR '']''} = {}"
  shows "split_host_port (join_host_port host port) = Some (host, port)"
proof (cases "CHR '':'' \<in> set host")
  case True
  have "takeWhile (\<lambda>c. c \<noteq> CHR '']'') (host @ ''] :'' @ port) = host"
    "takeWhile (\<lambda>c. c \<noteq> CHR '']'') (host @ CHR '']'' # t) = host" for t
    using assms(1) by (auto simp: takeWhile_append2 takeWhile_tail)
  then show ?thesis using True assms by (auto simp: split_host_port_def join_host_port_def Let_def)
next
  case False
  have "hd (host @ CHR '':'' # port) \<noteq> CHR ''[''" using assms(1) by (cases host) auto
  then show ?thesis using False assms before_after_last [of "CHR '':''" port host]
    by (auto simp: split_host_port_def join_host_port_def Let_def)
qed

section \<open>Printed addresses are not empty\<close>

lemma itoa_hex_not_Nil [simp]: "itoa_hex n \<noteq> []"
  by (subst itoa_hex.simps) simp

lemma join_with_not_Nil: "xs \<noteq> [] \<Longrightarrow> hd xs \<noteq> [] \<Longrightarrow> join_with sep xs \<noteq> []"
  by (cases "(sep, xs)" rule: join_with.cases) auto

lemma format_ipv4_not_Nil: "bs \<noteq> [] \<Longrightarrow> format_ipv4 bs \<noteq> []"
  unfolding format_ipv4_def by (rule join_with_not_Nil) (simp_all add: hd_map)

lemma format_ipv6_not_Nil: "2 \<le> length bs \<Longrightarrow> format_ipv6 bs \<noteq> []"
proof -
  assume "2 \<le> length bs"
  then have "groups bs \<noteq> []" by (cases bs rule: groups.cases) auto
  then have "join_with '':'' (map itoa_hex (groups bs)) \<noteq> []"
    by (intro join_with_not_Nil) (simp_all add: hd_map)
  then show ?thesis by (simp add: format_ipv6_def Let_def split: prod.split)
qed

lemma ip_string_not_Nil: "length ip = 4 \<or> length ip = 16 \<Longrightarrow> ip_string ip \<noteq> []"
proof -
  assume l: "length ip = 4 \<or> length ip = 16"
  show ?thesis
  proof (cases "to4 ip")
    case None
    then have "length ip = 16" using l by (auto simp: to4_def)
    then show ?thesis using None format_ipv6_not_Nil [of ip] by (simp add: ip_string_def)
  next
    case (Some b)
    then have "length b = 4" using l by (auto simp: to4_def split: if_splits)
    then have "b \<noteq> []" by auto
    then show ?thesis using Some format_ipv4_not_Nil [of b] by (simp add: ip_string_def)
  qed
qed

text \<open>A parsed IPv6 address has sixteen bytes.\<close>

abbreviation ell_ok :: "nat option \<Rightarrow> bytes \<Rightarrow> bool" where
  "ell_ok ell out \<equiv> (\<forall>e. ell = Some e \<longrightarrow> e \<le> length out)"

lemma tl_dropWhile_shorter: "tl (dropWhile P s) \<noteq> [] \<Longrightarrow> length (tl (dropWhile P s)) < length s"
  using length_dropWhile_le[of P s] by (cases "dropWhile P s") auto

lemma v6_loop_length:
  "v6_loop s out ell = Some (out', ell', r) \<Longrightarrow> even (length out) \<Longrightarrow> length out \<le> 16 \<Longrightarrow> ell_ok ell out \<Longrightarrow>
   length out' \<le> 16 \<and> ell_ok ell' out'"
proof (induction "length s" arbitrary: s out ell rule: less_induct)
  case less
  have ev: "length out + 2 \<le> 16" if "\<not> 16 \<le> length out" using that less.prems(2) by presburger
  define rest where "rest = dropWhile is_hex s"
  define out1 :: bytes where "out1 = out @ [of_nat (parse_hex (takeWhile is_hex s) 0 div 256),
      of_nat (parse_hex (takeWhile is_hex s) 0 mod 256)]"
  have n: "length out1 = length out + 2" by (simp add: out1_def)
  have ih: "length out' \<le> 16 \<and> ell_ok ell' out'"
    if "v6_loop t out1 e = Some (out', ell', r)" "length t < length s" "\<not> 16 \<le> length out" "ell_ok e out1" for t e
    using less.hyps[OF that(2,1)] that(3,4) ev less.prems(2) n by simp
  have t1: "length (tl rest) < length s" if "tl rest \<noteq> []"
    using tl_dropWhile_shorter that by (auto simp: rest_def)
  then have t2: "length (tl (tl rest)) < length s" if "tl rest \<noteq> []" using that by simp
  have e1: "ell_ok ell out1" "ell_ok (Some (length out1)) out1" using less.prems(4) n by auto
  have L: "length bs = 4" if "parse_ipv4 s = Some bs" for bs using that by (rule parse_ipv4_length)
  consider "out' = out \<and> ell' = ell"
    | bs where "out' = out @ bs \<and> ell' = ell \<and> length out + 4 \<le> 16 \<and> length bs = 4"
    | "\<not> 16 \<le> length out" "out' = out1" "ell' = ell \<or> ell' = Some (length out1)"
    | "\<not> 16 \<le> length out" "tl rest \<noteq> []" "v6_loop (tl (tl rest)) out1 (Some (length out1)) = Some (out', ell', r)"
    | "\<not> 16 \<le> length out" "tl rest \<noteq> []" "v6_loop (tl rest) out1 ell = Some (out', ell', r)"
    using less.prems(1) L
    by (subst (asm) v6_loop.simps) (auto simp: Let_def rest_def[symmetric] out1_def[symmetric] split: if_splits option.splits)
  then show ?case
  proof cases
    case 4 show ?thesis by (rule ih[OF 4(3) t2[OF 4(2)] 4(1) e1(2)])
  next
    case 5 show ?thesis by (rule ih[OF 5(3) t1[OF 5(2)] 5(1) e1(1)])
  qed (use less.prems ev n e1 in auto)
qed

lemma parse_ipv6_length: "parse_ipv6 s = Some b \<Longrightarrow> length b = 16"
  by (auto simp: parse_ipv6_def Let_def split: if_splits option.splits dest!: v6_loop_length)

lemma parse_addr_length: "parse_addr s = Some (A6 b z) \<Longrightarrow> length b = 16"
  by (auto simp: parse_addr_def Let_def parse_ipv6_length split: list.splits if_splits)

end
