(* ===== verification/DnsWire.thy ===== *)
theory DnsWire
  imports GoNet
begin

text \<open>
  The DNS wire format of \<open>engine/internal/dns/wire.go\<close>: record types, domain names, the
  query the resolver sends and the response it accepts.

  An index or slice expression of the code panics when it is out of range; here every
  access is checked and \<open>Panic\<close> is an error of its own, so that the absence of panics is a
  theorem. \<open>idna.Lookup.ToASCII\<close> (golang.org/x/net/idna, not part of the sources) is the
  parameter \<open>to_ascii\<close>; the random query id is an argument, None when the generator fails.
\<close>

unbundle bit_operations_syntax

section \<open>Data\<close>

datatype record_type = RecordA | RecordAAAA

abbreviation (input) dns_type_a :: u16 where "dns_type_a \<equiv> 1"
abbreviation (input) dns_type_aaaa :: u16 where "dns_type_aaaa \<equiv> 28"

datatype wire_error =
    UnsupportedRecordType | IdnaError | DomainLength | LabelLength | LabelHyphen | LabelCharacter
  | QueryIdError | ShortResponse | MismatchedId | NotAResponse | TruncatedResponse | ResponseCode u16
  | MalformedQuestion | MalformedAnswer | TruncatedData | NoAddress
  | TruncatedName | TruncatedPointer | InvalidPointer | InvalidLabel | TruncatedLabel | TooManyLabels
  | Panic

record wire_answer =
  wa_addresses :: "string list"
  wa_address :: string
  wa_ttl :: duration

definition no_answer :: wire_answer where
  "no_answer = \<lparr>wa_addresses = [], wa_address = '''', wa_ttl = 0\<rparr>"

section \<open>Record types and names\<close>

definition normalize_record_type :: "string \<Rightarrow> wire_error + record_type \<times> u16" where
  "normalize_record_type v =
     (let t = to_upper (trim_space v) in
      if t = '''' \<or> t = ''A'' then Inr (RecordA, dns_type_a)
      else if t = ''AAAA'' then Inr (RecordAAAA, dns_type_aaaa)
      else Inl UnsupportedRecordType)"

definition label_char :: "char \<Rightarrow> bool" where
  "label_char c =
     (let n = of_char c :: nat in 97 \<le> n \<and> n \<le> 122 \<or> 48 \<le> n \<and> n \<le> 57 \<or> c = CHR ''-'')"

definition check_label :: "string \<Rightarrow> wire_error option" where
  "check_label l =
     (if length l = 0 \<or> length l > 63 then Some LabelLength
      else if hd l = CHR ''-'' \<or> last l = CHR ''-'' then Some LabelHyphen
      else if \<not> list_all label_char l then Some LabelCharacter else None)"

fun check_labels :: "string list \<Rightarrow> wire_error option" where
  "check_labels [] = None"
| "check_labels (l # ls) = (case check_label l of Some e \<Rightarrow> Some e | None \<Rightarrow> check_labels ls)"

definition dns_normalize_domain :: "(string \<Rightarrow> string option) \<Rightarrow> string \<Rightarrow> wire_error + string" where
  "dns_normalize_domain to_ascii v =
     (case to_ascii (trim_suffix (trim_space v) ''.'') of
        None \<Rightarrow> Inl IdnaError
      | Some ascii \<Rightarrow>
          let n = to_lower ascii in
          if n = '''' \<or> length n > 253 then Inl DomainLength
          else case check_labels (split_on CHR ''.'' n) of Some e \<Rightarrow> Inl e | None \<Rightarrow> Inr n)"

section \<open>Big-endian numbers\<close>

definition put16 :: "u16 \<Rightarrow> bytes" where
  "put16 w = [ucast (drop_bit 8 w), ucast w]"

definition put32 :: "u32 \<Rightarrow> bytes" where
  "put32 w = put16 (ucast (drop_bit 16 w)) @ put16 (ucast w)"

definition get16 :: "bytes \<Rightarrow> nat \<Rightarrow> u16 option" where
  "get16 p i = (if i + 2 \<le> length p then Some (push_bit 8 (ucast (p ! i)) OR ucast (p ! (i + 1))) else None)"

definition get32 :: "bytes \<Rightarrow> nat \<Rightarrow> u32 option" where
  "get32 p i =
     (case (get16 p i, get16 p (i + 2)) of
        (Some a, Some b) \<Rightarrow> Some (push_bit 16 (ucast a) OR ucast b) | _ \<Rightarrow> None)"

definition get8 :: "bytes \<Rightarrow> nat \<Rightarrow> u8 option" where
  "get8 p i = (if i < length p then Some (p ! i) else None)"

definition slice :: "bytes \<Rightarrow> nat \<Rightarrow> nat \<Rightarrow> bytes option" where
  "slice p i j = (if i \<le> j \<and> j \<le> length p then Some (take (j - i) (drop i p)) else None)"

section \<open>Queries\<close>

definition encode_label :: "string \<Rightarrow> bytes" where
  "encode_label l = of_nat (length l) # map of_char l"

definition build_query ::
  "(string \<Rightarrow> string option) \<Rightarrow> u16 option \<Rightarrow> string \<Rightarrow> u16 \<Rightarrow> wire_error + bytes \<times> u16" where
  "build_query to_ascii rand domain rtype =
     (case dns_normalize_domain to_ascii domain of
        Inl e \<Rightarrow> Inl e
      | Inr name \<Rightarrow>
          (case rand of None \<Rightarrow> Inl QueryIdError
           | Some qid \<Rightarrow>
               Inr (put16 qid @ put16 0x0100 @ put16 1 @ replicate 6 0 @
                    concat (map encode_label (split_on CHR ''.'' name)) @ [0] @ put16 rtype @ put16 1, qid)))"

section \<open>Responses\<close>

text \<open>\<open>skipName\<close>: at most 129 rounds, counted by the first argument.\<close>

fun skip_name_loop :: "nat \<Rightarrow> bytes \<Rightarrow> nat \<Rightarrow> wire_error + nat" where
  "skip_name_loop 0 p off = Inl TooManyLabels"
| "skip_name_loop (Suc f) p off =
     (if off \<ge> length p then Inl TruncatedName
      else case get8 p off of None \<Rightarrow> Inl Panic
      | Some b \<Rightarrow>
          let len = unat b in
          if len = 0 then Inr (off + 1)
          else if b AND 0xC0 = 0xC0 then
            (if off + 1 \<ge> length p then Inl TruncatedPointer
             else case get8 p (off + 1) of None \<Rightarrow> Inl Panic
             | Some b2 \<Rightarrow>
                 if (unat (b AND 0x3F)) * 256 + unat b2 \<ge> length p then Inl InvalidPointer else Inr (off + 2))
          else if b AND 0xC0 \<noteq> 0 \<or> len > 63 then Inl InvalidLabel
          else if off + 1 + len > length p then Inl TruncatedLabel
          else skip_name_loop f p (off + 1 + len))"

definition skip_name :: "bytes \<Rightarrow> nat \<Rightarrow> wire_error + nat" where
  "skip_name p off = skip_name_loop 129 p off"

definition is_fake_ipv4 :: "bytes \<Rightarrow> bool" where
  "is_fake_ipv4 ip =
     (case to4 ip of None \<Rightarrow> False | Some v \<Rightarrow> v ! 0 = 198 \<and> (v ! 1 = 18 \<or> v ! 1 = 19))"

fun skip_questions :: "nat \<Rightarrow> bytes \<Rightarrow> nat \<Rightarrow> wire_error + nat" where
  "skip_questions 0 p off = Inr off"
| "skip_questions (Suc n) p off =
     (case skip_name p off of
        Inl Panic \<Rightarrow> Inl Panic
      | Inl _ \<Rightarrow> Inl MalformedQuestion
      | Inr o1 \<Rightarrow> if o1 + 4 > length p then Inl MalformedQuestion else skip_questions n p (o1 + 4))"

definition add_address :: "wire_answer \<Rightarrow> bytes \<Rightarrow> u32 \<Rightarrow> wire_answer" where
  "add_address best ip ttl_seconds =
     (let b1 = (if length (wa_addresses best) < 32
                then best\<lparr>wa_addresses := wa_addresses best @ [ip_string ip]\<rparr> else best);
          ttl = int (unat ttl_seconds) * second
      in if wa_address b1 = '''' \<or> ttl < wa_ttl b1 then b1\<lparr>wa_address := ip_string ip, wa_ttl := ttl\<rparr> else b1)"

definition take_record :: "wire_answer \<Rightarrow> u16 \<Rightarrow> u16 \<Rightarrow> u16 \<Rightarrow> u32 \<Rightarrow> bytes \<Rightarrow> wire_answer" where
  "take_record best rtype atype cls ttl_seconds data =
     (if cls \<noteq> 1 \<or> atype \<noteq> rtype then best
      else if rtype = dns_type_a \<and> length data = 4
      then (if is_fake_ipv4 data then best else add_address best data ttl_seconds)
      else if rtype = dns_type_aaaa \<and> length data = 16 then add_address best data ttl_seconds
      else best)"

fun read_answers :: "nat \<Rightarrow> bytes \<Rightarrow> nat \<Rightarrow> u16 \<Rightarrow> wire_answer \<Rightarrow> wire_error + wire_answer" where
  "read_answers 0 p off rtype best = Inr best"
| "read_answers (Suc n) p off rtype best =
     (case skip_name p off of
        Inl Panic \<Rightarrow> Inl Panic
      | Inl _ \<Rightarrow> Inl MalformedAnswer
      | Inr o1 \<Rightarrow>
          if o1 + 10 > length p then Inl MalformedAnswer
          else case (get16 p o1, get16 p (o1 + 2), get32 p (o1 + 4), get16 p (o1 + 8)) of
            (Some atype, Some cls, Some ttl, Some len) \<Rightarrow>
              if o1 + 10 + unat len > length p then Inl TruncatedData
              else (case slice p (o1 + 10) (o1 + 10 + unat len) of
                      None \<Rightarrow> Inl Panic
                    | Some data \<Rightarrow>
                        read_answers n p (o1 + 10 + unat len) rtype (take_record best rtype atype cls ttl data))
          | _ \<Rightarrow> Inl Panic)"

definition parse_response :: "bytes \<Rightarrow> u16 \<Rightarrow> u16 \<Rightarrow> wire_error + wire_answer" where
  "parse_response p qid rtype =
     (if length p < 12 then Inl ShortResponse
      else case (get16 p 0, get16 p 2, get16 p 4, get16 p 6) of
        (Some rid, Some flags, Some qcount, Some acount) \<Rightarrow>
          if rid \<noteq> qid then Inl MismatchedId
          else if flags AND 0x8000 = 0 then Inl NotAResponse
          else if flags AND 0x0200 \<noteq> 0 then Inl TruncatedResponse
          else if flags AND 0x000F \<noteq> 0 then Inl (ResponseCode (flags AND 0x000F))
          else (case skip_questions (unat qcount) p 12 of
                  Inl e \<Rightarrow> Inl e
                | Inr off \<Rightarrow>
                    (case read_answers (unat acount) p off rtype no_answer of
                       Inl e \<Rightarrow> Inl e
                     | Inr best \<Rightarrow> if wa_address best = '''' then Inl NoAddress else Inr best))
      | _ \<Rightarrow> Inl Panic)"

end
