(* ===== verification/DnsConfig.thy ===== *)
theory DnsConfig
  imports DnsWire
begin

text \<open>
  The DNS configuration of \<open>engine/internal/dns/config.go\<close> and \<open>dot_config.go\<close>: policies,
  provider endpoints, the adapter binding of a query, and the normalisation both go
  through.

  \<open>url.Parse\<close> is the parameter \<open>url_parse\<close>. Its result is a record of the parts the code
  reads; \<open>u_path\<close> is the path in escaped form (\<open>EscapedPath\<close>), so that \<open>RequestURI\<close> and
  \<open>String\<close> are concatenations. \<open>String\<close> escapes the host too, which changes nothing on the
  ASCII hosts the code accepts. Error values keep the cause and the quoted text.
\<close>

section \<open>URLs\<close>

record url =
  u_scheme :: string
  u_opaque :: string
  u_user :: bool
  u_host :: string
  u_path :: string
  u_query :: string
  u_force_query :: bool
  u_fragment :: string

definition optional_port :: "string \<Rightarrow> bool" where
  "optional_port s = (s = '''' \<or> hd s = CHR '':'' \<and> list_all (\<lambda>c. digit_val c \<noteq> None) (tl s))"

definition url_split :: "string \<Rightarrow> string \<times> string" where
  "url_split h =
     (let (host, port) =
        (if CHR '':'' \<in> set h \<and> optional_port (CHR '':'' # after_last CHR '':'' h)
         then (before_last CHR '':'' h, after_last CHR '':'' h) else (h, ''''))
      in (if host \<noteq> '''' \<and> hd host = CHR ''['' \<and> last host = CHR '']'' then butlast (tl host) else host, port))"

definition url_hostname :: "url \<Rightarrow> string" where
  "url_hostname u = fst (url_split (u_host u))"

definition url_port :: "url \<Rightarrow> string" where
  "url_port u = snd (url_split (u_host u))"

definition url_query_part :: "url \<Rightarrow> string" where
  "url_query_part u = (if u_force_query u \<or> u_query u \<noteq> '''' then CHR ''?'' # u_query u else '''')"

definition request_uri :: "url \<Rightarrow> string" where
  "request_uri u = (if u_path u = '''' then ''/'' else u_path u) @ url_query_part u"

definition url_string :: "url \<Rightarrow> string" where
  "url_string u = u_scheme u @ ''://'' @ u_host u @
     (if u_path u \<noteq> '''' \<and> hd (u_path u) \<noteq> CHR ''/'' then ''/'' else '''') @ u_path u @ url_query_part u"

section \<open>Endpoints\<close>

record endpoint =
  ep_ip :: string
  ep_host :: string
  ep_path :: string
  ep_port :: int

definition endpoint_port :: "endpoint \<Rightarrow> string" where
  "endpoint_port e = (if ep_port e = 0 then ''443'' else itoa (ep_port e))"

definition authority :: "endpoint \<Rightarrow> string" where
  "authority e =
     (if ep_port e \<noteq> 0 \<and> ep_port e \<noteq> 443 then join_host_port (ep_host e) (endpoint_port e)
      else if CHR '':'' \<in> set (ep_host e) then ''['' @ ep_host e @ '']'' else ep_host e)"

datatype dns_error =
    InvalidUrl | InvalidPort | InvalidServerIP | InvalidHostname
  | UnsupportedPolicy string
  | UnusableDns string | LinkLocalIPv4 | NeedsIPv6Index | ScopeMismatch string | NeedsScope | GlobalScope
  | TooManyDoH | CustomNeedsServer | TooManyDoT | DotNeedsServer
  | NameRequired | InvalidSource string | InvalidSourceIPv6 string | SourceRequired string | InvalidIndex string

definition reserved_ip :: "bytes \<Rightarrow> bool" where
  "reserved_ip ip = (ip_unspecified ip \<or> ip_multicast ip \<or> ip_link_local ip)"

text \<open>The port of a URL; a missing one is the default, a trailing colon is refused.\<close>

definition server_port :: "url \<Rightarrow> nat \<Rightarrow> nat option" where
  "server_port u fallback =
     (let p = (if url_port u = '''' then Some fallback else parse_nat (url_port u)) in
      case p of None \<Rightarrow> None
      | Some n \<Rightarrow> if n < 1 \<or> n > 65535 \<or> (u_host u \<noteq> '''' \<and> last (u_host u) = CHR '':'') then None else Some n)"

definition parse_doh_url ::
  "(string \<Rightarrow> url option) \<Rightarrow> (string \<Rightarrow> string option) \<Rightarrow> string \<Rightarrow> dns_error + endpoint \<times> string" where
  "parse_doh_url url_parse to_ascii v =
     (let s = trim_space v in
      case url_parse s of
        None \<Rightarrow> Inl InvalidUrl
      | Some u \<Rightarrow>
          if u_scheme u \<noteq> ''https'' \<or> url_hostname u = '''' \<or> u_user u \<or> u_fragment u \<noteq> '''' \<or> u_opaque u \<noteq> ''''
             \<or> length s > 2048 then Inl InvalidUrl
          else case server_port u 443 of
            None \<Rightarrow> Inl InvalidPort
          | Some port \<Rightarrow>
              let host = to_lower (url_hostname u);
                  found = (case parse_ip host of
                      Some ip \<Rightarrow> if reserved_ip ip then Inl InvalidServerIP else Inr (ip_string ip)
                    | None \<Rightarrow> (case dns_normalize_domain to_ascii host of Inl _ \<Rightarrow> Inl InvalidHostname | Inr _ \<Rightarrow> Inr ''''))
              in case found of
                Inl e \<Rightarrow> Inl e
              | Inr ip \<Rightarrow>
                  let u1 = (if u_path u = '''' then u\<lparr>u_path := ''/dns-query''\<rparr> else u);
                      e = \<lparr>ep_ip = ip, ep_host = host, ep_path = request_uri u1, ep_port = int port\<rparr>
                  in Inr (e, url_string (u1\<lparr>u_host := authority e\<rparr>)))"

definition trim_set :: "string \<Rightarrow> string \<Rightarrow> string" where
  "trim_set cutset s = rev (dropWhile (\<lambda>c. c \<in> set cutset) (rev (dropWhile (\<lambda>c. c \<in> set cutset) s)))"

definition parse_dot_url ::
  "(string \<Rightarrow> url option) \<Rightarrow> (string \<Rightarrow> string option) \<Rightarrow> string \<Rightarrow> dns_error + endpoint \<times> string" where
  "parse_dot_url url_parse to_ascii v =
     (let s = trim_space v in
      case url_parse s of
        None \<Rightarrow> Inl InvalidUrl
      | Some u \<Rightarrow>
          if u_scheme u \<noteq> ''tls'' \<or> url_hostname u = '''' \<or> u_user u \<or> u_fragment u \<noteq> '''' \<or> u_opaque u \<noteq> ''''
             \<or> u_path u \<noteq> '''' \<or> u_query u \<noteq> '''' \<or> u_force_query u \<or> CHR ''?'' \<in> set s \<or> CHR ''#'' \<in> set s
             \<or> length s > 2048 then Inl InvalidUrl
          else case server_port u 853 of
            None \<Rightarrow> Inl InvalidPort
          | Some port \<Rightarrow>
              let host = to_lower (url_hostname u);
                  found = (case parse_ip host of
                      Some ip \<Rightarrow> if reserved_ip ip then Inl InvalidServerIP else Inr (ip_string ip, ip_string ip)
                    | None \<Rightarrow> (case dns_normalize_domain to_ascii host of
                          Inl _ \<Rightarrow> Inl InvalidHostname
                        | Inr normalized \<Rightarrow>
                            if trim_set ''0123456789.'' host = '''' \<or> normalized \<noteq> trim_suffix host ''.''
                            then Inl InvalidHostname else Inr ('''', host)))
              in case found of
                Inl e \<Rightarrow> Inl e
              | Inr (ip, h) \<Rightarrow>
                  let e = \<lparr>ep_ip = ip, ep_host = h, ep_path = '''', ep_port = int port\<rparr>
                  in Inr (e, url_string (u\<lparr>u_host := join_host_port h (itoa (int port))\<rparr>)))"

section \<open>Policies and providers\<close>

abbreviation (input) policy_auto :: string where "policy_auto \<equiv> ''auto''"
abbreviation (input) policy_off :: string where "policy_off \<equiv> ''off''"
abbreviation (input) policy_system :: string where "policy_system \<equiv> ''system''"
abbreviation (input) policy_alidns :: string where "policy_alidns \<equiv> ''alidns''"
abbreviation (input) policy_dnspod :: string where "policy_dnspod \<equiv> ''dnspod''"
abbreviation (input) policy_google :: string where "policy_google \<equiv> ''google''"
abbreviation (input) policy_custom :: string where "policy_custom \<equiv> ''custom''"
abbreviation (input) policy_dot :: string where "policy_dot \<equiv> ''dot''"

definition policies :: "string list" where
  "policies = [policy_auto, policy_off, policy_system, policy_alidns, policy_dnspod, policy_google,
               policy_custom, policy_dot]"

definition default_legacy_servers :: "string list" where
  "default_legacy_servers = [''223.5.5.5'', ''119.29.29.29'', ''2400:3200::1'', ''2001:4860:4860::8888'']"

abbreviation (input) default_cache_ttl :: duration where "default_cache_ttl \<equiv> 180 * second"
abbreviation (input) default_query_timeout :: duration where "default_query_timeout \<equiv> 4 * second"

definition provider_endpoints :: "string \<Rightarrow> endpoint list" where
  "provider_endpoints policy =
     (let e = (\<lambda>host ip. \<lparr>ep_ip = ip, ep_host = host, ep_path = ''/dns-query'', ep_port = 0\<rparr>) in
      if policy = policy_alidns then map (e ''dns.alidns.com'') [''223.5.5.5'', ''2400:3200::1'']
      else if policy = policy_dnspod then map (e ''doh.pub'') [''1.12.12.12'', ''120.53.53.53'']
      else if policy = policy_google then
        map (e ''dns.google'') [''8.8.8.8'', ''8.8.4.4'', ''2001:4860:4860::8888'', ''2001:4860:4860::8844'']
      else [])"

record dns_config =
  dc_policy :: string
  dc_legacy :: "string list"
  dc_doh :: "string list"
  dc_dot :: "string list"
  dc_cache_ttl :: duration
  dc_query_timeout :: duration
  dc_max_cache :: int
  dc_failure_threshold :: int

record binding =
  db_name :: string
  db_ip :: string
  db_index :: int
  db_ipv6 :: string
  db_index6 :: int
  db_servers :: "string list"

definition default_dns_config :: dns_config where
  "default_dns_config =
     \<lparr>dc_policy = policy_auto, dc_legacy = default_legacy_servers, dc_doh = [], dc_dot = [],
      dc_cache_ttl = default_cache_ttl, dc_query_timeout = default_query_timeout, dc_max_cache = 1024,
      dc_failure_threshold = 3\<rparr>"

section \<open>Server lists\<close>

text \<open>One step of the loops that append a value unless the list holds it (\<open>contains\<close>).\<close>

definition add_new :: "string list \<Rightarrow> string \<Rightarrow> string list" where
  "add_new xs x = (if x \<in> set xs then xs else xs @ [x])"

definition scope_dns :: "binding option \<Rightarrow> addr \<Rightarrow> dns_error + addr" where
  "scope_dns b ip =
     (if addr_link_local ip then
        (if \<not> addr_is6 ip then Inl LinkLocalIPv4
         else case b of
           Some b' \<Rightarrow>
             (let zone = itoa (db_index6 b') in
              if db_index6 b' \<le> 0 then Inl NeedsIPv6Index
              else if addr_zone ip \<noteq> '''' \<and> addr_zone ip \<noteq> zone \<and> addr_zone ip \<noteq> db_name b'
              then Inl (ScopeMismatch (db_name b'))
              else Inr (addr_with_zone ip zone))
         | None \<Rightarrow> if addr_zone ip = '''' then Inl NeedsScope else Inr ip)
      else if addr_zone ip \<noteq> '''' then Inl GlobalScope else Inr ip)"

definition usable_dns :: "string \<Rightarrow> dns_error + addr" where
  "usable_dns s =
     (case parse_addr s of
        None \<Rightarrow> Inl (UnusableDns s)
      | Some ip \<Rightarrow> if addr_unspecified ip \<or> addr_multicast ip then Inl (UnusableDns s) else Inr (addr_unmap ip))"

fun normalize_ip_loop :: "binding option \<Rightarrow> string list \<Rightarrow> string list \<Rightarrow> dns_error + string list" where
  "normalize_ip_loop b [] result = Inr result"
| "normalize_ip_loop b (v # vs) result =
     (let s = trim_space v in
      if s = '''' then normalize_ip_loop b vs result
      else case usable_dns s of Inl e \<Rightarrow> Inl e
      | Inr ip \<Rightarrow>
          (case scope_dns b ip of Inl e \<Rightarrow> Inl e
           | Inr ip' \<Rightarrow> normalize_ip_loop b vs (add_new result (addr_string ip'))))"

definition normalize_ip_list :: "string list \<Rightarrow> binding option \<Rightarrow> dns_error + string list" where
  "normalize_ip_list values b = normalize_ip_loop b values []"

text \<open>The loops over the DoH and DoT URLs, with the URL parser of the protocol.\<close>

fun normalize_urls ::
  "(string \<Rightarrow> dns_error + endpoint \<times> string) \<Rightarrow> string list \<Rightarrow> string list \<Rightarrow> dns_error + string list" where
  "normalize_urls parse [] result = Inr result"
| "normalize_urls parse (v # vs) result =
     (case parse v of Inl e \<Rightarrow> Inl e
      | Inr (_, normalized) \<Rightarrow> normalize_urls parse vs (add_new result normalized))"

section \<open>Normalisation\<close>

definition bounded_setting :: "int \<Rightarrow> int \<Rightarrow> int \<Rightarrow> int" where
  "bounded_setting v fallback maximum = (if v \<le> 0 then fallback else if v > maximum then maximum else v)"

definition normalize_dns_config ::
  "(string \<Rightarrow> url option) \<Rightarrow> (string \<Rightarrow> string option) \<Rightarrow> dns_config \<Rightarrow> dns_error + dns_config" where
  "normalize_dns_config url_parse to_ascii c =
     (let p = to_lower (trim_space (dc_policy c)); policy = (if p = '''' then policy_auto else p) in
      if policy \<notin> set policies then Inl (UnsupportedPolicy policy)
      else case normalize_ip_list (dc_legacy c) None of Inl e \<Rightarrow> Inl e
      | Inr servers \<Rightarrow>
        if length (dc_doh c) > 16 then Inl TooManyDoH
        else case normalize_urls (parse_doh_url url_parse to_ascii) (dc_doh c) [] of Inl e \<Rightarrow> Inl e
        | Inr doh \<Rightarrow>
          if policy = policy_custom \<and> doh = [] then Inl CustomNeedsServer
          else if length (dc_dot c) > 16 then Inl TooManyDoT
          else case normalize_urls (parse_dot_url url_parse to_ascii) (dc_dot c) [] of Inl e \<Rightarrow> Inl e
          | Inr dot \<Rightarrow>
            if policy = policy_dot \<and> dot = [] then Inl DotNeedsServer
            else Inr \<lparr>dc_policy = policy, dc_legacy = foldl add_new servers default_legacy_servers,
                      dc_doh = doh, dc_dot = dot,
                      dc_cache_ttl = bounded_setting (dc_cache_ttl c) default_cache_ttl (24 * hour),
                      dc_query_timeout = bounded_setting (dc_query_timeout c) default_query_timeout (30 * second),
                      dc_max_cache = bounded_setting (dc_max_cache c) 1024 65536,
                      dc_failure_threshold = bounded_setting (dc_failure_threshold c) 3 100\<rparr>)"

definition source_v4 :: "string \<Rightarrow> string option" where
  "source_v4 s =
     (case parse_ip s of
        Some ip \<Rightarrow> (case to4 ip of
            Some b4 \<Rightarrow> if ip_unspecified ip \<or> ip_multicast ip then None else Some (ip_string b4)
          | None \<Rightarrow> None)
      | None \<Rightarrow> None)"

definition source_v6 :: "string \<Rightarrow> string option" where
  "source_v6 s =
     (case parse_ip s of
        Some ip \<Rightarrow> if to4 ip \<noteq> None \<or> reserved_ip ip then None else Some (ip_string ip)
      | None \<Rightarrow> None)"

definition normalize_binding :: "binding \<Rightarrow> dns_error + binding" where
  "normalize_binding b0 =
     (let n = trim_space (db_name b0); ip = trim_space (db_ip b0); ipv6 = trim_space (db_ipv6 b0) in
      if n = '''' then Inl NameRequired
      else if ip \<noteq> '''' \<and> source_v4 ip = None then Inl (InvalidSource n)
      else if ipv6 \<noteq> '''' \<and> source_v6 ipv6 = None then Inl (InvalidSourceIPv6 n)
      else if ip = '''' \<and> ipv6 = '''' then Inl (SourceRequired n)
      else if db_index b0 < 0 \<or> db_index6 b0 < 0 then Inl (InvalidIndex n)
      else
        let b = b0\<lparr>db_name := n,
                   db_ip := (if ip = '''' then '''' else the (source_v4 ip)),
                   db_ipv6 := (if ipv6 = '''' then '''' else the (source_v6 ipv6)),
                   db_index6 := (if ipv6 \<noteq> '''' \<and> db_index6 b0 = 0 then db_index b0 else db_index6 b0)\<rparr>
        in case normalize_ip_list (db_servers b0) (Some b) of Inl e \<Rightarrow> Inl e
           | Inr servers \<Rightarrow> Inr (b\<lparr>db_servers := servers\<rparr>))"

section \<open>Endpoints of a policy and of a binding\<close>

definition policy_endpoints :: "string \<Rightarrow> endpoint list" where
  "policy_endpoints policy =
     (if policy = policy_auto
      then concat (map provider_endpoints [policy_alidns, policy_dnspod, policy_google])
      else provider_endpoints policy)"

definition accepted_endpoints :: "(string \<Rightarrow> dns_error + endpoint \<times> string) \<Rightarrow> string list \<Rightarrow> endpoint list" where
  "accepted_endpoints parse urls =
     List.map_filter (\<lambda>v. case parse v of Inl _ \<Rightarrow> None | Inr (e, _) \<Rightarrow> Some e) urls"

definition config_endpoints ::
  "(string \<Rightarrow> url option) \<Rightarrow> (string \<Rightarrow> string option) \<Rightarrow> dns_config \<Rightarrow> endpoint list" where
  "config_endpoints url_parse to_ascii c =
     (if (dc_policy c = policy_auto \<or> dc_policy c = policy_custom) \<and> dc_doh c \<noteq> []
      then accepted_endpoints (parse_doh_url url_parse to_ascii) (dc_doh c)
      else policy_endpoints (dc_policy c))"

definition config_dot_endpoints ::
  "(string \<Rightarrow> url option) \<Rightarrow> (string \<Rightarrow> string option) \<Rightarrow> dns_config \<Rightarrow> endpoint list" where
  "config_dot_endpoints url_parse to_ascii c =
     (if dc_policy c \<noteq> policy_dot then []
      else accepted_endpoints (parse_dot_url url_parse to_ascii) (dc_dot c))"

definition supports_endpoint :: "binding \<Rightarrow> string \<Rightarrow> bool" where
  "supports_endpoint b server =
     (case parse_addr server of
        None \<Rightarrow> False
      | Some ip \<Rightarrow>
          if addr_is6 ip \<and> addr_link_local ip
          then db_ipv6 b \<noteq> '''' \<and> db_index6 b > 0 \<and> (addr_zone ip = itoa (db_index6 b) \<or> addr_zone ip = db_name b)
          else addr_is4 (addr_unmap ip) \<and> db_ip b \<noteq> '''' \<or> addr_is6 ip \<and> \<not> addr_is4in6 ip \<and> db_ipv6 b \<noteq> '''')"

definition bound_endpoints :: "string \<Rightarrow> binding \<Rightarrow> endpoint list" where
  "bound_endpoints policy b = filter (\<lambda>e. supports_endpoint b (ep_ip e)) (policy_endpoints policy)"

definition legacy_servers :: "dns_config \<Rightarrow> binding \<Rightarrow> string list" where
  "legacy_servers c b = filter (supports_endpoint b) (foldl add_new (db_servers b) (dc_legacy c))"

definition endpoint_network :: "string \<Rightarrow> string \<Rightarrow> string" where
  "endpoint_network transport server =
     (case parse_addr server of
        Some ip \<Rightarrow> if addr_is4 (addr_unmap ip) then transport @ ''4'' else transport @ ''6''
      | None \<Rightarrow> transport @ ''6'')"

end
