(* ===== verification/HeapSift.thy ===== *)
theory HeapSift
  imports MuxPrelude
begin

text \<open>
  Sifting on a list of priorities: the effect that \<open>up\<close> and \<open>down\<close> of
  \<open>container/heap\<close> have on the priorities of the queue, stated on a plain list over any
  linear order. \<open>heap_on n l\<close> is the heap order of the first \<open>n\<close> positions;
  \<open>up_defect\<close> and \<open>down_defect\<close> say that position \<open>j\<close> is the only one out of place.
  \<open>ExpiryIndex\<close> proves that its loops act on the deadlines of the queue as these do.
\<close>

definition par :: "nat \<Rightarrow> nat" where
  "par k = (k - 1) div 2"

definition lswap :: "'a list \<Rightarrow> nat \<Rightarrow> nat \<Rightarrow> 'a list" where
  "lswap l i j = l[i := l ! j, j := l ! i]"

definition heap_on :: "nat \<Rightarrow> 'a::linorder list \<Rightarrow> bool" where
  "heap_on n l = (\<forall>k<n. 0 < k \<longrightarrow> l ! par k \<le> l ! k)"

definition up_defect :: "nat \<Rightarrow> 'a::linorder list \<Rightarrow> nat \<Rightarrow> bool" where
  "up_defect n l j =
     ((\<forall>k<n. 0 < k \<and> k \<noteq> j \<longrightarrow> l ! par k \<le> l ! k) \<and>
      (0 < j \<longrightarrow> (\<forall>k<n. 0 < k \<and> par k = j \<longrightarrow> l ! par j \<le> l ! k)))"

definition down_defect :: "nat \<Rightarrow> 'a::linorder list \<Rightarrow> nat \<Rightarrow> bool" where
  "down_defect n l i =
     ((\<forall>k<n. 0 < k \<and> k \<noteq> i \<and> par k \<noteq> i \<longrightarrow> l ! par k \<le> l ! k) \<and>
      (0 < i \<longrightarrow> (\<forall>k<n. 0 < k \<and> par k = i \<longrightarrow> l ! par i \<le> l ! k)))"

function lup :: "'a::linorder list \<Rightarrow> nat \<Rightarrow> 'a list" where
  "lup l j = (if par j = j \<or> \<not> l ! j < l ! par j then l else lup (lswap l (par j) j) (par j))"
  by pat_completeness auto
termination
  by (relation "measure snd") (auto simp: par_def)

declare lup.simps [simp del]

function ldown :: "'a::linorder list \<Rightarrow> nat \<Rightarrow> nat \<Rightarrow> 'a list \<times> nat" where
  "ldown l i n =
     (let j1 = 2 * i + 1 in
      if j1 \<ge> n then (l, i)
      else let j = (if j1 + 1 < n \<and> l ! (j1 + 1) < l ! j1 then j1 + 1 else j1) in
           if \<not> l ! j < l ! i then (l, i) else ldown (lswap l i j) j n)"
  by pat_completeness auto
termination
  by (relation "measure (\<lambda>(l, i, n). n - i)") (auto simp: Let_def split: if_splits)

declare ldown.simps [simp del]

section \<open>Parents and swaps\<close>

lemma par_less [simp]: "0 < k \<Longrightarrow> par k < k"
  by (auto simp: par_def)

lemma par_le [simp]: "par k \<le> k"
  by (auto simp: par_def)

lemma par_fix [simp]: "(par j = j) = (j = 0)" "(j = par j) = (j = 0)"
  by (auto simp: par_def)

lemma par_0 [simp]: "par 0 = 0"
  by (simp add: par_def)

lemma par_children: "0 < k \<Longrightarrow> (par k = i) = (k = 2 * i + 1 \<or> k = 2 * i + 2)"
  by (auto simp: par_def)

lemma length_lswap [simp]: "length (lswap l i j) = length l"
  by (simp add: lswap_def)

lemma mset_lswap [simp]: "i < length l \<Longrightarrow> j < length l \<Longrightarrow> set (lswap l i j) = set l"
  by (simp add: lswap_def set_swap)

lemma nth_lswap:
  "i < length l \<Longrightarrow> j < length l \<Longrightarrow> k < length l \<Longrightarrow>
   lswap l i j ! k = (if k = j then l ! i else if k = i then l ! j else l ! k)"
  by (auto simp: lswap_def nth_list_update)

lemma heap_on_mono: "heap_on n l \<Longrightarrow> m \<le> n \<Longrightarrow> heap_on m l"
  by (auto simp: heap_on_def)

lemma heap_on_butlast: "heap_on (length l - 1) l \<Longrightarrow> heap_on (length (butlast l)) (butlast l)"
  by (auto simp: heap_on_def nth_butlast le_less_trans [OF par_le])

lemma heap_on_root_le:
  assumes "heap_on n l" and "k < n"
  shows "l ! 0 \<le> l ! k"
  using assms(2)
proof (induction k rule: less_induct)
  case (less k)
  show ?case
  proof (cases "k = 0")
    case False
    then have "par k < k" and "l ! par k \<le> l ! k"
      using assms(1) less.prems by (auto simp: heap_on_def)
    with less show ?thesis by (meson less_trans order_trans)
  qed simp
qed

section \<open>Sifting up\<close>

lemma heap_on_up_defect: "up_defect n l j \<Longrightarrow> par j = j \<or> \<not> l ! j < l ! par j \<Longrightarrow> heap_on n l"
  by (auto simp: heap_on_def up_defect_def)

lemma up_defect_swap:
  assumes d: "up_defect n l j" and j: "0 < j" "j < n" and n: "n \<le> length l"
    and lt: "l ! j < l ! par j"
  shows "up_defect n (lswap l (par j) j) (par j)"
proof -
  let ?i = "par j" and ?m = "lswap l (par j) j"
  have ij: "?i < j" "?i < length l" "j < length l"
    using j n par_less [of j] by linarith+
  have nth: "?m ! k = (if k = j then l ! ?i else if k = ?i then l ! j else l ! k)" if "k < n" for k
    using nth_lswap [OF ij(2,3), of k] that n by simp
  have e: "l ! par k \<le> l ! k" if "k < n" "0 < k" "k \<noteq> j" for k
    using d that by (auto simp: up_defect_def)
  have g: "l ! ?i \<le> l ! k" if "k < n" "0 < k" "par k = j" for k
    using d that j by (auto simp: up_defect_def)
  have "?m ! par k \<le> ?m ! k" if k: "k < n" "0 < k" "k \<noteq> ?i" for k
  proof -
    have pk: "par k < k" "par k < n" using k par_less [of k] by linarith+
    consider "k = j" | "k \<noteq> j" "par k = j" | "k \<noteq> j" "par k = ?i" | "k \<noteq> j" "par k \<noteq> j" "par k \<noteq> ?i"
      by blast
    then show ?thesis
    proof cases
      case 1
      then show ?thesis using nth [OF k(1)] nth [OF pk(2)] ij lt by auto
    next
      case 2
      then show ?thesis using nth [OF k(1)] nth [OF pk(2)] g [of k] k by auto
    next
      case 3
      then show ?thesis using nth [OF k(1)] nth [OF pk(2)] e [of k] k ij lt by auto
    next
      case 4
      then show ?thesis using nth [OF k(1)] nth [OF pk(2)] e [of k] k by auto
    qed
  qed
  moreover have "?m ! par ?i \<le> ?m ! k" if k: "0 < ?i" "k < n" "0 < k" "par k = ?i" for k
  proof -
    have pi: "par ?i < ?i" "par ?i < n" using k(1) par_less [of ?i] ij j by linarith+
    have "l ! par ?i \<le> l ! ?i" using e [of ?i] k(1) ij j by auto
    moreover have "l ! ?i \<le> l ! k" if "k \<noteq> j" using e [of k] k that by auto
    ultimately show ?thesis
      using nth [OF k(2)] nth [OF pi(2)] pi ij k(3,4) par_less [of k]
      by (cases "k = j") (auto intro: order_trans)
  qed
  ultimately show ?thesis by (auto simp: up_defect_def)
qed

lemma lup_heap:
  assumes "up_defect n l j" and "j < n" and "n \<le> length l"
  shows "heap_on n (lup l j)"
  using assms
proof (induction l j rule: lup.induct)
  case (1 l j)
  show ?case
  proof (cases "par j = j \<or> \<not> l ! j < l ! par j")
    case True
    then show ?thesis
      using heap_on_up_defect [OF "1.prems"(1) True] by (simp add: lup.simps [of l j])
  next
    case False
    then have "0 < j" "l ! j < l ! par j" by auto
    moreover have "par j < n"
      using "1.prems"(2) par_le [of j] by linarith
    ultimately have "heap_on n (lup (lswap l (par j) j) (par j))"
      using "1.IH" [OF False] up_defect_swap "1.prems" by auto
    with False show ?thesis by (simp add: lup.simps [of l j])
  qed
qed

section \<open>Sifting down\<close>

lemma down_defect_stop:
  assumes d: "down_defect n l i"
    and c: "\<And>k. k < n \<Longrightarrow> k = 2 * i + 1 \<or> k = 2 * i + 2 \<Longrightarrow> l ! i \<le> l ! k"
    and k: "k < n" "0 < k" "k \<noteq> i"
  shows "l ! par k \<le> l ! k"
proof (cases "par k = i")
  case True
  then have "l ! i \<le> l ! k" using c [of k] k by (simp add: par_children)
  with True show ?thesis by simp
next
  case False
  then show ?thesis using d k by (auto simp: down_defect_def)
qed

lemma down_defect_swap:
  assumes d: "down_defect n l i" and n: "n \<le> length l"
    and j: "j < n" "0 < j" "par j = i" and lt: "l ! j < l ! i"
    and least: "\<And>k. k < n \<Longrightarrow> 0 < k \<Longrightarrow> par k = i \<Longrightarrow> l ! j \<le> l ! k"
  shows "down_defect n (lswap l i j) j" and "lswap l i j ! i < lswap l i j ! j"
    and "0 < i \<Longrightarrow> lswap l i j ! par i \<le> lswap l i j ! i"
proof -
  let ?m = "lswap l i j"
  have ij: "i < j" using j par_less by auto
  have len: "i < length l" "j < length l" using ij j n by auto
  have nth: "?m ! k = (if k = j then l ! i else if k = i then l ! j else l ! k)" if "k < n" for k
    using nth_lswap [OF len, of k] that n by simp
  have e: "l ! par k \<le> l ! k" if "k < n" "0 < k" "k \<noteq> i" "par k \<noteq> i" for k
    using d that by (auto simp: down_defect_def)
  have g: "l ! par i \<le> l ! k" if "0 < i" "k < n" "0 < k" "par k = i" for k
    using d that by (auto simp: down_defect_def)
  show "?m ! i < ?m ! j" using nth [of i] nth [of j] ij j lt by auto
  show up: "?m ! par i \<le> ?m ! i" if "0 < i"
  proof -
    have "par i < i" using that by simp
    then show ?thesis using nth [of "par i"] nth [of i] g [OF that j(1,2,3)] ij j by auto
  qed
  have "?m ! par k \<le> ?m ! k" if k: "k < n" "0 < k" "k \<noteq> j" "par k \<noteq> j" for k
  proof -
    have pk: "par k < n" using k par_less [of k] by linarith
    consider "k = i" | "k \<noteq> i" "par k = i" | "k \<noteq> i" "par k \<noteq> i" by blast
    then show ?thesis
    proof cases
      case 1
      then show ?thesis using up k by auto
    next
      case 2
      then show ?thesis using nth [OF k(1)] nth [OF pk] least [of k] k ij by auto
    next
      case 3
      then show ?thesis using nth [OF k(1)] nth [OF pk] e [of k] k by auto
    qed
  qed
  moreover have "?m ! par j \<le> ?m ! k" if k: "k < n" "0 < k" "par k = j" for k
  proof -
    have "k \<noteq> i" "k \<noteq> j" using k ij par_less [of k] by auto
    moreover have "l ! j \<le> l ! k" using e [of k] k ij \<open>k \<noteq> i\<close> by auto
    ultimately show ?thesis using nth [OF k(1)] nth [of i] j ij by auto
  qed
  ultimately show "down_defect n ?m j" by (auto simp: down_defect_def)
qed

text \<open>
  If the element stays, only the edge above it can be wrong; if it moves, the whole
  prefix is a heap.
\<close>

lemma ldown_correct:
  assumes "down_defect n l i" and "i < n" and "n \<le> length l" and "ldown l i n = (l', i')"
  shows "length l' = length l \<and> i \<le> i' \<and> i' < n
       \<and> (i' = i \<longrightarrow> l' = l \<and> (\<forall>k<n. 0 < k \<and> k \<noteq> i \<longrightarrow> l ! par k \<le> l ! k))
       \<and> (i' \<noteq> i \<longrightarrow> heap_on n l')"
  using assms
proof (induction l i n rule: ldown.induct)
  case (1 l i n)
  define j where "j = (if 2 * i + 2 < n \<and> l ! (2 * i + 2) < l ! (2 * i + 1) then 2 * i + 2 else 2 * i + 1)"
  have unf: "ldown l i n = (if n \<le> 2 * i + 1 \<or> \<not> l ! j < l ! i then (l, i) else ldown (lswap l i j) j n)"
    by (simp add: ldown.simps [of l i n] j_def Let_def)
  show ?case
  proof (cases "n \<le> 2 * i + 1 \<or> \<not> l ! j < l ! i")
    case True
    have "l ! i \<le> l ! k" if "k < n" "k = 2 * i + 1 \<or> k = 2 * i + 2" for k
      using True that by (auto simp: j_def split: if_splits)
    with True show ?thesis
      using down_defect_stop [OF "1.prems"(1)] "1.prems" unf by auto
  next
    case False
    have j: "j < n" "0 < j" "par j = i" "l ! j < l ! i"
      using False by (auto simp: j_def par_def split: if_splits)
    have least: "l ! j \<le> l ! k" if "k < n" "0 < k" "par k = i" for k
      using that by (auto simp: j_def par_children split: if_splits)
    note sw = down_defect_swap [OF "1.prems"(1,3) j(1,2,3,4) least]
    have eq: "ldown (lswap l i j) j n = (l', i')" using unf False "1.prems"(4) by simp
    have jn: "\<not> n \<le> 2 * i + 1" and jl: "\<not> \<not> l ! j < l ! i" using False by auto
    have jdef: "j = (if 2 * i + 1 + 1 < n \<and> l ! (2 * i + 1 + 1) < l ! (2 * i + 1) then 2 * i + 1 + 1 else 2 * i + 1)"
      by (simp add: j_def)
    have nl: "n \<le> length (lswap l i j)" using "1.prems"(3) by simp
    have IH: "length l' = length (lswap l i j) \<and> j \<le> i' \<and> i' < n
       \<and> (i' = j \<longrightarrow> l' = lswap l i j \<and> (\<forall>k<n. 0 < k \<and> k \<noteq> j \<longrightarrow> lswap l i j ! par k \<le> lswap l i j ! k))
       \<and> (i' \<noteq> j \<longrightarrow> heap_on n l')"
      by (rule "1.IH" [OF refl jn jdef jl sw(1) j(1) nl eq])
    have "heap_on n l'"
    proof (cases "i' = j")
      case True
      have "lswap l i j ! par j \<le> lswap l i j ! j" using sw(2) unfolding j(3) by (rule less_imp_le)
      moreover have "lswap l i j ! par k \<le> lswap l i j ! k" if "k < n" "0 < k" "k \<noteq> j" for k
        using IH True that by blast
      ultimately have "lswap l i j ! par k \<le> lswap l i j ! k" if "k < n" "0 < k" for k
        using that by (cases "k = j") blast+
      with IH True show ?thesis by (auto simp: heap_on_def)
    qed (use IH in auto)
    moreover have "i < j" using j par_less by auto
    ultimately show ?thesis using IH by auto
  qed
qed

lemma ldown_up_defect:
  assumes "down_defect n l i" and "i < n" and "n \<le> length l" and "ldown l i n = (l', i')"
  shows "if i < i' then heap_on n l' else l' = l \<and> up_defect n l i"
  using ldown_correct [OF assms] assms(1) by (auto simp: up_defect_def down_defect_def)

section \<open>How a heap gets its one defect\<close>

lemma heap_update_down_defect:
  assumes h: "heap_on n l" and i: "i < n" and n: "n \<le> length l"
  shows "down_defect n (l[i := v]) i"
proof -
  have "l ! par i \<le> l ! k" if k: "0 < i" "k < n" "0 < k" "par k = i" for k
  proof -
    have "l ! par i \<le> l ! i" "l ! i \<le> l ! k" using h i k by (auto simp: heap_on_def)
    then show ?thesis by (rule order_trans)
  qed
  moreover have "par i \<noteq> i" if "0 < i" using that by simp
  moreover have "k \<noteq> i" if "0 < k" "par k = i" for k using that par_less [of k] by auto
  ultimately show ?thesis using h i n by (auto simp: down_defect_def heap_on_def nth_list_update)
qed

lemma heap_append_up_defect:
  assumes "heap_on (length l) l"
  shows "up_defect (Suc (length l)) (l @ [v]) (length l)"
proof -
  have "par k < length l" if "k < length l" for k using that par_le [of k] by linarith
  moreover have "par k \<noteq> length l" if "k < Suc (length l)" "0 < k" for k
    using that par_less [of k] by linarith
  ultimately show ?thesis
    using assms by (auto simp: up_defect_def heap_on_def nth_append less_Suc_eq)
qed

lemma heap_swap_last_down_defect:
  assumes h: "heap_on (Suc n) l" and i: "i < n" and n: "Suc n = length l"
  shows "down_defect n (lswap l i n) i"
proof -
  have "down_defect n (l[i := l ! n]) i"
    by (rule heap_update_down_defect [OF heap_on_mono [OF h] i]) (use n in auto)
  moreover have "lswap l i n ! k = l[i := l ! n] ! k" if "k < n" for k
    using that i n by (auto simp: lswap_def nth_list_update)
  moreover have "par k < n" if "k < n" for k using that par_le [of k] by linarith
  ultimately show ?thesis using i by (simp add: down_defect_def)
qed

end
