(* ===== verification/DeadlineSpec.thy ===== *)
theory DeadlineSpec
  imports MuxPrelude
begin

text \<open>
  The contract between the expiry index and its clients (the domain table of the adapter
  health, the answer cache of the DNS resolver): an index is a finite map from keys to
  deadlines, \<open>first\<close> gives a least deadline, and \<open>pop\<close> removes one due entry.
  \<open>expiring_map\<close> adds the loop both clients run, which pops every due key and deletes it
  from a companion map, and proves once what that loop leaves behind. The loop has fuel;
  \<open>expire_loop_correct\<close> shows that as many steps as there are entries are enough, since
  afterwards \<open>pop\<close> finds nothing due.
\<close>

definition live :: "('k \<Rightarrow> time option) \<Rightarrow> time \<Rightarrow> 'k \<Rightarrow> time option" where
  "live d now k = (case d k of Some t \<Rightarrow> if t \<le> now then None else Some t | None \<Rightarrow> None)"

definition drop_due :: "('k \<Rightarrow> time option) \<Rightarrow> time \<Rightarrow> ('k \<Rightarrow> 'v option) \<Rightarrow> 'k \<Rightarrow> 'v option" where
  "drop_due d now m k = (case d k of Some t \<Rightarrow> if t \<le> now then None else m k | None \<Rightarrow> m k)"

lemma live_delete: "d k = Some t \<Longrightarrow> t \<le> now \<Longrightarrow> live (d(k := None)) now = live d now"
  by (auto simp: live_def fun_eq_iff)

lemma drop_due_delete:
  "d k = Some t \<Longrightarrow> t \<le> now \<Longrightarrow> drop_due (d(k := None)) now (m(k := None)) = drop_due d now m"
  by (auto simp: drop_due_def fun_eq_iff split: option.splits)

lemma live_ident: "(\<And>k t. d k = Some t \<Longrightarrow> now < t) \<Longrightarrow> live d now = d"
  by (force simp: live_def fun_eq_iff split: option.splits)

lemma drop_due_ident: "(\<And>k t. d k = Some t \<Longrightarrow> now < t) \<Longrightarrow> drop_due d now m = m"
  by (force simp: drop_due_def fun_eq_iff split: option.splits)

locale deadline_index =
  fixes empty :: 'x
    and set_at :: "'x \<Rightarrow> 'k \<Rightarrow> time \<Rightarrow> 'x"
    and del :: "'x \<Rightarrow> 'k \<Rightarrow> 'x"
    and first :: "'x \<Rightarrow> ('k \<times> time) option"
    and pop :: "'x \<Rightarrow> time \<Rightarrow> ('k \<times> 'x) option"
    and entries :: "'x \<Rightarrow> nat"
    and ok :: "'x \<Rightarrow> bool"
    and dl :: "'x \<Rightarrow> 'k \<Rightarrow> time option"
  assumes ok_empty: "ok empty"
    and dl_empty: "dl empty = (\<lambda>_. None)"
    and ok_set: "ok x \<Longrightarrow> ok (set_at x k t)"
    and dl_set: "ok x \<Longrightarrow> dl (set_at x k t) = (dl x)(k := Some t)"
    and ok_del: "ok x \<Longrightarrow> ok (del x k)"
    and dl_del: "ok x \<Longrightarrow> dl (del x k) = (dl x)(k := None)"
    and first_None: "ok x \<Longrightarrow> first x = None \<Longrightarrow> dl x k = None"
    and first_Some: "ok x \<Longrightarrow> first x = Some (k, t) \<Longrightarrow> dl x k = Some t"
    and first_least: "ok x \<Longrightarrow> first x = Some (k, t) \<Longrightarrow> dl x k' = Some t' \<Longrightarrow> t \<le> t'"
    and pop_eq: "pop x now = (case first x of None \<Rightarrow> None
                   | Some (k, t) \<Rightarrow> if now < t then None else Some (k, del x k))"
    and entries_dl: "ok x \<Longrightarrow> finite (dom (dl x)) \<and> entries x = card (dom (dl x))"
begin

lemma pop_Some:
  assumes "ok x" and "pop x now = Some (k, x')"
  shows "\<exists>t. dl x k = Some t \<and> t \<le> now \<and> x' = del x k \<and> ok x' \<and> dl x' = (dl x)(k := None)"
  using assms first_Some [of x] ok_del [of x k] dl_del [of x k]
  by (auto simp: pop_eq split: option.splits if_splits)

lemma pop_None:
  assumes "ok x" and "pop x now = None" and "dl x k = Some t"
  shows "now < t"
proof (cases "first x")
  case None
  then show ?thesis using first_None [of x k] assms by simp
next
  case (Some p)
  obtain k0 t0 where p: "p = (k0, t0)" by (cases p)
  have "now < t0" using assms(2) Some p by (simp add: pop_eq split: if_splits)
  also have "t0 \<le> t" using first_least [of x k0 t0 k t] assms Some p by simp
  finally show ?thesis .
qed

lemma entries_del: "ok x \<Longrightarrow> dl x k = Some t \<Longrightarrow> Suc (entries (del x k)) = entries x"
  using entries_dl [of x] entries_dl [of "del x k"] ok_del [of x k] dl_del [of x k]
  by (auto simp: card_Suc_Diff1 [of "dom (dl x)" k] domI simp del: card_Diff_insert)

lemma entries_0: "ok x \<Longrightarrow> entries x = 0 \<Longrightarrow> dl x k = None"
  using entries_dl [of x] by (auto simp: dom_def)

lemma first_None_iff:
  assumes ok: "ok x"
  shows "(first x = None) = (entries x = 0)"
proof
  assume "first x = None"
  then have "dl x = (\<lambda>_. None)" using first_None [OF ok] by (auto simp: fun_eq_iff)
  then show "entries x = 0" using entries_dl [OF ok] by simp
next
  assume "entries x = 0"
  then have "dl x k = None" for k using entries_0 [OF ok] by simp
  then show "first x = None" using first_Some [OF ok] by (cases "first x") fastforce+
qed

lemma entries_set_new: "ok x \<Longrightarrow> dl x k = None \<Longrightarrow> entries (set_at x k t) = Suc (entries x)"
  using entries_dl [of x] entries_dl [of "set_at x k t"] ok_set [of x k t] dl_set [of x k t]
  by (auto simp: domIff)

end

locale expiring_map = deadline_index empty set_at del first pop entries ok dl
  for empty :: 'x
    and set_at :: "'x \<Rightarrow> 'k \<Rightarrow> time \<Rightarrow> 'x"
    and del :: "'x \<Rightarrow> 'k \<Rightarrow> 'x"
    and first :: "'x \<Rightarrow> ('k \<times> time) option"
    and pop :: "'x \<Rightarrow> time \<Rightarrow> ('k \<times> 'x) option"
    and entries :: "'x \<Rightarrow> nat"
    and ok :: "'x \<Rightarrow> bool"
    and dl :: "'x \<Rightarrow> 'k \<Rightarrow> time option" +
  fixes loop :: "nat \<Rightarrow> time \<Rightarrow> 'x \<Rightarrow> ('k \<Rightarrow> 'v option) \<Rightarrow> 'x \<times> ('k \<Rightarrow> 'v option)"
  assumes loop_0: "loop 0 now x m = (x, m)"
    and loop_Suc: "loop (Suc f) now x m =
          (case pop x now of None \<Rightarrow> (x, m) | Some (k, x') \<Rightarrow> loop f now x' (m(k := None)))"
begin

lemma expire_loop_correct:
  assumes "ok x" and "entries x \<le> f"
  shows "case loop f now x m of (x', m') \<Rightarrow>
           ok x' \<and> dl x' = live (dl x) now \<and> m' = drop_due (dl x) now m \<and> pop x' now = None"
  using assms
proof (induction f arbitrary: x m)
  case 0
  then have no: "dl x k = None" for k using entries_0 by simp
  have "pop x now = None"
  proof (rule ccontr)
    assume "pop x now \<noteq> None"
    then obtain k x' where "pop x now = Some (k, x')" by auto
    from pop_Some [OF "0.prems"(1) this] no show False by auto
  qed
  moreover have "dl x = (\<lambda>_. None)" using no by (rule ext)
  ultimately show ?case using "0.prems" by (simp add: loop_0 live_def drop_due_def fun_eq_iff)
next
  case (Suc f)
  show ?case
  proof (cases "pop x now")
    case None
    then show ?thesis
      using Suc.prems pop_None [OF Suc.prems(1) None] by (simp add: loop_Suc live_ident drop_due_ident)
  next
    case (Some p)
    obtain k x' where p: "p = (k, x')" by (cases p)
    obtain t where k: "dl x k = Some t" "t \<le> now" "x' = del x k" "ok x'" "dl x' = (dl x)(k := None)"
      using pop_Some Suc.prems(1) Some p by blast
    have "entries x' \<le> f" using entries_del [OF Suc.prems(1) k(1)] k(3) Suc.prems(2) by simp
    have dl': "live (dl x') now = live (dl x) now"
      "drop_due (dl x') now (m(k := None)) = drop_due (dl x) now m"
      unfolding k(5) by (rule live_delete [where d = "dl x", OF k(1,2)], rule drop_due_delete [where d = "dl x", OF k(1,2)])
    from Suc.IH [OF k(4) \<open>entries x' \<le> f\<close>, of "m(k := None)"] show ?thesis
      unfolding dl' by (simp only: loop_Suc Some p option.case prod.case)
  qed
qed

end

end
