(* ===== verification/ExpiryIndex.thy ===== *)
theory ExpiryIndex
  imports HeapSift DeadlineSpec
begin

text \<open>
  The indexed deadline heap of \<open>engine/internal/expiry/index.go\<close>, with the parts of Go's
  \<open>container/heap\<close> it calls (\<open>up\<close>, \<open>down\<close>, \<open>Push\<close>, \<open>Remove\<close>, \<open>Fix\<close>).

  The code shares entries by pointer: the map \<open>items\<close> and the slice \<open>queue\<close> hold the
  same \<open>*entry\<close>, and \<open>Swap\<close> writes the \<open>index\<close> field through it. The model keeps
  that aliasing: \<open>store\<close> maps an address to its entry, \<open>items\<close> and \<open>queue\<close> hold
  addresses, and \<open>fresh\<close> is the next unused address.

  The theory proves that the heap implements a partial map from keys to deadlines
  (the locale \<open>deadline_index\<close>) under the invariant \<open>index_ok\<close>.
\<close>

section \<open>Data\<close>

record 'k entry =
  ekey :: 'k
  eat :: time
  eindex :: nat

record 'k index =
  store :: "nat \<Rightarrow> 'k entry"
  fresh :: nat
  items :: "'k \<Rightarrow> nat option"
  queue :: "nat list"

definition empty_index :: "'k index" where
  "empty_index = \<lparr>store = (\<lambda>_. \<lparr>ekey = undefined, eat = 0, eindex = 0\<rparr>), fresh = 0,
                  items = (\<lambda>_. None), queue = []\<rparr>"

section \<open>The heap interface: Less, Swap, Push, Pop\<close>

definition q_less :: "'k index \<Rightarrow> nat \<Rightarrow> nat \<Rightarrow> bool" where
  "q_less x i j = (eat (store x (queue x ! i)) < eat (store x (queue x ! j)))"

definition q_swap :: "'k index \<Rightarrow> nat \<Rightarrow> nat \<Rightarrow> 'k index" where
  "q_swap x i j =
     (let q = (queue x)[i := queue x ! j, j := queue x ! i];
          s1 = (store x)(q ! i := (store x (q ! i))\<lparr>eindex := i\<rparr>);
          s2 = s1(q ! j := (s1 (q ! j))\<lparr>eindex := j\<rparr>)
      in x\<lparr>queue := q, store := s2\<rparr>)"

definition q_push :: "'k index \<Rightarrow> nat \<Rightarrow> 'k index" where
  "q_push x p =
     x\<lparr>store := (store x)(p := (store x p)\<lparr>eindex := length (queue x)\<rparr>),
       queue := queue x @ [p]\<rparr>"

definition q_pop :: "'k index \<Rightarrow> 'k index" where
  "q_pop x = x\<lparr>queue := butlast (queue x)\<rparr>"

section \<open>container/heap\<close>

function heap_up :: "'k index \<Rightarrow> nat \<Rightarrow> 'k index" where
  "heap_up x j =
     (let i = (j - 1) div 2 in
      if i = j \<or> \<not> q_less x j i then x else heap_up (q_swap x i j) i)"
  by pat_completeness auto
termination
  by (relation "measure snd") auto

declare heap_up.simps [simp del]

text \<open>\<open>down\<close> reports whether the element moved, \<open>i > i0\<close>; the loop returns the final \<open>i\<close>.\<close>

function heap_down_loop :: "'k index \<Rightarrow> nat \<Rightarrow> nat \<Rightarrow> 'k index \<times> nat" where
  "heap_down_loop x i n =
     (let j1 = 2 * i + 1 in
      if j1 \<ge> n then (x, i)
      else let j = (if j1 + 1 < n \<and> q_less x (j1 + 1) j1 then j1 + 1 else j1) in
           if \<not> q_less x j i then (x, i) else heap_down_loop (q_swap x i j) j n)"
  by pat_completeness auto
termination
  by (relation "measure (\<lambda>(x, i, n). n - i)") (auto simp: Let_def split: if_splits)

declare heap_down_loop.simps [simp del]

definition heap_down :: "'k index \<Rightarrow> nat \<Rightarrow> nat \<Rightarrow> 'k index \<times> bool" where
  "heap_down x i0 n = (let (x', i) = heap_down_loop x i0 n in (x', i0 < i))"

definition heap_push :: "'k index \<Rightarrow> nat \<Rightarrow> 'k index" where
  "heap_push x p = (let x' = q_push x p in heap_up x' (length (queue x') - 1))"

definition heap_remove :: "'k index \<Rightarrow> nat \<Rightarrow> 'k index" where
  "heap_remove x i =
     (let n = length (queue x) - 1;
          x' = (if n \<noteq> i
                then let (x1, moved) = heap_down (q_swap x i n) i n
                     in if moved then x1 else heap_up x1 i
                else x)
      in q_pop x')"

definition heap_fix :: "'k index \<Rightarrow> nat \<Rightarrow> 'k index" where
  "heap_fix x i =
     (let (x', moved) = heap_down x i (length (queue x)) in if moved then x' else heap_up x' i)"

section \<open>The index operations\<close>

definition idx_len :: "'k index \<Rightarrow> nat" where
  "idx_len x = length (queue x)"

definition idx_set :: "'k index \<Rightarrow> 'k \<Rightarrow> time \<Rightarrow> 'k index" where
  "idx_set x key at =
     (case items x key of
        Some p \<Rightarrow>
          (let x' = x\<lparr>store := (store x)(p := (store x p)\<lparr>eat := at\<rparr>)\<rparr>
           in heap_fix x' (eindex (store x' p)))
      | None \<Rightarrow>
          (let p = fresh x;
               x' = x\<lparr>store := (store x)(p := \<lparr>ekey = key, eat = at, eindex = 0\<rparr>),
                      fresh := Suc p, items := (items x)(key \<mapsto> p)\<rparr>
           in heap_push x' p))"

definition idx_delete :: "'k index \<Rightarrow> 'k \<Rightarrow> 'k index" where
  "idx_delete x key =
     (case items x key of
        Some p \<Rightarrow> (let x' = heap_remove x (eindex (store x p)) in x'\<lparr>items := (items x')(key := None)\<rparr>)
      | None \<Rightarrow> x)"

definition idx_first :: "'k index \<Rightarrow> ('k \<times> time) option" where
  "idx_first x =
     (case queue x of [] \<Rightarrow> None | p # _ \<Rightarrow> Some (ekey (store x p), eat (store x p)))"

definition idx_pop_expired :: "'k index \<Rightarrow> time \<Rightarrow> ('k \<times> 'k index) option" where
  "idx_pop_expired x now =
     (case idx_first x of
        None \<Rightarrow> None
      | Some (key, at) \<Rightarrow> if now < at then None else Some (key, idx_delete x key))"

section \<open>Deadlines, structure and order\<close>

text \<open>
  The abstraction: the deadline of a key is the \<open>at\<close> field of its entry. The structural
  invariant says that the map and the slice hold the same entries, each once, and that
  every entry knows its position; the order invariant is the heap order on deadlines.
\<close>

definition idx_deadlines :: "'k index \<Rightarrow> 'k \<Rightarrow> time option" where
  "idx_deadlines x k = map_option (\<lambda>p. eat (store x p)) (items x k)"

definition ats :: "'k index \<Rightarrow> time list" where
  "ats x = map (\<lambda>p. eat (store x p)) (queue x)"

definition queue_ok :: "'k index \<Rightarrow> bool" where
  "queue_ok x \<longleftrightarrow> distinct (queue x) \<and> (\<forall>i<length (queue x). eindex (store x (queue x ! i)) = i)"

definition items_ok :: "'k index \<Rightarrow> bool" where
  "items_ok x \<longleftrightarrow>
     (\<forall>k p. items x k = Some p \<longleftrightarrow> p \<in> set (queue x) \<and> ekey (store x p) = k) \<and>
     (\<forall>p\<in>set (queue x). p < fresh x)"

definition index_ok :: "'k index \<Rightarrow> bool" where
  "index_ok x \<longleftrightarrow> queue_ok x \<and> items_ok x \<and> heap_on (length (queue x)) (ats x)"

text \<open>What sifting may change: the order of the queue and the position fields, nothing else.\<close>

definition same_entries :: "'k index \<Rightarrow> 'k index \<Rightarrow> bool" where
  "same_entries x y \<longleftrightarrow>
     (\<forall>p. eat (store y p) = eat (store x p) \<and> ekey (store y p) = ekey (store x p)) \<and>
     items y = items x \<and> fresh y = fresh x \<and> set (queue y) = set (queue x) \<and>
     length (queue y) = length (queue x) \<and> (queue_ok x \<longrightarrow> queue_ok y)"

lemma same_entries_refl [simp]: "same_entries x x"
  by (simp add: same_entries_def)

lemma same_entries_trans: "same_entries x y \<Longrightarrow> same_entries y z \<Longrightarrow> same_entries x z"
  by (simp add: same_entries_def)

lemma same_entries_length: "same_entries x y \<Longrightarrow> length (queue y) = length (queue x)"
  by (simp add: same_entries_def)

lemma same_entries_items_ok: "same_entries x y \<Longrightarrow> items_ok x \<Longrightarrow> items_ok y"
  by (simp add: same_entries_def items_ok_def)

lemma same_entries_index_ok:
  "same_entries x y \<Longrightarrow> queue_ok x \<Longrightarrow> items_ok x \<Longrightarrow> heap_on (length (queue x)) (ats y) \<Longrightarrow> index_ok y"
  using same_entries_items_ok [of x y] by (simp add: index_ok_def same_entries_def)

lemma same_entries_deadlines: "same_entries x y \<Longrightarrow> idx_deadlines y = idx_deadlines x"
  by (simp add: same_entries_def idx_deadlines_def fun_eq_iff)

lemma length_ats [simp]: "length (ats x) = length (queue x)"
  by (simp add: ats_def)

lemma q_less_ats: "i < length (queue x) \<Longrightarrow> j < length (queue x) \<Longrightarrow> q_less x i j = (ats x ! i < ats x ! j)"
  by (simp add: q_less_def ats_def)

lemma queue_q_swap [simp]: "queue (q_swap x i j) = lswap (queue x) i j"
  by (simp add: q_swap_def Let_def lswap_def)

lemma q_swap_frame [simp]:
  "eat (store (q_swap x i j) p) = eat (store x p)" "ekey (store (q_swap x i j) p) = ekey (store x p)"
  "items (q_swap x i j) = items x" "fresh (q_swap x i j) = fresh x"
  by (simp_all add: q_swap_def Let_def)

lemma ats_q_swap:
  "i < length (queue x) \<Longrightarrow> j < length (queue x) \<Longrightarrow> ats (q_swap x i j) = lswap (ats x) i j"
  by (simp add: ats_def lswap_def map_update)

lemma q_swap_queue_ok:
  assumes i: "i < length (queue x)" and j: "j < length (queue x)" and ok: "queue_ok x"
  shows "queue_ok (q_swap x i j)"
proof -
  let ?q = "queue x"
  have d: "distinct (lswap ?q i j)" using i j ok by (simp add: queue_ok_def lswap_def distinct_swap)
  have "eindex (store (q_swap x i j) (lswap ?q i j ! k)) = k" if k: "k < length ?q" for k
  proof -
    have inj: "(lswap ?q i j ! k = lswap ?q i j ! m) = (k = m)" if "m < length ?q" for m
      using nth_eq_iff_index_eq [OF d] k that by simp
    consider "k = j" | "k \<noteq> j" "k = i" | "k \<noteq> j" "k \<noteq> i" by blast
    then show ?thesis
    proof cases
      case 1
      then show ?thesis by (simp add: q_swap_def Let_def lswap_def)
    next
      case 2
      then show ?thesis using inj [OF j] by (simp add: q_swap_def Let_def lswap_def)
    next
      case 3
      have "lswap ?q i j ! k = ?q ! k" using nth_lswap [OF i j k] 3 by simp
      then show ?thesis using inj [OF i] inj [OF j] 3 k ok
        by (simp add: q_swap_def Let_def queue_ok_def flip: lswap_def)
    qed
  qed
  with d show ?thesis by (simp add: queue_ok_def)
qed

lemma q_swap_same_entries:
  "i < length (queue x) \<Longrightarrow> j < length (queue x) \<Longrightarrow> same_entries x (q_swap x i j)"
  by (simp add: same_entries_def q_swap_queue_ok)

section \<open>The loops act as sifting on the deadlines\<close>

lemma heap_up_unfold:
  "heap_up x j = (if par j = j \<or> \<not> q_less x j (par j) then x else heap_up (q_swap x (par j) j) (par j))"
  by (simp add: heap_up.simps [of x j] par_def Let_def)

lemma heap_up_refines:
  "j < length (queue x) \<Longrightarrow> same_entries x (heap_up x j) \<and> ats (heap_up x j) = lup (ats x) j"
proof (induction x j rule: heap_up.induct)
  case (1 x j)
  have p: "par j < length (queue x)" using "1.prems" par_le [of j] by linarith
  have cond: "(par j = j \<or> \<not> q_less x j (par j)) = (par j = j \<or> \<not> ats x ! j < ats x ! par j)"
    using p "1.prems" by (simp add: q_less_ats)
  show ?case
  proof (cases "par j = j \<or> \<not> q_less x j (par j)")
    case True
    with cond show ?thesis
      by (simp add: heap_up_unfold [of x j] lup.simps [of _ j])
  next
    case False
    let ?y = "q_swap x (par j) j"
    have "same_entries ?y (heap_up ?y (par j)) \<and> ats (heap_up ?y (par j)) = lup (ats ?y) (par j)"
      using "1.IH" [OF par_def] False p by simp
    moreover have "heap_up x j = heap_up ?y (par j)"
      using False by (simp add: heap_up_unfold [of x j])
    moreover have "lup (ats x) j = lup (ats ?y) (par j)"
      using False cond p "1.prems" by (simp add: lup.simps [of _ j] ats_q_swap)
    ultimately show ?thesis
      using q_swap_same_entries [OF p "1.prems"] same_entries_trans by metis
  qed
qed

lemma heap_down_loop_refines:
  assumes "n \<le> length (queue x)" and "i < n" and "heap_down_loop x i n = (y, i')"
  shows "same_entries x y \<and> ldown (ats x) i n = (ats y, i')"
  using assms
proof (induction x i n rule: heap_down_loop.induct)
  case (1 x i n)
  define j where "j = (if 2 * i + 1 + 1 < n \<and> q_less x (2 * i + 1 + 1) (2 * i + 1) then 2 * i + 1 + 1 else 2 * i + 1)"
  have jl: "j = (if 2 * i + 1 + 1 < n \<and> ats x ! (2 * i + 1 + 1) < ats x ! (2 * i + 1) then 2 * i + 1 + 1 else 2 * i + 1)"
    using "1.prems"(1) by (auto simp: j_def q_less_ats)
  have unf: "heap_down_loop x i n =
      (if n \<le> 2 * i + 1 \<or> \<not> q_less x j i then (x, i) else heap_down_loop (q_swap x i j) j n)"
    by (simp add: heap_down_loop.simps [of x i n] j_def Let_def)
  have lunf: "ldown (ats x) i n =
      (if n \<le> 2 * i + 1 \<or> \<not> ats x ! j < ats x ! i then (ats x, i) else ldown (lswap (ats x) i j) j n)"
    by (simp add: ldown.simps [of "ats x" i n] jl Let_def)
  show ?case
  proof (cases "n \<le> 2 * i + 1")
    case True
    then show ?thesis using unf lunf "1.prems" by simp
  next
    case False
    then have jn: "j < n" by (auto simp: j_def)
    have less: "q_less x j i = (ats x ! j < ats x ! i)"
      using jn "1.prems"(1,2) by (simp add: q_less_ats)
    show ?thesis
    proof (cases "q_less x j i")
      case True
      have len: "i < length (queue x)" "j < length (queue x)" using jn "1.prems"(1,2) by auto
      have "same_entries (q_swap x i j) y \<and> ldown (ats (q_swap x i j)) j n = (ats y, i')"
        by (rule "1.IH" [OF refl False j_def]) (use True jn "1.prems" unf False in \<open>simp_all\<close>)
      then show ?thesis
        using True False less lunf q_swap_same_entries [OF len] ats_q_swap [OF len] same_entries_trans
        by (metis (no_types))
    qed (use unf lunf less "1.prems" False in simp)
  qed
qed

section \<open>Each heap operation restores the invariant\<close>

lemma heap_up_ok:
  assumes "j < n" "n \<le> length (queue x)" and "up_defect n (ats x) j"
  shows "same_entries x (heap_up x j)" "heap_on n (ats (heap_up x j))"
  using heap_up_refines [of j x] lup_heap [OF assms(3,1)] assms(1,2) by auto

lemma heap_sift_ok:
  assumes "i < n" "n \<le> length (queue x)" and "down_defect n (ats x) i"
    and y: "y = (let (x', moved) = heap_down x i n in if moved then x' else heap_up x' i)"
  shows "same_entries x y" "heap_on n (ats y)"
proof -
  obtain x' i' where d: "heap_down_loop x i n = (x', i')" by (cases "heap_down_loop x i n")
  have r: "same_entries x x'" "ldown (ats x) i n = (ats x', i')"
    using heap_down_loop_refines [OF assms(2,1) d] by auto
  have c: "if i < i' then heap_on n (ats x') else ats x' = ats x \<and> up_defect n (ats x) i"
    using ldown_up_defect [OF assms(3,1) _ r(2)] assms(2) by simp
  have y': "y = (if i < i' then x' else heap_up x' i)" using y d by (simp add: heap_down_def)
  show "same_entries x y" "heap_on n (ats y)"
    using y' r(1) c heap_up_ok [of i n x'] assms(1,2) same_entries_length [OF r(1)]
    by (auto intro: same_entries_trans split: if_splits)
qed

lemma heap_up_above: "j < length (queue x) \<Longrightarrow> j < k \<Longrightarrow> queue (heap_up x j) ! k = queue x ! k"
proof (induction x j rule: heap_up.induct)
  case (1 x j)
  show ?case
  proof (cases "par j = j \<or> \<not> q_less x j (par j)")
    case False
    then have pj: "par j < j" by auto
    have "queue (heap_up (q_swap x (par j) j) (par j)) ! k = queue (q_swap x (par j) j) ! k"
      using "1.IH" [OF par_def] False "1.prems" pj by simp
    with False pj "1.prems" show ?thesis by (simp add: heap_up_unfold [of x j] lswap_def)
  qed (simp add: heap_up_unfold [of x j])
qed

lemma heap_down_above:
  assumes "i < n" "n \<le> length (queue x)" "n \<le> k" and "heap_down_loop x i n = (y, i')"
  shows "queue y ! k = queue x ! k"
  using assms
proof (induction x i n rule: heap_down_loop.induct)
  case (1 x i n)
  define j where "j = (if 2 * i + 1 + 1 < n \<and> q_less x (2 * i + 1 + 1) (2 * i + 1) then 2 * i + 1 + 1 else 2 * i + 1)"
  have unf: "heap_down_loop x i n =
      (if n \<le> 2 * i + 1 \<or> \<not> q_less x j i then (x, i) else heap_down_loop (q_swap x i j) j n)"
    by (simp add: heap_down_loop.simps [of x i n] j_def Let_def)
  show ?case
  proof (cases "n \<le> 2 * i + 1 \<or> \<not> q_less x j i")
    case False
    then have jn: "j < n" by (auto simp: j_def)
    have "queue y ! k = queue (q_swap x i j) ! k"
      by (rule "1.IH" [OF refl _ j_def]) (use False jn "1.prems" unf in auto)
    with jn "1.prems" show ?thesis by (simp add: lswap_def)
  qed (use unf "1.prems" in simp)
qed

lemma heap_remove_ok:
  assumes q: "queue_ok x" and h: "heap_on (length (queue x)) (ats x)" and i: "i < length (queue x)"
  defines "y \<equiv> heap_remove x i"
  shows "queue_ok y" "heap_on (length (queue y)) (ats y)" "set (queue y) = set (queue x) - {queue x ! i}"
    "length (queue y) = length (queue x) - 1" "items y = items x" "fresh y = fresh x"
    "\<And>p. eat (store y p) = eat (store x p) \<and> ekey (store y p) = ekey (store x p)"
proof -
  let ?n = "length (queue x) - 1"
  have len: "Suc ?n = length (queue x)" using i by simp
  define z where "z = (if ?n \<noteq> i then let (x1, moved) = heap_down (q_swap x i ?n) i ?n
                          in if moved then x1 else heap_up x1 i else x)"
  have y: "y = q_pop z" by (simp add: y_def heap_remove_def z_def Let_def)
  have z: "same_entries x z \<and> heap_on ?n (ats z) \<and> queue z ! ?n = queue x ! i"
  proof (cases "?n = i")
    case True
    then show ?thesis using heap_on_mono [OF h] by (simp add: z_def)
  next
    case False
    let ?x = "q_swap x i ?n"
    have i': "i < ?n" using False i by simp
    have sw: "same_entries x ?x" using i i' by (simp add: q_swap_same_entries)
    have d: "down_defect ?n (ats ?x) i"
      using heap_swap_last_down_defect [of ?n "ats x" i] h i' len by (simp add: ats_q_swap i)
    have zdef: "z = (let (x1, moved) = heap_down ?x i ?n in if moved then x1 else heap_up x1 i)"
      using False by (simp add: z_def)
    have lenx: "length (queue ?x) = length (queue x)" by simp
    have ok: "same_entries ?x z" "heap_on ?n (ats z)"
      using heap_sift_ok [OF i' _ d zdef] by auto
    obtain x1 i1 where l: "heap_down_loop ?x i ?n = (x1, i1)" by (cases "heap_down_loop ?x i ?n")
    have len1: "length (queue x1) = length (queue x)"
      using same_entries_length [of ?x x1] heap_down_loop_refines [OF _ i' l] lenx by simp
    have "queue x1 ! ?n = queue ?x ! ?n" using heap_down_above [OF i' _ _ l] by simp
    moreover have "queue z ! ?n = queue x1 ! ?n"
      using zdef l i' heap_up_above [of i x1 ?n] len1 by (auto simp: heap_down_def)
    ultimately show ?thesis
      using ok same_entries_trans [OF sw] i by (simp add: lswap_def)
  qed
  have se: "same_entries x z" and hz: "heap_on ?n (ats z)" and lz: "queue z ! ?n = queue x ! i"
    using z by auto
  have lenz: "length (queue z) = length (queue x)" by (rule same_entries_length [OF se])
  have qz: "queue_ok z" "set (queue z) = set (queue x)" using se q by (auto simp: same_entries_def)
  have split: "queue z = butlast (queue z) @ [queue x ! i]"
    using lz lenz i by (metis append_butlast_last_id last_conv_nth length_greater_0_conv less_nat_zero_code not_gr_zero)
  have dz: "distinct (butlast (queue z) @ [queue x ! i])" using qz(1) split by (simp add: queue_ok_def)
  show "queue_ok y" using qz(1) y by (simp add: queue_ok_def q_pop_def distinct_butlast nth_butlast)
  show "heap_on (length (queue y)) (ats y)"
    using heap_on_butlast [of "ats z"] hz lenz y by (simp add: q_pop_def ats_def map_butlast)
  show "set (queue y) = set (queue x) - {queue x ! i}"
  proof -
    have "set (queue x) = insert (queue x ! i) (set (butlast (queue z)))" using split qz(2)
      by (metis Un_insert_right list.set(1) list.simps(15) set_append sup_bot_right)
    then show ?thesis using y dz by (auto simp: q_pop_def)
  qed
  show "length (queue y) = length (queue x) - 1" using y lenz by (simp add: q_pop_def)
  show "items y = items x" "fresh y = fresh x" using y se by (simp_all add: q_pop_def same_entries_def)
  show "\<And>p. eat (store y p) = eat (store x p) \<and> ekey (store y p) = ekey (store x p)"
    using y se by (simp add: q_pop_def same_entries_def)
qed

section \<open>The index is a map of deadlines\<close>

lemma index_ok_empty [simp]: "index_ok empty_index"
  by (simp add: index_ok_def queue_ok_def items_ok_def empty_index_def heap_on_def)

lemma deadlines_empty [simp]: "idx_deadlines empty_index = (\<lambda>_. None)"
  by (simp add: idx_deadlines_def empty_index_def fun_eq_iff)

lemma items_Some_position:
  assumes "index_ok x" and "items x k = Some p"
  shows "eindex (store x p) < length (queue x)" "queue x ! eindex (store x p) = p" "ekey (store x p) = k"
proof -
  have "p \<in> set (queue x)" "ekey (store x p) = k" using assms by (auto simp: index_ok_def items_ok_def)
  moreover from this obtain i where "i < length (queue x)" "queue x ! i = p" by (auto simp: in_set_conv_nth)
  ultimately show "eindex (store x p) < length (queue x)" "queue x ! eindex (store x p) = p"
    "ekey (store x p) = k" using assms by (auto simp: index_ok_def queue_ok_def)
qed

lemma index_ok_set [mux_inv]:
  assumes ok: "index_ok x"
  shows "index_ok (idx_set x k t)"
proof (cases "items x k")
  case None
  let ?p = "fresh x"
  define y where "y = q_push (x\<lparr>store := (store x)(?p := \<lparr>ekey = k, eat = t, eindex = 0\<rparr>), fresh := Suc ?p, items := (items x)(k \<mapsto> ?p)\<rparr>) ?p"
  have new: "?p \<notin> set (queue x)" using ok by (auto simp: index_ok_def items_ok_def)
  have qy: "queue y = queue x @ [?p]" by (simp add: y_def q_push_def)
  have ay: "ats y = ats x @ [t]" using new by (auto simp: ats_def y_def q_push_def)
  have nthp: "queue x ! i \<noteq> ?p" if "i < length (queue x)" for i using new that by (metis nth_mem)
  have "queue_ok y" using ok new nthp
    by (auto simp: index_ok_def queue_ok_def y_def q_push_def nth_append less_Suc_eq)
  moreover have "ekey (store x p) \<noteq> k" if "p \<in> set (queue x)" for p
    using ok None that by (auto simp: index_ok_def items_ok_def) (metis option.distinct(1))
  then have "items_ok y"
    using ok new by (auto simp: index_ok_def items_ok_def y_def q_push_def)
  moreover have "up_defect (length (queue y)) (ats y) (length (queue y) - 1)"
    using heap_append_up_defect [of "ats x" t] ok qy ay by (simp add: index_ok_def)
  ultimately show ?thesis
    using heap_up_ok [of "length (queue y) - 1" "length (queue y)" y] qy None
      same_entries_index_ok [of y "heap_up y (length (queue y) - 1)"]
    by (auto simp: idx_set_def heap_push_def Let_def y_def [symmetric])
next
  case (Some p)
  let ?i = "eindex (store x p)"
  define y where "y = x\<lparr>store := (store x)(p := (store x p)\<lparr>eat := t\<rparr>)\<rparr>"
  note pos = items_Some_position [OF ok Some]
  have "distinct (queue x)" using ok by (simp add: index_ok_def queue_ok_def)
  then have "queue x ! j = p \<longleftrightarrow> j = ?i" if "j < length (queue x)" for j
    using pos that nth_eq_iff_index_eq by metis
  then have "ats y = (ats x)[?i := t]"
    using pos by (auto simp: ats_def y_def nth_list_update intro!: nth_equalityI)
  then have "down_defect (length (queue y)) (ats y) ?i"
    using heap_update_down_defect [of "length (queue x)" "ats x" ?i t] ok pos
    by (simp add: index_ok_def y_def)
  moreover have "idx_set x k t = heap_fix y ?i" using Some by (simp add: idx_set_def y_def)
  moreover have "queue_ok y" "items_ok y" using ok by (auto simp: index_ok_def queue_ok_def items_ok_def y_def)
  ultimately show ?thesis
    using heap_sift_ok [of ?i "length (queue y)" y "heap_fix y ?i"] pos
      same_entries_index_ok [of y "heap_fix y ?i"]
    by (simp add: heap_fix_def y_def)
qed

lemma deadlines_set:
  assumes ok: "index_ok x"
  shows "idx_deadlines (idx_set x k t) = (idx_deadlines x)(k := Some t)"
proof (cases "items x k")
  case None
  let ?p = "fresh x"
  define y where "y = q_push (x\<lparr>store := (store x)(?p := \<lparr>ekey = k, eat = t, eindex = 0\<rparr>), fresh := Suc ?p, items := (items x)(k \<mapsto> ?p)\<rparr>) ?p"
  have p: "items x k' \<noteq> Some ?p" for k' using ok by (auto simp: index_ok_def items_ok_def)
  have "same_entries y (heap_up y (length (queue y) - 1))"
    using heap_up_refines [of "length (queue y) - 1" y] by (simp add: y_def q_push_def)
  then have "idx_deadlines (idx_set x k t) = idx_deadlines y"
    using None same_entries_deadlines by (auto simp: idx_set_def heap_push_def Let_def y_def [symmetric])
  also have "\<dots> = (idx_deadlines x)(k := Some t)"
    using p by (auto simp: idx_deadlines_def y_def q_push_def fun_eq_iff map_option_case split: option.splits)
  finally show ?thesis .
next
  case (Some p)
  let ?i = "eindex (store x p)"
  define y where "y = x\<lparr>store := (store x)(p := (store x p)\<lparr>eat := t\<rparr>)\<rparr>"
  note pos = items_Some_position [OF ok Some]
  obtain x' i' where d: "heap_down_loop y ?i (length (queue y)) = (x', i')" by fastforce
  have s: "same_entries y x'" using heap_down_loop_refines [OF _ _ d] pos by (simp add: y_def)
  moreover have "same_entries x' (heap_up x' ?i)"
    using heap_up_refines [of ?i x'] pos same_entries_length [OF s] by (simp add: y_def)
  ultimately have "idx_deadlines (heap_fix y ?i) = idx_deadlines y"
    using d same_entries_deadlines by (auto simp: heap_fix_def heap_down_def)
  moreover have "idx_set x k t = heap_fix y ?i" using Some by (simp add: idx_set_def y_def)
  moreover have "items x k' = Some p \<longleftrightarrow> k' = k" for k'
    using items_Some_position [OF ok, of k' p] pos Some by auto
  then have "idx_deadlines y k' = ((idx_deadlines x)(k := Some t)) k'" for k'
    by (cases "k' = k"; cases "items x k'") (auto simp: idx_deadlines_def y_def Some)
  then have "idx_deadlines y = (idx_deadlines x)(k := Some t)" by (rule ext)
  ultimately show ?thesis by simp
qed

lemma delete_ok:
  assumes ok: "index_ok x"
  shows "index_ok (idx_delete x k) \<and> idx_deadlines (idx_delete x k) = (idx_deadlines x)(k := None)"
proof (cases "items x k")
  case None
  then show ?thesis using ok by (auto simp: idx_delete_def idx_deadlines_def)
next
  case (Some p)
  note pos = items_Some_position [OF ok Some]
  define y where "y = heap_remove x (eindex (store x p))"
  have okq: "queue_ok x" "heap_on (length (queue x)) (ats x)" using ok by (auto simp: index_ok_def)
  note rem = heap_remove_ok [OF okq pos(1), folded y_def, unfolded pos(2)]
  have del: "idx_delete x k = y\<lparr>items := (items y)(k := None)\<rparr>"
    using Some by (simp add: idx_delete_def y_def Let_def)
  have one: "items x k' = Some p \<longleftrightarrow> k' = k" for k'
    using items_Some_position [OF ok, of k' p] pos Some by auto
  have it: "items x k' = Some q \<longleftrightarrow> q \<in> set (queue x) \<and> ekey (store x q) = k'" for k' q
    using ok by (simp add: index_ok_def items_ok_def)
  have "ekey (store x q) \<noteq> k" if "q \<in> set (queue x)" "q \<noteq> p" for q
    using it [of k q] Some that by auto
  then have "items_ok (y\<lparr>items := (items y)(k := None)\<rparr>)"
    using ok rem(3,5,6,7) it one pos(3) by (auto simp: index_ok_def items_ok_def)
  moreover have "queue_ok (y\<lparr>items := (items y)(k := None)\<rparr>)" "ats (y\<lparr>items := (items y)(k := None)\<rparr>) = ats y"
    using rem(1) by (simp_all add: queue_ok_def ats_def)
  moreover have "idx_deadlines (y\<lparr>items := (items y)(k := None)\<rparr>) = (idx_deadlines x)(k := None)"
    using rem(5,7) by (auto simp: idx_deadlines_def fun_eq_iff)
  ultimately show ?thesis using del rem(2) by (simp add: index_ok_def)
qed

lemmas index_ok_delete [mux_inv] = delete_ok [THEN conjunct1]
lemmas deadlines_delete = delete_ok [THEN conjunct2]

lemma first_ok:
  assumes ok: "index_ok x"
  shows "idx_first x = None \<Longrightarrow> idx_deadlines x k = None"
    and "idx_first x = Some (k, t) \<Longrightarrow> idx_deadlines x k = Some t"
    and "idx_first x = Some (k, t) \<Longrightarrow> idx_deadlines x k' = Some t' \<Longrightarrow> t \<le> t'"
proof -
  show "idx_first x = None \<Longrightarrow> idx_deadlines x k = None"
    using ok by (cases "items x k")
      (auto simp: idx_first_def idx_deadlines_def index_ok_def items_ok_def split: list.splits)
  show "idx_first x = Some (k, t) \<Longrightarrow> idx_deadlines x k = Some t"
  proof -
    assume "idx_first x = Some (k, t)"
    then obtain p ps where "queue x = p # ps" "ekey (store x p) = k" "eat (store x p) = t"
      by (auto simp: idx_first_def split: list.splits)
    moreover from this have "items x k = Some p" using ok by (simp add: index_ok_def items_ok_def)
    ultimately show ?thesis by (simp add: idx_deadlines_def)
  qed
  show "t \<le> t'" if f: "idx_first x = Some (k, t)" and d: "idx_deadlines x k' = Some t'"
  proof -
    obtain p where p: "items x k' = Some p" "eat (store x p) = t'"
      using d by (auto simp: idx_deadlines_def)
    note pos = items_Some_position [OF ok p(1)]
    have "ats x ! 0 \<le> ats x ! eindex (store x p)"
      using heap_on_root_le pos(1) ok by (auto simp: index_ok_def)
    moreover have "ats x ! 0 = t" using f by (auto simp: idx_first_def ats_def split: list.splits)
    moreover have "ats x ! eindex (store x p) = t'" using pos p by (simp add: ats_def)
    ultimately show ?thesis by simp
  qed
qed

lemma len_ok:
  assumes ok: "index_ok x"
  shows "finite (dom (idx_deadlines x)) \<and> idx_len x = card (dom (idx_deadlines x))"
proof -
  have "bij_betw (\<lambda>p. ekey (store x p)) (set (queue x)) (dom (idx_deadlines x))"
    unfolding bij_betw_def
  proof
    show "inj_on (\<lambda>p. ekey (store x p)) (set (queue x))"
      using ok by (auto simp: inj_on_def index_ok_def items_ok_def) (metis option.inject)
    show "(\<lambda>p. ekey (store x p)) ` set (queue x) = dom (idx_deadlines x)"
      using ok by (auto simp: idx_deadlines_def index_ok_def items_ok_def dom_def image_iff)
  qed
  then have "card (dom (idx_deadlines x)) = card (set (queue x))" "finite (dom (idx_deadlines x))"
    using bij_betw_same_card bij_betw_finite by (metis, blast)
  then show ?thesis using ok by (simp add: idx_len_def distinct_card index_ok_def queue_ok_def)
qed

section \<open>The loop of the clients\<close>

text \<open>
  \<open>pruneExpiredDomains\<close> and \<open>removeExpiredLocked\<close> run the same loop: pop a due key,
  delete it from the companion map, stop when nothing is due.
\<close>

fun expire_loop :: "nat \<Rightarrow> time \<Rightarrow> 'k index \<Rightarrow> ('k \<Rightarrow> 'v option) \<Rightarrow> 'k index \<times> ('k \<Rightarrow> 'v option)" where
  "expire_loop 0 now x m = (x, m)"
| "expire_loop (Suc f) now x m =
     (case idx_pop_expired x now of
        None \<Rightarrow> (x, m)
      | Some (k, x') \<Rightarrow> expire_loop f now x' (m(k := None)))"

interpretation ix: expiring_map empty_index idx_set idx_delete idx_first idx_pop_expired idx_len
  index_ok idx_deadlines expire_loop
  by unfold_locales
    (auto simp: deadlines_set deadlines_delete idx_pop_expired_def len_ok
          intro: mux_inv first_ok split: option.splits)

section \<open>Properties\<close>

datatype 'k idx_op = SetOp 'k time | DeleteOp 'k

fun idx_run :: "'k index \<Rightarrow> 'k idx_op list \<Rightarrow> 'k index" where
  "idx_run x [] = x"
| "idx_run x (SetOp k t # ops) = idx_run (idx_set x k t) ops"
| "idx_run x (DeleteOp k # ops) = idx_run (idx_delete x k) ops"

fun deadline_run :: "('k \<Rightarrow> time option) \<Rightarrow> 'k idx_op list \<Rightarrow> 'k \<Rightarrow> time option" where
  "deadline_run d [] = d"
| "deadline_run d (SetOp k t # ops) = deadline_run (d(k \<mapsto> t)) ops"
| "deadline_run d (DeleteOp k # ops) = deadline_run (d(k := None)) ops"

lemma idx_run_refines:
  "index_ok x \<Longrightarrow> index_ok (idx_run x ops) \<and> idx_deadlines (idx_run x ops) = deadline_run (idx_deadlines x) ops"
proof (induction ops arbitrary: x)
  case (Cons op ops)
  then show ?case by (cases op) (simp_all add: ix.ok_set ix.dl_set ix.ok_del ix.dl_del fun_upd_def)
qed simp

text \<open>
  C13. After any sequence of \<open>Set\<close> and \<open>Delete\<close> on a zero \<open>Index\<close>, the heap with its
  back-pointers holds exactly the deadlines a plain map would hold after the same
  operations, one heap entry per key (\<open>Len\<close> is the number of keys), and \<open>First\<close> reports
  a key with the least of them, or nothing when the map is empty.
\<close>

theorem index_refines_map:
  "idx_deadlines (idx_run empty_index ops) = deadline_run (\<lambda>_. None) ops \<and>
   idx_len (idx_run empty_index ops) = card (dom (deadline_run (\<lambda>_. None) ops)) \<and>
   (case idx_first (idx_run empty_index ops) of
      None \<Rightarrow> deadline_run (\<lambda>_. None) ops = (\<lambda>_. None)
    | Some (k, t) \<Rightarrow> deadline_run (\<lambda>_. None) ops k = Some t \<and>
                     (\<forall>s\<in>ran (deadline_run (\<lambda>_. None) ops). t \<le> s))"
proof -
  let ?x = "idx_run empty_index ops"
  have ok: "index_ok ?x" and dl: "idx_deadlines ?x = deadline_run (\<lambda>_. None) ops"
    using idx_run_refines [of empty_index ops] by simp_all
  show ?thesis
    using ix.first_None [OF ok] ix.first_Some [OF ok] ix.first_least [OF ok] ix.entries_dl [OF ok]
    unfolding dl [symmetric] by (auto simp: ran_def split: option.splits)
qed

theorem index_refines_map_witness:
  "idx_deadlines (idx_run empty_index [SetOp (1::nat) 9, SetOp 2 4, SetOp 2 12]) 2 = Some 12 \<and>
   (\<exists>k t. idx_first (idx_run empty_index [SetOp (1::nat) 9, SetOp 2 4, SetOp 2 12]) = Some (k, t) \<and> t \<le> 9)"
proof -
  let ?ops = "[SetOp (1::nat) 9, SetOp 2 4, SetOp 2 12]"
  have d: "deadline_run (\<lambda>_. None) ?ops 1 = Some 9" "deadline_run (\<lambda>_. None) ?ops 2 = Some 12" by simp_all
  have "9 \<in> ran (deadline_run (\<lambda>_. None) ?ops)" using d(1) by (rule ranI)
  moreover have "deadline_run (\<lambda>_. None) ?ops \<noteq> (\<lambda>_. None)" using d(1) by (metis option.distinct(1))
  ultimately show ?thesis
    using index_refines_map [of ?ops] d(2) by (auto simp del: idx_run.simps deadline_run.simps split: option.splits)
qed

text \<open>\<open>PopExpired\<close> on an index that any operations built: when it returns a key, that key
  was due, no other key was due earlier, and exactly it is gone; when it returns nothing,
  every deadline lies in the future.
\<close>

theorem pop_expired_spec:
  "case idx_pop_expired (idx_run empty_index ops) now of
     None \<Rightarrow> \<forall>s\<in>ran (deadline_run (\<lambda>_. None) ops). now < s
   | Some (k, y) \<Rightarrow> \<exists>t\<le>now. deadline_run (\<lambda>_. None) ops k = Some t \<and>
                  (\<forall>s\<in>ran (deadline_run (\<lambda>_. None) ops). t \<le> s) \<and>
                  idx_deadlines y = (deadline_run (\<lambda>_. None) ops)(k := None)"
proof -
  let ?x = "idx_run empty_index ops"
  have ok: "index_ok ?x" and dl: "idx_deadlines ?x = deadline_run (\<lambda>_. None) ops"
    using idx_run_refines [of empty_index ops] by simp_all
  show ?thesis
  proof (cases "idx_pop_expired ?x now")
    case None
    then show ?thesis using ix.pop_None [OF ok] unfolding dl [symmetric] by (auto simp: ran_def)
  next
    case (Some p)
    obtain k y where p: "p = (k, y)" by (cases p)
    obtain t where t: "idx_first ?x = Some (k, t)" "t \<le> now"
      using Some p by (auto simp: ix.pop_eq split: option.splits if_splits)
    obtain t' where t': "idx_deadlines ?x k = Some t'" "idx_deadlines y = (idx_deadlines ?x)(k := None)"
      using ix.pop_Some [OF ok Some [unfolded p]] by blast
    then have "t' = t" using ix.first_Some [OF ok t(1)] by simp
    then show ?thesis
      using Some p t t' ix.first_least [OF ok t(1)] unfolding dl [symmetric] by (auto simp: ran_def)
  qed
qed

theorem pop_expired_spec_witness:
  "idx_pop_expired (idx_run empty_index [SetOp (1::nat) 9, SetOp 2 4]) 5 \<noteq> None"
proof -
  let ?ops = "[SetOp (1::nat) 9, SetOp 2 4]"
  have "deadline_run (\<lambda>_. None) ?ops 2 = Some 4" by simp
  then have "4 \<in> ran (deadline_run (\<lambda>_. None) ?ops)" by (rule ranI)
  then show ?thesis
    using pop_expired_spec [of ?ops 5] by (auto simp del: idx_run.simps deadline_run.simps split: option.splits)
qed

end
