(* ===== verification/Resolver.thy ===== *)
theory Resolver
  imports DnsConfig ExpiryIndex
begin

text \<open>
  The shared state of the DNS resolver, \<open>engine/internal/dns/resolver.go\<close>: the answer cache
  with its expiry index, the coalescing of concurrent lookups of one key, and the
  consecutive-failure counters of the encrypted-only policies.

  \<open>Resolve\<close> and \<open>runLookup\<close> hold the mutex in short sections; each section is one function
  here, and a run of the resolver is a sequence of them (\<open>flight_step\<close> in ResolverFacts). A
  \<open>*lookup\<close> is a number into the table of all calls ever started, so that two calls of one
  key stay different objects. The network part of a lookup, between the sections, is the
  theory ResolverPath; its result is the argument of \<open>finish_lookup\<close>.
\<close>

section \<open>Data\<close>

record dns_result =
  dr_addresses :: "string list"
  dr_domain :: string
  dr_address :: string
  dr_type :: "record_type option"
  dr_adapter :: string
  dr_transport :: string
  dr_server :: string
  dr_doh_path :: string
  dr_cached :: bool
  dr_expires :: "time option"

record query =
  qu_domain :: string
  qu_type :: string
  qu_binding :: binding
  qu_network_dns :: bool
  qu_legacy_dns :: bool

record cache_key =
  ck_adapter :: string
  ck_ip :: string
  ck_index :: int
  ck_ipv6 :: string
  ck_index6 :: int
  ck_servers :: string
  ck_network_dns :: bool
  ck_legacy_dns :: bool
  ck_domain :: string
  ck_type :: record_type

datatype resolve_error = BadBinding dns_error | BadName wire_error | LookupFailed string

record lookup =
  lo_key :: cache_key
  lo_waiters :: int
  lo_cancelled :: bool
  lo_done :: "(resolve_error + dns_result) option"

record resolver =
  rs_config :: dns_config
  rs_cache :: "cache_key \<Rightarrow> (dns_result \<times> time) option"
  rs_expiry :: "cache_key index"
  rs_inflight :: "cache_key \<Rightarrow> nat option"
  rs_calls :: "lookup list"
  rs_strict :: "string \<Rightarrow> int"
  rs_emitted :: "string \<Rightarrow> bool"
  rs_handler :: bool
  rs_queries :: nat
  rs_hits :: nat
  rs_doh_ok :: nat
  rs_doh_failed :: nat
  rs_dot_ok :: nat
  rs_dot_failed :: nat
  rs_legacy_ok :: nat
  rs_legacy_failed :: nat
  rs_fallbacks :: nat

definition new_resolver ::
  "(string \<Rightarrow> url option) \<Rightarrow> (string \<Rightarrow> string option) \<Rightarrow> dns_config \<Rightarrow> dns_error + resolver" where
  "new_resolver url_parse to_ascii config =
     (case normalize_dns_config url_parse to_ascii config of Inl e \<Rightarrow> Inl e
      | Inr c \<Rightarrow> Inr \<lparr>rs_config = c, rs_cache = (\<lambda>_. None), rs_expiry = empty_index, rs_inflight = (\<lambda>_. None),
                       rs_calls = [], rs_strict = (\<lambda>_. 0), rs_emitted = (\<lambda>_. False), rs_handler = False,
                       rs_queries = 0, rs_hits = 0, rs_doh_ok = 0, rs_doh_failed = 0, rs_dot_ok = 0,
                       rs_dot_failed = 0, rs_legacy_ok = 0, rs_legacy_failed = 0, rs_fallbacks = 0\<rparr>)"

definition set_fallback_handler :: "resolver \<Rightarrow> bool \<Rightarrow> resolver" where
  "set_fallback_handler r present = r\<lparr>rs_handler := present\<rparr>"

section \<open>The key of a query\<close>

definition nul :: string where
  "nul = [CHR 0x00]"

definition resolve_key :: "(string \<Rightarrow> string option) \<Rightarrow> query \<Rightarrow> resolve_error + cache_key \<times> binding" where
  "resolve_key to_ascii q =
     (case normalize_binding (qu_binding q) of Inl e \<Rightarrow> Inl (BadBinding e)
      | Inr b \<Rightarrow>
        (case dns_normalize_domain to_ascii (qu_domain q) of Inl e \<Rightarrow> Inl (BadName e)
         | Inr domain \<Rightarrow>
           (case normalize_record_type (qu_type q) of Inl e \<Rightarrow> Inl (BadName e)
            | Inr (rtype, _) \<Rightarrow>
                Inr (\<lparr>ck_adapter = db_name b, ck_ip = db_ip b, ck_index = db_index b, ck_ipv6 = db_ipv6 b,
                      ck_index6 = db_index6 b, ck_servers = join_with nul (db_servers b),
                      ck_network_dns = qu_network_dns q, ck_legacy_dns = qu_legacy_dns q,
                      ck_domain = domain, ck_type = rtype\<rparr>, b))))"

definition dns_binding_key :: "binding \<Rightarrow> string" where
  "dns_binding_key b =
     db_name b @ nul @ db_ip b @ nul @ itoa (db_index b) @ nul @ db_ipv6 b @ nul @ itoa (db_index6 b) @ nul @
     join_with nul (db_servers b)"

section \<open>The cache\<close>

definition remove_expired :: "resolver \<Rightarrow> time \<Rightarrow> resolver" where
  "remove_expired r now =
     (let (x, m) = expire_loop (idx_len (rs_expiry r)) now (rs_expiry r) (rs_cache r)
      in r\<lparr>rs_cache := m, rs_expiry := x\<rparr>)"

text \<open>
  The loop of \<open>makeCacheRoomLocked\<close>; \<open>len(r.cache)\<close> is the number of keys of the map. It takes
  one entry of the index per round, so the size of the index is fuel enough.
\<close>

fun room_loop :: "nat \<Rightarrow> int \<Rightarrow> 'k index \<Rightarrow> ('k \<Rightarrow> 'v option) \<Rightarrow> 'k index \<times> ('k \<Rightarrow> 'v option)" where
  "room_loop 0 maximum x m = (x, m)"
| "room_loop (Suc f) maximum x m =
     (if int (card (dom m)) < maximum then (x, m)
      else case idx_first x of None \<Rightarrow> (x, m)
        | Some (k, _) \<Rightarrow> room_loop f maximum (idx_delete x k) (m(k := None)))"

definition make_cache_room :: "resolver \<Rightarrow> time \<Rightarrow> resolver" where
  "make_cache_room r now =
     (let r1 = remove_expired r now;
          (x, m) = room_loop (idx_len (rs_expiry r1)) (dc_max_cache (rs_config r1)) (rs_expiry r1) (rs_cache r1)
      in r1\<lparr>rs_cache := m, rs_expiry := x\<rparr>)"

section \<open>Resolve and runLookup\<close>

datatype begun = Hit dns_result | Wait nat

text \<open>Joining the call in flight, or starting one.\<close>

definition join_call :: "resolver \<Rightarrow> cache_key \<Rightarrow> resolver \<times> begun" where
  "join_call r key =
     (case rs_inflight r key of
        Some c \<Rightarrow> (r\<lparr>rs_calls := (rs_calls r)[c := (rs_calls r ! c)\<lparr>lo_waiters := lo_waiters (rs_calls r ! c) + 1\<rparr>]\<rparr>, Wait c)
      | None \<Rightarrow> (r\<lparr>rs_inflight := (rs_inflight r)(key := Some (length (rs_calls r))),
                   rs_calls := rs_calls r @ [\<lparr>lo_key = key, lo_waiters = 1, lo_cancelled = False, lo_done = None\<rparr>]\<rparr>,
                 Wait (length (rs_calls r))))"

text \<open>The locked section of \<open>Resolve\<close>, from the cache lookup to \<open>call.waiters++\<close>.\<close>

definition begin_resolve :: "resolver \<Rightarrow> cache_key \<Rightarrow> time \<Rightarrow> resolver \<times> begun" where
  "begin_resolve r0 key now =
     (let r = r0\<lparr>rs_queries := rs_queries r0 + 1\<rparr> in
      case rs_cache r key of
        Some (result, expires) \<Rightarrow>
          if now < expires
          then (r\<lparr>rs_hits := rs_hits r + 1\<rparr>, Hit (result\<lparr>dr_cached := True\<rparr>))
          else join_call (r\<lparr>rs_cache := (rs_cache r)(key := None), rs_expiry := idx_delete (rs_expiry r) key\<rparr>) key
      | None \<Rightarrow> join_call r key)"

text \<open>The deferred function of \<open>Resolve\<close>: the caller stops waiting for its call.\<close>

definition leave_call :: "resolver \<Rightarrow> nat \<Rightarrow> resolver" where
  "leave_call r c =
     (let call = rs_calls r ! c; call1 = call\<lparr>lo_waiters := lo_waiters call - 1\<rparr> in
      if lo_waiters call1 = 0
      then r\<lparr>rs_calls := (rs_calls r)[c := call1\<lparr>lo_cancelled := True\<rparr>],
             rs_inflight := (if rs_inflight r (lo_key call) = Some c
                             then (rs_inflight r)(lo_key call := None) else rs_inflight r)\<rparr>
      else r\<lparr>rs_calls := (rs_calls r)[c := call1]\<rparr>)"

text \<open>
  The end of \<open>runLookup\<close>. \<open>now1\<close> is the clock when the deadline is computed, \<open>now2\<close> the one
  the cache is trimmed with.
\<close>

definition stamp_result :: "resolver \<Rightarrow> cache_key \<Rightarrow> dns_result \<Rightarrow> duration \<Rightarrow> time \<Rightarrow> dns_result" where
  "stamp_result r key result ttl now =
     (let ttl' = (if ttl > dc_cache_ttl (rs_config r) then dc_cache_ttl (rs_config r) else ttl)
      in result\<lparr>dr_domain := ck_domain key, dr_type := Some (ck_type key), dr_adapter := ck_adapter key,
                dr_expires := (if ttl' > 0 then Some (now + ttl') else dr_expires result)\<rparr>)"

definition finish_lookup ::
  "resolver \<Rightarrow> nat \<Rightarrow> resolve_error + dns_result \<times> duration \<Rightarrow> time \<Rightarrow> time \<Rightarrow> resolver" where
  "finish_lookup r c outcome now1 now2 =
     (let key = lo_key (rs_calls r ! c);
          final = (case outcome of Inl e \<Rightarrow> Inl e | Inr (result, ttl) \<Rightarrow> Inr (stamp_result r key result ttl now1));
          r1 = (case final of
              Inr result \<Rightarrow>
                (case dr_expires result of
                   Some t \<Rightarrow>
                     (let room = make_cache_room r now2
                      in room\<lparr>rs_cache := (rs_cache room)(key := Some (result, t)),
                              rs_expiry := idx_set (rs_expiry room) key t\<rparr>)
                 | None \<Rightarrow> r)
            | Inl _ \<Rightarrow> r)
      in r1\<lparr>rs_calls := (rs_calls r1)[c := (rs_calls r1 ! c)\<lparr>lo_done := Some final, lo_cancelled := True\<rparr>],
            rs_inflight := (if rs_inflight r1 key = Some c then (rs_inflight r1)(key := None) else rs_inflight r1)\<rparr>)"

record dns_status =
  ds_policy :: string
  ds_legacy :: "string list"
  ds_doh_endpoints :: "endpoint list"
  ds_dot_endpoints :: "endpoint list"
  ds_cache :: nat
  ds_inflight :: nat
  ds_queries :: nat
  ds_hits :: nat
  ds_doh :: "nat \<times> nat"
  ds_dot :: "nat \<times> nat"
  ds_legacy_counts :: "nat \<times> nat"
  ds_fallbacks :: nat

definition resolver_status ::
  "(string \<Rightarrow> url option) \<Rightarrow> (string \<Rightarrow> string option) \<Rightarrow> resolver \<Rightarrow> time \<Rightarrow> resolver \<times> dns_status" where
  "resolver_status url_parse to_ascii r now =
     (let r1 = remove_expired r now
      in (r1, \<lparr>ds_policy = dc_policy (rs_config r1), ds_legacy = dc_legacy (rs_config r1),
               ds_doh_endpoints = config_endpoints url_parse to_ascii (rs_config r1),
               ds_dot_endpoints = config_dot_endpoints url_parse to_ascii (rs_config r1),
               ds_cache = card (dom (rs_cache r1)), ds_inflight = card (dom (rs_inflight r1)),
               ds_queries = rs_queries r1, ds_hits = rs_hits r1, ds_doh = (rs_doh_ok r1, rs_doh_failed r1),
               ds_dot = (rs_dot_ok r1, rs_dot_failed r1), ds_legacy_counts = (rs_legacy_ok r1, rs_legacy_failed r1),
               ds_fallbacks = rs_fallbacks r1\<rparr>))"

section \<open>Failures of an encrypted-only policy\<close>

record fallback_event =
  fe_adapter :: string
  fe_policy :: string
  fe_reason :: string

definition limit_text :: "string \<Rightarrow> nat \<Rightarrow> string" where
  "limit_text v maximum = (let t = trim_space v in if length t \<le> maximum then t else take maximum t)"

definition record_doh_success :: "resolver \<Rightarrow> binding \<Rightarrow> resolver" where
  "record_doh_success r b =
     r\<lparr>rs_strict := (rs_strict r)(dns_binding_key b := 0), rs_emitted := (rs_emitted r)(dns_binding_key b := False)\<rparr>"

definition record_strict_failure :: "resolver \<Rightarrow> binding \<Rightarrow> string \<Rightarrow> resolver \<times> fallback_event option" where
  "record_strict_failure r b failure =
     (if dc_policy (rs_config r) = policy_custom \<or> dc_policy (rs_config r) = policy_dot then (r, None)
      else
        let key = dns_binding_key b; n = rs_strict r key + 1; r1 = r\<lparr>rs_strict := (rs_strict r)(key := n)\<rparr> in
        if n \<ge> dc_failure_threshold (rs_config r) \<and> \<not> rs_emitted r key
        then (r1\<lparr>rs_emitted := (rs_emitted r)(key := True)\<rparr>,
              if rs_handler r
              then Some \<lparr>fe_adapter = db_name b, fe_policy = dc_policy (rs_config r), fe_reason = limit_text failure 512\<rparr>
              else None)
        else (r1, None))"

end
