(* ===== verification/WireQuery.thy ===== *)
theory WireQuery
  imports Resolver
begin

text \<open>
  Single DNS queries: \<open>queryUDP\<close>, \<open>queryTCP\<close> and the wire half of \<open>queryDoH\<close> of
  \<open>engine/internal/dns/resolver.go\<close>, and \<open>queryDoT\<close> with \<open>exchangeDoT\<close> of \<open>dot.go\<close>, each from
  the packet it builds to the result it reads out of the reply.

  What the network, the clock and the random generator do is the environment. It may answer
  differently at every point of a run, since it sees the queries sent before (the trace): the
  bytes that come back (None for any failure to dial, write or read, or for a failed
  handshake), whether a context has ended, and what the DoT pool has to offer. A query is in
  the trace from the moment the code starts to send it.
\<close>

section \<open>Environment\<close>

datatype wire_query =
    PlainQuery bool string string u16 binding bytes
  | DohQuery endpoint string u16 binding bytes
  | DotQuery endpoint string u16 binding bytes

type_synonym trace = "wire_query list"

datatype path_error = NoServer | NoEndpoint | ContextEnded | AllFailed | BootstrapFailed

type_synonym answer = "dns_result \<times> duration"
type_synonym outcome = "path_error + answer"

datatype timer = NetworkTimer | DohTimer | BatchTimer | BootstrapTimer

record http_reply =
  hr_status :: int
  hr_content_type :: string
  hr_body :: bytes

text \<open>What a DoT query finds in the pool of its endpoint.\<close>

datatype dot_slot = PoolClosed | FreshConnection | IdleConnection

record net_env =
  ev_url :: "string \<Rightarrow> url option"
  ev_ascii :: "string \<Rightarrow> string option"
  ev_media :: "string \<Rightarrow> string option"
  ev_id :: "trace \<Rightarrow> u16 option"
  ev_reply :: "trace \<Rightarrow> wire_query \<Rightarrow> bytes option"
  ev_http :: "trace \<Rightarrow> wire_query \<Rightarrow> http_reply option"
  ev_slot :: "trace \<Rightarrow> endpoint \<Rightarrow> binding \<Rightarrow> dot_slot"
  ev_dead :: "trace \<Rightarrow> bool"
  ev_expired :: "timer \<Rightarrow> trace \<Rightarrow> bool"
  ev_arrivals :: "trace \<Rightarrow> nat list"
  ev_now :: "trace \<Rightarrow> time"
  ev_joined :: "trace \<Rightarrow> cache_key \<Rightarrow> dns_result option"

text \<open>Inside a context derived with a timeout, the context may also have ended by its timer.\<close>

definition within_timer :: "timer \<Rightarrow> net_env \<Rightarrow> net_env" where
  "within_timer t env = env\<lparr>ev_dead := (\<lambda>tr. ev_dead env tr \<or> ev_expired env t tr)\<rparr>"

record path =
  pa_resolver :: resolver
  pa_trace :: trace
  pa_events :: "fallback_event list"

definition send :: "path \<Rightarrow> wire_query \<Rightarrow> path" where
  "send p q = p\<lparr>pa_trace := pa_trace p @ [q]\<rparr>"

definition on_resolver :: "(resolver \<Rightarrow> resolver) \<Rightarrow> path \<Rightarrow> path" where
  "on_resolver f p = p\<lparr>pa_resolver := f (pa_resolver p)\<rparr>"

section \<open>Replies\<close>

abbreviation (input) max_dns_message_bytes :: nat where "max_dns_message_bytes \<equiv> 65536"

definition wire_result :: "u16 \<Rightarrow> u16 \<Rightarrow> string \<Rightarrow> string \<Rightarrow> string \<Rightarrow> bytes \<Rightarrow> answer option" where
  "wire_result qid rtype transport server path response =
     (case parse_response response qid rtype of
        Inl _ \<Rightarrow> None
      | Inr w \<Rightarrow> Some (\<lparr>dr_addresses = wa_addresses w, dr_domain = '''', dr_address = wa_address w, dr_type = None,
                       dr_adapter = '''', dr_transport = transport, dr_server = server, dr_doh_path = path,
                       dr_cached = False, dr_expires = None\<rparr>, wa_ttl w))"

text \<open>A message after its length, from a byte stream that ends where reading fails.\<close>

definition read_frame :: "nat \<Rightarrow> bytes \<Rightarrow> bytes option" where
  "read_frame minimum s =
     (case get16 s 0 of
        None \<Rightarrow> None
      | Some n \<Rightarrow> if unat n < minimum \<or> unat n > max_dns_message_bytes then None else slice s 2 (2 + unat n))"

section \<open>Traditional DNS\<close>

definition query_udp :: "net_env \<Rightarrow> string \<Rightarrow> u16 \<Rightarrow> binding \<Rightarrow> string \<Rightarrow> path \<Rightarrow> path \<times> answer option" where
  "query_udp env domain rtype b server p =
     (case build_query (ev_ascii env) (ev_id env (pa_trace p)) domain rtype of
        Inl _ \<Rightarrow> (p, None)
      | Inr (packet, qid) \<Rightarrow>
          let q = PlainQuery False server domain rtype b packet in
          (send p q, Option.bind (ev_reply env (pa_trace p) q) (\<lambda>response.
             wire_result qid rtype ''udp'' (join_host_port server ''53'') '''' (take 4096 response))))"

definition query_tcp :: "net_env \<Rightarrow> string \<Rightarrow> u16 \<Rightarrow> binding \<Rightarrow> string \<Rightarrow> path \<Rightarrow> path \<times> answer option" where
  "query_tcp env domain rtype b server p =
     (case build_query (ev_ascii env) (ev_id env (pa_trace p)) domain rtype of
        Inl _ \<Rightarrow> (p, None)
      | Inr (packet, qid) \<Rightarrow>
          let q = PlainQuery True server domain rtype b packet in
          (send p q, Option.bind (ev_reply env (pa_trace p) q) (\<lambda>stream.
             Option.bind (read_frame 1 stream) (wire_result qid rtype ''tcp'' (join_host_port server ''53'') ''''))))"

section \<open>DNS over HTTPS\<close>

definition endpoint_address :: "endpoint \<Rightarrow> string" where
  "endpoint_address e = join_host_port (ep_ip e) (endpoint_port e)"

definition doh_result :: "net_env \<Rightarrow> u16 \<Rightarrow> u16 \<Rightarrow> endpoint \<Rightarrow> http_reply \<Rightarrow> answer option" where
  "doh_result env qid rtype e r =
     (let content_type = trim_space (hr_content_type r); body = take (max_dns_message_bytes + 1) (hr_body r) in
      if hr_status r \<noteq> 200 then None
      else if content_type \<noteq> '''' \<and> (case ev_media env content_type of
                None \<Rightarrow> True | Some media \<Rightarrow> to_lower media \<noteq> ''application/dns-message'') then None
      else if length body > max_dns_message_bytes then None
      else wire_result qid rtype ''doh'' (ep_host e @ ''@'' @ endpoint_address e) (ep_path e) body)"

text \<open>A query to an endpoint with an address.\<close>

definition direct_doh :: "net_env \<Rightarrow> string \<Rightarrow> u16 \<Rightarrow> binding \<Rightarrow> endpoint \<Rightarrow> path \<Rightarrow> path \<times> outcome" where
  "direct_doh env domain rtype b e p =
     (case build_query (ev_ascii env) (ev_id env (pa_trace p)) domain rtype of
        Inl _ \<Rightarrow> (p, Inl AllFailed)
      | Inr (packet, qid) \<Rightarrow>
          let q = DohQuery e domain rtype b packet in
          (send p q, case Option.bind (ev_http env (pa_trace p) q) (doh_result env qid rtype e) of
                       Some a \<Rightarrow> Inr a | None \<Rightarrow> Inl AllFailed))"

section \<open>DNS over TLS\<close>

text \<open>\<open>exchangeDoT\<close>, and the result of a successful exchange.\<close>

definition exchange_dot :: "u16 \<Rightarrow> u16 \<Rightarrow> endpoint \<Rightarrow> bytes \<Rightarrow> answer option" where
  "exchange_dot qid rtype e stream =
     Option.bind (read_frame 12 stream) (wire_result qid rtype ''dot'' (ep_host e @ ''@'' @ endpoint_address e) '''')"

text \<open>The attempts that are left; the code makes two, the second only after a reused connection failed.\<close>

fun dot_attempts ::
  "nat \<Rightarrow> net_env \<Rightarrow> string \<Rightarrow> u16 \<Rightarrow> binding \<Rightarrow> endpoint \<Rightarrow> bytes \<Rightarrow> u16 \<Rightarrow> path \<Rightarrow> path \<times> outcome" where
  "dot_attempts 0 env domain rtype b e packet qid p = (p, Inl AllFailed)"
| "dot_attempts (Suc n) env domain rtype b e packet qid p =
     (let slot = ev_slot env (pa_trace p) e b; reused = (slot = IdleConnection) in
      if ev_dead env (pa_trace p) \<or> slot = PoolClosed then (p, Inl ContextEnded)
      else if \<not> reused \<and> \<not> supports_endpoint b (ep_ip e) then (p, Inl NoEndpoint)
      else
        let q = DotQuery e domain rtype b packet; p1 = send p q; dead = ev_dead env (pa_trace p1) in
        case (if dead then None else Option.bind (ev_reply env (pa_trace p) q) (exchange_dot qid rtype e)) of
          Some a \<Rightarrow> (p1, Inr a)
        | None \<Rightarrow>
            if \<not> reused \<or> dead \<or> n = 0 then (p1, Inl (if dead then ContextEnded else AllFailed))
            else dot_attempts n env domain rtype b e packet qid p1)"

definition direct_dot :: "net_env \<Rightarrow> string \<Rightarrow> u16 \<Rightarrow> binding \<Rightarrow> endpoint \<Rightarrow> path \<Rightarrow> path \<times> outcome" where
  "direct_dot env domain rtype b e p =
     (case build_query (ev_ascii env) (ev_id env (pa_trace p)) domain rtype of
        Inl _ \<Rightarrow> (p, Inl AllFailed)
      | Inr (packet, qid) \<Rightarrow> dot_attempts 2 env domain rtype b e packet qid p)"

end
