(* ===== verification/ResolverPath.thy ===== *)
theory ResolverPath
  imports WireQuery
begin

text \<open>
  The network part of a lookup, from \<open>resolveUncached\<close> of \<open>engine/internal/dns/resolver.go\<close>
  down to the single queries of WireQuery, with the hostname bootstrap of \<open>custom_doh.go\<close> and
  the DoT batches of \<open>dot.go\<close>. Every function threads a \<open>path\<close>: the resolver, the list of
  the queries sent so far, and the fallback events raised.

  Concurrent queries are listed in launch order; all queries of a batch are launched before
  the first outcome is read, so the trace holds every query that is sent. The environment
  chooses the order in which their outcomes arrive, which may be cut short when the context
  ends first, and the result of a lookup another caller has in flight. The contexts that the
  functions derive with a timeout (half of the remaining budget for the network's own
  servers, for the DoH attempt of the automatic policy and for a bootstrap, an equal share
  for a batch) may end before the lookup's own: \<open>ev_expired\<close> says when.
\<close>

section \<open>Traditional DNS\<close>

fun legacy_loop :: "net_env \<Rightarrow> string \<Rightarrow> u16 \<Rightarrow> binding \<Rightarrow> string list \<Rightarrow> path \<Rightarrow> path \<times> answer option" where
  "legacy_loop env domain rtype b [] p = (p, None)"
| "legacy_loop env domain rtype b (server # servers) p =
     (case query_udp env domain rtype b server p of
        (p1, Some a) \<Rightarrow> (p1, Some a)
      | (p1, None) \<Rightarrow>
          (case query_tcp env domain rtype b server p1 of
             (p2, Some a) \<Rightarrow> (p2, Some a)
           | (p2, None) \<Rightarrow> if ev_dead env (pa_trace p2) then (p2, None)
                           else legacy_loop env domain rtype b servers p2))"

definition resolve_legacy_using ::
  "net_env \<Rightarrow> string \<Rightarrow> u16 \<Rightarrow> binding \<Rightarrow> string list \<Rightarrow> path \<Rightarrow> path \<times> outcome" where
  "resolve_legacy_using env domain rtype b servers p =
     (if servers = [] then (p, Inl NoServer)
      else case legacy_loop env domain rtype b servers p of
        (p1, Some a) \<Rightarrow> (on_resolver (\<lambda>r. r\<lparr>rs_legacy_ok := rs_legacy_ok r + 1\<rparr>) p1, Inr a)
      | (p1, None) \<Rightarrow>
          if ev_dead env (pa_trace p1) then (p1, Inl ContextEnded)
          else (on_resolver (\<lambda>r. r\<lparr>rs_legacy_failed := rs_legacy_failed r + 1\<rparr>) p1, Inl AllFailed))"

definition resolve_legacy :: "net_env \<Rightarrow> string \<Rightarrow> u16 \<Rightarrow> binding \<Rightarrow> path \<Rightarrow> path \<times> outcome" where
  "resolve_legacy env domain rtype b p =
     resolve_legacy_using env domain rtype b (legacy_servers (rs_config (pa_resolver p)) b) p"

definition network_dns_servers :: "binding \<Rightarrow> string list" where
  "network_dns_servers b = filter (supports_endpoint b) (db_servers b)"

section \<open>Batches of encrypted queries\<close>

text \<open>
  The outcome of a batch: the first success among the outcomes that arrive. When fewer arrive
  than were launched, the context of the batch has ended.
\<close>

fun first_success :: "nat list \<Rightarrow> outcome list \<Rightarrow> answer option" where
  "first_success [] outs = None"
| "first_success (i # is) outs =
     (if i < length outs
      then case outs ! i of Inr a \<Rightarrow> Some a | Inl _ \<Rightarrow> first_success is outs
      else first_success is outs)"

type_synonym ask_endpoint = "endpoint \<Rightarrow> path \<Rightarrow> path \<times> outcome"

fun launch :: "ask_endpoint \<Rightarrow> endpoint list \<Rightarrow> path \<Rightarrow> path \<times> outcome list" where
  "launch ask [] p = (p, [])"
| "launch ask (e # es) p =
     (let (p1, out) = ask e p; (p2, outs) = launch ask es p1 in (p2, out # outs))"

function batch_loop :: "net_env \<Rightarrow> ask_endpoint \<Rightarrow> endpoint list \<Rightarrow> path \<Rightarrow> path \<times> answer option" where
  "batch_loop env ask es p =
     (if es = [] then (p, None)
      else let (p1, outs) = launch ask (take 2 es) p in
        case first_success (ev_arrivals env (pa_trace p1)) outs of
          Some a \<Rightarrow> (p1, Some a)
        | None \<Rightarrow> if ev_dead env (pa_trace p1) then (p1, None) else batch_loop env ask (drop 2 es) p1)"
  by pat_completeness auto
termination by (relation "measure (\<lambda>(env, ask, es, p). length es)") (auto simp: neq_Nil_conv)

declare batch_loop.simps [simp del]

definition resolve_doh_endpoints :: "net_env \<Rightarrow> ask_endpoint \<Rightarrow> endpoint list \<Rightarrow> path \<Rightarrow> path \<times> outcome" where
  "resolve_doh_endpoints env ask es p =
     (case batch_loop env ask es p of
        (p1, Some a) \<Rightarrow> (on_resolver (\<lambda>r. r\<lparr>rs_doh_ok := rs_doh_ok r + 1\<rparr>) p1, Inr a)
      | (p1, None) \<Rightarrow> (p1, Inl AllFailed))"

definition usable_endpoints :: "binding \<Rightarrow> endpoint list \<Rightarrow> endpoint list" where
  "usable_endpoints b es = filter (\<lambda>e. ep_ip e = '''' \<or> supports_endpoint b (ep_ip e)) es"

definition resolve_dot_endpoints :: "net_env \<Rightarrow> ask_endpoint \<Rightarrow> binding \<Rightarrow> endpoint list \<Rightarrow> path \<Rightarrow> path \<times> outcome" where
  "resolve_dot_endpoints env ask b configured p =
     (let es = usable_endpoints b configured in
      if es = [] then (p, Inl NoEndpoint)
      else case batch_loop env ask es p of
        (p1, Some a) \<Rightarrow> (p1, Inr a)
      | (p1, None) \<Rightarrow> (p1, Inl (if ev_dead env (pa_trace p1) then ContextEnded else AllFailed)))"

section \<open>Hostname bootstrap\<close>

text \<open>
  The nested \<open>Resolve\<close> of a bootstrap: the cache, the lookup another caller has in flight, or
  a lookup of its own, which is a traditional one since \<open>LegacyDNS\<close> is set.
\<close>

definition wire_type :: "record_type \<Rightarrow> u16" where
  "wire_type t = (case t of RecordA \<Rightarrow> 1 | RecordAAAA \<Rightarrow> 28)"

definition type_text :: "record_type \<Rightarrow> string" where
  "type_text t = (case t of RecordA \<Rightarrow> ''A'' | RecordAAAA \<Rightarrow> ''AAAA'')"

definition nested_resolve :: "net_env \<Rightarrow> string \<Rightarrow> record_type \<Rightarrow> binding \<Rightarrow> path \<Rightarrow> path \<times> dns_result option" where
  "nested_resolve env host kind b p =
     (case resolve_key (ev_ascii env) \<lparr>qu_domain = host, qu_type = type_text kind, qu_binding = b,
             qu_network_dns = False, qu_legacy_dns = True\<rparr> of
        Inl _ \<Rightarrow> (p, None)
      | Inr (key, b') \<Rightarrow>
          let own = (rs_inflight (pa_resolver p) key = None);
              (r1, out) = begin_resolve (pa_resolver p) key (ev_now env (pa_trace p));
              p1 = p\<lparr>pa_resolver := r1\<rparr>
          in case out of
               Hit result \<Rightarrow> (p1, Some result)
             | Wait c \<Rightarrow>
                 if \<not> own then (on_resolver (\<lambda>r. leave_call r c) p1, ev_joined env (pa_trace p1) key)
                 else let (p2, outcome) = resolve_legacy env (ck_domain key) (wire_type kind) b' p1;
                          now = ev_now env (pa_trace p2);
                          final = (case outcome of Inl _ \<Rightarrow> Inl (LookupFailed ''lookup'') | Inr a \<Rightarrow> Inr a)
                      in (on_resolver (\<lambda>r. leave_call (finish_lookup r c final now now) c) p2,
                          case outcome of Inl _ \<Rightarrow> None | Inr (result, _) \<Rightarrow> Some result))"

definition bootstrap_types :: "binding \<Rightarrow> record_type list" where
  "bootstrap_types b =
     (if db_ip b \<noteq> '''' then [RecordA] else []) @ (if db_ipv6 b \<noteq> '''' then [RecordAAAA] else [])"

text \<open>The two lookups run concurrently; their outcomes are read in the order of arrival.\<close>

fun bootstrap_lookups :: "net_env \<Rightarrow> string \<Rightarrow> binding \<Rightarrow> record_type list \<Rightarrow> path \<Rightarrow> path \<times> string list list" where
  "bootstrap_lookups env host b [] p = (p, [])"
| "bootstrap_lookups env host b (kind # kinds) p =
     (let (p1, result) = nested_resolve env host kind b p;
          (p2, rest) = bootstrap_lookups env host b kinds p1
      in (p2, (case result of None \<Rightarrow> [] | Some x \<Rightarrow> dr_addresses x) # rest))"

definition query_bootstrapped ::
  "net_env \<Rightarrow> binding \<Rightarrow> (endpoint list \<Rightarrow> path \<Rightarrow> path \<times> outcome) \<Rightarrow> endpoint \<Rightarrow> path \<Rightarrow> path \<times> outcome" where
  "query_bootstrapped env b resolve e p =
     (let (p1, found) = bootstrap_lookups (within_timer BootstrapTimer env) (ep_host e) b (bootstrap_types b) p;
          arrived = (if ev_arrivals env (pa_trace p1) = [1, 0] then rev found else found);
          es = map (\<lambda>a. e\<lparr>ep_ip := a\<rparr>) (filter (supports_endpoint b) (concat arrived))
      in if es = [] then (p1, Inl BootstrapFailed) else resolve es p1)"

section \<open>DoH and DoT\<close>

text \<open>An endpoint without an address is bootstrapped. The queries run in the context of a batch.\<close>

definition query_doh :: "net_env \<Rightarrow> string \<Rightarrow> u16 \<Rightarrow> binding \<Rightarrow> ask_endpoint" where
  "query_doh env domain rtype b e p =
     (let batch = within_timer BatchTimer env in
      if ep_ip e = '''' then query_bootstrapped batch b (resolve_doh_endpoints batch (direct_doh batch domain rtype b)) e p
      else direct_doh batch domain rtype b e p)"

definition query_dot :: "net_env \<Rightarrow> string \<Rightarrow> u16 \<Rightarrow> binding \<Rightarrow> ask_endpoint" where
  "query_dot env domain rtype b e p =
     (let batch = within_timer BatchTimer env in
      if ep_ip e = '''' then query_bootstrapped batch b (resolve_dot_endpoints batch (direct_dot batch domain rtype b) b) e p
      else direct_dot batch domain rtype b e p)"

definition doh_pub :: "string \<Rightarrow> endpoint" where
  "doh_pub address = \<lparr>ep_ip = address, ep_host = ''doh.pub'', ep_path = ''/dns-query'', ep_port = 0\<rparr>"

text \<open>The IPv6 half of \<open>resolveDNSPodDualStack\<close>.\<close>

definition dnspod_bootstrap :: "net_env \<Rightarrow> string \<Rightarrow> u16 \<Rightarrow> binding \<Rightarrow> path \<Rightarrow> path \<times> outcome" where
  "dnspod_bootstrap env domain rtype b p =
     (let v6 = b\<lparr>db_ip := ''''\<rparr> in
      case resolve_legacy (within_timer BootstrapTimer env) ''doh.pub'' dns_type_aaaa v6 p of
        (p1, Inl _) \<Rightarrow> (p1, Inl BootstrapFailed)
      | (p1, Inr (result, _)) \<Rightarrow>
          let es = take 8 (map doh_pub (filter (supports_endpoint v6) (dr_addresses result))) in
          if es = [] then (p1, Inl BootstrapFailed)
          else resolve_doh_endpoints env (query_doh env domain rtype b) es p1)"

text \<open>Both halves run concurrently; the first success to arrive wins.\<close>

definition resolve_dnspod_dual_stack ::
  "net_env \<Rightarrow> string \<Rightarrow> u16 \<Rightarrow> binding \<Rightarrow> endpoint list \<Rightarrow> path \<Rightarrow> path \<times> outcome" where
  "resolve_dnspod_dual_stack env domain rtype b es p =
     (let (p1, first) = (if es \<noteq> [] then (let (q, out) = resolve_doh_endpoints env (query_doh env domain rtype b) es p
                                           in (q, [out])) else (p, []));
          (p2, second) = dnspod_bootstrap env domain rtype b p1
      in case first_success (ev_arrivals env (pa_trace p2)) (first @ [second]) of
           Some a \<Rightarrow> (p2, Inr a)
         | None \<Rightarrow> (p2, Inl (if ev_dead env (pa_trace p2) then ContextEnded else AllFailed)))"

definition resolve_doh :: "net_env \<Rightarrow> string \<Rightarrow> u16 \<Rightarrow> binding \<Rightarrow> path \<Rightarrow> path \<times> outcome" where
  "resolve_doh env domain rtype b p =
     (let c = rs_config (pa_resolver p);
          es = usable_endpoints b (config_endpoints (ev_url env) (ev_ascii env) c)
      in if db_ipv6 b \<noteq> '''' \<and> dc_policy c = policy_dnspod then resolve_dnspod_dual_stack env domain rtype b es p
         else if es = [] then (p, Inl NoEndpoint)
         else resolve_doh_endpoints env (query_doh env domain rtype b) es p)"

definition resolve_dot :: "net_env \<Rightarrow> string \<Rightarrow> u16 \<Rightarrow> binding \<Rightarrow> path \<Rightarrow> path \<times> outcome" where
  "resolve_dot env domain rtype b p =
     resolve_dot_endpoints env (query_dot env domain rtype b) b
       (config_dot_endpoints (ev_url env) (ev_ascii env) (rs_config (pa_resolver p))) p"

section \<open>The policies\<close>

definition strict_failure :: "binding \<Rightarrow> path \<Rightarrow> path" where
  "strict_failure b p =
     (let (r, e) = record_strict_failure (pa_resolver p) b ''DoH''
      in p\<lparr>pa_resolver := r, pa_events := pa_events p @ (case e of None \<Rightarrow> [] | Some x \<Rightarrow> [x])\<rparr>)"

text \<open>The automatic policy leaves half of the budget to traditional DNS.\<close>

definition doh_env :: "string \<Rightarrow> net_env \<Rightarrow> net_env" where
  "doh_env policy env = (if policy = policy_auto then within_timer DohTimer env else env)"

definition resolve_uncached :: "net_env \<Rightarrow> string \<Rightarrow> record_type \<Rightarrow> binding \<Rightarrow> path \<Rightarrow> path \<times> outcome" where
  "resolve_uncached env domain kind b p =
     (let rtype = wire_type kind; policy = dc_policy (rs_config (pa_resolver p)) in
      if policy = policy_dot then
        (case resolve_dot env domain rtype b p of
           (p1, Inl e) \<Rightarrow> (on_resolver (\<lambda>r. r\<lparr>rs_dot_failed := rs_dot_failed r + 1\<rparr>) p1, Inl e)
         | (p1, Inr a) \<Rightarrow> (on_resolver (\<lambda>r. r\<lparr>rs_dot_ok := rs_dot_ok r + 1\<rparr>) p1, Inr a))
      else
        let (p1, network) =
          (if policy = policy_auto \<and> db_ip b = '''' \<and> db_servers b \<noteq> []
           then (let (q, out) = resolve_legacy_using (within_timer NetworkTimer env) domain rtype b (network_dns_servers b) p
                 in (q, case out of Inr a \<Rightarrow> Some (Inr a)
                        | Inl _ \<Rightarrow> if ev_dead env (pa_trace q) then Some (Inl ContextEnded) else None))
           else (p, None))
        in case network of Some out \<Rightarrow> (p1, out)
        | None \<Rightarrow>
            if policy \<noteq> policy_off \<and> policy \<noteq> policy_system then
              (case resolve_doh (doh_env policy env) domain rtype b p1 of
                 (p2, Inr a) \<Rightarrow> (on_resolver (\<lambda>r. record_doh_success r b) p2, Inr a)
               | (p2, Inl e) \<Rightarrow>
                   if ev_dead env (pa_trace p2) then (p2, Inl ContextEnded)
                   else
                     let p3 = on_resolver (\<lambda>r. r\<lparr>rs_doh_failed := rs_doh_failed r + 1\<rparr>) p2 in
                     if policy \<noteq> policy_auto then (strict_failure b p3, Inl e)
                     else resolve_legacy env domain rtype b
                            (on_resolver (\<lambda>r. r\<lparr>rs_fallbacks := rs_fallbacks r + 1\<rparr>) p3))
            else resolve_legacy env domain rtype b p1)"

text \<open>The first half of \<open>runLookup\<close>: which path a key takes.\<close>

definition lookup_path :: "net_env \<Rightarrow> cache_key \<Rightarrow> binding \<Rightarrow> path \<Rightarrow> path \<times> outcome" where
  "lookup_path env key b p =
     (if ck_legacy_dns key then resolve_legacy env (ck_domain key) (wire_type (ck_type key)) b p
      else if ck_network_dns key
      then resolve_legacy_using env (ck_domain key) (wire_type (ck_type key)) b (network_dns_servers b) p
      else resolve_uncached env (ck_domain key) (ck_type key) b p)"

end
