(* ===== verification/DnsConfigFacts.thy ===== *)
theory DnsConfigFacts
  imports DnsConfig
begin

text \<open>
  What the normalisation of the DNS configuration and of a binding guarantees, and that
  the two together always leave traditional DNS a server the binding can reach.
\<close>

section \<open>Lists without duplicates\<close>

lemma add_new_simps [simp]:
  "set (add_new xs x) = insert x (set xs)" "distinct (add_new xs x) = distinct xs"
  "length (add_new xs x) \<le> Suc (length xs)" "add_new xs x \<noteq> []"
  by (auto simp: add_new_def)

lemma add_new_all [simp]:
  "set (foldl add_new xs ys) = set xs \<union> set ys" "distinct (foldl add_new xs ys) = distinct xs"
  by (induction ys arbitrary: xs) auto

lemma normalize_urls_ok:
  "normalize_urls parse vs result = Inr out \<Longrightarrow> distinct result \<Longrightarrow>
     distinct out \<and> length out \<le> length result + length vs \<and>
     set out = set result \<union> {n. \<exists>v \<in> set vs. \<exists>e. parse v = Inr (e, n)}"
proof (induction vs arbitrary: result)
  case (Cons v vs)
  then obtain e n where p: "parse v = Inr (e, n)" "normalize_urls parse vs (add_new result n) = Inr out"
    by (auto split: sum.splits)
  have "distinct (add_new result n)" using Cons.prems(2) by simp
  note ih = Cons.IH[OF p(2) this]
  have "length out \<le> Suc (length result) + length vs"
    using ih add_new_simps(3)[of result n] by linarith
  then show ?case using ih p(1) by auto
qed simp

text \<open>An address the loop keeps: usable, and scoped when and only when it is link-local.\<close>

definition kept_dns :: "binding option \<Rightarrow> addr \<Rightarrow> bool" where
  "kept_dns b a = (
     (addr_link_local a \<longrightarrow> addr_is6 a \<and> addr_zone a \<noteq> '''' \<and>
        (case b of Some b' \<Rightarrow> db_index6 b' > 0 \<and> addr_zone a = itoa (db_index6 b') | None \<Rightarrow> True)) \<and>
     (\<not> addr_link_local a \<longrightarrow> addr_zone a = ''''))"

lemma itoa_not_Nil [simp]: "itoa i \<noteq> ''''"
  by (simp add: itoa_def)

lemma addr_with_zone_simps [simp]:
  "addr_is6 a \<Longrightarrow> addr_zone (addr_with_zone a z) = z" "addr_is6 (addr_with_zone a z) = addr_is6 a"
  "addr_is4in6 (addr_with_zone a z) = addr_is4in6 a"
  by (cases a; simp)+

lemma addr_link_local_zone [simp]: "addr_link_local (addr_with_zone a z) = addr_link_local a"
  by (cases a) (simp_all add: addr_link_local_def)

lemma scope_dns_kept: "scope_dns b a = Inr a' \<Longrightarrow> kept_dns b a'"
  by (auto simp: scope_dns_def kept_dns_def Let_def split: if_splits option.splits)

lemma normalize_ip_loop_ok:
  "normalize_ip_loop b vs result = Inr out \<Longrightarrow> distinct result \<Longrightarrow>
   (\<forall>s \<in> set result. \<exists>a. s = addr_string a \<and> kept_dns b a) \<Longrightarrow>
   distinct out \<and> (\<forall>s \<in> set out. \<exists>a. s = addr_string a \<and> kept_dns b a)"
proof (induction b vs result rule: normalize_ip_loop.induct)
  case (2 b v vs result)
  show ?case
  proof (cases "trim_space v = ''''")
    case True
    then show ?thesis using 2 by simp
  next
    case False
    then obtain ip ip' where p: "usable_dns (trim_space v) = Inr ip" "scope_dns b ip = Inr ip'"
      "normalize_ip_loop b vs (add_new result (addr_string ip')) = Inr out"
      using "2.prems"(1) by (auto simp: Let_def split: sum.splits)
    have "distinct (add_new result (addr_string ip'))"
      "\<forall>s \<in> set (add_new result (addr_string ip')). \<exists>a. s = addr_string a \<and> kept_dns b a"
      using "2.prems"(2,3) scope_dns_kept[OF p(2)] by auto
    then show ?thesis using "2.IH"(2)[OF refl False p(1,2,3)] by blast
  qed
qed simp

section \<open>The configuration\<close>

lemma normalize_dns_config_fields:
  assumes "normalize_dns_config url_parse to_ascii c = Inr c'"
  shows "\<exists>servers doh dot. normalize_ip_list (dc_legacy c) None = Inr servers \<and>
    length (dc_doh c) \<le> 16 \<and> normalize_urls (parse_doh_url url_parse to_ascii) (dc_doh c) [] = Inr doh \<and>
    length (dc_dot c) \<le> 16 \<and> normalize_urls (parse_dot_url url_parse to_ascii) (dc_dot c) [] = Inr dot \<and>
    dc_legacy c' = foldl add_new servers default_legacy_servers \<and> dc_doh c' = doh \<and> dc_dot c' = dot \<and>
    dc_policy c' \<in> set policies \<and> (dc_policy c' = ''custom'' \<longrightarrow> doh \<noteq> []) \<and> (dc_policy c' = ''dot'' \<longrightarrow> dot \<noteq> []) \<and>
    dc_cache_ttl c' = bounded_setting (dc_cache_ttl c) (180 * second) (24 * hour) \<and>
    dc_query_timeout c' = bounded_setting (dc_query_timeout c) (4 * second) (30 * second) \<and>
    dc_max_cache c' = bounded_setting (dc_max_cache c) 1024 65536 \<and>
    dc_failure_threshold c' = bounded_setting (dc_failure_threshold c) 3 100"
  using assms unfolding normalize_dns_config_def Let_def
  by (auto split: sum.splits if_splits)

lemma bounded_setting_bounds: "0 < f \<Longrightarrow> f \<le> m \<Longrightarrow> bounded_setting v f m \<in> {1 .. m}"
  by (simp add: bounded_setting_def)

lemma normalized_limits:
  assumes "normalize_dns_config url_parse to_ascii c = Inr c'"
  shows "0 < dc_cache_ttl c' \<and> 0 < dc_max_cache c' \<and> 0 < dc_failure_threshold c' \<and> dc_policy c' \<in> set policies"
  using normalize_dns_config_fields[OF assms] by (auto simp: bounded_setting_def)

text \<open>A DNS configuration that normalisation accepts is within bounds: its policy is one of the eight, the four numeric settings are positive and at most their maxima, the traditional servers hold every built-in fallback without duplicates, at most sixteen DoH and sixteen DoT URLs are kept without duplicates, and the custom and DoT policies have a server. \<close>

theorem normalized_dns_config:
  assumes "normalize_dns_config url_parse to_ascii c = Inr c'"
  shows "dc_policy c' \<in> set policies \<and>
    dc_cache_ttl c' \<in> {1 .. 24 * hour} \<and> dc_query_timeout c' \<in> {1 .. 30 * second} \<and>
    dc_max_cache c' \<in> {1 .. 65536} \<and> dc_failure_threshold c' \<in> {1 .. 100} \<and>
    set default_legacy_servers \<subseteq> set (dc_legacy c') \<and> distinct (dc_legacy c') \<and>
    distinct (dc_doh c') \<and> length (dc_doh c') \<le> 16 \<and> distinct (dc_dot c') \<and> length (dc_dot c') \<le> 16 \<and>
    (dc_policy c' = ''custom'' \<longrightarrow> dc_doh c' \<noteq> []) \<and> (dc_policy c' = ''dot'' \<longrightarrow> dc_dot c' \<noteq> [])"
proof -
  obtain servers where p: "normalize_ip_list (dc_legacy c) None = Inr servers"
    "dc_legacy c' = foldl add_new servers default_legacy_servers"
    using normalize_dns_config_fields[OF assms] by blast
  have l: "distinct (dc_legacy c')" "set default_legacy_servers \<subseteq> set (dc_legacy c')"
    using normalize_ip_loop_ok[of None "dc_legacy c" "[]" servers] p by (auto simp: normalize_ip_list_def)
  obtain doh dot where d: "length (dc_doh c) \<le> 16" "normalize_urls (parse_doh_url url_parse to_ascii) (dc_doh c) [] = Inr doh"
    "length (dc_dot c) \<le> 16" "normalize_urls (parse_dot_url url_parse to_ascii) (dc_dot c) [] = Inr dot"
    "dc_doh c' = doh" "dc_dot c' = dot" "dc_policy c' = ''custom'' \<longrightarrow> doh \<noteq> []" "dc_policy c' = ''dot'' \<longrightarrow> dot \<noteq> []"
    using normalize_dns_config_fields[OF assms] by blast
  have u: "distinct (dc_doh c')" "length (dc_doh c') \<le> 16" "distinct (dc_dot c')" "length (dc_dot c') \<le> 16"
    using normalize_urls_ok[OF d(2)] normalize_urls_ok[OF d(4)] d(1,3,5,6) by auto
  have b: "dc_cache_ttl c' \<in> {1 .. 24 * hour}" "dc_query_timeout c' \<in> {1 .. 30 * second}"
    "dc_max_cache c' \<in> {1 .. 65536}" "dc_failure_threshold c' \<in> {1 .. 100}" "dc_policy c' \<in> set policies"
    using normalize_dns_config_fields[OF assms] by (auto simp: bounded_setting_def)
  show ?thesis using l u b d(5-8) by blast
qed

text \<open>The configuration of a fresh engine is accepted as it is.\<close>

lemma default_servers_parse:
  "parse_addr ''223.5.5.5'' = Some (A4 [223, 5, 5, 5])"
  "parse_addr ''119.29.29.29'' = Some (A4 [119, 29, 29, 29])"
  by code_simp+

lemma default_servers_parse6:
  "parse_addr ''2400:3200::1'' = Some (A6 [0x24, 0, 0x32, 0, 0, 0, 0, 0, 0, 0, 0, 0, 0, 0, 0, 1] '''')"
  "parse_addr ''2001:4860:4860::8888'' =
     Some (A6 [0x20, 1, 0x48, 0x60, 0x48, 0x60, 0, 0, 0, 0, 0, 0, 0, 0, 0x88, 0x88] '''')"
proof -
  have "v6_loop ''2400:3200::1'' [] None = Some ([0x24, 0, 0x32, 0, 0, 1], Some 4, '''')"
    "v6_loop ''2001:4860:4860::8888'' [] None = Some ([0x20, 1, 0x48, 0x60, 0x48, 0x60, 0x88, 0x88], Some 6, '''')"
    by (simp_all add: v6_loop.simps is_hex_def hex_val_def)
  then show "parse_addr ''2400:3200::1'' = Some (A6 [0x24, 0, 0x32, 0, 0, 0, 0, 0, 0, 0, 0, 0, 0, 0, 0, 1] '''')"
    "parse_addr ''2001:4860:4860::8888'' =
     Some (A6 [0x20, 1, 0x48, 0x60, 0x48, 0x60, 0, 0, 0, 0, 0, 0, 0, 0, 0x88, 0x88] '''')"
    by (simp_all add: parse_addr_def parse_ipv6_def)
qed

section \<open>The binding\<close>

lemma parse_ip_length: "parse_ip s = Some ip \<Longrightarrow> length ip = 16"
  by (auto simp: parse_ip_def as16_def v4_prefix_def parse_ipv6_length dest!: parse_ipv4_length
      split: list.splits if_splits)

lemma to4_length: "to4 ip = Some b \<Longrightarrow> length b = 4"
  by (auto simp: to4_def split: if_splits)

lemma source_v4_form:
  "source_v4 s = Some t \<Longrightarrow>
     \<exists>b. length b = 4 \<and> t = format_ipv4 b \<and> \<not> ip_unspecified (v4_prefix @ b) \<and> \<not> ip_multicast (v4_prefix @ b)"
proof -
  assume "source_v4 s = Some t"
  then obtain ip b where ip: "parse_ip s = Some ip" "to4 ip = Some b" "\<not> ip_unspecified ip" "\<not> ip_multicast ip"
    "t = ip_string b"
    by (auto simp: source_v4_def split: option.splits if_splits)
  have b: "length b = 4" by (rule to4_length[OF ip(2)])
  have "ip = v4_prefix @ b"
    using ip(2) parse_ip_length[OF ip(1)] by (auto simp: to4_def split: if_splits) (metis append_take_drop_id)
  then show ?thesis using ip b by (auto simp: ip_string_def to4_def)
qed

lemma source_v6_form:
  "source_v6 s = Some t \<Longrightarrow> \<exists>b. length b = 16 \<and> to4 b = None \<and> \<not> reserved_ip b \<and> t = format_ipv6 b"
  by (auto simp: source_v6_def ip_string_def dest: parse_ip_length split: option.splits if_splits)

lemma source_not_Nil: "source_v4 s \<noteq> Some ''''" "source_v6 s \<noteq> Some ''''"
proof -
  show "source_v4 s \<noteq> Some ''''"
  proof
    assume "source_v4 s = Some ''''"
    then obtain b :: bytes where "length b = 4" "format_ipv4 b = ''''" using source_v4_form by metis
    then show False using format_ipv4_not_Nil[of b] by (cases b) simp_all
  qed
  show "source_v6 s \<noteq> Some ''''"
  proof
    assume "source_v6 s = Some ''''"
    then obtain b :: bytes where "length b = 16" "format_ipv6 b = ''''" using source_v6_form by metis
    then show False using format_ipv6_not_Nil[of b] by simp
  qed
qed

lemma normalize_binding_facts:
  assumes "normalize_binding b = Inr b'"
  defines "ip \<equiv> trim_space (db_ip b)" and "ipv6 \<equiv> trim_space (db_ipv6 b)"
  shows "db_name b' \<noteq> '''' \<and> (ip \<noteq> '''' \<or> ipv6 \<noteq> '''') \<and> db_index b' = db_index b \<and> 0 \<le> db_index b \<and> 0 \<le> db_index6 b \<and>
    (ip = '''' \<and> db_ip b' = '''' \<or> source_v4 ip = Some (db_ip b')) \<and>
    (ipv6 = '''' \<and> db_ipv6 b' = '''' \<or> source_v6 ipv6 = Some (db_ipv6 b')) \<and>
    db_index6 b' = (if ipv6 \<noteq> '''' \<and> db_index6 b = 0 then db_index b else db_index6 b) \<and>
    (\<exists>b1. db_index6 b1 = db_index6 b' \<and> normalize_ip_list (db_servers b) (Some b1) = Inr (db_servers b'))"
proof -
  define b1 where "b1 = b\<lparr>db_name := trim_space (db_name b), db_ip := (if ip = '''' then '''' else the (source_v4 ip)),
      db_ipv6 := (if ipv6 = '''' then '''' else the (source_v6 ipv6)),
      db_index6 := (if ipv6 \<noteq> '''' \<and> db_index6 b = 0 then db_index b else db_index6 b)\<rparr>"
  obtain servers where o: "trim_space (db_name b) \<noteq> ''''" "ip \<noteq> '''' \<longrightarrow> source_v4 ip \<noteq> None"
    "ipv6 \<noteq> '''' \<longrightarrow> source_v6 ipv6 \<noteq> None" "ip \<noteq> '''' \<or> ipv6 \<noteq> ''''" "0 \<le> db_index b" "0 \<le> db_index6 b"
    "normalize_ip_list (db_servers b) (Some b1) = Inr servers" "b' = b1\<lparr>db_servers := servers\<rparr>"
    using assms(1)[unfolded normalize_binding_def Let_def, folded ip_def ipv6_def, folded b1_def]
    by (simp split: if_split_asm sum.split_asm) blast+
  have "db_name b' = trim_space (db_name b)" "db_index b' = db_index b" "db_index6 b1 = db_index6 b'"
    "db_servers b' = servers" "db_ip b' = (if ip = '''' then '''' else the (source_v4 ip))"
    "db_ipv6 b' = (if ipv6 = '''' then '''' else the (source_v6 ipv6))"
    "db_index6 b' = (if ipv6 \<noteq> '''' \<and> db_index6 b = 0 then db_index b else db_index6 b)"
    by (simp_all add: o(8) b1_def)
  with o(1-7) show ?thesis by (intro conjI) auto
qed

lemma normalized_source: "normalize_binding b = Inr b' \<Longrightarrow> db_ip b' \<noteq> '''' \<or> db_ipv6 b' \<noteq> ''''"
  using normalize_binding_facts[of b b'] source_not_Nil by metis

text \<open>A binding that normalisation accepts is usable: it has a name and at least one source address; an IPv4 source is the dotted form of an address that is neither unspecified nor multicast and parses back to it, an IPv6 source the text of an address that is no IPv4 one and not reserved; both interface indexes are non-negative; and the DNS servers are distinct texts of addresses of which exactly the link-local ones carry a scope, which is the binding's own positive IPv6 index. \<close>

theorem normalized_binding:
  assumes "normalize_binding b = Inr b'"
  shows "db_name b' \<noteq> '''' \<and> (db_ip b' \<noteq> '''' \<or> db_ipv6 b' \<noteq> '''') \<and> 0 \<le> db_index b' \<and> 0 \<le> db_index6 b' \<and>
    (db_ip b' \<noteq> '''' \<longrightarrow> (\<exists>v4. length v4 = 4 \<and> db_ip b' = format_ipv4 v4 \<and> parse_ip (db_ip b') = Some (v4_prefix @ v4) \<and>
        \<not> ip_unspecified (v4_prefix @ v4) \<and> \<not> ip_multicast (v4_prefix @ v4))) \<and>
    (db_ipv6 b' \<noteq> '''' \<longrightarrow> (\<exists>v6. length v6 = 16 \<and> db_ipv6 b' = format_ipv6 v6 \<and> to4 v6 = None \<and> \<not> reserved_ip v6)) \<and>
    distinct (db_servers b') \<and>
    (\<forall>s \<in> set (db_servers b'). \<exists>a. s = addr_string a \<and>
       (if addr_link_local a then addr_is6 a \<and> 0 < db_index6 b' \<and> addr_zone a = itoa (db_index6 b')
        else addr_zone a = ''''))"
proof -
  note f = normalize_binding_facts[OF assms]
  obtain b1 where "db_index6 b1 = db_index6 b'" "normalize_ip_loop (Some b1) (db_servers b) [] = Inr (db_servers b')"
    using f by (auto simp: normalize_ip_list_def)
  then have s: "distinct (db_servers b')" "\<forall>s \<in> set (db_servers b'). \<exists>a. s = addr_string a \<and>
       (if addr_link_local a then addr_is6 a \<and> 0 < db_index6 b' \<and> addr_zone a = itoa (db_index6 b')
        else addr_zone a = '''')"
    using normalize_ip_loop_ok[of "Some b1" "db_servers b" "[]" "db_servers b'"] by (fastforce simp: kept_dns_def)+
  have v4: "db_ip b' \<noteq> '''' \<longrightarrow> (\<exists>v4. length v4 = 4 \<and> db_ip b' = format_ipv4 v4 \<and> parse_ip (db_ip b') = Some (v4_prefix @ v4) \<and>
        \<not> ip_unspecified (v4_prefix @ v4) \<and> \<not> ip_multicast (v4_prefix @ v4))"
    using f source_v4_form parse_ip_format_ipv4 by metis
  have v6: "db_ipv6 b' \<noteq> '''' \<longrightarrow> (\<exists>v6. length v6 = 16 \<and> db_ipv6 b' = format_ipv6 v6 \<and> to4 v6 = None \<and> \<not> reserved_ip v6)"
    using f source_v6_form by metis
  have src: "db_ip b' \<noteq> '''' \<or> db_ipv6 b' \<noteq> ''''" by (rule normalized_source[OF assms])
  have idx: "0 \<le> db_index6 b'" using f by auto
  show ?thesis using f src idx v4 v6 s by simp
qed

section \<open>Traditional DNS always has a server\<close>

lemma supports_v4: "db_ip b \<noteq> '''' \<Longrightarrow> supports_endpoint b ''223.5.5.5''"
  by (simp add: supports_endpoint_def default_servers_parse)

lemma supports_v6: "db_ipv6 b \<noteq> '''' \<Longrightarrow> supports_endpoint b ''2400:3200::1''"
  by (simp add: supports_endpoint_def default_servers_parse6 addr_link_local_def v4_prefix_def)

text \<open>Traditional DNS never runs out of servers: for every accepted configuration and every accepted binding the list of servers to ask is non-empty, every server on it is one the binding has a source address for, and the binding's own servers come before the configured ones. \<close>

theorem plain_dns_available:
  assumes "normalize_dns_config url_parse to_ascii c = Inr c'" and "normalize_binding b = Inr b'"
  shows "legacy_servers c' b' \<noteq> [] \<and> (\<forall>s \<in> set (legacy_servers c' b'). supports_endpoint b' s) \<and>
    (\<exists>more. legacy_servers c' b' = filter (supports_endpoint b') (db_servers b') @ more)"
proof -
  have d: "''223.5.5.5'' \<in> set (dc_legacy c')" "''2400:3200::1'' \<in> set (dc_legacy c')"
    using normalize_dns_config_fields[OF assms(1)] by (auto simp: default_legacy_servers_def)
  obtain s where "s \<in> set (dc_legacy c')" "supports_endpoint b' s"
    using d supports_v4 supports_v6 normalized_source[OF assms(2)] by blast
  then have "s \<in> set (legacy_servers c' b')" by (simp add: legacy_servers_def)
  then have "legacy_servers c' b' \<noteq> []" by auto
  moreover have "\<exists>more. foldl add_new xs ys = xs @ more" for xs ys
    by (induction ys arbitrary: xs) (auto simp: add_new_def, metis append.assoc)
  then have "\<exists>more. legacy_servers c' b' = filter (supports_endpoint b') (db_servers b') @ more"
    by (metis filter_append legacy_servers_def)
  ultimately show ?thesis by (auto simp: legacy_servers_def)
qed

section \<open>A concrete configuration and binding\<close>

definition one_server_config :: dns_config where
  "one_server_config = default_dns_config\<lparr>dc_policy := '' Auto'', dc_legacy := [''9.9.9.9''], dc_max_cache := 70000\<rparr>"

definition home_binding :: binding where
  "home_binding = \<lparr>db_name = ''Wi-Fi'', db_ip = '' 192.168.1.7'', db_index = 3, db_ipv6 = '''', db_index6 = 0,
                   db_servers = [''192.168.1.1'', ''192.168.1.1 '']\<rparr>"

lemma one_server_normalized:
  "normalize_dns_config (\<lambda>_. None) Some one_server_config =
     Inr (default_dns_config\<lparr>dc_legacy := ''9.9.9.9'' # default_legacy_servers, dc_max_cache := 65536\<rparr>)"
  by code_simp

lemma home_normalized:
  "normalize_binding home_binding = Inr (home_binding\<lparr>db_ip := ''192.168.1.7'', db_servers := [''192.168.1.1'']\<rparr>)"
  by code_simp

theorem normalized_dns_config_witness:
  "dc_max_cache (default_dns_config\<lparr>dc_legacy := ''9.9.9.9'' # default_legacy_servers, dc_max_cache := 65536\<rparr>) \<in> {1 .. 65536}"
  using normalized_dns_config[OF one_server_normalized] by blast

theorem normalized_binding_witness:
  "distinct (db_servers (home_binding\<lparr>db_ip := ''192.168.1.7'', db_servers := [''192.168.1.1'']\<rparr>))"
  using normalized_binding[OF home_normalized] by blast

theorem plain_dns_available_witness:
  "legacy_servers (default_dns_config\<lparr>dc_legacy := ''9.9.9.9'' # default_legacy_servers, dc_max_cache := 65536\<rparr>)
     (home_binding\<lparr>db_ip := ''192.168.1.7'', db_servers := [''192.168.1.1'']\<rparr>) \<noteq> []"
  using plain_dns_available[OF one_server_normalized home_normalized] by blast

text \<open> C40. An unspecified DNS server is refused in its plain form but accepted in its IPv4-mapped form and then stored as 0.0.0.0: the test runs before \<open>Unmap\<close>, and \<open>netip\<close> compares with the two plain unspecified addresses only. \<close>

theorem mapped_unspecified_accepted:
  "normalize_ip_list [''0.0.0.0''] None = Inl (UnusableDns ''0.0.0.0'') \<and>
   normalize_ip_list [''::ffff:0.0.0.0''] None = Inr [''0.0.0.0'']"
proof -
  have plain: "normalize_ip_list [''0.0.0.0''] None = Inl (UnusableDns ''0.0.0.0'')" by code_simp
  have p4: "parse_ipv4 ''0.0.0.0'' = Some [0, 0, 0, 0]" by code_simp
  have "v6_loop ''ffff:0.0.0.0'' [] (Some 0) = Some ([255, 255, 0, 0, 0, 0], Some 0, '''')"
    by (simp add: v6_loop.simps is_hex_def hex_val_def p4)
  then have p: "parse_addr ''::ffff:0.0.0.0'' = Some (A6 (v4_prefix @ [0, 0, 0, 0]) '''')"
    by (simp add: parse_addr_def parse_ipv6_def v4_prefix_def)
  have "usable_dns ''::ffff:0.0.0.0'' = Inr (A4 [0, 0, 0, 0])"
    by (simp add: usable_dns_def p v4_prefix_def addr_unspecified_def addr_multicast_def)
  moreover have "trim_space ''::ffff:0.0.0.0'' = ''::ffff:0.0.0.0''" by code_simp
  moreover have "scope_dns None (A4 [0, 0, 0, 0]) = Inr (A4 [0, 0, 0, 0])" "addr_string (A4 [0, 0, 0, 0]) = ''0.0.0.0''"
    by code_simp+
  ultimately have "normalize_ip_list [''::ffff:0.0.0.0''] None = Inr [''0.0.0.0'']"
    by (simp add: normalize_ip_list_def add_new_def)
  with plain show ?thesis by blast
qed

end
