(* ===== verification/ResolverFacts.thy ===== *)
theory ResolverFacts
  imports Resolver DnsConfigFacts
begin

text \<open>
  The resolver's shared state under any interleaving of its locked sections: the cache
  stays within its bound and in step with its expiry index, no expired or foreign answer is
  served, and at most one awaited lookup of a key is under way. The cache rests on the
  contract of the expiry index (interpretation \<open>ix\<close>).
\<close>

section \<open>Making room\<close>

definition mirrors :: "'k index \<Rightarrow> ('k \<Rightarrow> 'v option) \<Rightarrow> bool" where
  "mirrors x m \<longleftrightarrow> index_ok x \<and> dom m = dom (idx_deadlines x)"

lemma mirrors_finite: "mirrors x m \<Longrightarrow> finite (dom m) \<and> idx_len x = card (dom m)"
  using ix.entries_dl[of x] by (simp add: mirrors_def)

lemma mirrors_delete: "mirrors x m \<Longrightarrow> mirrors (idx_delete x k) (m(k := None))"
  by (auto simp: mirrors_def ix.ok_del ix.dl_del)

lemma mirrors_set: "mirrors x m \<Longrightarrow> mirrors (idx_set x k t) (m(k := Some v))"
  by (auto simp: mirrors_def ix.ok_set ix.dl_set)

text \<open>Evicted keys had a deadline no later than any key that stays.\<close>

lemma room_loop_ok:
  assumes "mirrors x m" "idx_len x \<le> f" "0 < maximum" "room_loop f maximum x m = (x', m')"
  shows "mirrors x' m' \<and> int (card (dom m')) < maximum \<and>
    (\<exists>S. idx_deadlines x' = idx_deadlines x |` S \<and> m' = m |` S \<and>
      (\<forall>k t k' t'. idx_deadlines x k = Some t \<longrightarrow> k \<notin> S \<longrightarrow> idx_deadlines x k' = Some t' \<longrightarrow> k' \<in> S \<longrightarrow> t \<le> t'))"
  using assms
proof (induction f arbitrary: x m)
  case 0
  then have "x' = x" "m' = m" "card (dom m) = 0" using mirrors_finite[OF 0(1)] by auto
  then show ?case using 0(1,3) by (intro conjI exI[of _ UNIV]) auto
next
  case (Suc f)
  note ok = Suc.prems(1)
  have iok: "index_ok x" using ok by (simp add: mirrors_def)
  show ?case
  proof (cases "int (card (dom m)) < maximum \<or> idx_first x = None")
    case True
    then have e: "x' = x" "m' = m" using Suc.prems(4) by (auto split: if_splits)
    have "int (card (dom m)) < maximum"
      using True Suc.prems(3) ix.first_None_iff[OF iok] mirrors_finite[OF ok] by auto
    then show ?thesis using ok e by (intro conjI exI[of _ UNIV]) auto
  next
    case False
    then obtain k t where f: "idx_first x = Some (k, t)" by auto
    have run: "room_loop f maximum (idx_delete x k) (m(k := None)) = (x', m')"
      using Suc.prems(4) False f by simp
    have dk: "idx_deadlines x k = Some t" by (rule ix.first_Some[OF iok f])
    have "idx_len (idx_delete x k) \<le> f"
      using ix.entries_del[OF iok dk] Suc.prems(2) by simp
    from Suc.IH[OF mirrors_delete[OF ok] this Suc.prems(3) run]
    obtain S where S: "mirrors x' m'" "int (card (dom m')) < maximum"
      "idx_deadlines x' = (idx_deadlines x)(k := None) |` S" "m' = (m(k := None)) |` S"
      "\<forall>j s j' s'. ((idx_deadlines x)(k := None)) j = Some s \<longrightarrow> j \<notin> S \<longrightarrow>
         ((idx_deadlines x)(k := None)) j' = Some s' \<longrightarrow> j' \<in> S \<longrightarrow> s \<le> s'"
      unfolding ix.dl_del[OF iok] by blast
    have r: "(h(k := None)) |` S = h |` (S - {k})" for h :: "'a \<Rightarrow> 'c option" by (auto simp: restrict_map_def fun_eq_iff)
    have r': "(h(k := None)) |` S = h |` (S - {k})" for h :: "'a \<Rightarrow> time option" by (auto simp: restrict_map_def fun_eq_iff)
    have order: "s \<le> s'" if "idx_deadlines x j = Some s" "j \<notin> S - {k}" "idx_deadlines x j' = Some s'" "j' \<in> S - {k}" for j s j' s'
    proof (cases "j = k")
      case True
      then show ?thesis using that dk ix.first_least[OF iok f that(3)] by simp
    next
      case False
      then show ?thesis using S(5) that by (auto split: if_splits)
    qed
    show ?thesis
      using S(1,2) S(3)[unfolded r'] S(4)[unfolded r] order by (intro conjI exI[of _ "S - {k}"]) blast+
  qed
qed

lemma restricted_live: "live d now = d |` {k. \<forall>t. d k = Some t \<longrightarrow> now < t}"
  by (auto simp: live_def restrict_map_def fun_eq_iff split: option.splits)

lemma restricted_drop: "drop_due d now m = m |` {k. \<forall>t. d k = Some t \<longrightarrow> now < t}"
  by (auto simp: drop_due_def restrict_map_def fun_eq_iff split: option.splits)

lemma remove_expired_ok:
  assumes "mirrors (rs_expiry r) (rs_cache r)"
  shows "\<exists>x m. remove_expired r now = r\<lparr>rs_cache := m, rs_expiry := x\<rparr> \<and> mirrors x m \<and>
    (let S = {k. \<forall>t. idx_deadlines (rs_expiry r) k = Some t \<longrightarrow> now < t} in
     m = rs_cache r |` S \<and> idx_deadlines x = idx_deadlines (rs_expiry r) |` S)"
proof -
  obtain x m where l: "expire_loop (idx_len (rs_expiry r)) now (rs_expiry r) (rs_cache r) = (x, m)" by fastforce
  have "index_ok (rs_expiry r)" using assms by (simp add: mirrors_def)
  from ix.expire_loop_correct[OF this order_refl, of now "rs_cache r"] l
  have x: "index_ok x" "idx_deadlines x = live (idx_deadlines (rs_expiry r)) now"
    "m = drop_due (idx_deadlines (rs_expiry r)) now (rs_cache r)" by auto
  have "remove_expired r now = r\<lparr>rs_cache := m, rs_expiry := x\<rparr>" by (simp add: remove_expired_def l)
  moreover have "mirrors x m" using assms x by (simp add: mirrors_def restricted_live restricted_drop)
  ultimately show ?thesis using x(2,3) by (auto simp: restricted_live restricted_drop Let_def)
qed

text \<open>What \<open>makeCacheRoomLocked\<close> leaves: only live entries, room for one more, and no entry with an
  earlier deadline than one that was evicted while it was alive.\<close>

lemma make_cache_room_ok:
  assumes "mirrors (rs_expiry r) (rs_cache r)" "0 < dc_max_cache (rs_config r)"
  shows "\<exists>x m S. make_cache_room r now = r\<lparr>rs_cache := m, rs_expiry := x\<rparr> \<and> mirrors x m \<and>
    m = rs_cache r |` S \<and> idx_deadlines x = idx_deadlines (rs_expiry r) |` S \<and>
    int (card (dom m)) < dc_max_cache (rs_config r) \<and> (\<forall>t \<in> ran (idx_deadlines x). now < t) \<and>
    (\<forall>k t. idx_deadlines (rs_expiry r) k = Some t \<longrightarrow> k \<notin> S \<longrightarrow> now < t \<longrightarrow> (\<forall>t' \<in> ran (idx_deadlines x). t \<le> t'))"
proof -
  define L where "L = {k. \<forall>t. idx_deadlines (rs_expiry r) k = Some t \<longrightarrow> now < t}"
  obtain x1 m1 where e: "remove_expired r now = r\<lparr>rs_cache := m1, rs_expiry := x1\<rparr>" "mirrors x1 m1"
    "m1 = rs_cache r |` L" "idx_deadlines x1 = idx_deadlines (rs_expiry r) |` L"
    using remove_expired_ok[OF assms(1), of now] by (auto simp: L_def Let_def)
  obtain x m where l: "room_loop (idx_len x1) (dc_max_cache (rs_config r)) x1 m1 = (x, m)" by fastforce
  from room_loop_ok[OF e(2) order_refl assms(2) l] obtain S where S: "mirrors x m"
    "int (card (dom m)) < dc_max_cache (rs_config r)" "idx_deadlines x = idx_deadlines x1 |` S" "m = m1 |` S"
    "\<forall>k t k' t'. idx_deadlines x1 k = Some t \<longrightarrow> k \<notin> S \<longrightarrow> idx_deadlines x1 k' = Some t' \<longrightarrow> k' \<in> S \<longrightarrow> t \<le> t'"
    by blast
  have run: "make_cache_room r now = r\<lparr>rs_cache := m, rs_expiry := x\<rparr>"
    by (simp add: make_cache_room_def e(1) l Let_def)
  have d: "idx_deadlines x = idx_deadlines (rs_expiry r) |` (L \<inter> S)" "m = rs_cache r |` (L \<inter> S)"
    using S(3,4) e(3,4) by (simp_all add: restrict_map_def fun_eq_iff)
  have alive: "\<forall>t \<in> ran (idx_deadlines x). now < t"
    unfolding d(1) by (auto simp: ran_def restrict_map_def L_def split: if_splits)
  have order: "t \<le> t'" if a: "idx_deadlines (rs_expiry r) k = Some t" "k \<notin> L \<inter> S" "now < t"
    "t' \<in> ran (idx_deadlines x)" for k t t'
  proof -
    have k: "k \<in> L" "k \<notin> S" using a(1-3) by (auto simp: L_def)
    obtain k' where k': "idx_deadlines x k' = Some t'" using a(4) by (auto simp: ran_def)
    then have "idx_deadlines x1 k' = Some t'" "k' \<in> S"
      unfolding S(3) by (auto simp: restrict_map_def split: if_splits)
    moreover have "idx_deadlines x1 k = Some t" using a(1) k(1) by (simp add: e(4))
    ultimately show ?thesis using S(5) k(2) by blast
  qed
  show ?thesis using run S(1,2) d alive order by blast
qed

section \<open>Runs of the resolver\<close>

text \<open>
  A run state is the clock, the resolver and the calls the waiting \<open>Resolve\<close> calls wait for.
  Each waiting caller leaves once (it got the result, or its context ended), and each lookup
  finishes once; the clock never goes back. The results of the network queries carry no
  deadline of their own.
\<close>

type_synonym run_state = "time \<times> resolver \<times> nat list"

inductive flight_step :: "run_state \<Rightarrow> run_state \<Rightarrow> bool" where
  Begin: "now \<le> now' \<Longrightarrow> begin_resolve r key now' = (r', out) \<Longrightarrow>
          flight_step (now, r, ws) (now', r', case out of Hit _ \<Rightarrow> ws | Wait c \<Rightarrow> c # ws)"
| Leave: "c \<in> set ws \<Longrightarrow> flight_step (now, r, ws) (now, leave_call r c, remove1 c ws)"
| Finish: "c < length (rs_calls r) \<Longrightarrow> lo_done (rs_calls r ! c) = None \<Longrightarrow>
           (\<And>result ttl. outcome = Inr (result, ttl) \<Longrightarrow> dr_expires result = None) \<Longrightarrow> now \<le> now1 \<Longrightarrow> now1 \<le> now2 \<Longrightarrow>
           flight_step (now, r, ws) (now2, finish_lookup r c outcome now1 now2, ws)"
| Status: "now \<le> now' \<Longrightarrow> flight_step (now, r, ws) (now', fst (resolver_status url_parse to_ascii r now'), ws)"
| Success: "flight_step (now, r, ws) (now, record_doh_success r b, ws)"
| Failure: "flight_step (now, r, ws) (now, fst (record_strict_failure r b failure), ws)"
| Counters: "flight_step (now, r, ws) (now, r\<lparr>rs_doh_ok := n1, rs_doh_failed := n2, rs_dot_ok := n3, rs_dot_failed := n4,
              rs_legacy_ok := n5, rs_legacy_failed := n6, rs_fallbacks := n7\<rparr>, ws)"
| Handler: "flight_step (now, r, ws) (now, set_fallback_handler r present, ws)"

inductive flight_reachable :: "resolver \<Rightarrow> run_state \<Rightarrow> bool" for r0 :: resolver where
  Start: "flight_reachable r0 (now, r0, [])"
| Next: "flight_reachable r0 s \<Longrightarrow> flight_step s s' \<Longrightarrow> flight_reachable r0 s'"

section \<open>The cache\<close>

definition entry_ok :: "time \<Rightarrow> duration \<Rightarrow> cache_key \<Rightarrow> dns_result \<Rightarrow> time \<Rightarrow> bool" where
  "entry_ok now ttl k result t \<longleftrightarrow> dr_expires result = Some t \<and> t \<le> now + ttl \<and> dr_domain result = ck_domain k \<and>
     dr_type result = Some (ck_type k) \<and> dr_adapter result = ck_adapter k"

definition cache_ok :: "time \<Rightarrow> resolver \<Rightarrow> bool" where
  "cache_ok now r \<longleftrightarrow> mirrors (rs_expiry r) (rs_cache r) \<and> 0 < dc_max_cache (rs_config r) \<and>
     int (card (dom (rs_cache r))) \<le> dc_max_cache (rs_config r) \<and>
     (\<forall>k result t. rs_cache r k = Some (result, t) \<longrightarrow>
        idx_deadlines (rs_expiry r) k = Some t \<and> entry_ok now (dc_cache_ttl (rs_config r)) k result t)"

lemma cache_ok_frame:
  assumes "cache_ok now r" "rs_config r' = rs_config r" "rs_cache r' = rs_cache r" "rs_expiry r' = rs_expiry r" "now \<le> now'"
  shows "cache_ok now' r'"
  using assms unfolding cache_ok_def entry_ok_def by fastforce

lemma cache_ok_submap:
  assumes "cache_ok now r" "mirrors x (rs_cache r |` S)" "idx_deadlines x = idx_deadlines (rs_expiry r) |` S"
  shows "cache_ok now (r\<lparr>rs_cache := rs_cache r |` S, rs_expiry := x\<rparr>)"
proof -
  have "card (dom (rs_cache r |` S)) \<le> card (dom (rs_cache r))"
    using assms(1) mirrors_finite by (intro card_mono) (auto simp: cache_ok_def)
  then show ?thesis using assms unfolding cache_ok_def
    by (fastforce simp: restrict_map_def split: if_splits)
qed

lemma cache_ok_remove_expired: "cache_ok now r \<Longrightarrow> cache_ok now (remove_expired r now')"
  using remove_expired_ok[of r now'] cache_ok_submap by (fastforce simp: cache_ok_def Let_def)

lemma cache_ok_drop: "cache_ok now r \<Longrightarrow> cache_ok now (r\<lparr>rs_cache := (rs_cache r)(k := None), rs_expiry := idx_delete (rs_expiry r) k\<rparr>)"
proof -
  assume c: "cache_ok now r"
  have i: "index_ok (rs_expiry r)" using c by (simp add: cache_ok_def mirrors_def)
  have e: "h |` (- {k}) = h(k := None)" for h :: "cache_key \<Rightarrow> 'c option"
    by (auto simp: restrict_map_def fun_eq_iff)
  have e': "h |` (- {k}) = h(k := None)" for h :: "cache_key \<Rightarrow> time option"
    by (auto simp: restrict_map_def fun_eq_iff)
  have "mirrors (idx_delete (rs_expiry r) k) (rs_cache r |` (- {k}))"
    unfolding e using mirrors_delete[of "rs_expiry r" "rs_cache r" k] c by (simp add: cache_ok_def)
  from cache_ok_submap[OF c this] show ?thesis
    by (simp add: ix.dl_del[OF i] e e')
qed

lemma join_call_frame:
  "rs_config (fst (join_call r key)) = rs_config r" "rs_cache (fst (join_call r key)) = rs_cache r"
  "rs_expiry (fst (join_call r key)) = rs_expiry r" "\<exists>c. snd (join_call r key) = Wait c"
  by (simp_all add: join_call_def split: option.splits)

lemma begin_resolve_config: "rs_config (fst (begin_resolve r key now)) = rs_config r"
  by (simp add: begin_resolve_def Let_def join_call_frame split: option.split prod.split)

lemma remove_expired_frame:
  "rs_calls (remove_expired r now) = rs_calls r" "rs_inflight (remove_expired r now) = rs_inflight r"
  "rs_config (remove_expired r now) = rs_config r"
  by (simp_all add: remove_expired_def Let_def case_prod_unfold)

lemma cache_ok_begin:
  assumes "cache_ok now r" "now \<le> now'"
  shows "cache_ok now' (fst (begin_resolve r key now'))"
proof -
  have q: "cache_ok now (r\<lparr>rs_queries := n, rs_hits := h\<rparr>)" "cache_ok now (r\<lparr>rs_queries := n\<rparr>)" for n h
    by (rule cache_ok_frame[OF assms(1)]; simp)+
  have j: "cache_ok now' (fst (join_call s key))" if "cache_ok now s" for s
    by (rule cache_ok_frame[OF that]) (use assms(2) join_call_frame in auto)
  have d: "cache_ok now (r\<lparr>rs_queries := n, rs_cache := (rs_cache r)(key := None), rs_expiry := idx_delete (rs_expiry r) key\<rparr>)" for n
    using cache_ok_drop[OF q(2)[of n], of key] by simp
  show ?thesis
  proof (cases "rs_cache r key")
    case None
    then show ?thesis using j[OF q(2)] by (simp add: begin_resolve_def Let_def)
  next
    case (Some p)
    obtain result t where p: "p = (result, t)" by (cases p)
    show ?thesis
    proof (cases "now' < t")
      case True
      then show ?thesis using cache_ok_frame[OF assms(1)] assms(2) Some p by (simp add: begin_resolve_def Let_def)
    next
      case False
      then show ?thesis using j[OF d] Some p by (simp add: begin_resolve_def Let_def)
    qed
  qed
qed

lemma cache_ok_leave: "cache_ok now r \<Longrightarrow> cache_ok now (leave_call r c)"
  by (erule cache_ok_frame) (simp_all add: leave_call_def Let_def)

lemma stamp_result_ok:
  assumes "dr_expires (stamp_result r key result ttl now1) = Some t" "dr_expires result = None" "now1 \<le> now2"
    "0 < dc_cache_ttl (rs_config r)"
  shows "entry_ok now2 (dc_cache_ttl (rs_config r)) key (stamp_result r key result ttl now1) t"
  using assms by (auto simp: stamp_result_def entry_ok_def Let_def split: if_splits)

lemma finish_lookup_frame:
  "finish_lookup r c outcome now1 now2 =
     (let key = lo_key (rs_calls r ! c);
          final = (case outcome of Inl e \<Rightarrow> Inl e | Inr (result, ttl) \<Rightarrow> Inr (stamp_result r key result ttl now1))
      in (case final of
            Inr result \<Rightarrow> (case dr_expires result of
                Some t \<Rightarrow> (let room = make_cache_room r now2 in
                    room\<lparr>rs_cache := (rs_cache room)(key := Some (result, t)), rs_expiry := idx_set (rs_expiry room) key t\<rparr>)
              | None \<Rightarrow> r)
          | Inl _ \<Rightarrow> r)
         \<lparr>rs_calls := (rs_calls r)[c := (rs_calls r ! c)\<lparr>lo_done := Some final, lo_cancelled := True\<rparr>],
          rs_inflight := (if rs_inflight r key = Some c then (rs_inflight r)(key := None) else rs_inflight r)\<rparr>)"
proof -
  have "rs_calls (make_cache_room r now2) = rs_calls r" "rs_inflight (make_cache_room r now2) = rs_inflight r"
    by (simp_all add: make_cache_room_def remove_expired_def Let_def case_prod_unfold)
  then show ?thesis by (simp add: finish_lookup_def Let_def split: sum.splits option.splits)
qed

lemma cache_ok_store:
  assumes "cache_ok now r" "now \<le> now2" "entry_ok now2 (dc_cache_ttl (rs_config r)) key result t"
  defines "room \<equiv> make_cache_room r now2"
  shows "cache_ok now2 (room\<lparr>rs_cache := (rs_cache room)(key := Some (result, t)), rs_expiry := idx_set (rs_expiry room) key t\<rparr>)"
proof -
  have r: "mirrors (rs_expiry r) (rs_cache r)" "0 < dc_max_cache (rs_config r)" using assms(1) by (simp_all add: cache_ok_def)
  obtain x m S where e: "room = r\<lparr>rs_cache := m, rs_expiry := x\<rparr>" "mirrors x m" "m = rs_cache r |` S"
    "idx_deadlines x = idx_deadlines (rs_expiry r) |` S" "int (card (dom m)) < dc_max_cache (rs_config r)"
    using make_cache_room_ok[OF r, of now2] unfolding room_def by blast
  have sub: "cache_ok now2 (r\<lparr>rs_cache := m, rs_expiry := x\<rparr>)"
    using cache_ok_submap[of now2 r x S] cache_ok_frame[OF assms(1), of r now2] assms(2) e by simp
  have i: "index_ok x" using e(2) by (simp add: mirrors_def)
  have "card (dom (m(key := Some (result, t)))) \<le> Suc (card (dom m))" by (simp add: card_insert_le_m1 card_insert_if mirrors_finite[OF e(2)])
  then have "int (card (dom (m(key := Some (result, t))))) \<le> dc_max_cache (rs_config r)" using e(5) by linarith
  then show ?thesis
    using sub e(1) mirrors_set[OF e(2), of key t "(result, t)"] assms(3)
    by (auto simp: cache_ok_def ix.dl_set[OF i])
qed

lemma cache_ok_finish:
  assumes "cache_ok now r" "now \<le> now1" "now1 \<le> now2" "0 < dc_cache_ttl (rs_config r)"
    "\<And>result ttl. outcome = Inr (result, ttl) \<Longrightarrow> dr_expires result = None"
  shows "cache_ok now2 (finish_lookup r c outcome now1 now2)"
proof -
  have keep: "cache_ok now2 r" by (rule cache_ok_frame[OF assms(1)]) (use assms(2,3) in auto)
  have frame: "cache_ok now2 (s\<lparr>rs_calls := cs, rs_inflight := fl\<rparr>)" if "cache_ok now2 s" for s cs fl
    by (rule cache_ok_frame[OF that]) simp_all
  show ?thesis
  proof (cases outcome)
    case (Inl e)
    then show ?thesis using frame[OF keep] by (simp add: finish_lookup_frame Let_def)
  next
    case (Inr p)
    obtain result ttl where p: "p = (result, ttl)" by (cases p)
    define final where "final = stamp_result r (lo_key (rs_calls r ! c)) result ttl now1"
    show ?thesis
    proof (cases "dr_expires final")
      case None
      then show ?thesis using frame[OF keep] Inr p by (simp add: finish_lookup_frame Let_def final_def)
    next
      case (Some t)
      have "entry_ok now2 (dc_cache_ttl (rs_config r)) (lo_key (rs_calls r ! c)) final t"
        unfolding final_def using Some assms(3,4,5) Inr p by (intro stamp_result_ok) (auto simp: final_def)
      from cache_ok_store[OF assms(1) _ this] assms(2,3)
      show ?thesis using frame Some Inr p by (simp add: finish_lookup_frame Let_def final_def)
    qed
  qed
qed

section \<open>The calls\<close>

text \<open>
  \<open>ws\<close> lists the call every waiting caller waits for. The map of calls in flight holds
  exactly the unfinished calls somebody waits for, each under its key.
\<close>

definition calls_ok :: "resolver \<Rightarrow> nat list \<Rightarrow> bool" where
  "calls_ok r ws \<longleftrightarrow> set ws \<subseteq> {..<length (rs_calls r)} \<and>
     (\<forall>c < length (rs_calls r). lo_waiters (rs_calls r ! c) = int (count_list ws c)) \<and>
     (\<forall>k c. rs_inflight r k = Some c \<longleftrightarrow>
        c < length (rs_calls r) \<and> lo_key (rs_calls r ! c) = k \<and> lo_done (rs_calls r ! c) = None \<and> c \<in> set ws)"

lemma calls_ok_frame:
  "calls_ok r ws \<Longrightarrow> rs_calls r' = rs_calls r \<Longrightarrow> rs_inflight r' = rs_inflight r \<Longrightarrow> calls_ok r' ws"
  by (simp add: calls_ok_def)

lemma calls_ok_join:
  assumes "calls_ok r ws" "join_call r key = (r', Wait c)"
  shows "calls_ok r' (c # ws)"
proof (cases "rs_inflight r key")
  case (Some d)
  then have e: "c = d" "r' = r\<lparr>rs_calls := (rs_calls r)[c := (rs_calls r ! c)\<lparr>lo_waiters := lo_waiters (rs_calls r ! c) + 1\<rparr>]\<rparr>"
    using assms(2) by (auto simp: join_call_def)
  have d: "d < length (rs_calls r)" "d \<in> set ws" using assms(1) Some by (auto simp: calls_ok_def)
  show ?thesis
    using assms(1) d unfolding calls_ok_def e
    by (auto simp: nth_list_update)
next
  case None
  let ?n = "length (rs_calls r)"
  have e: "c = ?n" "r' = r\<lparr>rs_inflight := (rs_inflight r)(key := Some ?n),
      rs_calls := rs_calls r @ [\<lparr>lo_key = key, lo_waiters = 1, lo_cancelled = False, lo_done = None\<rparr>]\<rparr>"
    using assms(2) None by (auto simp: join_call_def)
  have n: "?n \<notin> set ws" using assms(1) by (auto simp: calls_ok_def)
  have none: "\<not> (c' < ?n \<and> lo_key (rs_calls r ! c') = key \<and> lo_done (rs_calls r ! c') = None \<and> c' \<in> set ws)" for c'
    using assms(1) None unfolding calls_ok_def by (metis option.distinct(1))
  show ?thesis
    using assms(1) n none unfolding calls_ok_def e
    by (auto simp: nth_append less_Suc_eq count_list_0_iff)
qed

text \<open>At most one awaited lookup per key.\<close>

lemma calls_ok_unique:
  assumes "calls_ok r ws" "c \<in> set ws" "d \<in> set ws" "lo_done (rs_calls r ! c) = None" "lo_done (rs_calls r ! d) = None"
    "lo_key (rs_calls r ! c) = lo_key (rs_calls r ! d)"
  shows "c = d"
proof -
  have "rs_inflight r (lo_key (rs_calls r ! c)) = Some c" "rs_inflight r (lo_key (rs_calls r ! c)) = Some d"
    using assms by (auto simp: calls_ok_def subset_iff)
  then show ?thesis by simp
qed

lemma calls_ok_leave:
  assumes "calls_ok r ws" "c \<in> set ws"
  shows "calls_ok (leave_call r c) (remove1 c ws)"
proof -
  have c: "c < length (rs_calls r)" "lo_waiters (rs_calls r ! c) = int (count_list ws c)"
    using assms by (auto simp: calls_ok_def)
  have n: "count_list (remove1 c ws) d = count_list ws d - (if d = c then 1 else 0)" for d
    by (induction ws) auto
  have s: "d \<in> set (remove1 c ws) \<longleftrightarrow> d \<in> set ws \<and> (d = c \<longrightarrow> count_list ws c \<noteq> 1)" for d
    using n[of d] assms(2) count_list_0_iff[of "remove1 c ws" d] count_list_0_iff[of ws d] by (cases "d = c") auto
  have pos: "count_list ws c \<noteq> 0" using assms(2) by (simp add: count_list_0_iff)
  show ?thesis
    using assms(1,2) c pos set_remove1_subset[of c ws] calls_ok_unique[OF assms(1)]
    unfolding calls_ok_def leave_call_def Let_def
    by (auto simp: nth_list_update n s of_nat_diff)
qed

lemma calls_ok_finish:
  assumes "calls_ok r ws" "c < length (rs_calls r)" "lo_done (rs_calls r ! c) = None"
  shows "calls_ok (finish_lookup r c outcome now1 now2) ws"
proof -
  define final where "final = (case outcome of Inl e \<Rightarrow> Inl e
      | Inr (result, ttl) \<Rightarrow> Inr (stamp_result r (lo_key (rs_calls r ! c)) result ttl now1))"
  have e: "rs_calls (finish_lookup r c outcome now1 now2) =
      (rs_calls r)[c := (rs_calls r ! c)\<lparr>lo_done := Some final, lo_cancelled := True\<rparr>]"
    "rs_inflight (finish_lookup r c outcome now1 now2) =
      (if rs_inflight r (lo_key (rs_calls r ! c)) = Some c
       then (rs_inflight r)(lo_key (rs_calls r ! c) := None) else rs_inflight r)"
    by (simp_all add: finish_lookup_frame Let_def final_def)
  show ?thesis
    using assms calls_ok_unique[OF assms(1)] unfolding calls_ok_def e by (auto simp: nth_list_update)
qed

section \<open>Every reachable state\<close>

definition run_ok :: "run_state \<Rightarrow> bool" where
  "run_ok s = (case s of (now, r, ws) \<Rightarrow> cache_ok now r \<and> calls_ok r ws \<and> 0 < dc_cache_ttl (rs_config r))"

lemma run_ok_frame:
  "run_ok (now, r, ws) \<Longrightarrow> rs_config r' = rs_config r \<Longrightarrow> rs_cache r' = rs_cache r \<Longrightarrow> rs_expiry r' = rs_expiry r \<Longrightarrow>
   rs_calls r' = rs_calls r \<Longrightarrow> rs_inflight r' = rs_inflight r \<Longrightarrow> run_ok (now, r', ws)"
  using cache_ok_frame[of now r r' now] calls_ok_frame[of r ws r'] by (simp add: run_ok_def)

lemma run_ok_begin:
  assumes "run_ok (now, r, ws)" "now \<le> now'" "begin_resolve r key now' = (r', out)"
  shows "run_ok (now', r', case out of Hit _ \<Rightarrow> ws | Wait c \<Rightarrow> c # ws)"
proof -
  have c: "cache_ok now' r'" using cache_ok_begin[of now r now' key] assms by (simp add: run_ok_def)
  have f: "rs_config r' = rs_config r"
    using begin_resolve_config[of r key now'] assms(3) by simp
  have j: "calls_ok r' (case out of Hit _ \<Rightarrow> ws | Wait c \<Rightarrow> c # ws)"
    if jc: "join_call s key = (r', out)" and "rs_calls s = rs_calls r" "rs_inflight s = rs_inflight r" for s
  proof -
    obtain c where "out = Wait c" using join_call_frame(4)[of s key] unfolding jc by auto
    then show ?thesis using calls_ok_join[of s ws key r' c] calls_ok_frame[of r ws s] that assms(1) by (simp add: run_ok_def)
  qed
  have "calls_ok r' (case out of Hit _ \<Rightarrow> ws | Wait c \<Rightarrow> c # ws)"
  proof (cases "rs_cache r key")
    case None
    then have "join_call (r\<lparr>rs_queries := rs_queries r + 1\<rparr>) key = (r', out)"
      using assms(3) by (simp add: begin_resolve_def Let_def)
    then show ?thesis by (rule j) simp_all
  next
    case (Some p)
    obtain result t where p: "p = (result, t)" by (cases p)
    show ?thesis
    proof (cases "now' < t")
      case True
      then have "r' = r\<lparr>rs_queries := rs_queries r + 1, rs_hits := rs_hits r + 1\<rparr>" "out = Hit (result\<lparr>dr_cached := True\<rparr>)"
        using assms(3) Some p by (auto simp: begin_resolve_def Let_def)
      then show ?thesis using calls_ok_frame[of r ws r'] assms(1) by (simp add: run_ok_def)
    next
      case False
      then have "join_call (r\<lparr>rs_queries := rs_queries r + 1, rs_cache := (rs_cache r)(key := None),
          rs_expiry := idx_delete (rs_expiry r) key\<rparr>) key = (r', out)"
        using assms(3) Some p by (simp add: begin_resolve_def Let_def)
      then show ?thesis by (rule j) simp_all
    qed
  qed
  then show ?thesis using c f assms(1) by (simp add: run_ok_def)
qed

lemma finish_lookup_config: "rs_config (finish_lookup r c outcome now1 now2) = rs_config r"
  by (simp add: finish_lookup_frame Let_def make_cache_room_def remove_expired_def case_prod_unfold split: sum.split option.split)

lemma run_ok_step: "flight_step s s' \<Longrightarrow> run_ok s \<Longrightarrow> run_ok s'"
proof (induction rule: flight_step.induct)
  case (Begin now now' r key r' out ws)
  then show ?case using run_ok_begin by blast
next
  case (Leave c ws now r)
  moreover have "rs_config (leave_call r c) = rs_config r" by (simp add: leave_call_def Let_def)
  ultimately show ?case using cache_ok_leave calls_ok_leave by (simp add: run_ok_def)
next
  case (Finish c r outcome now now1 now2 ws)
  then show ?case using cache_ok_finish[of now r now1 now2 outcome c] calls_ok_finish[of r ws c outcome now1 now2]
    by (simp add: run_ok_def finish_lookup_config)
next
  case (Status now now' r ws url_parse to_ascii)
  have "cache_ok now' (remove_expired r now')"
    using cache_ok_remove_expired[of now' r now'] cache_ok_frame[of now r r now'] Status by (simp add: run_ok_def)
  then show ?case using Status calls_ok_frame[of r ws "remove_expired r now'"]
    by (simp add: run_ok_def resolver_status_def Let_def remove_expired_frame)
qed (rule run_ok_frame, assumption,
     auto simp: record_doh_success_def record_strict_failure_def set_fallback_handler_def Let_def)+

lemma run_ok_new:
  assumes "new_resolver url_parse to_ascii config = Inr r"
  shows "run_ok (now, r, [])"
proof -
  obtain c where c: "normalize_dns_config url_parse to_ascii config = Inr c"
    "r = \<lparr>rs_config = c, rs_cache = (\<lambda>_. None), rs_expiry = empty_index, rs_inflight = (\<lambda>_. None),
          rs_calls = [], rs_strict = (\<lambda>_. 0), rs_emitted = (\<lambda>_. False), rs_handler = False,
          rs_queries = 0, rs_hits = 0, rs_doh_ok = 0, rs_doh_failed = 0, rs_dot_ok = 0, rs_dot_failed = 0,
     rs_legacy_ok = 0, rs_legacy_failed = 0, rs_fallbacks = 0\<rparr>"
    using assms by (auto simp: new_resolver_def split: sum.splits)
  have "0 < dc_max_cache c" "0 < dc_cache_ttl c" using normalized_limits[OF c(1)] by auto
  then show ?thesis
    by (simp add: c(2) run_ok_def cache_ok_def calls_ok_def mirrors_def ix.ok_empty ix.dl_empty)
qed

lemma run_ok_reachable:
  assumes "flight_reachable r0 s" "new_resolver url_parse to_ascii config = Inr r0"
  shows "run_ok s \<and> rs_config (fst (snd s)) = rs_config r0"
  using assms
proof (induction rule: flight_reachable.induct)
  case (Start now)
  then show ?case using run_ok_new by simp
next
  case (Next s s')
  have "rs_config (fst (snd s')) = rs_config (fst (snd s))"
    using Next(2)
  proof (induction rule: flight_step.induct)
    case (Begin now now' r key r' out ws)
    then show ?case using begin_resolve_config[of r key now'] by simp
  qed (simp_all add: leave_call_def finish_lookup_config resolver_status_def remove_expired_frame
        record_doh_success_def record_strict_failure_def set_fallback_handler_def Let_def)
  then show ?case using Next run_ok_step by auto
qed

section \<open>Properties\<close>

text \<open>The answer cache is bounded and in step with its expiry index: in every state a run of the resolver can reach, under any interleaving of its locked sections, it holds at most the configured number of entries, and the index holds exactly the keys of the cache, each with the deadline of its entry. \<close>

theorem resolver_cache_bounded:
  assumes "new_resolver url_parse to_ascii config = Inr r0" and "flight_reachable r0 (now, r, ws)"
  shows "int (card (dom (rs_cache r))) \<le> dc_max_cache (rs_config r) \<and>
    idx_deadlines (rs_expiry r) = (\<lambda>k. map_option snd (rs_cache r k)) \<and> idx_len (rs_expiry r) = card (dom (rs_cache r))"
proof -
  have c: "cache_ok now r" using run_ok_reachable[OF assms(2,1)] by (simp add: run_ok_def)
  have m: "mirrors (rs_expiry r) (rs_cache r)" using c by (simp add: cache_ok_def)
  have "idx_deadlines (rs_expiry r) k = map_option snd (rs_cache r k)" for k
  proof (cases "rs_cache r k")
    case None
    then have "k \<notin> dom (idx_deadlines (rs_expiry r))" using m unfolding mirrors_def by auto
    then show ?thesis using None by (simp add: domIff)
  next
    case (Some p)
    then show ?thesis using c by (cases p) (simp add: cache_ok_def)
  qed
  then show ?thesis using c mirrors_finite[OF m] by (auto simp: cache_ok_def)
qed

text \<open> C10. No expired and no foreign answer is served from the cache: whenever \<open>Resolve\<close> answers from the cache in a reachable state, the answer is marked as cached, its deadline lies in the future by no more than the configured lifetime, and it is an answer for this domain, record type and adapter. \<close>

theorem cached_answer_fresh:
  assumes "new_resolver url_parse to_ascii config = Inr r0" and "flight_reachable r0 (now, r, ws)"
    and "now \<le> now'" and "begin_resolve r key now' = (r', Hit result)"
  shows "\<exists>t. dr_expires result = Some t \<and> now' < t \<and> t \<le> now' + dc_cache_ttl (rs_config r0) \<and> dr_cached result \<and>
    dr_domain result = ck_domain key \<and> dr_type result = Some (ck_type key) \<and> dr_adapter result = ck_adapter key"
proof -
  have c: "cache_ok now r \<and> rs_config r = rs_config r0"
    using run_ok_reachable[OF assms(2,1)] by (simp add: run_ok_def)
  have hit: "\<exists>stored t. rs_cache r key = Some (stored, t) \<and> now' < t \<and> result = stored\<lparr>dr_cached := True\<rparr>"
    using assms(4) join_call_frame(4)
    by (auto simp: begin_resolve_def Let_def split: option.splits if_splits) (metis begun.distinct(1) snd_conv)+
  then obtain stored t where s: "rs_cache r key = Some (stored, t)" "now' < t" "result = stored\<lparr>dr_cached := True\<rparr>" by blast
  then have "entry_ok now (dc_cache_ttl (rs_config r0)) key stored t" using c by (auto simp: cache_ok_def)
  then show ?thesis using s(2,3) assms(3) by (auto simp: entry_ok_def)
qed

text \<open> C11. Lookups are coalesced: in every reachable state the unfinished calls that somebody waits for have pairwise different keys, a call's waiter count is the number of callers waiting for it, and a new \<open>Resolve\<close> that has to wait waits for a call of its own key, which is the unfinished awaited call of that key if there is one. \<close>

theorem single_flight:
  assumes "new_resolver url_parse to_ascii config = Inr r0" and "flight_reachable r0 (now, r, ws)"
  shows "inj_on (\<lambda>c. lo_key (rs_calls r ! c)) {c \<in> set ws. lo_done (rs_calls r ! c) = None} \<and>
    (\<forall>c < length (rs_calls r). lo_waiters (rs_calls r ! c) = int (count_list ws c)) \<and>
    (\<forall>key now' r' c. now \<le> now' \<longrightarrow> begin_resolve r key now' = (r', Wait c) \<longrightarrow>
       lo_key (rs_calls r' ! c) = key \<and>
       (\<forall>d \<in> set ws. lo_done (rs_calls r ! d) = None \<longrightarrow> lo_key (rs_calls r ! d) = key \<longrightarrow> c = d))"
proof -
  have k: "calls_ok r ws" using run_ok_reachable[OF assms(2,1)] by (simp add: run_ok_def)
  have u: "inj_on (\<lambda>c. lo_key (rs_calls r ! c)) {c \<in> set ws. lo_done (rs_calls r ! c) = None}"
    using calls_ok_unique[OF k] by (auto simp: inj_on_def)
  have j: "lo_key (rs_calls r' ! c) = key \<and>
       (\<forall>d \<in> set ws. lo_done (rs_calls r ! d) = None \<longrightarrow> lo_key (rs_calls r ! d) = key \<longrightarrow> c = d)"
    if "join_call s key = (r', Wait c)" "rs_calls s = rs_calls r" "rs_inflight s = rs_inflight r" for s key r' c
  proof (cases "rs_inflight r key")
    case None
    then have none: "\<not> (d \<in> set ws \<and> lo_done (rs_calls r ! d) = None \<and> lo_key (rs_calls r ! d) = key)" for d
      using k unfolding calls_ok_def by (metis lessThan_iff option.distinct(1) subsetD)
    moreover have "lo_key (rs_calls r' ! c) = key" using that None by (auto simp: join_call_def)
    ultimately show ?thesis by blast
  next
    case (Some e)
    then have e: "e < length (rs_calls r)" "lo_key (rs_calls r ! e) = key" "lo_done (rs_calls r ! e) = None" "e \<in> set ws"
      using k by (auto simp: calls_ok_def)
    have "c = e" "lo_key (rs_calls r' ! c) = key" using that Some e by (auto simp: join_call_def)
    then show ?thesis using calls_ok_unique[OF k e(4) _ e(3)] e(2) by auto
  qed
  have b: "lo_key (rs_calls r' ! c) = key \<and>
       (\<forall>d \<in> set ws. lo_done (rs_calls r ! d) = None \<longrightarrow> lo_key (rs_calls r ! d) = key \<longrightarrow> c = d)"
    if begun: "begin_resolve r key now' = (r', Wait c)" for key now' r' c
  proof -
    obtain s where "join_call s key = (r', Wait c)" "rs_calls s = rs_calls r" "rs_inflight s = rs_inflight r"
      using begun by (auto simp: begin_resolve_def Let_def split: option.splits if_splits)
    then show ?thesis by (rule j)
  qed
  show ?thesis using u b k unfolding calls_ok_def by blast
qed

text \<open>Eviction drops the oldest: making room in a reachable state leaves space for one more entry and only live entries, and every live entry that was evicted had a deadline no later than any entry that stays. \<close>

theorem eviction_drops_oldest:
  assumes "new_resolver url_parse to_ascii config = Inr r0" and "flight_reachable r0 (now, r, ws)"
  shows "int (card (dom (rs_cache (make_cache_room r now)))) < dc_max_cache (rs_config r) \<and>
    rs_cache (make_cache_room r now) \<subseteq>\<^sub>m rs_cache r \<and>
    (\<forall>k result t. rs_cache (make_cache_room r now) k = Some (result, t) \<longrightarrow> now < t) \<and>
    (\<forall>k result t k' result' t'. rs_cache r k = Some (result, t) \<longrightarrow> rs_cache (make_cache_room r now) k = None \<longrightarrow> now < t \<longrightarrow>
       rs_cache (make_cache_room r now) k' = Some (result', t') \<longrightarrow> t \<le> t')"
proof -
  have c: "cache_ok now r" using run_ok_reachable[OF assms(2,1)] by (simp add: run_ok_def)
  then have m: "mirrors (rs_expiry r) (rs_cache r)" "0 < dc_max_cache (rs_config r)" by (simp_all add: cache_ok_def)
  obtain x m' S where e: "make_cache_room r now = r\<lparr>rs_cache := m', rs_expiry := x\<rparr>" "m' = rs_cache r |` S"
    "idx_deadlines x = idx_deadlines (rs_expiry r) |` S" "int (card (dom m')) < dc_max_cache (rs_config r)"
    "\<forall>t \<in> ran (idx_deadlines x). now < t"
    "\<forall>k t. idx_deadlines (rs_expiry r) k = Some t \<longrightarrow> k \<notin> S \<longrightarrow> now < t \<longrightarrow> (\<forall>t' \<in> ran (idx_deadlines x). t \<le> t')"
    using make_cache_room_ok[OF m, of now] by blast
  have d: "idx_deadlines (rs_expiry r) k = Some t" if "rs_cache r k = Some (result, t)" for k result t
    using c that by (simp add: cache_ok_def)
  have stays: "t \<in> ran (idx_deadlines x)" if "m' k = Some (result, t)" for k result t
    using that d[of k result t] unfolding e(2,3) by (auto simp: ran_def restrict_map_def split: if_splits)
  have "m' \<subseteq>\<^sub>m rs_cache r" unfolding e(2) by (auto simp: map_le_def)
  moreover have "now < t" if "m' k = Some (result, t)" for k result t using stays[OF that] e(5) by blast
  moreover have "t \<le> t'" if "rs_cache r k = Some (result, t)" "m' k = None" "now < t" "m' k' = Some (result', t')"
    for k result t k' result' t'
  proof -
    have "k \<notin> S" using that(1,2) unfolding e(2) by (auto simp: restrict_map_def split: if_splits)
    then show ?thesis using e(6) d[OF that(1)] that(3) stays[OF that(4)] by blast
  qed
  ultimately show ?thesis using e(1,4) by simp
qed

section \<open>Failure events\<close>

text \<open>\<open>n\<close> failures in a row on one binding, with the events they raise.\<close>

fun fail_times :: "nat \<Rightarrow> resolver \<Rightarrow> binding \<Rightarrow> string \<Rightarrow> resolver \<times> fallback_event list" where
  "fail_times 0 r b failure = (r, [])"
| "fail_times (Suc n) r b failure =
     (let (r1, es) = fail_times n r b failure; (r2, e) = record_strict_failure r1 b failure
      in (r2, case e of None \<Rightarrow> es | Some e' \<Rightarrow> es @ [e']))"

lemma fail_times_state:
  assumes "dc_policy (rs_config r) \<noteq> policy_custom" "dc_policy (rs_config r) \<noteq> policy_dot" "rs_handler r"
    "rs_strict r (dns_binding_key b) = 0" "\<not> rs_emitted r (dns_binding_key b)" "0 < dc_failure_threshold (rs_config r)"
  shows "\<exists>r'. fail_times n r b failure = (r', if int n < dc_failure_threshold (rs_config r) then []
      else [\<lparr>fe_adapter = db_name b, fe_policy = dc_policy (rs_config r), fe_reason = limit_text failure 512\<rparr>]) \<and>
    rs_strict r' (dns_binding_key b) = int n \<and> rs_config r' = rs_config r \<and> rs_handler r' \<and>
    rs_emitted r' (dns_binding_key b) = (dc_failure_threshold (rs_config r) \<le> int n)"
proof (induction n)
  case (Suc n)
  then obtain r' where "fail_times n r b failure = (r', if int n < dc_failure_threshold (rs_config r) then []
      else [\<lparr>fe_adapter = db_name b, fe_policy = dc_policy (rs_config r), fe_reason = limit_text failure 512\<rparr>])"
    "rs_strict r' (dns_binding_key b) = int n" "rs_config r' = rs_config r" "rs_handler r'"
    "rs_emitted r' (dns_binding_key b) = (dc_failure_threshold (rs_config r) \<le> int n)" by blast
  then show ?case using assms(1,2) by (auto simp: record_strict_failure_def Let_def)
qed (use assms in simp)

text \<open>The fallback request of an encrypted-only policy comes exactly once: after a success, a run of failures on one binding raises no event until the configured threshold is reached, exactly one when it is, and no other before the next success; a custom or DoT policy never raises one, whatever the counters hold. \<close>

theorem fallback_event_once:
  assumes "0 < dc_failure_threshold (rs_config r)" and "rs_handler r"
  shows "snd (fail_times n (record_doh_success r b) b failure) =
    (if dc_policy (rs_config r) \<in> {''custom'', ''dot''} \<or> int n < dc_failure_threshold (rs_config r) then []
     else [\<lparr>fe_adapter = db_name b, fe_policy = dc_policy (rs_config r), fe_reason = limit_text failure 512\<rparr>])"
proof (cases "dc_policy (rs_config r) \<in> {''custom'', ''dot''}")
  case True
  have "fail_times n s b failure = (s, [])" if "rs_config s = rs_config r" for s
    using True that by (induction n) (auto simp: record_strict_failure_def)
  then show ?thesis using True by (simp add: record_doh_success_def)
next
  case False
  then obtain r' where "fail_times n (record_doh_success r b) b failure =
      (r', if int n < dc_failure_threshold (rs_config r) then []
       else [\<lparr>fe_adapter = db_name b, fe_policy = dc_policy (rs_config r), fe_reason = limit_text failure 512\<rparr>])"
    using fail_times_state[of "record_doh_success r b" b n failure] assms by (auto simp: record_doh_success_def)
  then show ?thesis using False by auto
qed

section \<open>A run\<close>

definition fresh_resolver :: resolver where
  "fresh_resolver = \<lparr>rs_config = default_dns_config, rs_cache = (\<lambda>_. None), rs_expiry = empty_index,
     rs_inflight = (\<lambda>_. None), rs_calls = [], rs_strict = (\<lambda>_. 0), rs_emitted = (\<lambda>_. False), rs_handler = False,
     rs_queries = 0, rs_hits = 0, rs_doh_ok = 0, rs_doh_failed = 0, rs_dot_ok = 0, rs_dot_failed = 0,
     rs_legacy_ok = 0, rs_legacy_failed = 0, rs_fallbacks = 0\<rparr>"

definition example_key :: cache_key where
  "example_key = \<lparr>ck_adapter = ''Wi-Fi'', ck_ip = ''192.168.1.7'', ck_index = 3, ck_ipv6 = '''', ck_index6 = 0,
     ck_servers = '''', ck_network_dns = False, ck_legacy_dns = False, ck_domain = ''example.org'', ck_type = RecordA\<rparr>"

definition example_result :: dns_result where
  "example_result = \<lparr>dr_addresses = [''192.0.2.1''], dr_domain = '''', dr_address = ''192.0.2.1'', dr_type = None,
     dr_adapter = '''', dr_transport = ''udp'', dr_server = ''192.0.2.53:53'', dr_doh_path = '''', dr_cached = False,
     dr_expires = None\<rparr>"

lemma fresh_resolver_new:
  "new_resolver (\<lambda>_. None) Some (default_dns_config\<lparr>dc_legacy := []\<rparr>) = Inr fresh_resolver"
proof -
  have "normalize_dns_config (\<lambda>_. None) Some (default_dns_config\<lparr>dc_legacy := []\<rparr>) = Inr default_dns_config"
    by code_simp
  then show ?thesis by (simp add: new_resolver_def fresh_resolver_def)
qed

text \<open>Two callers ask for the same name at time 5 and 6; the lookup answers at time 8.\<close>

definition asked_once :: resolver where
  "asked_once = fst (begin_resolve fresh_resolver example_key 5)"

definition asked_twice :: resolver where
  "asked_twice = fst (begin_resolve asked_once example_key 6)"

definition answered :: resolver where
  "answered = finish_lookup asked_twice 0 (Inr (example_result, 60 * second)) 8 8"

lemma asked_reachable: "flight_reachable fresh_resolver (6, asked_twice, [0, 0])"
proof -
  have "begin_resolve fresh_resolver example_key 5 = (asked_once, Wait 0)"
    by (simp add: asked_once_def begin_resolve_def join_call_def fresh_resolver_def)
  from flight_step.Begin[OF _ this, of 5 "[]"]
  have 1: "flight_step (5, fresh_resolver, []) (5, asked_once, [0])" by simp
  have "begin_resolve asked_once example_key 6 = (asked_twice, Wait 0)"
    by (simp add: asked_twice_def asked_once_def begin_resolve_def join_call_def fresh_resolver_def)
  from flight_step.Begin[OF _ this, of 5 "[0]"]
  have 2: "flight_step (5, asked_once, [0]) (6, asked_twice, [0, 0])" by simp
  show ?thesis using flight_reachable.Start[of fresh_resolver 5] 1 2 flight_reachable.Next by blast
qed

lemma answered_reachable: "flight_reachable fresh_resolver (8, answered, [0, 0])"
proof -
  have "rs_calls asked_twice ! 0 = \<lparr>lo_key = example_key, lo_waiters = 2, lo_cancelled = False, lo_done = None\<rparr>"
    "length (rs_calls asked_twice) = 1"
    by (simp_all add: asked_twice_def asked_once_def begin_resolve_def join_call_def fresh_resolver_def)
  then have "flight_step (6, asked_twice, [0, 0]) (8, answered, [0, 0])"
    unfolding answered_def by (intro flight_step.Finish) (auto simp: example_result_def)
  then show ?thesis using asked_reachable flight_reachable.Next by blast
qed

lemma answered_cache:
  "rs_cache answered = [example_key \<mapsto> (example_result\<lparr>dr_domain := ''example.org'', dr_type := Some RecordA,
     dr_adapter := ''Wi-Fi'', dr_expires := Some (8 + 60 * second)\<rparr>, 8 + 60 * second)]"
proof -
  have e: "rs_cache asked_twice = (\<lambda>_. None)" "rs_expiry asked_twice = empty_index" "rs_config asked_twice = default_dns_config"
    "rs_calls asked_twice ! 0 = \<lparr>lo_key = example_key, lo_waiters = 2, lo_cancelled = False, lo_done = None\<rparr>"
    by (simp_all add: asked_twice_def asked_once_def begin_resolve_def join_call_def fresh_resolver_def)
  have "idx_len (empty_index :: cache_key index) = 0" by (simp add: idx_len_def empty_index_def)
  then have "rs_cache (make_cache_room asked_twice 8) = (\<lambda>_. None)"
    by (simp add: make_cache_room_def remove_expired_def e Let_def)
  then show ?thesis
    by (simp add: answered_def finish_lookup_frame stamp_result_def e default_dns_config_def example_key_def
        example_result_def Let_def)
qed

lemma answered_hit: "\<exists>r'. begin_resolve answered example_key 9 = (r', Hit (example_result\<lparr>dr_domain := ''example.org'',
   dr_type := Some RecordA, dr_adapter := ''Wi-Fi'', dr_expires := Some (8 + 60 * second), dr_cached := True\<rparr>))"
  by (simp add: begin_resolve_def answered_cache)

theorem resolver_cache_bounded_witness: "card (dom (rs_cache answered)) = idx_len (rs_expiry answered)"
  using resolver_cache_bounded[OF fresh_resolver_new answered_reachable] by simp

theorem cached_answer_fresh_witness: "\<exists>t. Some (8 + 60 * second) = Some t \<and> 9 < t \<and> t \<le> 9 + 180 * second"
proof -
  obtain r' where "begin_resolve answered example_key 9 = (r', Hit (example_result\<lparr>dr_domain := ''example.org'',
   dr_type := Some RecordA, dr_adapter := ''Wi-Fi'', dr_expires := Some (8 + 60 * second), dr_cached := True\<rparr>))"
    using answered_hit by blast
  from cached_answer_fresh[OF fresh_resolver_new answered_reachable _ this]
  show ?thesis by (simp add: fresh_resolver_def default_dns_config_def)
qed

theorem single_flight_witness: "lo_waiters (rs_calls asked_twice ! 0) = 2"
proof -
  have "length (rs_calls asked_twice) = 1"
    by (simp add: asked_twice_def asked_once_def begin_resolve_def join_call_def fresh_resolver_def)
  then show ?thesis using single_flight[OF fresh_resolver_new asked_reachable] by auto
qed

theorem eviction_drops_oldest_witness: "int (card (dom (rs_cache (make_cache_room answered 8)))) < dc_max_cache (rs_config answered)"
  using eviction_drops_oldest[OF fresh_resolver_new answered_reachable] by blast

theorem fallback_event_once_witness:
  "length (snd (fail_times 5 (record_doh_success (fresh_resolver\<lparr>rs_config := default_dns_config\<lparr>dc_policy := ''google''\<rparr>,
     rs_handler := True\<rparr>) home_binding) home_binding ''timeout'')) = 1"
  using fallback_event_once[of "fresh_resolver\<lparr>rs_config := default_dns_config\<lparr>dc_policy := ''google''\<rparr>, rs_handler := True\<rparr>"
      5 home_binding "''timeout''"]
  by (simp add: default_dns_config_def del: fail_times.simps)

end
