(* ===== verification/DnsWireFacts.thy ===== *)
theory DnsWireFacts
  imports DnsWire
begin

text \<open>
  What the wire code guarantees: the parser never reads outside the packet, what it
  accepts are addresses of the requested family, the query it builds is well formed, and
  it reads back the addresses of any response a server builds for that query.
\<close>

section \<open>No panics\<close>

lemma skip_name_loop_no_panic: "skip_name_loop f p off \<noteq> Inl Panic"
  by (induction f arbitrary: off) (auto simp: get8_def Let_def split: option.splits)

lemma skip_name_no_panic: "skip_name p off \<noteq> Inl Panic"
  by (simp add: skip_name_def skip_name_loop_no_panic)

lemma skip_questions_no_panic: "skip_questions n p off \<noteq> Inl Panic"
proof (induction n arbitrary: off)
  case (Suc n)
  then show ?case using skip_name_no_panic [of p off] by (auto split: sum.split wire_error.split)
qed simp

lemma get16_in: "i + 2 \<le> length p \<Longrightarrow> \<exists>w. get16 p i = Some w"
  by (simp add: get16_def)

lemma get32_in: "i + 4 \<le> length p \<Longrightarrow> \<exists>w. get32 p i = Some w"
  by (simp add: get32_def get16_def)

lemma read_answers_no_panic: "read_answers n p off rtype best \<noteq> Inl Panic"
proof (induction n arbitrary: off best)
  case (Suc n)
  show ?case
  proof (cases "skip_name p off")
    case (Inl e)
    then show ?thesis using skip_name_no_panic [of p off] by (cases e) auto
  next
    case (Inr o1)
    show ?thesis
    proof (cases "o1 + 10 > length p")
      case False
      then obtain a c t l where "get16 p o1 = Some a" "get16 p (o1 + 2) = Some c" "get32 p (o1 + 4) = Some t"
        "get16 p (o1 + 8) = Some l"
        using get16_in [of o1 p] get16_in [of "o1 + 2" p] get32_in [of "o1 + 4" p] get16_in [of "o1 + 8" p] by auto
      then show ?thesis using Inr False Suc.IH by (auto simp: slice_def)
    qed (use Inr in simp)
  qed
qed simp

section \<open>Accepted answers\<close>

definition family_address :: "u16 \<Rightarrow> string \<Rightarrow> bool" where
  "family_address rtype a \<longleftrightarrow>
     (\<exists>ip. a = ip_string ip \<and> (rtype = dns_type_a \<and> length ip = 4 \<and> \<not> is_fake_ipv4 ip \<or>
                               rtype = dns_type_aaaa \<and> length ip = 16))"

definition answer_ok :: "u16 \<Rightarrow> wire_answer \<Rightarrow> bool" where
  "answer_ok rtype w \<longleftrightarrow>
     (\<forall>a\<in>set (wa_addresses w). family_address rtype a) \<and> length (wa_addresses w) \<le> 32 \<and> 0 \<le> wa_ttl w \<and>
     (wa_address w \<noteq> '''' \<longrightarrow> family_address rtype (wa_address w) \<and> wa_addresses w \<noteq> [])"

lemma add_address_ok:
  assumes "answer_ok rtype w" and "family_address rtype (ip_string ip)"
  shows "answer_ok rtype (add_address w ip t)"
  using assms by (auto simp: answer_ok_def add_address_def Let_def)

lemma take_record_ok: "answer_ok rtype w \<Longrightarrow> answer_ok rtype (take_record w rtype atype cls t data)"
  by (auto simp: take_record_def family_address_def intro!: add_address_ok)

lemma read_answers_ok:
  "answer_ok rtype w \<Longrightarrow> read_answers n p off rtype w = Inr v \<Longrightarrow> answer_ok rtype v"
proof (induction n arbitrary: off w)
  case (Suc n)
  obtain o1 where o1: "skip_name p off = Inr o1"
    using Suc.prems(2) by (auto split: sum.splits wire_error.splits)
  then obtain atype cls ttl data and len :: u16 where
    "read_answers n p (o1 + 10 + unat len) rtype (take_record w rtype atype cls ttl data) = Inr v"
    using Suc.prems(2) by (auto split: if_splits option.splits)
  then show ?case using Suc.IH take_record_ok [OF Suc.prems(1)] by blast
qed simp

section \<open>Round trips\<close>

lemma get16_put16: "get16 (pre @ put16 w @ post) (length pre) = Some w"
proof -
  have "push_bit 8 (ucast (ucast (drop_bit 8 w) :: u8)) OR ucast (ucast w :: u8) = w"
    by (rule bit_word_eqI) (auto simp: bit_simps)
  then show ?thesis by (simp add: get16_def put16_def nth_append)
qed

lemma get16_put16_at:
  "n = length pre \<Longrightarrow> get16 (pre @ put16 w @ post) n = Some w"
  by (simp add: get16_put16)

lemma length_put [simp]: "length (put16 w) = 2" "length (put32 v) = 4"
  by (simp_all add: put16_def put32_def)

lemma get32_put32_eq: "get32 (pre @ put32 w @ post) (length pre) = Some w"
proof -
  have "get16 (pre @ put32 w @ post) (length pre) = Some (ucast (drop_bit 16 w))"
    using get16_put16 [of pre] by (simp add: put32_def)
  moreover have "get16 (pre @ put32 w @ post) (length pre + 2) = Some (ucast w)"
    using get16_put16 [of "pre @ put16 (ucast (drop_bit 16 w))"] by (simp add: put32_def)
  moreover have "push_bit 16 (ucast (ucast (drop_bit 16 w) :: u16)) OR ucast (ucast w :: u16) = w"
    by (rule bit_word_eqI) (auto simp: bit_simps)
  ultimately show ?thesis by (simp add: get32_def)
qed

lemma small_label_byte:
  assumes "0 < n" and "n < 64"
  shows "unat (of_nat n :: u8) = n" "(of_nat n :: u8) AND 0xC0 = 0" "((of_nat n :: u8) AND 0xC0 = 0xC0) = False"
proof -
  show u: "unat (of_nat n :: u8) = n" using assms by (simp add: unat_of_nat)
  have "\<forall>k<64. (of_nat k :: u8) AND 0xC0 = 0" by code_simp
  then show z: "(of_nat n :: u8) AND 0xC0 = 0" using assms(2) by blast
  have "(0 :: u8) \<noteq> 0xC0" by code_simp
  then show "((of_nat n :: u8) AND 0xC0 = 0xC0) = False" unfolding z by simp
qed

lemma get32_put32: "n = length pre \<Longrightarrow> get32 (pre @ put32 w @ post) n = Some w"
  by (simp add: get32_put32_eq)

definition dns_label :: "string \<Rightarrow> bool" where
  "dns_label l \<longleftrightarrow> 0 < length l \<and> length l < 64"

lemma skip_name_labels:
  assumes "\<forall>l\<in>set ls. dns_label l" and "length ls < f"
  shows "skip_name_loop f (pre @ concat (map encode_label ls) @ 0 # post) (length pre) =
         Inr (length pre + length (concat (map encode_label ls)) + 1)"
  using assms
proof (induction ls arbitrary: f pre)
  case Nil
  then obtain g where "f = Suc g" by (cases f) auto
  then show ?case by (simp add: get8_def)
next
  case (Cons l ls)
  then obtain g where g: "f = Suc g" "length ls < g" by (cases f) auto
  have l: "0 < length l" "length l < 64" using Cons.prems(1) by (auto simp: dns_label_def)
  let ?p = "pre @ concat (map encode_label (l # ls)) @ 0 # post"
  have b: "get8 ?p (length pre) = Some (of_nat (length l))" by (simp add: get8_def nth_append encode_label_def)
  have p: "?p = (pre @ encode_label l) @ concat (map encode_label ls) @ 0 # post" by simp
  have "skip_name_loop f ?p (length pre) = skip_name_loop g ?p (length (pre @ encode_label l))"
    unfolding g(1) skip_name_loop.simps b Let_def option.case small_label_byte [OF l]
    using l by (simp add: encode_label_def)
  also have "\<dots> = Inr (length (pre @ encode_label l) + length (concat (map encode_label ls)) + 1)"
    unfolding p using Cons.IH [OF _ g(2), of "pre @ encode_label l"] Cons.prems(1) by simp
  finally show ?case by simp
qed

lemma length_split_on: "sum_list (map (\<lambda>l. Suc (length l)) (split_on c s)) = Suc (length s)"
proof (induction s)
  case (Cons x s)
  then show ?case by (cases "split_on c s") auto
qed simp

lemma split_on_count: "(\<forall>l\<in>set (split_on c s). 0 < length l) \<Longrightarrow> 2 * length (split_on c s) \<le> Suc (length s)"
proof -
  have "2 * length ls \<le> sum_list (map (\<lambda>l. Suc (length l)) ls)" if "\<forall>l\<in>set ls. 0 < length l" for ls :: "string list"
    using that
  proof (induction ls)
    case (Cons l ls)
    then have "0 < length l" "2 * length ls \<le> sum_list (map (\<lambda>l. Suc (length l)) ls)" by auto
    then have "2 * length ls + 2 \<le> Suc (length l) + sum_list (map (\<lambda>l. Suc (length l)) ls)" by linarith
    then show ?case by (simp only: list.map sum_list.Cons list.size mult_Suc_right) simp
  qed simp
  then show "(\<forall>l\<in>set (split_on c s). 0 < length l) \<Longrightarrow> 2 * length (split_on c s) \<le> Suc (length s)"
    using length_split_on [of c s] by metis
qed

lemma check_labels_ok: "check_labels ls = None \<Longrightarrow> l \<in> set ls \<Longrightarrow> check_label l = None"
  by (induction ls) (auto split: option.splits)

lemma check_label_dns: "check_label l = None \<Longrightarrow> dns_label l"
  by (auto simp: check_label_def dns_label_def split: if_splits)

lemma normalize_domain_labels:
  assumes "dns_normalize_domain to_ascii v = Inr n"
  shows "\<forall>l\<in>set (split_on CHR ''.'' n). dns_label l" and "length (split_on CHR ''.'' n) \<le> 127" and "length n \<le> 253"
    and "\<forall>l\<in>set (split_on CHR ''.'' n). check_label l = None"
proof -
  have n: "length n \<le> 253" "check_labels (split_on CHR ''.'' n) = None"
    using assms by (auto simp: dns_normalize_domain_def Let_def split: option.splits if_splits)
  show c: "\<forall>l\<in>set (split_on CHR ''.'' n). check_label l = None" using check_labels_ok [OF n(2)] by blast
  then show l: "\<forall>l\<in>set (split_on CHR ''.'' n). dns_label l" using check_label_dns by blast
  show "length n \<le> 253" by (rule n(1))
  show "length (split_on CHR ''.'' n) \<le> 127"
    using split_on_count [of "CHR ''.''" n] l n(1) by (auto simp: dns_label_def)
qed

lemma length_encode_labels:
  "length (concat (map encode_label ls)) = sum_list (map (\<lambda>l. Suc (length l)) ls)"
  by (induction ls) (auto simp: encode_label_def)

text \<open>A response of a server that points every answer at the question's name.\<close>

definition encode_answer :: "u16 \<Rightarrow> bytes \<times> u32 \<Rightarrow> bytes" where
  "encode_answer t a = [0xC0, 0x0C] @ put16 t @ put16 1 @ put32 (snd a) @ put16 (of_nat (length (fst a))) @ fst a"

definition encode_response :: "u16 \<Rightarrow> u16 \<Rightarrow> string list \<Rightarrow> (bytes \<times> u32) list \<Rightarrow> bytes" where
  "encode_response qid t ls answers =
     put16 qid @ put16 0x8180 @ put16 1 @ put16 (of_nat (length answers)) @ [0, 0, 0, 0] @
     concat (map encode_label ls) @ 0 # put16 t @ put16 1 @ concat (map (encode_answer t) answers)"

lemma skip_pointer:
  assumes "12 < length p" and "off + 2 \<le> length p" and "p ! off = 0xC0" and "p ! (off + 1) = 0x0C"
  shows "skip_name p off = Inr (off + 2)"
proof -
  have u: "unat (0xC0 :: u8) \<noteq> 0" "(0xC0 :: u8) AND 0xC0 = 0xC0" "unat ((0xC0 :: u8) AND 0x3F) * 256 + unat (0x0C :: u8) = 12"
    by code_simp+
  have g: "get8 p off = Some 0xC0" "get8 p (off + 1) = Some 0x0C" using assms by (simp_all add: get8_def)
  have f: "(129 :: nat) = Suc 128" by simp
  show ?thesis using assms(1,2) u
    unfolding skip_name_def f skip_name_loop.simps g Let_def option.case by simp
qed

lemma read_answer_step:
  assumes p: "p = pre @ encode_answer t a @ post" and len: "12 < length pre" and ip: "length (fst a) < 65536"
  shows "read_answers (Suc n) p (length pre) t best =
         read_answers n p (length (pre @ encode_answer t a)) t (take_record best t t 1 (snd a) (fst a))"
proof -
  define l :: u16 where "l = of_nat (length (fst a))"
  define o1 where "o1 = length pre + 2"
  have ul: "unat l = length (fst a)" using ip by (simp add: l_def unat_of_nat)
  have "skip_name p (length pre) = Inr o1" unfolding o1_def
    by (rule skip_pointer) (use len in \<open>auto simp: p encode_answer_def nth_append\<close>)
  moreover have "get16 p o1 = Some t"
    unfolding p encode_answer_def using get16_put16_at [of o1 "pre @ [0xC0, 0x0C]"] by (simp add: o1_def)
  moreover have "get16 p (o1 + 2) = Some 1"
    unfolding p encode_answer_def using get16_put16_at [of "o1 + 2" "pre @ [0xC0, 0x0C] @ put16 t"]
    by (simp add: o1_def)
  moreover have "get32 p (o1 + 4) = Some (snd a)"
    unfolding p encode_answer_def using get32_put32 [of "o1 + 4" "pre @ [0xC0, 0x0C] @ put16 t @ put16 1"]
    by (simp add: o1_def)
  moreover have "get16 p (o1 + 8) = Some l"
    unfolding p encode_answer_def l_def
    using get16_put16_at [of "o1 + 8" "pre @ [0xC0, 0x0C] @ put16 t @ put16 1 @ put32 (snd a)"]
    by (simp add: o1_def)
  moreover have "slice p (o1 + 10) (o1 + 10 + unat l) = Some (fst a)"
    by (simp add: slice_def p encode_answer_def o1_def ul)
  moreover have "\<not> length p < o1 + 10 + unat l" "\<not> length p < o1 + 10"
    by (simp_all add: p encode_answer_def o1_def ul)
  moreover have "length (pre @ encode_answer t a) = o1 + 10 + unat l" by (simp add: encode_answer_def o1_def ul)
  ultimately show ?thesis by (simp del: append_assoc add_2_eq_Suc')
qed

lemma read_answers_encoded:
  assumes "p = pre @ concat (map (encode_answer t) as) @ post" and "12 < length pre"
    and "\<forall>a\<in>set as. length (fst a) < 65536"
  shows "read_answers (length as) p (length pre) t best =
         Inr (foldl (\<lambda>w a. take_record w t t 1 (snd a) (fst a)) best as)"
  using assms
proof (induction "as" arbitrary: pre best)
  case (Cons a as)
  have p: "p = pre @ encode_answer t a @ (concat (map (encode_answer t) as) @ post)" using Cons.prems(1) by simp
  have p': "p = (pre @ encode_answer t a) @ concat (map (encode_answer t) as) @ post" using Cons.prems(1) by simp
  have "read_answers (length (a # as)) p (length pre) t best =
        read_answers (length as) p (length (pre @ encode_answer t a)) t (take_record best t t 1 (snd a) (fst a))"
    using read_answer_step [OF p Cons.prems(2)] Cons.prems(3) by simp
  also have "\<dots> = Inr (foldl (\<lambda>w a. take_record w t t 1 (snd a) (fst a)) (take_record best t t 1 (snd a) (fst a)) as)"
    using Cons.IH [OF p'] Cons.prems by simp
  finally show ?case by simp
qed simp

lemma read_answers_whole:
  assumes "\<forall>l\<in>set ls. dns_label l" and "length ls < 129" and "ls \<noteq> []"
    and "length answers < 65536" and "\<forall>a\<in>set answers. length (fst a) < 65536"
  shows "parse_response (encode_response qid t ls answers) qid t =
    (let w = foldl (\<lambda>w a. take_record w t t 1 (snd a) (fst a)) no_answer answers
     in if wa_address w = '''' then Inl NoAddress else Inr w)"
proof -
  let ?N = "concat (map encode_label ls)" and ?A = "concat (map (encode_answer t) answers)"
  define p where "p = encode_response qid t ls answers"
  define hdr where "hdr = put16 qid @ put16 0x8180 @ put16 1 @ put16 (of_nat (length answers)) @ [0, 0, 0, 0]"
  have p: "p = hdr @ ?N @ 0 # (put16 t @ put16 1 @ ?A)" by (simp add: p_def encode_response_def hdr_def)
  have h: "length hdr = 12" by (simp add: hdr_def)
  have ac: "unat (of_nat (length answers) :: u16) = length answers" using assms(4) by (simp add: unat_of_nat)
  have "get16 p 0 = Some qid" using get16_put16_at [of 0 "[]"] by (simp add: p hdr_def)
  moreover have "get16 p 2 = Some 0x8180" using get16_put16_at [of 2 "put16 qid"] by (simp add: p hdr_def)
  moreover have "get16 p 4 = Some 1" using get16_put16_at [of 4 "put16 qid @ put16 0x8180"] by (simp add: p hdr_def)
  moreover have "get16 p 6 = Some (of_nat (length answers))"
    using get16_put16_at [of 6 "put16 qid @ put16 0x8180 @ put16 1"] by (simp add: p hdr_def)
  moreover have q: "skip_questions (unat (1 :: u16)) p 12 = Inr (length (hdr @ ?N @ 0 # (put16 t @ put16 1)))"
  proof -
    have "skip_name p 12 = Inr (12 + length ?N + 1)"
      using skip_name_labels [OF assms(1,2), of hdr] h by (simp add: skip_name_def p)
    then show ?thesis by (simp add: h p)
  qed
  moreover have "read_answers (length answers) p (length (hdr @ ?N @ 0 # (put16 t @ put16 1))) t no_answer =
      Inr (foldl (\<lambda>w a. take_record w t t 1 (snd a) (fst a)) no_answer answers)"
    by (rule read_answers_encoded [where post = "[]"]) (use assms h in \<open>simp_all add: p\<close>)
  moreover have "(0x8180 :: u16) AND 0x8000 \<noteq> 0" "(0x8180 :: u16) AND 0x0200 = 0" "(0x8180 :: u16) AND 0x000F = 0"
    by code_simp+
  moreover have "\<not> length p < 12" by (simp add: p h)
  ultimately show ?thesis unfolding parse_response_def p_def [symmetric]
    by (simp add: ac Let_def del: length_append)
qed

definition usable_record :: "u16 \<Rightarrow> bytes \<Rightarrow> bool" where
  "usable_record t ip \<longleftrightarrow> t = dns_type_a \<and> length ip = 4 \<and> \<not> is_fake_ipv4 ip \<or> t = dns_type_aaaa \<and> length ip = 16"

lemma usable_not_Nil: "usable_record t ip \<Longrightarrow> ip_string ip \<noteq> []"
  using ip_string_not_Nil by (auto simp: usable_record_def)

lemma take_record_usable:
  "take_record w t t 1 ttl ip = (if usable_record t ip then add_address w ip ttl else w)"
proof -
  have "dns_type_a \<noteq> dns_type_aaaa" by code_simp
  then show ?thesis by (auto simp: take_record_def usable_record_def)
qed

lemma foldl_take_record:
  assumes "good = filter (\<lambda>a. usable_record t (fst a)) answers"
  shows "wa_addresses (foldl (\<lambda>w a. take_record w t t 1 (snd a) (fst a)) no_answer answers) =
           take 32 (map (\<lambda>a. ip_string (fst a)) good) \<and>
    (good = [] \<longrightarrow> wa_address (foldl (\<lambda>w a. take_record w t t 1 (snd a) (fst a)) no_answer answers) = '''') \<and>
    (good \<noteq> [] \<longrightarrow>
      wa_ttl (foldl (\<lambda>w a. take_record w t t 1 (snd a) (fst a)) no_answer answers) =
        Min ((\<lambda>a. int (unat (snd a)) * second) ` set good) \<and>
      (\<exists>a\<in>set good. wa_address (foldl (\<lambda>w a. take_record w t t 1 (snd a) (fst a)) no_answer answers) = ip_string (fst a) \<and>
         wa_ttl (foldl (\<lambda>w a. take_record w t t 1 (snd a) (fst a)) no_answer answers) = int (unat (snd a)) * second))"
  using assms
proof (induction answers arbitrary: good rule: rev_induct)
  case Nil
  then show ?case by (simp add: no_answer_def)
next
  case (snoc a as)
  define w where "w = foldl (\<lambda>w a. take_record w t t 1 (snd a) (fst a)) no_answer as"
  define g where "g = filter (\<lambda>a. usable_record t (fst a)) as"
  note IH = snoc.IH [OF g_def, folded w_def]
  show ?case
  proof (cases "usable_record t (fst a)")
    case False
    then have "good = g" by (simp add: snoc.prems g_def)
    have f: "foldl (\<lambda>w a. take_record w t t 1 (snd a) (fst a)) no_answer (as @ [a]) = w"
      using False by (simp add: take_record_usable w_def)
    show ?thesis using IH \<open>good = g\<close> unfolding f by blast
  next
    case True
    let ?v = "int (unat (snd a)) * second"
    have good: "good = g @ [a]" using True by (simp add: snoc.prems g_def)
    have f: "foldl (\<lambda>w a. take_record w t t 1 (snd a) (fst a)) no_answer (as @ [a]) = add_address w (fst a) (snd a)"
      using True by (simp add: take_record_usable w_def)
    have addrs: "wa_addresses (add_address w (fst a) (snd a)) = take 32 (map (\<lambda>a. ip_string (fst a)) good)"
      using IH by (auto simp: add_address_def Let_def good take_Cons')
    show ?thesis
    proof (cases "g = []")
      case True
      then show ?thesis using IH addrs unfolding f good by (simp add: add_address_def Let_def)
    next
      case gne: False
      then obtain b where b: "b \<in> set g" "wa_address w = ip_string (fst b)" using IH by auto
      then have ne: "wa_address w \<noteq> ''''" using usable_not_Nil by (auto simp: g_def)
      moreover have "Min ((\<lambda>a. int (unat (snd a)) * second) ` set good) = min ?v (wa_ttl w)"
        using IH gne by (simp add: good)
      moreover from ne have "wa_ttl (add_address w (fst a) (snd a)) = min ?v (wa_ttl w)"
        "wa_address (add_address w (fst a) (snd a)) = (if ?v < wa_ttl w then ip_string (fst a) else wa_address w)"
        by (simp_all add: add_address_def Let_def min_def)
      moreover have "\<exists>b\<in>set good. (if ?v < wa_ttl w then ip_string (fst a) else wa_address w) = ip_string (fst b) \<and>
          min ?v (wa_ttl w) = int (unat (snd b)) * second"
      proof (cases "?v < wa_ttl w")
        case True
        then show ?thesis by (intro bexI [of _ a]) (simp_all add: good)
      next
        case False
        obtain b where "b \<in> set g" "wa_address w = ip_string (fst b)" "wa_ttl w = int (unat (snd b)) * second"
          using IH gne by blast
        then show ?thesis using False by (intro bexI [of _ b]) (simp_all add: good)
      qed
      moreover have "good \<noteq> []" by (simp add: good)
      ultimately show ?thesis using addrs unfolding f by (simp only: simp_thms)
    qed
  qed
qed

lemma response_parsed:
  assumes "\<forall>l\<in>set ls. dns_label l" and "length ls < 129" and "ls \<noteq> []"
    and "length answers < 65536" and "\<forall>a\<in>set answers. length (fst a) < 65536"
  shows "let good = filter (\<lambda>a. usable_record t (fst a)) answers in
    case parse_response (encode_response qid t ls answers) qid t of
      Inl e \<Rightarrow> good = [] \<and> e = NoAddress
    | Inr w \<Rightarrow> good \<noteq> [] \<and> wa_addresses w = take 32 (map (\<lambda>a. ip_string (fst a)) good) \<and>
               wa_ttl w = Min ((\<lambda>a. int (unat (snd a)) * second) ` set good)"
proof -
  define good where "good = filter (\<lambda>a. usable_record t (fst a)) answers"
  define w where "w = foldl (\<lambda>w a. take_record w t t 1 (snd a) (fst a)) no_answer answers"
  note f = foldl_take_record [OF good_def, folded w_def]
  have "\<forall>a\<in>set good. ip_string (fst a) \<noteq> []" using usable_not_Nil by (auto simp: good_def)
  then have e: "(wa_address w = []) = (good = [])" using f by auto
  have r: "parse_response (encode_response qid t ls answers) qid t = (if good = [] then Inl NoAddress else Inr w)"
    using read_answers_whole [OF assms, of qid t, folded w_def] by (simp only: Let_def e)
  show ?thesis unfolding r good_def [symmetric] Let_def using f by (simp split: if_split)
qed

definition one_a_record :: bytes where
  "one_a_record = encode_response 7 dns_type_a [''a''] [([192, 0, 2, 1], 60)]"

lemma usable_example: "usable_record 1 [192, 0, 2, 1]"
  by (simp add: usable_record_def is_fake_ipv4_def to4_def)

lemma one_a_record_accepted: "\<exists>w. parse_response one_a_record 7 1 = Inr w"
  using response_parsed [of "[''a'']" "[([192, 0, 2, 1], 60)]" 1 7] usable_example
  by (auto simp: Let_def one_a_record_def dns_label_def split: sum.splits)

section \<open>Properties\<close>

text \<open>
  C9. \<open>parseResponse\<close> never panics: for every packet, every read is inside the packet, so
  the parser always returns an answer or one of its errors.
\<close>

theorem parse_response_no_panic: "parse_response p qid rtype \<noteq> Inl Panic"
proof (cases "length p < 12")
  case False
  then obtain a b c d where "get16 p 0 = Some a" "get16 p 2 = Some b" "get16 p 4 = Some c" "get16 p 6 = Some d"
    using get16_in [of 0 p] get16_in [of 2 p] get16_in [of 4 p] get16_in [of 6 p] by auto
  then show ?thesis
    using False skip_questions_no_panic [of "unat c" p 12] read_answers_no_panic [of "unat d" p]
    by (auto simp: parse_response_def split: sum.split)
qed (simp add: parse_response_def)

text \<open>What \<open>parseResponse\<close> accepts: only from a packet with the expected id, and then
  between 1 and 32 addresses, each the text of an address of the requested family (for A
  records never one of the fake range 198.18/15), with a lifetime that is not negative.
\<close>

theorem parse_response_accepts:
  assumes "parse_response p qid rtype = Inr w"
  shows "get16 p 0 = Some qid \<and> answer_ok rtype w \<and> wa_addresses w \<noteq> [] \<and> family_address rtype (wa_address w)"
proof -
  have len: "\<not> length p < 12" using assms by (auto simp: parse_response_def)
  then obtain a b c d where g: "get16 p 0 = Some a" "get16 p 2 = Some b" "get16 p 4 = Some c" "get16 p 6 = Some d"
    using get16_in [of 0 p] get16_in [of 2 p] get16_in [of 4 p] get16_in [of 6 p] by auto
  have id: "a = qid" using assms len g by (simp add: parse_response_def split: if_splits)
  obtain off where off: "skip_questions (unat c) p 12 = Inr off"
    using assms len g by (simp add: parse_response_def split: if_splits sum.splits)
  have r: "read_answers (unat d) p off rtype no_answer = Inr w" and ne: "wa_address w \<noteq> ''''"
    using assms len g off by (simp_all add: parse_response_def split: if_splits sum.splits)
  have "answer_ok rtype no_answer" by (simp add: answer_ok_def no_answer_def)
  then have "answer_ok rtype w" using read_answers_ok r by blast
  then show ?thesis using ne g(1) id by (simp add: answer_ok_def)
qed

theorem parse_response_accepts_witness:
  "\<exists>w. parse_response one_a_record 7 1 = Inr w \<and> answer_ok 1 w \<and> wa_addresses w \<noteq> []"
  using one_a_record_accepted parse_response_accepts [of one_a_record 7 1] by blast

text \<open>
  C39. Round trip of a response: the parser reads back exactly the usable addresses of any
  response a server builds for the question (at most 32 of them, in order), with the
  least lifetime of them all, and refuses a response without a usable address.
\<close>

theorem response_round_trip:
  assumes "\<forall>l\<in>set ls. dns_label l" and "length ls < 129" and "ls \<noteq> []"
    and "length answers < 65536" and "\<forall>a\<in>set answers. length (fst a) < 65536"
  shows "let good = filter (\<lambda>a. usable_record t (fst a)) answers in
    case parse_response (encode_response qid t ls answers) qid t of
      Inl e \<Rightarrow> good = [] \<and> e = NoAddress
    | Inr w \<Rightarrow> good \<noteq> [] \<and> wa_addresses w = take 32 (map (\<lambda>a. ip_string (fst a)) good) \<and>
               wa_ttl w = Min ((\<lambda>a. int (unat (snd a)) * second) ` set good)"
  by (rule response_parsed [OF assms])

theorem response_round_trip_witness:
  "\<exists>w. parse_response one_a_record 7 1 = Inr w \<and> wa_addresses w = [ip_string [192, 0, 2, 1]] \<and> wa_ttl w = 60 * second"
proof -
  have "\<forall>l\<in>set [''a'']. dns_label l" by (simp add: dns_label_def)
  from response_round_trip [OF this, of "[([192, 0, 2, 1], 60)]" 1 7] usable_example show ?thesis
    by (auto simp: Let_def one_a_record_def split: sum.splits)
qed

text \<open>A query is well formed whatever the domain: when \<open>buildQuery\<close> succeeds, the packet
  starts with the generated id, asks one question, has at most 271 bytes, its name is the
  sequence of the domain's labels (each of 1 to 63 letters, digits and inner hyphens), and
  the name ends exactly where the type and class follow.
\<close>

theorem query_well_formed:
  assumes "build_query to_ascii (Some qid) domain rtype = Inr (p, i)"
  shows "i = qid \<and> get16 p 0 = Some qid \<and> get16 p 4 = Some 1 \<and> length p \<le> 271 \<and>
    skip_name p 12 = Inr (length p - 4) \<and> get16 p (length p - 4) = Some rtype \<and>
    (\<exists>n. dns_normalize_domain to_ascii domain = Inr n \<and>
         slice p 12 (length p - 5) = Some (concat (map encode_label (split_on CHR ''.'' n))) \<and>
         (\<forall>l\<in>set (split_on CHR ''.'' n). check_label l = None))"
proof -
  obtain n where n: "dns_normalize_domain to_ascii domain = Inr n"
    using assms by (cases "dns_normalize_domain to_ascii domain") (simp_all add: build_query_def)
  have i: "i = qid" and p0: "p = put16 qid @ put16 0x0100 @ put16 1 @ replicate 6 0 @
               concat (map encode_label (split_on CHR ''.'' n)) @ [0] @ put16 rtype @ put16 1"
    using assms unfolding build_query_def n sum.case option.case sum.inject prod.inject by (elim conjE, simp only:)+
  define N where "N = concat (map encode_label (split_on CHR ''.'' n))"
  define hdr where "hdr = put16 qid @ put16 0x0100 @ put16 1 @ replicate 6 0"
  have p: "p = hdr @ N @ 0 # (put16 rtype @ put16 1)" by (simp add: p0 hdr_def N_def)
  have h: "length hdr = 12" by (simp add: hdr_def)
  note d = normalize_domain_labels [OF n]
  have lenN: "length N = Suc (length n)" unfolding N_def length_encode_labels by (rule length_split_on)
  have len: "length p = 12 + length N + 5" by (simp add: p h)
  have off: "length p - 4 = 12 + length N + 1" "length p - 5 = 12 + length N" "length p \<le> 271"
    using d(3) by (simp_all add: len lenN)
  have "skip_name p 12 = Inr (length p - 4)"
    unfolding off using skip_name_labels [OF d(1), of 129 hdr] d(2) h by (simp add: skip_name_def p N_def)
  moreover have "get16 p 0 = Some qid" using get16_put16_at [of 0 "[]"] by (simp add: p hdr_def)
  moreover have "get16 p 4 = Some 1" using get16_put16_at [of 4 "put16 qid @ put16 0x0100"] by (simp add: p hdr_def)
  moreover have "get16 p (length p - 4) = Some rtype"
    unfolding off using get16_put16_at [of "12 + length N + 1" "hdr @ N @ [0]"] h by (simp add: p)
  moreover have "slice p 12 (length p - 5) = Some N" unfolding off by (simp add: slice_def p h)
  ultimately show ?thesis using n d(4) i off(3) unfolding N_def by blast
qed

theorem query_well_formed_witness:
  "\<exists>p. build_query Some (Some 9) ''Example.org.'' 1 = Inr (p, 9) \<and> length p \<le> 271 \<and> skip_name p 12 = Inr (length p - 4)"
proof -
  have "case build_query Some (Some 9) ''Example.org.'' 1 of Inl _ \<Rightarrow> False | Inr (p, i) \<Rightarrow> i = 9" by code_simp
  then obtain p where p: "build_query Some (Some 9) ''Example.org.'' 1 = Inr (p, 9)"
    by (auto split: sum.splits prod.splits)
  show ?thesis using query_well_formed [OF p] p by blast
qed

end
