(* ===== verification/ResolverPathFacts.thy ===== *)
theory ResolverPathFacts
  imports ResolverPath ResolverFacts DnsWireFacts
begin

text \<open>
  What a lookup may send, and that the automatic policy always reaches traditional DNS. Every
  function of the path extends the trace; \<open>extends P\<close> says by queries satisfying P, with the
  configuration unchanged, and is proved once per function from the queries it sends itself.
\<close>

section \<open>Extending the trace\<close>

lemma within_timer_simps [simp]:
  "ev_url (within_timer t env) = ev_url env" "ev_ascii (within_timer t env) = ev_ascii env"
  "ev_arrivals (within_timer t env) = ev_arrivals env"
  by (simp_all add: within_timer_def)

definition extends :: "(wire_query \<Rightarrow> bool) \<Rightarrow> path \<Rightarrow> path \<Rightarrow> bool" where
  "extends P p p' \<longleftrightarrow> rs_config (pa_resolver p') = rs_config (pa_resolver p) \<and>
     (\<exists>qs. pa_trace p' = pa_trace p @ qs \<and> (\<forall>q \<in> set qs. P q))"

lemma extends_refl [simp]: "extends P p p"
  by (simp add: extends_def)

lemma extends_trans: "extends P p q \<Longrightarrow> extends P q r \<Longrightarrow> extends P p r"
  by (auto simp: extends_def)

lemma extends_send [simp]: "extends P p (send p q) = P q"
  by (auto simp: extends_def send_def)

lemma extends_on_resolver: "extends P p q \<Longrightarrow> (\<And>r. rs_config (f r) = rs_config r) \<Longrightarrow> extends P p (on_resolver f q)"
  by (simp add: extends_def on_resolver_def)

section \<open>Single queries\<close>

text \<open>The packet of a query was built for its name and type.\<close>

definition packet_for :: "(string \<Rightarrow> string option) \<Rightarrow> string \<Rightarrow> u16 \<Rightarrow> bytes \<Rightarrow> bool" where
  "packet_for to_ascii domain rtype packet = (\<exists>qid. build_query to_ascii (Some qid) domain rtype = Inr (packet, qid))"

lemma build_query_packet:
  "build_query to_ascii rand domain rtype = Inr (packet, qid) \<Longrightarrow> packet_for to_ascii domain rtype packet"
  by (auto simp: packet_for_def build_query_def split: sum.splits option.splits)

definition plain_allowed :: "(wire_query \<Rightarrow> bool) \<Rightarrow> net_env \<Rightarrow> string \<Rightarrow> u16 \<Rightarrow> binding \<Rightarrow> string \<Rightarrow> bool" where
  "plain_allowed P env domain rtype b s \<longleftrightarrow>
     (\<forall>tcp packet. packet_for (ev_ascii env) domain rtype packet \<longrightarrow> P (PlainQuery tcp s domain rtype b packet))"

lemma query_udp_extends: "plain_allowed P env domain rtype b s \<Longrightarrow> extends P p (fst (query_udp env domain rtype b s p))"
  using build_query_packet
  by (fastforce simp: query_udp_def plain_allowed_def Let_def split: sum.split)

lemma query_tcp_extends: "plain_allowed P env domain rtype b s \<Longrightarrow> extends P p (fst (query_tcp env domain rtype b s p))"
  using build_query_packet
  by (fastforce simp: query_tcp_def plain_allowed_def Let_def split: sum.split)

lemma legacy_loop_extends:
  "(\<And>s. s \<in> set servers \<Longrightarrow> plain_allowed P env domain rtype b s) \<Longrightarrow>
   extends P p (fst (legacy_loop env domain rtype b servers p))"
proof (induction env domain rtype b servers p rule: legacy_loop.induct)
  case (2 env domain rtype b server servers p)
  obtain p1 o1 where u: "query_udp env domain rtype b server p = (p1, o1)" by fastforce
  obtain p2 o2 where t: "query_tcp env domain rtype b server p1 = (p2, o2)" by fastforce
  have ok: "plain_allowed P env domain rtype b server" using 2(2) by simp
  have 1: "extends P p p1" using query_udp_extends[OF ok, of p] u by simp
  have 12: "extends P p1 p2" using query_tcp_extends[OF ok, of p1] t by simp
  have 3: "extends P p p2" by (rule extends_trans[OF 1 12])
  have ih: "extends P p2 (fst (legacy_loop env domain rtype b servers p2))"
    if "o1 = None" "o2 = None" "\<not> ev_dead env (pa_trace p2)"
    using 2(1)[of p1 o1 p2 o2] that u t 2(2) by simp
  show ?case
    using 1 3 extends_trans[OF 3 ih] by (simp add: u t split: option.split)
qed simp

text \<open>What a direct encrypted query may add to the trace.\<close>

lemma direct_doh_extends:
  "(\<And>packet. packet_for (ev_ascii env) domain rtype packet \<Longrightarrow> P (DohQuery e domain rtype b packet)) \<Longrightarrow>
   extends P p (fst (direct_doh env domain rtype b e p))"
  using build_query_packet by (fastforce simp: direct_doh_def Let_def split: sum.split)

lemma dot_attempts_extends:
  "(supports_endpoint b (ep_ip e) \<Longrightarrow> P (DotQuery e domain rtype b packet)) \<Longrightarrow>
   supports_endpoint b (ep_ip e) \<Longrightarrow>
   extends P p (fst (dot_attempts n env domain rtype b e packet qid p))"
proof (induction n env domain rtype b e packet qid p rule: dot_attempts.induct)
  case (2 n env domain rtype b e packet qid p)
  let ?p1 = "send p (DotQuery e domain rtype b packet)"
  have 1: "extends P p ?p1" using 2(2,3) by simp
  have ih: "extends P ?p1 (fst (dot_attempts n env domain rtype b e packet qid ?p1))"
    if "ev_slot env (pa_trace p) e b = IdleConnection" "\<not> ev_dead env (pa_trace p)" "\<not> ev_dead env (pa_trace ?p1)"
      "Option.bind (ev_reply env (pa_trace p) (DotQuery e domain rtype b packet)) (exchange_dot qid rtype e) = None" "n \<noteq> 0"
    using 2(1)[OF refl refl _ _ refl refl refl] 2(2,3) that by simp
  show ?case
    using 1 extends_trans[OF 1 ih] by (auto simp: Let_def split: option.split)
qed simp

lemma direct_dot_extends:
  "(\<And>packet. packet_for (ev_ascii env) domain rtype packet \<Longrightarrow> P (DotQuery e domain rtype b packet)) \<Longrightarrow>
   supports_endpoint b (ep_ip e) \<Longrightarrow> extends P p (fst (direct_dot env domain rtype b e p))"
  using build_query_packet dot_attempts_extends[of b e P domain rtype]
  by (fastforce simp: direct_dot_def split: sum.split)

section \<open>Lists and batches\<close>

lemma resolve_legacy_using_extends:
  "(\<And>s. s \<in> set servers \<Longrightarrow> plain_allowed P env domain rtype b s) \<Longrightarrow>
   extends P p (fst (resolve_legacy_using env domain rtype b servers p))"
  using legacy_loop_extends[of servers P env domain rtype b p]
  by (auto simp: resolve_legacy_using_def split: prod.split option.split intro!: extends_on_resolver)

lemma resolve_legacy_extends:
  "(\<And>s. supports_endpoint b s \<Longrightarrow> plain_allowed P env domain rtype b s) \<Longrightarrow>
   extends P p (fst (resolve_legacy env domain rtype b p))"
  unfolding resolve_legacy_def by (rule resolve_legacy_using_extends) (simp add: legacy_servers_def)

definition asks_within :: "(wire_query \<Rightarrow> bool) \<Rightarrow> ask_endpoint \<Rightarrow> endpoint list \<Rightarrow> bool" where
  "asks_within P ask es \<longleftrightarrow> (\<forall>e \<in> set es. \<forall>p. extends P p (fst (ask e p)))"

lemma launch_extends: "asks_within P ask es \<Longrightarrow> extends P p (fst (launch ask es p))"
proof (induction es arbitrary: p)
  case (Cons e es)
  obtain p1 out where a: "ask e p = (p1, out)" by fastforce
  obtain p2 outs where l: "launch ask es p1 = (p2, outs)" by fastforce
  have "extends P p p1" using Cons.prems a by (auto simp: asks_within_def dest: spec[of _ p])
  moreover have "extends P p1 p2" using Cons.IH[of p1] Cons.prems l by (simp add: asks_within_def)
  ultimately show ?case using a l extends_trans by auto
qed simp

lemma asks_within_take: "asks_within P ask es \<Longrightarrow> asks_within P ask (take n es) \<and> asks_within P ask (drop n es)"
  by (auto simp: asks_within_def dest: in_set_takeD in_set_dropD)

lemma batch_loop_extends: "asks_within P ask es \<Longrightarrow> extends P p (fst (batch_loop env ask es p))"
proof (induction env ask es p rule: batch_loop.induct)
  case (1 env ask es p)
  obtain p1 outs where l: "launch ask (take 2 es) p = (p1, outs)" by fastforce
  have a: "extends P p p1" using launch_extends[of P ask "take 2 es" p] 1(2) asks_within_take l by fastforce
  show ?case
  proof (cases "es = [] \<or> first_success (ev_arrivals env (pa_trace p1)) outs \<noteq> None \<or> ev_dead env (pa_trace p1)")
    case True
    then show ?thesis using a l by (subst batch_loop.simps) (auto split: option.split)
  next
    case False
    then have n: "first_success (ev_arrivals env (pa_trace p1)) outs = None" "es \<noteq> []" "\<not> ev_dead env (pa_trace p1)"
      by (cases "first_success (ev_arrivals env (pa_trace p1)) outs"; simp)+
    then have "extends P p1 (fst (batch_loop env ask (drop 2 es) p1))"
      using 1(1)[OF _ l[symmetric] refl] asks_within_take[OF 1(2)] by simp
    then show ?thesis using a l n by (subst batch_loop.simps) (simp add: extends_trans[OF a])
  qed
qed

lemma resolve_doh_endpoints_extends:
  "asks_within P ask es \<Longrightarrow> extends P p (fst (resolve_doh_endpoints env ask es p))"
  using batch_loop_extends[of P ask es p env]
  by (auto simp: resolve_doh_endpoints_def split: prod.split option.split intro!: extends_on_resolver)

lemma resolve_dot_endpoints_extends:
  "asks_within P ask (usable_endpoints b es) \<Longrightarrow> extends P p (fst (resolve_dot_endpoints env ask b es p))"
  using batch_loop_extends[of P ask "usable_endpoints b es" p env]
  by (auto simp: resolve_dot_endpoints_def Let_def split: prod.split option.split)

section \<open>Bootstraps\<close>

text \<open>Nested lookups send traditional queries for the normalised host only, under the normalised binding.\<close>

definition host_queries :: "net_env \<Rightarrow> string \<Rightarrow> wire_query \<Rightarrow> bool" where
  "host_queries env host q =
     (case q of PlainQuery _ s d t b packet \<Rightarrow> supports_endpoint b s \<and> packet_for (ev_ascii env) d t packet \<and>
                dns_normalize_domain (ev_ascii env) host = Inr d
     | _ \<Rightarrow> False)"

lemma host_queries_within [simp]: "host_queries (within_timer t env) = host_queries env"
  by (simp add: host_queries_def fun_eq_iff split: wire_query.split)

lemma resolve_key_domain:
  "resolve_key to_ascii q = Inr (key, b) \<Longrightarrow> dns_normalize_domain to_ascii (qu_domain q) = Inr (ck_domain key)"
  by (auto simp: resolve_key_def split: sum.splits)

lemma nested_resolve_extends:
  assumes "\<And>q. host_queries env host q \<Longrightarrow> P q"
  shows "extends P p (fst (nested_resolve env host kind b p))"
proof (cases "resolve_key (ev_ascii env) \<lparr>qu_domain = host, qu_type = type_text kind, qu_binding = b,
             qu_network_dns = False, qu_legacy_dns = True\<rparr>")
  case (Inl e)
  then show ?thesis by (simp add: nested_resolve_def)
next
  case (Inr x)
  obtain key b' where x: "x = (key, b')" by (cases x)
  obtain r1 out where br: "begin_resolve (pa_resolver p) key (ev_now env (pa_trace p)) = (r1, out)" by fastforce
  have 1: "extends P p (p\<lparr>pa_resolver := r1\<rparr>)"
    using begin_resolve_config[of "pa_resolver p" key "ev_now env (pa_trace p)"] br by (simp add: extends_def)
  obtain p2 outcome where rl: "resolve_legacy env (ck_domain key) (wire_type kind) b' (p\<lparr>pa_resolver := r1\<rparr>) = (p2, outcome)"
    by fastforce
  have "dns_normalize_domain (ev_ascii env) host = Inr (ck_domain key)"
    using resolve_key_domain[OF Inr[unfolded x]] by simp
  then have "extends P (p\<lparr>pa_resolver := r1\<rparr>) p2"
    using resolve_legacy_extends[where b = b' and P = P and domain = "ck_domain key" and rtype = "wire_type kind" and
        env = env and p = "p\<lparr>pa_resolver := r1\<rparr>"] assms rl
    by (simp add: host_queries_def plain_allowed_def)
  then have 2: "extends P p p2" using 1 by (rule extends_trans[rotated])
  have c: "rs_config (leave_call r c) = rs_config r" for r c by (simp add: leave_call_def Let_def)
  show ?thesis
    using 1 2 extends_on_resolver[OF 1, of "\<lambda>r. leave_call r c" for c] Inr x br rl
    by (auto simp: nested_resolve_def Let_def c finish_lookup_config intro: extends_on_resolver split: begun.split)
qed

lemma bootstrap_lookups_extends:
  "(\<And>q. host_queries env host q \<Longrightarrow> P q) \<Longrightarrow> extends P p (fst (bootstrap_lookups env host b kinds p))"
proof (induction env host b kinds p rule: bootstrap_lookups.induct)
  case (2 env host b kind kinds p)
  obtain p1 result where n: "nested_resolve env host kind b p = (p1, result)" by fastforce
  obtain p2 rest where r: "bootstrap_lookups env host b kinds p1 = (p2, rest)" by fastforce
  have "extends P p p1" using nested_resolve_extends[of env host P p kind b] 2(2) n by simp
  moreover have "extends P p1 p2" using 2(1)[OF n[symmetric] refl 2(2)] r by simp
  ultimately show ?case using n r extends_trans by auto
qed simp

lemma query_bootstrapped_extends:
  assumes "\<And>q. host_queries env (ep_host e) q \<Longrightarrow> P q"
    and "\<And>es p. es \<noteq> [] \<Longrightarrow> (\<forall>x \<in> set es. supports_endpoint b (ep_ip x)) \<Longrightarrow> extends P p (fst (resolve es p))"
  shows "extends P p (fst (query_bootstrapped env b resolve e p))"
proof -
  obtain p1 found where f: "bootstrap_lookups (within_timer BootstrapTimer env) (ep_host e) b (bootstrap_types b) p = (p1, found)" by fastforce
  have 1: "extends P p p1" using bootstrap_lookups_extends[of "within_timer BootstrapTimer env" "ep_host e" P p b "bootstrap_types b"] assms(1) f by simp
  define es where "es = map (\<lambda>a. e\<lparr>ep_ip := a\<rparr>) (filter (supports_endpoint b)
      (concat (if ev_arrivals env (pa_trace p1) = [1, 0] then rev found else found)))"
  have 2: "extends P p1 (fst (resolve es p1))" if "es \<noteq> []"
    using that by (rule assms(2)) (auto simp: es_def)
  show ?thesis
    using 1 extends_trans[OF 1 2] unfolding query_bootstrapped_def f Let_def prod.case es_def[symmetric] by simp
qed

section \<open>What a policy may send\<close>

text \<open>The hosts an encrypted policy may look up in plaintext: those of its endpoints without an address.\<close>

definition bootstrap_hosts :: "net_env \<Rightarrow> dns_config \<Rightarrow> string set" where
  "bootstrap_hosts env c =
     {d. \<exists>e \<in> set (config_endpoints (ev_url env) (ev_ascii env) c) \<union> set (config_dot_endpoints (ev_url env) (ev_ascii env) c).
        ep_ip e = '''' \<and> dns_normalize_domain (ev_ascii env) (ep_host e) = Inr d} \<union>
     (if dc_policy c = policy_dnspod then {''doh.pub''} else {})"

definition may_send :: "net_env \<Rightarrow> dns_config \<Rightarrow> string \<Rightarrow> wire_query \<Rightarrow> bool" where
  "may_send env c domain q =
     (case q of
        PlainQuery _ s d t b packet \<Rightarrow> supports_endpoint b s \<and> packet_for (ev_ascii env) d t packet \<and>
          (d \<in> bootstrap_hosts env c \<or> d = domain \<and> dc_policy c \<in> {policy_auto, policy_off, policy_system})
      | DohQuery e d t b packet \<Rightarrow> supports_endpoint b (ep_ip e) \<and> packet_for (ev_ascii env) d t packet \<and> d = domain \<and>
          dc_policy c \<notin> {policy_off, policy_system, policy_dot}
      | DotQuery e d t b packet \<Rightarrow> supports_endpoint b (ep_ip e) \<and> packet_for (ev_ascii env) d t packet \<and> d = domain \<and>
          dc_policy c = policy_dot)"

lemma may_send_within [simp]: "may_send (within_timer t env) = may_send env"
  by (simp add: may_send_def bootstrap_hosts_def fun_eq_iff split: wire_query.split)

lemma may_send_doh_env [simp]: "may_send (doh_env policy env) = may_send env"
  by (simp add: doh_env_def)

lemma supports_without_v4: "supports_endpoint (b\<lparr>db_ip := ''''\<rparr>) s \<Longrightarrow> supports_endpoint b s"
  by (auto simp: supports_endpoint_def split: option.splits if_splits)

lemma host_may_send:
  assumes "e \<in> set (config_endpoints (ev_url env) (ev_ascii env) c) \<union> set (config_dot_endpoints (ev_url env) (ev_ascii env) c)"
    "ep_ip e = ''''" "host_queries env (ep_host e) q"
  shows "may_send env c domain q"
  using assms by (auto simp: host_queries_def may_send_def bootstrap_hosts_def split: wire_query.splits)

lemma direct_doh_within:
  "dc_policy c \<notin> {policy_off, policy_system, policy_dot} \<Longrightarrow> \<forall>e \<in> set es. supports_endpoint b (ep_ip e) \<Longrightarrow>
   asks_within (may_send env c domain) (direct_doh env domain rtype b) es"
  by (auto simp: asks_within_def may_send_def intro!: direct_doh_extends)

lemma direct_dot_within:
  "dc_policy c = policy_dot \<Longrightarrow> \<forall>e \<in> set es. supports_endpoint b (ep_ip e) \<Longrightarrow>
   asks_within (may_send env c domain) (direct_dot env domain rtype b) es"
  by (auto simp: asks_within_def may_send_def intro!: direct_dot_extends)

lemma query_doh_within:
  assumes "dc_policy c \<notin> {policy_off, policy_system, policy_dot}"
    "\<forall>e \<in> set es. supports_endpoint b (ep_ip e) \<or> ep_ip e = '''' \<and> e \<in> set (config_endpoints (ev_url env) (ev_ascii env) c)"
  shows "asks_within (may_send env c domain) (query_doh env domain rtype b) es"
  unfolding asks_within_def
proof (intro ballI allI)
  fix e p
  assume e: "e \<in> set es"
  let ?batch = "within_timer BatchTimer env"
  show "extends (may_send env c domain) p (fst (query_doh env domain rtype b e p))"
  proof (cases "ep_ip e = ''''")
    case True
    have "\<not> supports_endpoint b ''''" by (simp add: supports_endpoint_def parse_addr_def)
    then have "e \<in> set (config_endpoints (ev_url env) (ev_ascii env) c)" using assms(2) e True by auto
    then have h: "may_send env c domain q" if "host_queries ?batch (ep_host e) q" for q
      using host_may_send[of e env c q domain] True that by auto
    show ?thesis
      using query_bootstrapped_extends[where e = e and P = "may_send env c domain" and b = b and env = ?batch and p = p and
          resolve = "resolve_doh_endpoints ?batch (direct_doh ?batch domain rtype b)", OF h]
        resolve_doh_endpoints_extends[OF direct_doh_within[OF assms(1), where env = ?batch, unfolded may_send_within]] True
      by (simp add: query_doh_def Let_def)
  next
    case False
    then have "asks_within (may_send env c domain) (direct_doh ?batch domain rtype b) [e]"
      using direct_doh_within[OF assms(1), of "[e]" b ?batch] assms(2) e by auto
    then show ?thesis using False by (simp add: query_doh_def Let_def asks_within_def)
  qed
qed

lemma query_dot_within:
  assumes "dc_policy c = policy_dot"
    "\<forall>e \<in> set es. supports_endpoint b (ep_ip e) \<or> ep_ip e = '''' \<and> e \<in> set (config_dot_endpoints (ev_url env) (ev_ascii env) c)"
  shows "asks_within (may_send env c domain) (query_dot env domain rtype b) es"
  unfolding asks_within_def
proof (intro ballI allI)
  fix e p
  assume e: "e \<in> set es"
  let ?batch = "within_timer BatchTimer env"
  show "extends (may_send env c domain) p (fst (query_dot env domain rtype b e p))"
  proof (cases "ep_ip e = ''''")
    case True
    have "\<not> supports_endpoint b ''''" by (simp add: supports_endpoint_def parse_addr_def)
    then have "e \<in> set (config_dot_endpoints (ev_url env) (ev_ascii env) c)" using assms(2) e True by auto
    then have h: "may_send env c domain q" if "host_queries ?batch (ep_host e) q" for q
      using host_may_send[of e env c q domain] True that by auto
    have r: "extends (may_send env c domain) p (fst (resolve_dot_endpoints ?batch (direct_dot ?batch domain rtype b) b es p))"
      if "\<forall>x \<in> set es. supports_endpoint b (ep_ip x)" for es p
      using that by (intro resolve_dot_endpoints_extends direct_dot_within[OF assms(1), where env = ?batch, unfolded may_send_within]) (auto simp: usable_endpoints_def)
    show ?thesis
      using query_bootstrapped_extends[where e = e and P = "may_send env c domain" and b = b and env = ?batch and p = p and
          resolve = "resolve_dot_endpoints ?batch (direct_dot ?batch domain rtype b) b", OF h] r True
      by (simp add: query_dot_def Let_def)
  next
    case False
    then have "asks_within (may_send env c domain) (direct_dot ?batch domain rtype b) [e]"
      using direct_dot_within[OF assms(1), of "[e]" b ?batch] assms(2) e by auto
    then show ?thesis using False by (simp add: query_dot_def Let_def asks_within_def)
  qed
qed

lemma dnspod_bootstrap_within:
  assumes "dc_policy (rs_config (pa_resolver p)) = policy_dnspod"
  shows "extends (may_send env (rs_config (pa_resolver p)) domain) p (fst (dnspod_bootstrap env domain rtype b p))"
proof -
  let ?c = "rs_config (pa_resolver p)"
  let ?v6 = "b\<lparr>db_ip := ''''\<rparr>"
  obtain p1 out where l: "resolve_legacy (within_timer BootstrapTimer env) ''doh.pub'' dns_type_aaaa ?v6 p = (p1, out)" by fastforce
  have 1: "extends (may_send env ?c domain) p p1"
    using resolve_legacy_extends[where b = ?v6 and P = "may_send env ?c domain" and domain = "''doh.pub''" and
        rtype = dns_type_aaaa and env = "within_timer BootstrapTimer env" and p = p] l assms
    by (simp add: may_send_def bootstrap_hosts_def plain_allowed_def)
  have 2: "extends (may_send env ?c domain) p1 (fst (resolve_doh_endpoints env (query_doh env domain rtype b)
      (take 8 (map doh_pub (filter (supports_endpoint ?v6) xs))) p1))" for xs
    by (intro resolve_doh_endpoints_extends query_doh_within)
      (use assms supports_without_v4[of b] in \<open>auto simp: doh_pub_def dest!: in_set_takeD\<close>)
  show ?thesis
    using 1 extends_trans[OF 1 2] by (simp add: dnspod_bootstrap_def l Let_def split: sum.split prod.split)
qed

lemma resolve_doh_within:
  assumes "dc_policy (rs_config (pa_resolver p)) \<notin> {policy_off, policy_system, policy_dot}"
  shows "extends (may_send env (rs_config (pa_resolver p)) domain) p (fst (resolve_doh env domain rtype b p))"
proof -
  let ?c = "rs_config (pa_resolver p)"
  define es where "es = usable_endpoints b (config_endpoints (ev_url env) (ev_ascii env) ?c)"
  have w: "asks_within (may_send env ?c domain) (query_doh env domain rtype b) es"
    by (rule query_doh_within) (use assms in \<open>auto simp: es_def usable_endpoints_def\<close>)
  have d: "extends (may_send env ?c domain) p (fst (resolve_doh_endpoints env (query_doh env domain rtype b) es p))"
    by (rule resolve_doh_endpoints_extends[OF w])
  have dual: "extends (may_send env ?c domain) p (fst (resolve_dnspod_dual_stack env domain rtype b es p))"
    if "dc_policy ?c = policy_dnspod"
  proof -
    define p1 where "p1 = (if es = [] then p else fst (resolve_doh_endpoints env (query_doh env domain rtype b) es p))"
    have 1: "extends (may_send env ?c domain) p p1" using d by (simp add: p1_def)
    then have c1: "rs_config (pa_resolver p1) = ?c" by (simp add: extends_def)
    have "extends (may_send env ?c domain) p1 (fst (dnspod_bootstrap env domain rtype b p1))"
      using dnspod_bootstrap_within[of p1 env domain rtype b] that c1 by simp
    then have "extends (may_send env ?c domain) p (fst (dnspod_bootstrap env domain rtype b p1))"
      using 1 extends_trans by blast
    then show ?thesis
      by (cases "es = []")
        (simp_all add: resolve_dnspod_dual_stack_def Let_def p1_def case_prod_unfold split: option.split)
  qed
  show ?thesis using d dual by (simp add: resolve_doh_def Let_def es_def[symmetric])
qed

lemma resolve_dot_within:
  assumes "dc_policy (rs_config (pa_resolver p)) = policy_dot"
  shows "extends (may_send env (rs_config (pa_resolver p)) domain) p (fst (resolve_dot env domain rtype b p))"
  unfolding resolve_dot_def
  by (intro resolve_dot_endpoints_extends query_dot_within) (use assms in \<open>auto simp: usable_endpoints_def\<close>)

lemma plain_within:
  assumes "dc_policy (rs_config (pa_resolver p)) \<in> {policy_auto, policy_off, policy_system}"
  shows "extends (may_send env (rs_config (pa_resolver p)) domain) p (fst (resolve_legacy env domain rtype b p))"
    "extends (may_send env (rs_config (pa_resolver p)) domain) p
       (fst (resolve_legacy_using env domain rtype b (network_dns_servers b) p))"
  using assms by (auto intro!: resolve_legacy_extends resolve_legacy_using_extends simp: may_send_def network_dns_servers_def plain_allowed_def)

lemma strict_failure_extends: "extends P p q \<Longrightarrow> extends P p (strict_failure b q)"
  by (auto simp: extends_def strict_failure_def record_strict_failure_def Let_def)

lemma resolve_uncached_within:
  "extends (may_send env (rs_config (pa_resolver p)) domain) p (fst (resolve_uncached env domain kind b p))"
proof -
  let ?c = "rs_config (pa_resolver p)"
  let ?P = "may_send env ?c domain"
  let ?t = "wire_type kind"
  show ?thesis
  proof (cases "dc_policy ?c = policy_dot")
    case True
    then show ?thesis
      using resolve_dot_within[OF True, of env domain ?t b]
      by (auto simp: resolve_uncached_def Let_def split: prod.split sum.split intro!: extends_on_resolver)
  next
    case False
    define net where "net = (if dc_policy ?c = policy_auto \<and> db_ip b = '''' \<and> db_servers b \<noteq> []
           then (let (q, out) = resolve_legacy_using (within_timer NetworkTimer env) domain ?t b (network_dns_servers b) p
                 in (q, case out of Inr a \<Rightarrow> Some (Inr a)
                        | Inl _ \<Rightarrow> if ev_dead env (pa_trace q) then Some (Inl ContextEnded) else None))
           else (p, None))"
    obtain p1 network where n: "net = (p1, network)" by fastforce
    have 1: "extends ?P p p1"
      using n plain_within(2)[of p "within_timer NetworkTimer env" domain ?t b] by (auto simp: net_def split: if_splits prod.splits)
    then have c1: "rs_config (pa_resolver p1) = ?c" by (simp add: extends_def)
    obtain p2 dout where d: "resolve_doh (doh_env (dc_policy ?c) env) domain ?t b p1 = (p2, dout)" by fastforce
    have 2: "extends ?P p p2" if "dc_policy ?c \<notin> {policy_off, policy_system}"
      using resolve_doh_within[of p1 "doh_env (dc_policy ?c) env" domain ?t b] that False c1 d extends_trans[OF 1] by auto
    have l: "extends ?P p (fst (resolve_legacy env domain ?t b q))"
      if "extends ?P p q" "dc_policy ?c \<in> {policy_auto, policy_off, policy_system}" for q
      using plain_within(1)[of q env domain ?t b] that extends_trans[OF that(1)] by (simp add: extends_def[of _ p q])
    let ?p3 = "on_resolver (\<lambda>r. r\<lparr>rs_doh_failed := rs_doh_failed r + 1\<rparr>) p2"
    have body: "extends ?P p (fst (if dc_policy ?c \<noteq> policy_off \<and> dc_policy ?c \<noteq> policy_system then
              (case resolve_doh (doh_env (dc_policy ?c) env) domain ?t b p1 of
                 (p2, Inr a) \<Rightarrow> (on_resolver (\<lambda>r. record_doh_success r b) p2, Inr a)
               | (p2, Inl e) \<Rightarrow>
                   if ev_dead env (pa_trace p2) then (p2, Inl ContextEnded)
                   else
                     let p3 = on_resolver (\<lambda>r. r\<lparr>rs_doh_failed := rs_doh_failed r + 1\<rparr>) p2 in
                     if dc_policy ?c \<noteq> policy_auto then (strict_failure b p3, Inl e)
                     else resolve_legacy env domain ?t b
                            (on_resolver (\<lambda>r. r\<lparr>rs_fallbacks := rs_fallbacks r + 1\<rparr>) p3))
            else resolve_legacy env domain ?t b p1))"
    proof (cases "dc_policy ?c \<in> {policy_off, policy_system}")
      case True
      then show ?thesis using l[OF 1] by auto
    next
      case nf: False
      note e2 = 2[OF nf]
      have e3: "extends ?P p ?p3" by (rule extends_on_resolver[OF e2]) simp
      have e4: "extends ?P p (on_resolver (\<lambda>r. r\<lparr>rs_fallbacks := rs_fallbacks r + 1\<rparr>) ?p3)"
        by (rule extends_on_resolver[OF e3]) simp
      have e5: "extends ?P p (on_resolver (\<lambda>r. record_doh_success r b) p2)"
        by (rule extends_on_resolver[OF e2]) (simp add: record_doh_success_def)
      show ?thesis
        using nf e2 e5 strict_failure_extends[OF e3] l[OF e4] by (cases dout) (simp_all add: d Let_def)
    qed
    show ?thesis
    proof (cases network)
      case None
      then show ?thesis
        using body False unfolding resolve_uncached_def Let_def net_def[unfolded Let_def, symmetric] n by simp
    next
      case (Some out)
      then show ?thesis
        using 1 False unfolding resolve_uncached_def Let_def net_def[unfolded Let_def, symmetric] n by simp
    qed
  qed
qed

section \<open>Properties\<close>

text \<open>What a lookup sends is what its policy allows: whatever the network answers and in whatever order, every query of \<open>resolveUncached\<close> goes to a server the query's binding has a source address for; a DoH query carries the requested name and is sent under no DoT, off or system policy, a DoT query only under the DoT policy, and a plaintext query carries the requested name only under the automatic, off and system policies, and otherwise the host name of one of the policy's own endpoints. \<close>

theorem lookup_sends_only_allowed:
  "\<exists>qs. pa_trace (fst (resolve_uncached env domain kind b p)) = pa_trace p @ qs \<and>
     list_all (may_send env (rs_config (pa_resolver p)) domain) qs"
  using resolve_uncached_within[of env p domain kind b] unfolding extends_def list_all_iff by blast

definition is_plain :: "wire_query \<Rightarrow> bool" where
  "is_plain q = (case q of PlainQuery _ _ _ _ _ _ \<Rightarrow> True | _ \<Rightarrow> False)"

lemma builtin_no_bootstrap:
  assumes "dc_policy c \<in> {policy_alidns, policy_google}"
  shows "bootstrap_hosts env c = {}"
proof -
  have "config_endpoints u a c = provider_endpoints (dc_policy c)" "config_dot_endpoints u a c = []" for u a
    using assms by (auto simp: config_endpoints_def config_dot_endpoints_def policy_endpoints_def)
  then show ?thesis using assms by (auto simp: bootstrap_hosts_def provider_endpoints_def Let_def)
qed

text \<open> C1. No downgrade: under the built-in AliDNS and Google policies a lookup sends nothing in plaintext at all, not even when every encrypted query fails; under the other encrypted policies the requested name never leaves in plaintext, unless it is itself the name of a configured resolver. \<close>

theorem no_plaintext_downgrade:
  assumes "dc_policy (rs_config (pa_resolver p)) \<in> {policy_alidns, policy_google, policy_dnspod, policy_custom, policy_dot}"
    and "domain \<notin> bootstrap_hosts env (rs_config (pa_resolver p))"
  shows "\<exists>qs. pa_trace (fst (resolve_uncached env domain kind b p)) = pa_trace p @ qs \<and>
     (if dc_policy (rs_config (pa_resolver p)) \<in> {policy_alidns, policy_google} then filter is_plain qs = []
      else filter (\<lambda>q. case q of PlainQuery _ _ d _ _ _ \<Rightarrow> d = domain | _ \<Rightarrow> False) qs = [])"
proof -
  let ?c = "rs_config (pa_resolver p)"
  obtain qs where q: "pa_trace (fst (resolve_uncached env domain kind b p)) = pa_trace p @ qs"
    "\<forall>q \<in> set qs. may_send env ?c domain q"
    using resolve_uncached_within[of env p domain kind b] unfolding extends_def by blast
  have none: "\<not> (\<exists>tcp s t b packet. PlainQuery tcp s domain t b packet \<in> set qs)"
    using q(2) assms by (fastforce simp: may_send_def)
  have builtin: "\<not> is_plain x" if "x \<in> set qs" "dc_policy ?c \<in> {policy_alidns, policy_google}" for x
    using bspec[OF q(2) that(1)] builtin_no_bootstrap[OF that(2), of env] that(2)
    by (auto simp: may_send_def is_plain_def split: wire_query.splits)
  show ?thesis
    using q(1) none builtin by (intro exI[of _ qs]) (auto simp: filter_empty_conv split: wire_query.splits)
qed

section \<open>The automatic policy reaches traditional DNS\<close>

text \<open>A server answers over UDP or over TCP whenever it is asked.\<close>

definition answers_plain :: "net_env \<Rightarrow> string \<Rightarrow> u16 \<Rightarrow> binding \<Rightarrow> string \<Rightarrow> bool" where
  "answers_plain env domain rtype b s \<longleftrightarrow>
     (\<forall>p. snd (query_udp env domain rtype b s p) \<noteq> None) \<or> (\<forall>p. snd (query_tcp env domain rtype b s p) \<noteq> None)"

lemma legacy_loop_answers:
  assumes "s \<in> set servers" "\<And>tr. \<not> ev_dead env tr" "answers_plain env domain rtype b s"
  shows "snd (legacy_loop env domain rtype b servers p) \<noteq> None"
  using assms(1)
proof (induction servers arbitrary: p)
  case (Cons x xs)
  obtain p1 o1 where u: "query_udp env domain rtype b x p = (p1, o1)" by fastforce
  obtain p2 o2 where t: "query_tcp env domain rtype b x p1 = (p2, o2)" by fastforce
  show ?case
  proof (cases "x = s")
    case True
    then have "o1 \<noteq> None \<or> o2 \<noteq> None"
      using assms(3) u t unfolding answers_plain_def by (metis snd_conv)
    then show ?thesis by (auto simp: u t split: option.split)
  next
    case False
    then have "snd (legacy_loop env domain rtype b xs p2) \<noteq> None" using Cons by auto
    then show ?thesis by (simp add: u t assms(2) split: option.split)
  qed
qed simp

lemma resolve_legacy_answers:
  assumes "s \<in> set (legacy_servers (rs_config (pa_resolver p)) b)" "\<And>tr. \<not> ev_dead env tr"
    "answers_plain env domain rtype b s"
  shows "\<exists>a. snd (resolve_legacy env domain rtype b p) = Inr a"
proof -
  have "snd (legacy_loop env domain rtype b (legacy_servers (rs_config (pa_resolver p)) b) p) \<noteq> None"
    by (rule legacy_loop_answers[OF assms])
  moreover have "legacy_servers (rs_config (pa_resolver p)) b \<noteq> []" using assms(1) by auto
  ultimately show ?thesis
    by (auto simp: resolve_legacy_def resolve_legacy_using_def split: prod.split option.split)
qed

text \<open> C35. The automatic, off and system policies always come through when they can: if the lookup's context does not end and one server of the binding's traditional list answers the query over UDP, or over TCP, whenever it is asked, the lookup succeeds, whatever every DoH endpoint and every other server does, and even when the time set aside for DoH runs out. \<close>

theorem plain_fallback_succeeds:
  assumes "dc_policy (rs_config (pa_resolver p)) \<in> {policy_auto, policy_off, policy_system}"
    and "s \<in> set (legacy_servers (rs_config (pa_resolver p)) b)" and "\<And>tr. \<not> ev_dead env tr"
    and "answers_plain env domain (wire_type kind) b s"
  shows "\<exists>a. snd (resolve_uncached env domain kind b p) = Inr a"
proof -
  let ?c = "rs_config (pa_resolver p)"
  let ?t = "wire_type kind"
  have answer: "\<exists>a. snd (resolve_legacy env domain ?t b q) = Inr a" if "rs_config (pa_resolver q) = ?c" for q
    by (rule resolve_legacy_answers[OF _ assms(3,4)]) (use assms(2) that in simp)
  define p1 where "p1 = (if dc_policy ?c = policy_auto \<and> db_ip b = '''' \<and> db_servers b \<noteq> []
      then fst (resolve_legacy_using (within_timer NetworkTimer env) domain ?t b (network_dns_servers b) p) else p)"
  have c1: "rs_config (pa_resolver p1) = ?c"
    using plain_within(2)[of p "within_timer NetworkTimer env" domain ?t b] assms(1) by (auto simp: p1_def extends_def)
  obtain p2 dout where d: "resolve_doh (doh_env (dc_policy ?c) env) domain ?t b p1 = (p2, dout)" by fastforce
  have c2: "rs_config (pa_resolver p2) = ?c" if "dc_policy ?c = policy_auto"
    using resolve_doh_within[of p1 "doh_env (dc_policy ?c) env" domain ?t b] that c1 d by (simp add: extends_def)
  have fall: "\<exists>a. snd (resolve_legacy env domain ?t b (on_resolver (\<lambda>r. r\<lparr>rs_fallbacks := rs_fallbacks r + 1\<rparr>)
      (on_resolver (\<lambda>r. r\<lparr>rs_doh_failed := rs_doh_failed r + 1\<rparr>) p2))) = Inr a" if "dc_policy ?c = policy_auto"
    by (rule answer) (simp add: on_resolver_def c2[OF that])
  show ?thesis
  proof (cases "dc_policy ?c = policy_auto")
    case False
    then have "dc_policy ?c = policy_off \<or> dc_policy ?c = policy_system" using assms(1) by auto
    then show ?thesis using answer[of p] by (auto simp: resolve_uncached_def Let_def)
  next
    case True
    show ?thesis
      using fall[OF True] d True
      by (auto simp: resolve_uncached_def Let_def assms(3) p1_def[symmetric] p1_def case_prod_unfold split: sum.splits if_splits)
  qed
qed

section \<open>A network without encrypted resolvers\<close>

text \<open>Everything but a UDP query to 223.5.5.5 fails, and the time for DoH is over at once.\<close>

definition plain_only_env :: net_env where
  "plain_only_env = \<lparr>ev_url = (\<lambda>_. None), ev_ascii = Some, ev_media = Some, ev_id = (\<lambda>_. Some 7),
     ev_reply = (\<lambda>_ q. case q of PlainQuery False s _ _ _ _ \<Rightarrow> if s = ''223.5.5.5'' then Some one_a_record else None
                      | _ \<Rightarrow> None),
     ev_http = (\<lambda>_ _. None), ev_slot = (\<lambda>_ _ _. FreshConnection),
     ev_dead = (\<lambda>_. False), ev_expired = (\<lambda>t _. t = DohTimer), ev_arrivals = (\<lambda>_. [0, 1]), ev_now = (\<lambda>_. 5),
     ev_joined = (\<lambda>_ _. None)\<rparr>"

lemma plain_only_answers:
  "answers_plain plain_only_env ''example.org'' 1 b ''223.5.5.5''"
proof -
  have "case build_query Some (Some 7) ''example.org'' 1 of Inl _ \<Rightarrow> False | Inr (p, i) \<Rightarrow> i = 7" by code_simp
  then obtain packet where q: "build_query Some (Some 7) ''example.org'' 1 = Inr (packet, 7)"
    by (auto split: sum.splits)
  have "wire_result 7 1 ''udp'' (join_host_port ''223.5.5.5'' ''53'') '''' (take 4096 one_a_record) \<noteq> None"
    by code_simp
  then show ?thesis
    by (simp add: answers_plain_def query_udp_def plain_only_env_def q Let_def)
qed

definition start_path :: "string \<Rightarrow> path" where
  "start_path policy = \<lparr>pa_resolver = fresh_resolver\<lparr>rs_config := default_dns_config\<lparr>dc_policy := policy\<rparr>\<rparr>,
                        pa_trace = [], pa_events = []\<rparr>"

theorem plain_fallback_succeeds_witness:
  "\<exists>a. snd (resolve_uncached plain_only_env ''example.org'' RecordA home_binding (start_path ''auto'')) = Inr a"
proof (rule plain_fallback_succeeds[where s = "''223.5.5.5''"])
  have "supports_endpoint home_binding ''223.5.5.5''" by (rule supports_v4) (simp add: home_binding_def)
  then show "''223.5.5.5'' \<in> set (legacy_servers (rs_config (pa_resolver (start_path ''auto''))) home_binding)"
    by (simp add: legacy_servers_def start_path_def default_dns_config_def default_legacy_servers_def)
  show "answers_plain plain_only_env ''example.org'' (wire_type RecordA) home_binding ''223.5.5.5''"
    using plain_only_answers by (simp add: wire_type_def)
qed (simp_all add: start_path_def default_dns_config_def plain_only_env_def)

theorem no_plaintext_downgrade_witness:
  "\<exists>qs. pa_trace (fst (resolve_uncached plain_only_env ''example.org'' RecordA home_binding (start_path ''google''))) = qs \<and>
     filter is_plain qs = []"
proof -
  have g: "dc_policy (rs_config (pa_resolver (start_path ''google''))) = policy_google"
    by (simp add: start_path_def)
  have "''example.org'' \<notin> bootstrap_hosts plain_only_env (rs_config (pa_resolver (start_path ''google'')))"
    using builtin_no_bootstrap g by auto
  from no_plaintext_downgrade[OF _ this, of RecordA home_binding] g
  show ?thesis by (simp add: start_path_def)
qed

end
