(* ===== verification/GoTime.thy ===== *)
theory GoTime
  imports MuxPrelude
begin

text \<open>
  \<open>time.Time.AddDate(100, 0, 0)\<close>, which the health table uses as "never expires": the
  same month, day and clock time one hundred years later in the proleptic Gregorian
  calendar, where 29 February becomes 1 March if the target year has none. Time 0 is the
  start of 1 January of year 1; \<open>doy\<close> counts the days of the year from 0, so
  29 February of a leap year and 1 March of any other year are day 59.
\<close>

definition leap :: "int \<Rightarrow> bool" where
  "leap y = (y mod 4 = 0 \<and> (y mod 100 \<noteq> 0 \<or> y mod 400 = 0))"

definition days_before :: "int \<Rightarrow> int" where
  "days_before y = 365 * (y - 1) + (y - 1) div 4 - (y - 1) div 100 + (y - 1) div 400"

definition year_of_day :: "int \<Rightarrow> int" where
  "year_of_day d =
     (let r400 = d mod 146097; n100 = min 3 (r400 div 36524);
          r100 = r400 - n100 * 36524; n4 = r100 div 1461;
          r4 = r100 mod 1461; n1 = min 3 (r4 div 365)
      in 400 * (d div 146097) + 100 * n100 + 4 * n4 + n1 + 1)"

definition add_years_100 :: "time \<Rightarrow> time" where
  "add_years_100 t =
     (let day = t div 86400000000000; clock = t mod 86400000000000;
          y = year_of_day day; doy = day - days_before y;
          doy' = (if doy < 59 \<or> (leap y \<and> doy = 59) then doy
                  else doy - (if leap y then 1 else 0) + (if leap (y + 100) then 1 else 0))
      in (days_before (y + 100) + doy') * 86400000000000 + clock)"

lemma days_before_100: "days_before (y + 100) \<ge> days_before y + 36524"
proof -
  have "(99 + y) div 4 = (y - 1) div 4 + 25" "(99 + y) div 100 = (y - 1) div 100 + 1" by linarith+
  moreover have "(y - 1) div 400 \<le> (99 + y) div 400" by (rule zdiv_mono1) auto
  ultimately show ?thesis unfolding days_before_def by (simp add: algebra_simps)
qed

lemma add_years_100_after: "t + 36523 * 24 * hour \<le> add_years_100 t"
proof -
  define day clock where "day = t div 86400000000000" and "clock = t mod 86400000000000"
  define y where "y = year_of_day day"
  obtain d' where d': "add_years_100 t = (days_before (y + 100) + d') * 86400000000000 + clock"
      "d' \<ge> day - days_before y - 1"
    by (rule that [of "if day - days_before y < 59 \<or> (leap y \<and> day - days_before y = 59)
                       then day - days_before y
                       else day - days_before y - (if leap y then 1 else 0) + (if leap (y + 100) then 1 else 0)"])
       (simp_all add: add_years_100_def Let_def day_def clock_def y_def)
  have "day + 36523 \<le> days_before (y + 100) + d'" using d'(2) days_before_100 [of y] by linarith
  moreover have "t = day * 86400000000000 + clock" by (simp add: day_def clock_def)
  ultimately show ?thesis unfolding d'(1) by (simp add: algebra_simps)
qed

text \<open>29 February 2000 is followed, a century later, by 1 March 2100.\<close>

lemma add_years_100_leap_day: "add_years_100 (730178 * 86400000000000) = 766703 * 86400000000000"
  by code_simp

end
