(* ===== verification/Health.thy ===== *)
theory Health
  imports Adapter GoTime ExpiryIndex "HOL-Library.Char_ord" "HOL-Library.List_Lexorder" "HOL-Library.Product_Lexorder"
begin

text \<open>
  The adapter health table of \<open>engine/internal/proxy/health.go\<close>: cool-down after local
  failures, comparative timeouts, the per-adapter quarantine of domains, and the selection
  of candidate adapters. Every operation runs under the table's mutex and is one function
  on the table; the clock it reads is the argument \<open>now\<close>.

  \<open>h.adapters\<close> maps a name to a pointer that nothing else holds, so its state is a value
  here. A Go map of structs is a partial function; \<open>timeoutTargets\<close> is a set. Where the
  code ranges over a map and writes the expiry index, the order of Go's iteration is an
  argument \<open>ord\<close> (the domains of the adapter in the order visited).

  The invariant \<open>health_ok\<close> ties the domain map of each adapter to its expiry index; the
  deadline contract \<open>expiring_map\<close> gives the effect of pruning.
\<close>

section \<open>Data\<close>

abbreviation (input) domain_failure_threshold :: int where "domain_failure_threshold \<equiv> 2"
abbreviation (input) domain_evidence_ttl :: duration where "domain_evidence_ttl \<equiv> 10 * minute"
abbreviation (input) domain_quarantine_ttl :: duration where "domain_quarantine_ttl \<equiv> 30 * minute"
abbreviation (input) adapter_timeout_failure_threshold :: int where "adapter_timeout_failure_threshold \<equiv> 3"
abbreviation (input) adapter_timeout_target_threshold :: nat where "adapter_timeout_target_threshold \<equiv> 2"

definition adapter_failure_backoff :: "duration list" where
  "adapter_failure_backoff = [2 * second, 5 * second, 15 * second, 30 * second]"

record domain_health =
  evidence :: int
  expires_at :: time

record adapter_health =
  consecutive_failures :: int
  timeout_failures :: int
  timeout_targets :: "string set"
  successes :: u64
  failures :: u64
  last_success_at :: time
  last_failure_at :: time
  cooldown_until :: time
  domains :: "string \<Rightarrow> domain_health option"
  domain_expiry :: "string index"

record family_health =
  fh_successes :: u64
  fh_failures :: u64
  fh_consecutive :: int
  fh_cooldown_until :: time

record health_table =
  ht_adapters :: "string \<Rightarrow> adapter_health option"
  ht_families :: "binding_key \<times> string \<Rightarrow> family_health option"
  domain_isolation :: bool
  domain_isolation_expiry :: bool

record quarantine_seed =
  seed_adapter :: string
  seed_domain :: string
  seed_expires :: time

record quarantine_update =
  upd_expiry :: "bool option"
  upd_clear :: bool
  upd_remove :: "(string \<times> string) list"

definition new_adapter_health :: adapter_health where
  "new_adapter_health =
     \<lparr>consecutive_failures = 0, timeout_failures = 0, timeout_targets = {}, successes = 0,
      failures = 0, last_success_at = 0, last_failure_at = 0, cooldown_until = 0,
      domains = (\<lambda>_. None), domain_expiry = empty_index\<rparr>"

definition normalize_domain :: "string \<Rightarrow> string" where
  "normalize_domain d = trim_suffix (to_lower (trim_space d)) ''.''"

section \<open>Construction\<close>

fun add_adapters :: "health_table \<Rightarrow> adapter list \<Rightarrow> health_table" where
  "add_adapters h [] = h"
| "add_adapters h (a # as) =
     add_adapters (h\<lparr>ht_adapters := (ht_adapters h)(name a \<mapsto> new_adapter_health)\<rparr>) as"

fun add_seeds :: "health_table \<Rightarrow> quarantine_seed list \<Rightarrow> health_table" where
  "add_seeds h [] = h"
| "add_seeds h (s # ss) =
     (case ht_adapters h (seed_adapter s) of
        None \<Rightarrow> add_seeds h ss
      | Some st \<Rightarrow>
          (let d = normalize_domain (seed_domain s);
               st' = st\<lparr>domains := (domains st)(d \<mapsto> \<lparr>evidence = domain_failure_threshold, expires_at = seed_expires s\<rparr>),
                        domain_expiry := (if seed_expires s \<noteq> zero_time
                                          then idx_set (domain_expiry st) d (seed_expires s)
                                          else idx_delete (domain_expiry st) d)\<rparr>
           in add_seeds (h\<lparr>ht_adapters := (ht_adapters h)(seed_adapter s \<mapsto> st')\<rparr>) ss))"

definition new_health_table_configured ::
  "adapter list \<Rightarrow> bool \<Rightarrow> bool \<Rightarrow> quarantine_seed list \<Rightarrow> health_table" where
  "new_health_table_configured adapters isolation isolation_expiry seeds =
     add_seeds (add_adapters \<lparr>ht_adapters = (\<lambda>_. None), ht_families = (\<lambda>_. None),
                              domain_isolation = isolation,
                              domain_isolation_expiry = isolation_expiry\<rparr> adapters) seeds"

definition new_health_table :: "adapter list \<Rightarrow> health_table" where
  "new_health_table adapters = new_health_table_configured adapters True True []"

section \<open>Candidate selection\<close>

text \<open>
  \<open>pruneExpiredDomains\<close> loops until nothing is due; the loop takes at most one step per
  entry, so the number of entries is fuel enough (\<open>prune_complete\<close> below).
\<close>

definition prune_expired_domains :: "adapter_health \<Rightarrow> time \<Rightarrow> adapter_health" where
  "prune_expired_domains st now =
     (let (x, m) = expire_loop (idx_len (domain_expiry st)) now (domain_expiry st) (domains st)
      in st\<lparr>domains := m, domain_expiry := x\<rparr>)"

definition domain_quarantined :: "adapter_health \<Rightarrow> string \<Rightarrow> time \<Rightarrow> bool" where
  "domain_quarantined st domain now =
     (domain \<noteq> '''' \<and>
      (case domains st domain of None \<Rightarrow> False
       | Some e \<Rightarrow> domain_failure_threshold \<le> evidence e \<and> now < expires_at e))"

definition cooldown_of :: "health_table \<Rightarrow> string \<Rightarrow> time" where
  "cooldown_of h n = (case ht_adapters h n of None \<Rightarrow> zero_time | Some st \<Rightarrow> cooldown_until st)"

fun earliest_from :: "health_table \<Rightarrow> adapter \<Rightarrow> adapter list \<Rightarrow> adapter" where
  "earliest_from h selected [] = selected"
| "earliest_from h selected (a # as) =
     earliest_from h (if cooldown_of h (name a) < cooldown_of h (name selected) then a else selected) as"

fun earliest_cooldown :: "health_table \<Rightarrow> adapter list \<Rightarrow> adapter list" where
  "earliest_cooldown h [] = []"
| "earliest_cooldown h [a] = [a]"
| "earliest_cooldown h (a # as) = [earliest_from h a as]"

text \<open>The four partitions the loop fills, in the order of the adapters.\<close>

record partitions =
  pt_healthy :: "adapter list"
  pt_fallback :: "adapter list"
  pt_recovery :: "adapter list"
  pt_all :: "adapter list"

fun partition_adapters ::
  "health_table \<Rightarrow> time \<Rightarrow> string set \<Rightarrow> string \<Rightarrow> adapter list \<Rightarrow> health_table \<times> partitions" where
  "partition_adapters h now excluded domain [] =
     (h, \<lparr>pt_healthy = [], pt_fallback = [], pt_recovery = [], pt_all = []\<rparr>)"
| "partition_adapters h now excluded domain (a # as) =
     (if name a \<in> excluded then partition_adapters h now excluded domain as
      else case ht_adapters h (name a) of
        None \<Rightarrow> partition_adapters h now excluded domain as
      | Some st0 \<Rightarrow>
          (let st = prune_expired_domains st0 now;
               cooling = now < cooldown_until st;
               quarantined = domain_quarantined st domain now;
               (h', p) = partition_adapters (h\<lparr>ht_adapters := (ht_adapters h)(name a \<mapsto> st)\<rparr>)
                           now excluded domain as
           in (h', \<lparr>pt_healthy = (if \<not> cooling \<and> \<not> quarantined then a # pt_healthy p else pt_healthy p),
                    pt_fallback = (if \<not> cooling then a # pt_fallback p else pt_fallback p),
                    pt_recovery = (if \<not> quarantined then a # pt_recovery p else pt_recovery p),
                    pt_all = a # pt_all p\<rparr>)))"

definition candidates ::
  "health_table \<Rightarrow> time \<Rightarrow> adapter list \<Rightarrow> string set \<Rightarrow> string \<Rightarrow> adapter list \<times> health_table" where
  "candidates h now adapters excluded domain =
     (let d = (if domain_isolation h then normalize_domain domain else '''');
          (h', p) = partition_adapters h now excluded d adapters
      in (if pt_healthy p \<noteq> [] then pt_healthy p
          else if pt_fallback p \<noteq> [] then pt_fallback p
          else if pt_recovery p \<noteq> [] then earliest_cooldown h' (pt_recovery p)
          else earliest_cooldown h' (pt_all p), h'))"

section \<open>Recording outcomes\<close>

definition cool_down :: "adapter_health \<Rightarrow> time \<Rightarrow> adapter_health" where
  "cool_down st now =
     (let n = consecutive_failures st + 1;
          index = (if n - 1 \<ge> int (length adapter_failure_backoff)
                   then int (length adapter_failure_backoff) - 1 else n - 1)
      in st\<lparr>failures := failures st + 1, consecutive_failures := n, last_failure_at := now,
            cooldown_until := now + adapter_failure_backoff ! nat index\<rparr>)"

definition record_local_failure :: "health_table \<Rightarrow> time \<Rightarrow> string \<Rightarrow> health_table" where
  "record_local_failure h now n =
     (case ht_adapters h n of None \<Rightarrow> h
      | Some st \<Rightarrow> h\<lparr>ht_adapters := (ht_adapters h)(n \<mapsto> cool_down st now)\<rparr>)"

definition record_comparative_timeout :: "health_table \<Rightarrow> time \<Rightarrow> string \<Rightarrow> string \<Rightarrow> health_table" where
  "record_comparative_timeout h now n target =
     (case ht_adapters h n of None \<Rightarrow> h
      | Some st0 \<Rightarrow>
          (let st = st0\<lparr>timeout_failures := timeout_failures st0 + 1,
                         timeout_targets :=
                           (if card (timeout_targets st0) < adapter_timeout_target_threshold
                            then insert target (timeout_targets st0) else timeout_targets st0)\<rparr>;
               st' = (if timeout_failures st < adapter_timeout_failure_threshold
                         \<or> card (timeout_targets st) < adapter_timeout_target_threshold
                      then st else cool_down st now)
           in h\<lparr>ht_adapters := (ht_adapters h)(n \<mapsto> st')\<rparr>))"

definition record_success :: "health_table \<Rightarrow> time \<Rightarrow> string \<Rightarrow> string \<Rightarrow> health_table" where
  "record_success h now n domain =
     (case ht_adapters h n of None \<Rightarrow> h
      | Some st0 \<Rightarrow>
          (let st = st0\<lparr>successes := successes st0 + 1, consecutive_failures := 0,
                         timeout_failures := 0, timeout_targets := {}, cooldown_until := zero_time,
                         last_success_at := now\<rparr>;
               d = normalize_domain domain;
               keep = (case domains st d of None \<Rightarrow> False
                       | Some e \<Rightarrow> \<not> domain_isolation_expiry h \<and> domain_failure_threshold \<le> evidence e);
               st' = (if keep then st
                      else st\<lparr>domains := (domains st)(d := None),
                              domain_expiry := idx_delete (domain_expiry st) d\<rparr>)
           in h\<lparr>ht_adapters := (ht_adapters h)(n \<mapsto> st')\<rparr>))"

definition record_comparative_domain_failure ::
  "health_table \<Rightarrow> time \<Rightarrow> string \<Rightarrow> string \<Rightarrow> health_table" where
  "record_comparative_domain_failure h now n domain =
     (let d = normalize_domain domain in
      if \<not> domain_isolation h \<or> d = '''' then h
      else case ht_adapters h n of None \<Rightarrow> h
      | Some st0 \<Rightarrow>
          (let st = prune_expired_domains st0 now;
               old = (case domains st d of
                        None \<Rightarrow> \<lparr>evidence = 0, expires_at = zero_time\<rparr>
                      | Some e \<Rightarrow> if expires_at e \<noteq> zero_time \<and> \<not> now < expires_at e
                                  then \<lparr>evidence = 0, expires_at = zero_time\<rparr> else e);
               n1 = evidence old + 1;
               exp = (if domain_failure_threshold \<le> n1
                      then (if domain_isolation_expiry h then now + domain_quarantine_ttl else add_years_100 now)
                      else now + domain_evidence_ttl)
           in h\<lparr>ht_adapters := (ht_adapters h)(n \<mapsto>
                  st\<lparr>domains := (domains st)(d \<mapsto> \<lparr>evidence = n1, expires_at = exp\<rparr>),
                     domain_expiry := idx_set (domain_expiry st) d exp\<rparr>)\<rparr>))"

section \<open>Live updates from the desktop\<close>

definition retime_domain :: "bool \<Rightarrow> time \<Rightarrow> adapter_health \<Rightarrow> string \<Rightarrow> adapter_health" where
  "retime_domain expiry now st d =
     (case domains st d of None \<Rightarrow> st
      | Some e \<Rightarrow>
          if evidence e < domain_failure_threshold then st
          else let exp = (if \<not> expiry then add_years_100 now
                          else if now + domain_quarantine_ttl < expires_at e then now + domain_quarantine_ttl
                          else expires_at e)
               in st\<lparr>domains := (domains st)(d \<mapsto> e\<lparr>expires_at := exp\<rparr>),
                     domain_expiry := idx_set (domain_expiry st) d exp\<rparr>)"

definition retime_adapter :: "bool \<Rightarrow> time \<Rightarrow> string list \<Rightarrow> adapter_health \<Rightarrow> adapter_health" where
  "retime_adapter expiry now ord st = foldl (retime_domain expiry now) (prune_expired_domains st now) ord"

definition clear_adapter :: "string list \<Rightarrow> adapter_health \<Rightarrow> adapter_health" where
  "clear_adapter ord st =
     st\<lparr>domain_expiry := foldl idx_delete (domain_expiry st) ord, domains := (\<lambda>_. None)\<rparr>"

fun remove_quarantines :: "health_table \<Rightarrow> (string \<times> string) list \<Rightarrow> health_table" where
  "remove_quarantines h [] = h"
| "remove_quarantines h ((n, domain) # keys) =
     (case ht_adapters h n of None \<Rightarrow> remove_quarantines h keys
      | Some st \<Rightarrow>
          (let d = normalize_domain domain
           in remove_quarantines
                (h\<lparr>ht_adapters := (ht_adapters h)(n \<mapsto>
                    st\<lparr>domains := (domains st)(d := None),
                       domain_expiry := idx_delete (domain_expiry st) d\<rparr>)\<rparr>) keys))"

text \<open>
  \<open>ord1\<close> and \<open>ord2\<close> give, per adapter, the order in which the two loops over
  \<open>state.domains\<close> visit the domains.
\<close>

definition update_domain_quarantines ::
  "(string \<Rightarrow> string list) \<Rightarrow> (string \<Rightarrow> string list) \<Rightarrow> health_table \<Rightarrow> time \<Rightarrow> quarantine_update \<Rightarrow> health_table" where
  "update_domain_quarantines ord1 ord2 h now u =
     (let h1 = (case upd_expiry u of
                  Some b \<Rightarrow>
                    if b \<noteq> domain_isolation_expiry h
                    then h\<lparr>domain_isolation_expiry := b,
                           ht_adapters := (\<lambda>n. map_option (retime_adapter b now (ord1 n)) (ht_adapters h n))\<rparr>
                    else h
                | None \<Rightarrow> h);
          h2 = (if upd_clear u
                then h1\<lparr>ht_adapters := (\<lambda>n. map_option (clear_adapter (ord2 n)) (ht_adapters h1 n))\<rparr>
                else h1)
      in remove_quarantines h2 (upd_remove u))"

section \<open>Snapshot\<close>

datatype health_state = Healthy | Cooldown | Probing

record adapter_snapshot =
  as_state :: health_state
  as_consecutive :: int
  as_successes :: u64
  as_failures :: u64
  as_last_success :: time
  as_last_failure :: time
  as_cooldown :: time
  as_quarantines :: nat

record quarantine_row =
  qr_adapter :: string
  qr_domain :: string
  qr_evidence :: int
  qr_expires :: time

text \<open>
  \<open>names\<close> and \<open>ord\<close> are the orders in which the loops over \<open>h.adapters\<close> and over the
  domains of each adapter visit their keys. The rows are sorted by adapter and domain;
  Go compares strings bytewise, which is the lexicographic order on \<open>string\<close>.
\<close>

definition quarantine_rows ::
  "bool \<Rightarrow> time \<Rightarrow> string \<Rightarrow> adapter_health \<Rightarrow> string list \<Rightarrow> quarantine_row list" where
  "quarantine_rows isolation now n st ord =
     (if \<not> isolation then []
      else List.map_filter (\<lambda>d. case domains st d of None \<Rightarrow> None
             | Some e \<Rightarrow> if evidence e < domain_failure_threshold \<or> \<not> now < expires_at e then None
                         else Some \<lparr>qr_adapter = n, qr_domain = d, qr_evidence = evidence e,
                                    qr_expires = expires_at e\<rparr>) ord)"

fun snapshot_loop ::
  "(string \<Rightarrow> string list) \<Rightarrow> time \<Rightarrow> health_table \<Rightarrow> string list \<Rightarrow>
   health_table \<times> (string \<Rightarrow> adapter_snapshot option) \<times> quarantine_row list" where
  "snapshot_loop ord now h [] = (h, (\<lambda>_. None), [])"
| "snapshot_loop ord now h (n # ns) =
     (case ht_adapters h n of None \<Rightarrow> snapshot_loop ord now h ns
      | Some st0 \<Rightarrow>
          (let st = prune_expired_domains st0 now;
               rows = quarantine_rows (domain_isolation h) now n st (ord n);
               snap = \<lparr>as_state = (if now < cooldown_until st then Cooldown
                                   else if 0 < consecutive_failures st then Probing else Healthy),
                       as_consecutive = consecutive_failures st, as_successes = successes st,
                       as_failures = failures st, as_last_success = last_success_at st,
                       as_last_failure = last_failure_at st, as_cooldown = cooldown_until st,
                       as_quarantines = length rows\<rparr>;
               (h', snaps, rest) = snapshot_loop ord now (h\<lparr>ht_adapters := (ht_adapters h)(n \<mapsto> st)\<rparr>) ns
           in (h', snaps(n \<mapsto> snap), rows @ rest)))"

definition health_snapshot ::
  "string list \<Rightarrow> (string \<Rightarrow> string list) \<Rightarrow> health_table \<Rightarrow> time \<Rightarrow>
   (string \<Rightarrow> adapter_snapshot option) \<times> quarantine_row list \<times> health_table" where
  "health_snapshot names ord h now =
     (let (h', snaps, rows) = snapshot_loop ord now h names
      in (snaps, sort_key (\<lambda>r. (qr_adapter r, qr_domain r)) rows, h'))"

section \<open>Family health\<close>

text \<open>\<open>family_health.go\<close>: one cool-down per adapter binding and address family.\<close>

definition family_key :: "adapter \<Rightarrow> string \<Rightarrow> binding_key \<times> string" where
  "family_key a network = (performance_key a, network_family network)"

definition no_family_health :: family_health where
  "no_family_health = \<lparr>fh_successes = 0, fh_failures = 0, fh_consecutive = 0, fh_cooldown_until = zero_time\<rparr>"

definition family_of :: "health_table \<Rightarrow> adapter \<Rightarrow> string \<Rightarrow> family_health" where
  "family_of h a network =
     (case ht_families h (family_key a network) of None \<Rightarrow> no_family_health | Some v \<Rightarrow> v)"

definition family_available :: "health_table \<Rightarrow> time \<Rightarrow> adapter \<Rightarrow> string \<Rightarrow> bool" where
  "family_available h now a network = (\<not> now < fh_cooldown_until (family_of h a network))"

definition record_family :: "health_table \<Rightarrow> time \<Rightarrow> adapter \<Rightarrow> string \<Rightarrow> bool \<Rightarrow> health_table" where
  "record_family h now a network ok =
     (let k = family_key a network;
          kept = (\<lambda>old. if bk_name (fst old) = name a \<and> snd old = snd k \<and> old \<noteq> k then None
                        else ht_families h old);
          v = (case kept k of None \<Rightarrow> no_family_health | Some v \<Rightarrow> v);
          n = fh_consecutive v + 1;
          index = (if n - 1 \<ge> int (length adapter_failure_backoff)
                   then int (length adapter_failure_backoff) - 1 else n - 1);
          v' = (if ok then v\<lparr>fh_successes := fh_successes v + 1, fh_consecutive := 0, fh_cooldown_until := zero_time\<rparr>
                else v\<lparr>fh_failures := fh_failures v + 1, fh_consecutive := n,
                       fh_cooldown_until := now + adapter_failure_backoff ! nat index\<rparr>)
      in h\<lparr>ht_families := kept(k \<mapsto> v')\<rparr>)"

datatype family_state = FamilyHealthy | FamilyUnavailable | FamilyUnknown | FamilyCooldown | FamilyProbing

definition family_snapshot :: "health_table \<Rightarrow> time \<Rightarrow> adapter \<Rightarrow> string \<Rightarrow> family_state \<times> family_health" where
  "family_snapshot h now a network =
     (let v = family_of h a network
      in (if \<not> adapter_supports_network a network then FamilyUnavailable
          else if fh_successes v = 0 \<and> fh_failures v = 0 then FamilyUnknown
          else if now < fh_cooldown_until v then FamilyCooldown
          else if 0 < fh_consecutive v then FamilyProbing else FamilyHealthy, v))"

text \<open>
  \<open>excludeCoolingFamilies\<close> of \<open>dial.go\<close>: when some adapter's family is available, the
  cooling ones are excluded as well. An IPv4 target on an IPv6-only adapter uses IPv6.
\<close>

definition actual_network :: "adapter \<Rightarrow> string \<Rightarrow> string" where
  "actual_network a network =
     (if (network = ''tcp4'' \<or> network = ''udp4'') \<and> source_ip a = '''' \<and> source_ipv6 a \<noteq> ''''
      then take (length network - 1) network @ ''6'' else network)"

definition exclude_cooling_families ::
  "adapter list \<Rightarrow> string set \<Rightarrow> health_table \<Rightarrow> time \<Rightarrow> string \<Rightarrow> string set" where
  "exclude_cooling_families adapters excluded h now network =
     (if \<exists>a\<in>set adapters. name a \<notin> excluded \<and> family_available h now a (actual_network a network)
      then excluded \<union> set (map name (filter (\<lambda>a. \<not> family_available h now a (actual_network a network)) adapters))
      else excluded)"

end
