(* ===== verification/Performance.thy ===== *)
theory Performance
  imports Adapter Complex_Main
begin

text \<open>
  The throughput feedback of \<open>engine/internal/proxy/adaptive.go\<close> and
  \<open>adaptive_allocation.go\<close>: the per-link counters and leases of \<open>performanceTable\<close>, and
  the bounded allocation of new connections to links.

  Links and leases are shared by pointer (a lease keeps its link after the table has
  retired it), so both live in explicit stores and the table, the leases and the link's
  lease set hold addresses. Every operation runs under the table's mutex and reads the
  clock once (\<open>now\<close>).

  A \<open>float64\<close> is an exact rational here: rounding, infinities and NaN are not modelled.
  The code divides only by a positive time, a positive length, a positive total and a
  change of at least 0.02, so no operation leaves the rationals. Byte counters
  are 64-bit words, as in the code; \<open>blocked\<close> is a duration.
\<close>

section \<open>The allocation of new connections\<close>

record allocation =
  al_keys :: "binding_key list"
  al_shares :: "rat list"
  al_credit :: "rat list"
  al_started :: time
  al_cooldown_until :: time
  al_state :: string
  al_allocations :: int
  al_window_samples :: int
  al_window_total :: rat
  al_reference :: rat

definition no_allocation :: allocation where
  "no_allocation =
     \<lparr>al_keys = [], al_shares = [], al_credit = [], al_started = zero_time, al_cooldown_until = zero_time,
      al_state = '''', al_allocations = 0, al_window_samples = 0, al_window_total = 0, al_reference = 0\<rparr>"

definition alloc_reset :: "adapter list \<Rightarrow> time \<Rightarrow> allocation" where
  "alloc_reset candidates now =
     no_allocation\<lparr>al_started := now, al_state := ''warming-up'',
       al_keys := map performance_key candidates,
       al_shares := map (\<lambda>_. 1 / of_nat (length candidates)) candidates,
       al_credit := map (\<lambda>_. 0) candidates\<rparr>"

definition alloc_matches :: "allocation \<Rightarrow> adapter list \<Rightarrow> bool" where
  "alloc_matches a candidates =
     (length candidates = length (al_keys a) \<and>
      list_all2 (\<lambda>k c. k = performance_key c) (al_keys a) candidates)"

definition alloc_uniform :: "allocation \<Rightarrow> string \<Rightarrow> allocation" where
  "alloc_uniform a state =
     a\<lparr>al_shares := map (\<lambda>_. 1 / of_nat (length (al_shares a))) (al_shares a),
       al_credit := map (\<lambda>_. 0) (al_shares a), al_state := state\<rparr>"

text \<open>The loop of \<open>choose\<close>: it raises the credit of link \<open>i\<close> and keeps the best index so far.\<close>

fun choose_loop :: "rat list \<Rightarrow> nat \<Rightarrow> rat list \<Rightarrow> nat \<Rightarrow> rat list \<times> nat" where
  "choose_loop [] i credit best = (credit, best)"
| "choose_loop (share # shares) i credit best =
     (let credit' = credit[i := credit ! i + share];
          best' = (if credit' ! i > credit' ! best then i else best)
      in choose_loop shares (i + 1) credit' best')"

definition rotate_credit :: "rat list \<Rightarrow> rat list \<Rightarrow> nat \<times> rat list" where
  "rotate_credit shares credit =
     (let (credit', best) = choose_loop shares 0 credit 0 in (best, credit'[best := credit' ! best - 1]))"

definition alloc_choose :: "allocation \<Rightarrow> adapter list \<Rightarrow> adapter \<Rightarrow> time \<Rightarrow> adapter \<times> allocation" where
  "alloc_choose a0 candidates fallback now =
     (let a1 = (if \<not> alloc_matches a0 candidates then alloc_reset candidates now else a0);
          a = a1\<lparr>al_allocations := al_allocations a1 + 1\<rparr>
      in if al_state a \<noteq> ''adapting'' then (fallback, a)
         else let (best, credit) = rotate_credit (al_shares a) (al_credit a)
              in (candidates ! best, a\<lparr>al_credit := credit\<rparr>))"

section \<open>Links and leases\<close>

record link_perf =
  lk_finished_transfers :: int
  lk_window_transfers :: int
  lk_window_blocked :: bool
  lk_window_rate :: rat
  lk_leases :: "nat set"
  lk_load :: int
  lk_bytes :: u64
  lk_blocked :: duration
  lk_last_bytes :: u64
  lk_last_blocked :: duration
  lk_last_sample :: time
  lk_rate :: rat
  lk_samples :: int
  lk_updated :: time

record perf_lease =
  ls_link :: nat
  ls_bytes :: u64
  ls_last_bytes :: u64
  ls_started :: time
  ls_active_until :: time
  ls_attached :: bool
  ls_finished :: bool
  ls_counted :: bool

record perf_table =
  pf_minimum :: int
  pf_allocation :: allocation
  pf_links :: "binding_key \<Rightarrow> nat option"
  pf_decisions :: u64
  pf_reasons :: "string \<Rightarrow> u64 option"
  pf_link_store :: "nat \<Rightarrow> link_perf"
  pf_next_link :: nat
  pf_lease_store :: "nat \<Rightarrow> perf_lease"
  pf_next_lease :: nat

definition new_link :: "time \<Rightarrow> link_perf" where
  "new_link now =
     \<lparr>lk_finished_transfers = 0, lk_window_transfers = 0, lk_window_blocked = False, lk_window_rate = 0,
      lk_leases = {}, lk_load = 0, lk_bytes = 0, lk_blocked = 0, lk_last_bytes = 0, lk_last_blocked = 0,
      lk_last_sample = now, lk_rate = 0, lk_samples = 0, lk_updated = zero_time\<rparr>"

definition no_lease :: perf_lease where
  "no_lease = \<lparr>ls_link = 0, ls_bytes = 0, ls_last_bytes = 0, ls_started = zero_time,
               ls_active_until = zero_time, ls_attached = False, ls_finished = False, ls_counted = False\<rparr>"

definition new_performance_table :: perf_table where
  "new_performance_table =
     \<lparr>pf_minimum = 2, pf_allocation = no_allocation, pf_links = (\<lambda>_. None), pf_decisions = 0,
      pf_reasons = (\<lambda>_. None), pf_link_store = (\<lambda>_. new_link 0), pf_next_link = 0,
      pf_lease_store = (\<lambda>_. no_lease), pf_next_lease = 0\<rparr>"

definition new_udp_performance_table :: perf_table where
  "new_udp_performance_table = new_performance_table\<lparr>pf_minimum := 1\<rparr>"

definition pf_link :: "perf_table \<Rightarrow> adapter \<Rightarrow> time \<Rightarrow> nat \<times> perf_table" where
  "pf_link p a now =
     (case pf_links p (performance_key a) of
        Some l \<Rightarrow> (l, p)
      | None \<Rightarrow>
          (let l = pf_next_link p
           in (l, p\<lparr>pf_links := (pf_links p)(performance_key a \<mapsto> l), pf_next_link := l + 1,
                   pf_link_store := (pf_link_store p)(l := new_link now)\<rparr>)))"

definition pf_retain :: "perf_table \<Rightarrow> adapter list \<Rightarrow> perf_table" where
  "pf_retain p adapters =
     p\<lparr>pf_links := (\<lambda>k. if k \<in> set (map performance_key adapters) then pf_links p k else None)\<rparr>"

text \<open>
  \<open>acquire\<close>: \<open>pf_decide\<close> is its first half, which settles the link and the reason and
  touches only the allocation; \<open>pools\<close> is the optional variadic argument.
\<close>

definition pf_decide ::
  "perf_table \<Rightarrow> time \<Rightarrow> adapter list \<Rightarrow> bool \<Rightarrow> adapter \<Rightarrow> adapter list option \<Rightarrow>
   adapter \<times> string \<times> perf_table" where
  "pf_decide p now candidates adaptive fallback pools =
     (if adaptive \<and> length candidates > 1
      then let pool = (case pools of None \<Rightarrow> candidates | Some q \<Rightarrow> q);
               al = (if \<not> alloc_matches (pf_allocation p) pool then alloc_reset pool now else pf_allocation p);
               p0 = p\<lparr>pf_decisions := pf_decisions p + 1, pf_allocation := al\<rparr>
           in if alloc_matches al candidates
              then let (c, al') = alloc_choose al candidates fallback now
                   in (c, al_state al', p0\<lparr>pf_allocation := al'\<rparr>)
              else (fallback, ''constrained-pool'', p0)
      else (fallback, ''legacy-or-single'', p))"

definition pf_acquire ::
  "perf_table \<Rightarrow> time \<Rightarrow> adapter list \<Rightarrow> bool \<Rightarrow> adapter \<Rightarrow> adapter list option \<Rightarrow>
   adapter \<times> nat \<times> perf_table" where
  "pf_acquire p now candidates adaptive fallback pools =
     (let (chosen, reason, p1) = pf_decide p now candidates adaptive fallback pools;
          (l, p2) = pf_link p1 chosen now;
          count = (case pf_reasons p2 reason of None \<Rightarrow> 0 | Some n \<Rightarrow> n);
          lease = pf_next_lease p2;
          link = pf_link_store p2 l
      in (chosen, lease,
          p2\<lparr>pf_reasons := (pf_reasons p2)(reason \<mapsto> count + 1),
             pf_lease_store := (pf_lease_store p2)
               (lease := no_lease\<lparr>ls_link := l, ls_started := now, ls_counted := True\<rparr>),
             pf_next_lease := lease + 1,
             pf_link_store := (pf_link_store p2)
               (l := link\<lparr>lk_leases := insert lease (lk_leases link), lk_load := lk_load link + 1\<rparr>)\<rparr>))"

definition pf_attach :: "perf_table \<Rightarrow> time \<Rightarrow> nat \<Rightarrow> perf_table" where
  "pf_attach p now lease =
     (let l = pf_lease_store p lease in
      if ls_finished l then p
      else p\<lparr>pf_lease_store := (pf_lease_store p)(lease := l\<lparr>ls_attached := True, ls_started := now\<rparr>)\<rparr>)"

definition pf_finish :: "perf_table \<Rightarrow> time \<Rightarrow> nat option \<Rightarrow> perf_table" where
  "pf_finish p now arg =
     (case arg of None \<Rightarrow> p
      | Some lease \<Rightarrow>
          (let l = pf_lease_store p lease in
           if ls_finished l then p
           else let k = pf_link_store p (ls_link l);
                    k1 = (if 64 * 1024 \<le> ls_bytes l - ls_last_bytes l \<and> 200 * millisecond \<le> now - ls_started l
                          then k\<lparr>lk_finished_transfers := lk_finished_transfers k + 1\<rparr> else k);
                    k2 = (if ls_counted l then k1\<lparr>lk_load := lk_load k1 - 1\<rparr> else k1);
                    k3 = k2\<lparr>lk_leases := lk_leases k2 - {lease}\<rparr>
                in p\<lparr>pf_lease_store := (pf_lease_store p)
                       (lease := l\<lparr>ls_finished := True, ls_counted := False\<rparr>),
                     pf_link_store := (pf_link_store p)(ls_link l := k3)\<rparr>))"

text \<open>\<open>performanceWriter.Write\<close>: the writer wrote \<open>n\<close> bytes and took \<open>took\<close>.\<close>

definition pf_write :: "perf_table \<Rightarrow> nat \<Rightarrow> int \<Rightarrow> duration \<Rightarrow> perf_table" where
  "pf_write p lease n took =
     (let l = pf_lease_store p lease;
          k = pf_link_store p (ls_link l);
          k1 = k\<lparr>lk_blocked := lk_blocked k + took\<rparr>
      in if 0 < n
         then p\<lparr>pf_lease_store := (pf_lease_store p)(lease := l\<lparr>ls_bytes := ls_bytes l + of_int n\<rparr>),
                pf_link_store := (pf_link_store p)(ls_link l := k1\<lparr>lk_bytes := lk_bytes k1 + of_int n\<rparr>)\<rparr>
         else p\<lparr>pf_link_store := (pf_link_store p)(ls_link l := k1)\<rparr>)"

section \<open>Sampling\<close>

definition sample_lease :: "time \<Rightarrow> perf_lease \<Rightarrow> perf_lease" where
  "sample_lease now l =
     (let delta = ls_bytes l - ls_last_bytes l;
          l1 = (if 0 < delta then l\<lparr>ls_active_until := now + 3 * second\<rparr> else l)
      in l1\<lparr>ls_last_bytes := ls_bytes l,
            ls_counted := (\<not> ls_attached l1 \<or> now - ls_started l1 < 3 * second \<or> now < ls_active_until l1)\<rparr>)"

text \<open>
  One link of the loop. The inner loop visits the link's leases in map order; each visit
  writes its own lease and adds to two counters, so the order does not show.
\<close>

definition sample_link :: "time \<Rightarrow> perf_table \<Rightarrow> nat \<Rightarrow> perf_table" where
  "sample_link now p a =
     (let link = pf_link_store p a; dt = now - lk_last_sample link in
      if dt \<le> 0 then p
      else
        let b = lk_bytes link; blocked = lk_blocked link;
            delta = b - lk_last_bytes link;
            rate = of_nat (unat delta) / (of_int dt / of_int second);
            valid = (0 < delta);
            backpressure = (dt div 2 < blocked - lk_last_blocked link);
            busy = Set.filter (\<lambda>l. 64 * 1024 \<le> ls_bytes (pf_lease_store p l) - ls_last_bytes (pf_lease_store p l))
                     (lk_leases link);
            leases = (\<lambda>l. if l \<in> lk_leases link then sample_lease now (pf_lease_store p l) else pf_lease_store p l);
            k1 = link\<lparr>lk_last_bytes := b, lk_last_blocked := blocked, lk_last_sample := now,
                      lk_window_rate := rate, lk_window_blocked := backpressure,
                      lk_window_transfers := lk_finished_transfers link + int (card busy),
                      lk_finished_transfers := 0,
                      lk_load := int (card (Set.filter (\<lambda>l. ls_counted (leases l)) (lk_leases link)))\<rparr>;
            k2 = (if valid \<and> \<not> backpressure
                  then k1\<lparr>lk_rate := max 0 (if lk_samples link = 0 then rate
                                            else lk_rate link + 1 / 5 * (rate - lk_rate link)),
                          lk_samples := lk_samples link + 1, lk_updated := now\<rparr>
                  else k1)
        in p\<lparr>pf_lease_store := leases, pf_link_store := (pf_link_store p)(a := k2)\<rparr>)"

text \<open>\<open>observe\<close>: first the gate on every link of the pool, then the window, then the step.\<close>

fun observe_total :: "(binding_key \<Rightarrow> link_perf option) \<Rightarrow> int \<Rightarrow> binding_key list \<Rightarrow> rat \<Rightarrow> rat option" where
  "observe_total links minimum [] tot = Some tot"
| "observe_total links minimum (key # keys) tot =
     (case links key of None \<Rightarrow> None
      | Some l \<Rightarrow> if lk_window_transfers l < minimum \<or> lk_window_blocked l \<or> lk_window_rate l \<le> 0 then None
                  else observe_total links minimum keys (tot + lk_window_rate l))"

definition link_rate :: "(binding_key \<Rightarrow> link_perf option) \<Rightarrow> binding_key \<Rightarrow> rat" where
  "link_rate links key = (case links key of None \<Rightarrow> 0 | Some l \<Rightarrow> lk_rate l)"

definition alloc_target :: "(binding_key \<Rightarrow> link_perf option) \<Rightarrow> binding_key list \<Rightarrow> rat \<Rightarrow> rat list" where
  "alloc_target links keys observed =
     map (\<lambda>k. (1 / 2) / of_nat (length keys) + (1 / 2) * link_rate links k / observed) keys"

definition step_shares :: "rat \<Rightarrow> rat list \<Rightarrow> rat list \<Rightarrow> rat list" where
  "step_shares step target shares = map2 (\<lambda>t s. s + step * (t - s)) target shares"

definition alloc_observe ::
  "allocation \<Rightarrow> (binding_key \<Rightarrow> link_perf option) \<Rightarrow> time \<Rightarrow> int \<Rightarrow> allocation" where
  "alloc_observe a links now minimum =
     (if length (al_keys a) < 2 then a
      else case observe_total links (max 1 minimum) (al_keys a) 0 of
        None \<Rightarrow>
          (let a1 = a\<lparr>al_window_samples := 0, al_window_total := 0, al_allocations := 0, al_reference := 0\<rparr>
           in if now < al_cooldown_until a1 then alloc_uniform a1 ''throughput-guard''
              else alloc_uniform a1 ''insufficient-demand'')
      | Some tot \<Rightarrow>
          if now < al_cooldown_until a then (alloc_uniform a ''throughput-guard'')\<lparr>al_allocations := 0\<rparr>
          else
            let a1 = a\<lparr>al_window_total := al_window_total a + tot,
                       al_window_samples := al_window_samples a + 1\<rparr> in
            if al_window_samples a1 < 5 then a1
            else
              let mean = al_window_total a1 / of_int (al_window_samples a1);
                  arrivals = al_allocations a1;
                  a2 = a1\<lparr>al_window_samples := 0, al_window_total := 0, al_allocations := 0\<rparr> in
              if now - al_started a2 < 15 * second
              then (alloc_uniform a2 ''warming-up'')\<lparr>al_reference := mean\<rparr>
              else if arrivals < max 4 (int (length (al_keys a2))) then a2
              else if 0 < al_reference a2 \<and> mean < al_reference a2 * (9 / 10)
              then (alloc_uniform a2 ''throughput-guard'')
                     \<lparr>al_cooldown_until := now + 30 * second, al_reference := 0\<rparr>
              else
                let a3 = a2\<lparr>al_reference := (if al_reference a2 = 0 then mean
                                              else al_reference a2 + 1 / 5 * (mean - al_reference a2))\<rparr>;
                    observed = sum_list (map (link_rate links) (al_keys a3)) in
                if observed \<le> 0 then a3
                else
                  let target = alloc_target links (al_keys a3) observed;
                      max_change = foldl max 0 (map2 (\<lambda>t s. \<bar>t - s\<bar>) target (al_shares a3)) in
                  if max_change < 2 / 100
                  then (if al_state a3 \<noteq> ''adapting'' then a3\<lparr>al_state := ''balanced''\<rparr> else a3)
                  else let step = min 1 ((5 / 100) / max_change)
                       in a3\<lparr>al_shares := step_shares step target (al_shares a3), al_state := ''adapting''\<rparr>)"

text \<open>\<open>ord\<close> is the order in which the loop of \<open>sample\<close> visits the keys of \<open>p.links\<close>.\<close>

definition link_view :: "perf_table \<Rightarrow> binding_key \<Rightarrow> link_perf option" where
  "link_view p k = map_option (pf_link_store p) (pf_links p k)"

definition pf_sample :: "binding_key list \<Rightarrow> perf_table \<Rightarrow> time \<Rightarrow> perf_table" where
  "pf_sample ord p now =
     (let p1 = foldl (\<lambda>q k. case pf_links q k of None \<Rightarrow> q | Some a \<Rightarrow> sample_link now q a) p ord
      in p1\<lparr>pf_allocation := alloc_observe (pf_allocation p1) (link_view p1) now (pf_minimum p1)\<rparr>)"

section \<open>Telemetry\<close>

record link_telemetry =
  lt_share :: rat
  lt_name :: string
  lt_rate :: rat
  lt_load :: int
  lt_samples :: int
  lt_age_ms :: int

definition share_of :: "allocation \<Rightarrow> nat \<Rightarrow> binding_key \<Rightarrow> rat" where
  "share_of a n k =
     (if length (al_keys a) > 1
      then case map_of (zip (al_keys a) (al_shares a)) k of None \<Rightarrow> 0 | Some s \<Rightarrow> s
      else 1 / of_nat n)"

definition pf_snapshot ::
  "perf_table \<Rightarrow> time \<Rightarrow> adapter list \<Rightarrow> string \<Rightarrow>
   string \<times> (string \<Rightarrow> u64 option) \<times> link_telemetry list" where
  "pf_snapshot p now adapters strategy =
     (let al = pf_allocation p;
          state = (if strategy = strategy_adaptive
                   then (if length (al_keys al) > 1 then al_state al else ''warming-up'') else ''legacy'');
          item = (\<lambda>a. let base = \<lparr>lt_share = (if strategy = strategy_adaptive
                                               then share_of al (length adapters) (performance_key a) else 0),
                                  lt_name = name a, lt_rate = 0, lt_load = 0, lt_samples = 0, lt_age_ms = - 1\<rparr>
                      in case link_view p (performance_key a) of None \<Rightarrow> base
                         | Some l \<Rightarrow> base\<lparr>lt_rate := lk_rate l, lt_load := lk_load l, lt_samples := lk_samples l,
                             lt_age_ms := (if lk_updated l \<noteq> zero_time then (now - lk_updated l) div millisecond
                                           else - 1)\<rparr>)
      in (state, pf_reasons p, map item adapters))"

end
