(* ===== verification/Latency.thy ===== *)
theory Latency
  imports Adapter GoNet Complex_Main "HOL-Library.AList"
begin

text \<open>
  The latency table of \<open>engine/internal/proxy/latency.go\<close>: probe samples per adapter
  binding and target, the literal addresses being watched, and the choice of the adapter
  with the best score, with hold-down and hysteresis for the incumbent.

  A Go map the code counts or iterates over is an association list (its order stands for
  the order of the iteration); \<open>float64\<close> is an exact rational and \<open>math.Inf(1)\<close> is the
  score \<open>None\<close>. An address that was unmapped has 4 or 16 bytes. A probe result is a
  parameter of \<open>lt_record\<close>, since probing is the diagnostic package's.
\<close>

section \<open>Data\<close>

abbreviation (input) latency_freshness :: duration where "latency_freshness \<equiv> 8 * second"
abbreviation (input) latency_target_ttl :: duration where "latency_target_ttl \<equiv> 30 * second"
abbreviation (input) latency_target_limit :: nat where "latency_target_limit \<equiv> 8"

definition latency_references :: "string list" where
  "latency_references = [''223.5.5.5'', ''1.1.1.1'']"

definition latency_references_ipv6 :: "string list" where
  "latency_references_ipv6 = [''2400:3200::1'', ''2001:4860:4860::8888'']"

record latency_sample =
  sm_rtt :: rat
  sm_jitter :: rat
  sm_loss :: rat
  sm_samples :: int
  sm_failures :: int
  sm_updated :: time
  sm_last_reply :: time

record probe_result =
  pr_sent :: int
  pr_received :: int
  pr_avg_ms :: int

record latency_table =
  lt_values :: "((binding_key \<times> string) \<times> latency_sample) list"
  lt_targets :: "(bytes \<times> time) list"
  lt_choices :: "string \<Rightarrow> (binding_key \<times> time) option"
  lt_reasons :: "string \<Rightarrow> u64 option"

definition no_sample :: latency_sample where
  "no_sample = \<lparr>sm_rtt = 0, sm_jitter = 0, sm_loss = 0, sm_samples = 0, sm_failures = 0,
                sm_updated = zero_time, sm_last_reply = zero_time\<rparr>"

definition no_binding :: binding_key where
  "no_binding = \<lparr>bk_name = '''', bk_ip = '''', bk_ipv6 = '''', bk_index = 0, bk_index6 = 0\<rparr>"

definition new_latency_table :: latency_table where
  "new_latency_table = \<lparr>lt_values = [], lt_targets = [], lt_choices = (\<lambda>_. None), lt_reasons = (\<lambda>_. None)\<rparr>"

definition lt_value :: "latency_table \<Rightarrow> binding_key \<Rightarrow> string \<Rightarrow> latency_sample" where
  "lt_value p b target = (case map_of (lt_values p) (b, target) of None \<Rightarrow> no_sample | Some v \<Rightarrow> v)"

definition count_reason :: "latency_table \<Rightarrow> string \<Rightarrow> latency_table" where
  "count_reason p r =
     p\<lparr>lt_reasons := (lt_reasons p)(r \<mapsto> (case lt_reasons p r of None \<Rightarrow> 0 | Some n \<Rightarrow> n) + 1)\<rparr>"

section \<open>Watched targets\<close>

definition latency_host :: "string \<Rightarrow> string" where
  "latency_host target =
     (let t = (case split_host_port target of Some (host, _) \<Rightarrow> host | None \<Rightarrow> target)
      in case parse_ip t of None \<Rightarrow> ''''
         | Some ip \<Rightarrow> if ip_unspecified ip \<or> ip_multicast ip \<or> ip_link_local ip then '''' else ip_string ip)"

definition unmap_ip :: "bytes \<Rightarrow> bytes" where
  "unmap_ip ip = (case to4 ip of Some b \<Rightarrow> b | None \<Rightarrow> ip)"

definition latency_watchable :: "bytes \<Rightarrow> bool" where
  "latency_watchable ip = (\<not> ip_unspecified ip \<and> \<not> ip_multicast ip \<and> \<not> ip_link_local ip)"

definition watch_addr :: "latency_table \<Rightarrow> time \<Rightarrow> bytes \<Rightarrow> latency_table" where
  "watch_addr p now ip =
     (let addr = unmap_ip ip in
      if \<not> latency_watchable addr then p
      else if map_of (lt_targets p) addr = None \<and> latency_target_limit \<le> length (lt_targets p) then p
      else p\<lparr>lt_targets := AList.update addr now (lt_targets p)\<rparr>)"

definition lt_watch :: "latency_table \<Rightarrow> time \<Rightarrow> string \<Rightarrow> latency_table" where
  "lt_watch p now target =
     (let host = latency_host target in
      if host = '''' then p
      else case parse_ip host of None \<Rightarrow> p | Some ip \<Rightarrow> watch_addr p now ip)"

section \<open>Samples and scores\<close>

definition sample_update :: "latency_sample \<Rightarrow> time \<Rightarrow> probe_result \<Rightarrow> latency_sample" where
  "sample_update v0 now r =
     (let v = (if latency_freshness < now - sm_updated v0 then no_sample else v0);
          rtt = of_int (pr_avg_ms r);
          loss = (if 0 < pr_received r then 0 else 1);
          v1 = (if 0 < pr_received r
                then (if sm_last_reply v = zero_time then v\<lparr>sm_rtt := rtt\<rparr>
                      else v\<lparr>sm_jitter := sm_jitter v + 1 / 4 * (\<bar>rtt - sm_rtt v\<bar> - sm_jitter v),
                             sm_rtt := sm_rtt v + 1 / 4 * (rtt - sm_rtt v)\<rparr>)
                       \<lparr>sm_last_reply := now, sm_failures := 0\<rparr>
                else v\<lparr>sm_failures := sm_failures v + 1\<rparr>)
      in v1\<lparr>sm_loss := (if sm_samples v1 = 0 then loss else sm_loss v1 + 1 / 4 * (loss - sm_loss v1)),
            sm_samples := sm_samples v1 + 1, sm_updated := now\<rparr>)"

definition lt_record :: "latency_table \<Rightarrow> time \<Rightarrow> adapter \<Rightarrow> string \<Rightarrow> probe_result \<Rightarrow> latency_table" where
  "lt_record p now a target r =
     (if pr_sent r = 0 then p
      else p\<lparr>lt_values := AList.update (performance_key a, target)
               (sample_update (lt_value p (performance_key a) target) now r) (lt_values p)\<rparr>)"

definition sample_fresh :: "latency_sample \<Rightarrow> time \<Rightarrow> bool" where
  "sample_fresh v now = (3 \<le> sm_samples v \<and> now - sm_updated v \<le> latency_freshness)"

definition sample_score :: "latency_sample \<Rightarrow> rat option" where
  "sample_score v =
     (if sm_last_reply v = zero_time \<or> 3 \<le> sm_failures v then None
      else Some (sm_rtt v + 2 * sm_jitter v + 400 * sm_loss v))"

definition score_less :: "rat option \<Rightarrow> rat option \<Rightarrow> bool" where
  "score_less a b = (case a of None \<Rightarrow> False | Some x \<Rightarrow> (case b of None \<Rightarrow> True | Some y \<Rightarrow> x < y))"

section \<open>Selection\<close>

text \<open>One source: the best candidate and its score, or None when some sample is not fresh.\<close>

fun scan_source ::
  "latency_table \<Rightarrow> time \<Rightarrow> string \<Rightarrow> adapter list \<Rightarrow> adapter \<Rightarrow> rat option \<Rightarrow> (adapter \<times> rat option) option" where
  "scan_source p now source [] best best_score = Some (best, best_score)"
| "scan_source p now source (a # as) best best_score =
     (let v = lt_value p (performance_key a) source in
      if \<not> sample_fresh v now then None
      else if score_less (sample_score v) best_score then scan_source p now source as a (sample_score v)
      else scan_source p now source as best best_score)"

text \<open>The incumbent of the source keeps its place during hold-down or against a small win.\<close>

fun keep_incumbent ::
  "latency_table \<Rightarrow> time \<Rightarrow> string \<Rightarrow> binding_key \<times> time \<Rightarrow> rat \<Rightarrow> adapter list \<Rightarrow> adapter \<Rightarrow> adapter" where
  "keep_incumbent p now source prev best_score [] best = best"
| "keep_incumbent p now source prev best_score (a # as) best =
     (if performance_key a \<noteq> fst prev then keep_incumbent p now source prev best_score as best
      else keep_incumbent p now source prev best_score as
             (case sample_score (lt_value p (fst prev) source) of
                None \<Rightarrow> best
              | Some old \<Rightarrow> if now - snd prev < 10 * second \<or> old - best_score < max 8 (old * (15 / 100))
                            then a else best))"

fun select_from ::
  "latency_table \<Rightarrow> time \<Rightarrow> string \<Rightarrow> adapter list \<Rightarrow> string list \<Rightarrow> adapter \<times> latency_table" where
  "select_from p now host candidates [] = (hd candidates, count_reason p ''learning-stable-fallback'')"
| "select_from p now host candidates (source # sources) =
     (if source = '''' then select_from p now host candidates sources
      else case scan_source p now source candidates (hd candidates) None of
        Some (best0, Some best_score) \<Rightarrow>
          (let prev = (case lt_choices p source of None \<Rightarrow> (no_binding, zero_time) | Some c \<Rightarrow> c);
               best = keep_incumbent p now source prev best_score candidates best0;
               p' = (if performance_key best \<noteq> fst prev
                     then p\<lparr>lt_choices := (lt_choices p)(source \<mapsto> (performance_key best, now))\<rparr> else p)
           in (best, count_reason p' (if source = host then ''target-icmp'' else ''reference-estimate'')))
      | _ \<Rightarrow> select_from p now host candidates sources)"

definition is_ipv6_target :: "bytes option \<Rightarrow> bool" where
  "is_ipv6_target ip = (case ip of None \<Rightarrow> False | Some b \<Rightarrow> to4 b = None)"

definition lt_sources :: "adapter list \<Rightarrow> string \<Rightarrow> string list" where
  "lt_sources candidates target =
     (let ip = parse_ip (case split_host_port target of Some (h, _) \<Rightarrow> h | None \<Rightarrow> target);
          refs = (if is_ipv6_target ip \<or> ip = None \<and> source_ip (hd candidates) = ''''
                  then latency_references_ipv6 else latency_references)
      in latency_host target # refs)"

definition lt_select :: "latency_table \<Rightarrow> time \<Rightarrow> adapter list \<Rightarrow> string \<Rightarrow> adapter \<times> latency_table" where
  "lt_select p now candidates target =
     select_from p now (latency_host target) candidates (lt_sources candidates target)"

section \<open>Comparative failure\<close>

definition failed_on :: "latency_table \<Rightarrow> time \<Rightarrow> adapter \<Rightarrow> adapter \<Rightarrow> string \<Rightarrow> bool" where
  "failed_on p now current alternative source =
     (let a = lt_value p (performance_key current) source;
          b = lt_value p (performance_key alternative) source
      in sample_fresh a now \<and> sample_fresh b now \<and> sm_last_reply a \<noteq> zero_time \<and> 3 \<le> sm_failures a \<and>
         sm_failures b = 0 \<and> now - sm_last_reply b \<le> 3 * second)"

definition failed_against :: "latency_table \<Rightarrow> time \<Rightarrow> adapter \<Rightarrow> adapter \<Rightarrow> string \<Rightarrow> bool" where
  "failed_against p now current alternative target =
     (let host = latency_host target in
      if host = '''' then False
      else let refs = (if is_ipv6_target (parse_ip host) then latency_references_ipv6 else latency_references)
           in failed_on p now current alternative host \<or>
              (failed_on p now current alternative (refs ! 0) \<and> failed_on p now current alternative (refs ! 1)))"

section \<open>Probe rounds\<close>

definition network_for_ip :: "string \<Rightarrow> bytes option \<Rightarrow> string" where
  "network_for_ip transport ip =
     (case ip of None \<Rightarrow> transport @ ''6''
      | Some b \<Rightarrow> transport @ (if to4 b \<noteq> None then ''4'' else ''6''))"

text \<open>The locked half of \<open>round\<close>: old targets are dropped, stale samples pruned.\<close>

fun round_targets ::
  "time \<Rightarrow> (bytes \<times> time) list \<Rightarrow> latency_table \<Rightarrow> string list \<Rightarrow> latency_table \<times> string list" where
  "round_targets now [] p targets = (p, targets)"
| "round_targets now ((addr, seen) # rest) p targets =
     (let host = ip_string addr in
      if latency_target_ttl < now - seen
      then round_targets now rest
             (p\<lparr>lt_targets := AList.delete addr (lt_targets p), lt_choices := (lt_choices p)(host := None)\<rparr>) targets
      else round_targets now rest p (if host \<in> set targets then targets else targets @ [host]))"

definition round_prune :: "latency_table \<Rightarrow> time \<Rightarrow> adapter list \<Rightarrow> latency_table \<times> string list" where
  "round_prune p now adapters =
     (let (p1, targets) = round_targets now (lt_targets p) p (latency_references @ latency_references_ipv6)
      in (p1\<lparr>lt_values := filter (\<lambda>((b, t), v). b \<in> set (map performance_key adapters) \<and> t \<in> set targets)
                            (lt_values p1)\<rparr>, targets))"

record probe_job =
  jb_adapter :: adapter
  jb_source :: string
  jb_index :: int
  jb_target :: string

definition round_jobs :: "adapter list \<Rightarrow> string list \<Rightarrow> probe_job list" where
  "round_jobs adapters targets =
     concat (map (\<lambda>t. map (\<lambda>a. let v6 = is_ipv6_target (parse_ip t) in
                 \<lparr>jb_adapter = a, jb_source = (if v6 then source_ipv6 a else source_ip a),
                  jb_index = (if v6 then ipv6_if_index a else if_index a), jb_target = t\<rparr>)
               (filter (\<lambda>a. adapter_supports_network a (network_for_ip ''tcp'' (parse_ip t))) adapters)) targets)"

section \<open>Telemetry\<close>

definition lt_snapshot :: "latency_table \<Rightarrow> adapter list \<Rightarrow> (string \<times> string \<times> string \<times> latency_sample) list" where
  "lt_snapshot p adapters =
     concat (map (\<lambda>a. List.map_filter (\<lambda>((b, t), v).
         if b \<noteq> performance_key a then None
         else Some (name a, t, (if t \<in> set (latency_references @ latency_references_ipv6)
                                then ''reference-estimate'' else ''target-icmp''), v)) (lt_values p)) adapters)"

section \<open>Invariants\<close>

definition sample_ok :: "latency_sample \<Rightarrow> bool" where
  "sample_ok v \<longleftrightarrow> 0 \<le> sm_rtt v \<and> 0 \<le> sm_jitter v \<and> 0 \<le> sm_loss v \<and> sm_loss v \<le> 1 \<and>
     0 \<le> sm_samples v \<and> 0 \<le> sm_failures v \<and> sm_failures v \<le> sm_samples v"

lemma sample_ok_none [simp]: "sample_ok no_sample"
  by (simp add: sample_ok_def no_sample_def)

lemma ewma_bounds:
  fixes x y lo hi :: rat
  shows "lo \<le> x \<Longrightarrow> lo \<le> y \<Longrightarrow> lo \<le> x + 1 / 4 * (y - x)"
    and "x \<le> hi \<Longrightarrow> y \<le> hi \<Longrightarrow> x + 1 / 4 * (y - x) \<le> hi"
  by (simp_all add: field_simps)

lemma sample_update_ok:
  assumes "sample_ok v" and "0 \<le> pr_avg_ms r"
  shows "sample_ok (sample_update v now r)"
proof -
  define w where "w = (if latency_freshness < now - sm_updated v then no_sample else v)"
  have w: "sample_ok w" using assms(1) by (simp add: w_def)
  then show ?thesis
    unfolding sample_update_def Let_def w_def [symmetric]
    using assms(2) ewma_bounds [of 0 "sm_jitter w" "\<bar>of_int (pr_avg_ms r) - sm_rtt w\<bar>"]
      ewma_bounds [of 0 "sm_rtt w" "of_int (pr_avg_ms r)"]
      ewma_bounds(1) [of 0 "sm_loss w" 0] ewma_bounds(1) [of 0 "sm_loss w" 1]
      ewma_bounds(2) [of "sm_loss w" 1 0] ewma_bounds(2) [of "sm_loss w" 1 1]
    by (simp add: sample_ok_def)
qed

definition latency_ok :: "latency_table \<Rightarrow> bool" where
  "latency_ok p \<longleftrightarrow>
     (\<forall>v\<in>snd ` set (lt_values p). sample_ok v) \<and> distinct (map fst (lt_values p)) \<and>
     distinct (map fst (lt_targets p)) \<and> length (lt_targets p) \<le> latency_target_limit \<and>
     fst ` set (lt_targets p) \<subseteq> Collect latency_watchable"

end
