(* ===== verification/Scheduler.thy ===== *)
theory Scheduler
  imports Health Performance Latency
begin

text \<open>
  The scheduler of \<open>engine/internal/proxy/scheduler.go\<close> with the scheduler methods of
  \<open>scheduling.go\<close>, \<open>adaptive.go\<close> and \<open>latency.go\<close>. One scheduler holds its tables (in
  the code they are pointers it may share with other schedulers); every method runs under
  the scheduler's mutex and is one function on its state, with \<open>now\<close> the time it reads.
  A strategy is latency-first only when a latency table is installed;
  \<open>sc_latency_watch\<close> says whether the lock-free copy of it is published.
\<close>

section \<open>State\<close>

record scheduler =
  sc_adapters :: "adapter list"
  sc_strategy :: string
  sc_performance :: "perf_table option"
  sc_udp_performance :: "perf_table option"
  sc_latency :: "latency_table option"
  sc_latency_watch :: bool
  sc_weighted :: bool
  sc_next :: nat
  sc_current :: "string \<Rightarrow> int"
  sc_health :: health_table

definition publish_latency :: "scheduler \<Rightarrow> scheduler" where
  "publish_latency s = s\<lparr>sc_latency_watch := (sc_strategy s = strategy_latency \<and> sc_latency s \<noteq> None)\<rparr>"

definition set_strategy :: "scheduler \<Rightarrow> string \<Rightarrow> scheduler" where
  "set_strategy s strategy = publish_latency (s\<lparr>sc_strategy := strategy\<rparr>)"

definition set_latency :: "scheduler \<Rightarrow> latency_table option \<Rightarrow> scheduler" where
  "set_latency s t = publish_latency (s\<lparr>sc_latency := t\<rparr>)"

definition new_scheduler :: "adapter list \<Rightarrow> bool \<Rightarrow> health_table option \<Rightarrow> scheduler" where
  "new_scheduler adapters weighted shared =
     \<lparr>sc_adapters = adapters, sc_strategy = '''', sc_performance = None, sc_udp_performance = None,
      sc_latency = None, sc_latency_watch = False, sc_weighted = weighted, sc_next = 0,
      sc_current = (\<lambda>_. 0),
      sc_health = (case shared of Some h \<Rightarrow> h | None \<Rightarrow> new_health_table adapters)\<rparr>"

section \<open>Selection\<close>

definition effective_weight :: "adapter \<Rightarrow> int" where
  "effective_weight a = (if weight a \<le> 0 then 1 else weight a)"

text \<open>The loop of \<open>selectWeighted\<close>: credits so far, the sum of the weights, the best entry.\<close>

fun weigh_loop :: "adapter list \<Rightarrow> (string \<Rightarrow> int) \<Rightarrow> int \<Rightarrow> adapter \<Rightarrow> (string \<Rightarrow> int) \<times> int \<times> adapter" where
  "weigh_loop [] cw tot selected = (cw, tot, selected)"
| "weigh_loop (a # as) cw tot selected =
     (let w = effective_weight a; cw' = cw(name a := cw (name a) + w)
      in weigh_loop as cw' (tot + w) (if cw' (name a) > cw' (name selected) then a else selected))"

definition select_weighted :: "(string \<Rightarrow> int) \<Rightarrow> adapter list \<Rightarrow> adapter \<times> (string \<Rightarrow> int)" where
  "select_weighted cw cs =
     (let (cw', tot, selected) = weigh_loop cs cw 0 (hd cs)
      in (selected, cw'(name selected := cw' (name selected) - tot)))"

definition uses_latency :: "scheduler \<Rightarrow> bool" where
  "uses_latency s = (sc_strategy s = strategy_latency \<and> sc_latency s \<noteq> None)"

definition latency_pick :: "scheduler \<Rightarrow> time \<Rightarrow> adapter list \<Rightarrow> string \<Rightarrow> adapter \<times> scheduler" where
  "latency_pick s now cs target =
     (let (a, t) = lt_select (the (sc_latency s)) now cs target
      in (a, s\<lparr>sc_latency := Some t\<rparr>))"

definition select_locked :: "scheduler \<Rightarrow> time \<Rightarrow> string set \<Rightarrow> string \<Rightarrow> adapter option \<times> scheduler" where
  "select_locked s0 now excluded domain =
     (let (cs, h) = candidates (sc_health s0) now (sc_adapters s0) excluded domain;
          s = s0\<lparr>sc_health := h\<rparr>
      in if cs = [] then (None, s)
         else if length cs = 1 then (Some (hd cs), s)
         else if uses_latency s then (let (a, s') = latency_pick s now cs '''' in (Some a, s'))
         else if sc_weighted s
         then (let (a, cw) = select_weighted (sc_current s) cs in (Some a, s\<lparr>sc_current := cw\<rparr>))
         else (Some (cs ! (sc_next s mod length cs)), s\<lparr>sc_next := (sc_next s + 1) mod length cs\<rparr>))"

definition select_for_domain :: "scheduler \<Rightarrow> time \<Rightarrow> string set \<Rightarrow> string \<Rightarrow> adapter option \<times> scheduler" where
  "select_for_domain s now excluded domain = select_locked s now excluded domain"

definition sched_select :: "scheduler \<Rightarrow> time \<Rightarrow> string set \<Rightarrow> adapter option \<times> scheduler" where
  "sched_select s now excluded = select_for_domain s now excluded ''''"

definition mark_failure :: "scheduler \<Rightarrow> time \<Rightarrow> string \<Rightarrow> scheduler" where
  "mark_failure s now n = s\<lparr>sc_health := record_local_failure (sc_health s) now n\<rparr>"

definition mark_success :: "scheduler \<Rightarrow> time \<Rightarrow> string \<Rightarrow> string option \<Rightarrow> scheduler" where
  "mark_success s now n domain =
     s\<lparr>sc_health := record_success (sc_health s) now n (case domain of None \<Rightarrow> '''' | Some d \<Rightarrow> d)\<rparr>"

definition select_for_target :: "scheduler \<Rightarrow> time \<Rightarrow> string set \<Rightarrow> string \<Rightarrow> adapter option \<times> scheduler" where
  "select_for_target s0 now excluded target =
     (if \<not> uses_latency s0 then select_locked s0 now excluded ''''
      else let (cs, h) = candidates (sc_health s0) now (sc_adapters s0) excluded '''';
               s = s0\<lparr>sc_health := h\<rparr>
           in if cs = [] then (None, s)
              else let (a, s') = latency_pick s now cs target in (Some a, s'))"

section \<open>Acquiring a lease\<close>

text \<open>The result is the adapter, the lease (None for a nil lease) and the new state.\<close>

definition acquire_tcp ::
  "scheduler \<Rightarrow> time \<Rightarrow> string set \<Rightarrow> string \<Rightarrow> string option \<Rightarrow>
   adapter option \<times> nat option \<times> scheduler" where
  "acquire_tcp s0 now excluded domain target =
     (if uses_latency s0 \<and> target \<noteq> None
      then let (cs, h) = candidates (sc_health s0) now (sc_adapters s0) excluded domain;
               s = s0\<lparr>sc_health := h\<rparr>
           in if cs = [] then (None, None, s)
              else let (chosen, s1) = latency_pick s now cs (the target)
                   in (case sc_performance s1 of
                         None \<Rightarrow> (Some chosen, None, s1)
                       | Some p \<Rightarrow>
                           let (a, lease, p') = pf_acquire p now cs False chosen None
                           in (Some a, Some lease, s1\<lparr>sc_performance := Some p'\<rparr>))
      else
        let (fallback, s1) = select_locked s0 now excluded domain in
        case fallback of None \<Rightarrow> (None, None, s1)
        | Some fb \<Rightarrow>
            (case sc_performance s1 of
               None \<Rightarrow> (Some fb, None, s1)
             | Some p \<Rightarrow>
                 let (cs, h) = candidates (sc_health s1) now (sc_adapters s1) excluded domain;
                     s2 = s1\<lparr>sc_health := h\<rparr>
                 in if cs = [] then (None, None, s2)
                    else let (a, lease, p') =
                           pf_acquire p now cs (sc_strategy s2 = strategy_adaptive) fb (Some (sc_adapters s2))
                         in (Some a, Some lease, s2\<lparr>sc_performance := Some p'\<rparr>)))"

definition acquire_udp ::
  "scheduler \<Rightarrow> time \<Rightarrow> string set \<Rightarrow> string \<Rightarrow> adapter option \<times> nat option \<times> scheduler" where
  "acquire_udp s0 now excluded target =
     (let (cs, h) = candidates (sc_health s0) now (sc_adapters s0) excluded '''';
          s = s0\<lparr>sc_health := h\<rparr>
      in if cs = [] then (None, None, s)
         else
           let (fallback, s1) =
                 (if uses_latency s then (let (a, s') = latency_pick s now cs target in (Some a, s'))
                  else select_locked s now excluded '''')
           in case fallback of None \<Rightarrow> (None, None, s1)
              | Some fb \<Rightarrow>
                  (case sc_udp_performance s1 of
                     None \<Rightarrow> (Some fb, None, s1)
                   | Some p \<Rightarrow>
                       let (a, lease, p') =
                         pf_acquire p now cs (sc_strategy s1 = strategy_adaptive) fb (Some (sc_adapters s1))
                       in (Some a, Some lease, s1\<lparr>sc_udp_performance := Some p'\<rparr>)))"

section \<open>Latency recovery\<close>

definition watch_latency :: "scheduler \<Rightarrow> time \<Rightarrow> string \<Rightarrow> scheduler" where
  "watch_latency s now target =
     (if sc_latency_watch s then s\<lparr>sc_latency := map_option (\<lambda>t. lt_watch t now target) (sc_latency s)\<rparr> else s)"

definition watch_latency_addr :: "scheduler \<Rightarrow> time \<Rightarrow> bytes \<Rightarrow> scheduler" where
  "watch_latency_addr s now ip =
     (if sc_latency_watch s then s\<lparr>sc_latency := map_option (\<lambda>t. watch_addr t now ip) (sc_latency s)\<rparr> else s)"

definition latency_failover :: "scheduler \<Rightarrow> time \<Rightarrow> adapter \<Rightarrow> string \<Rightarrow> bool \<times> scheduler" where
  "latency_failover s0 now current target =
     (if \<not> uses_latency s0 then (False, s0)
      else case parse_ip (latency_host target) of None \<Rightarrow> (False, s0)
      | Some ip \<Rightarrow>
          let (cs, h) = candidates (sc_health s0) now (sc_adapters s0) {name current} ''''
          in (list_ex (\<lambda>other. adapter_supports_network other (network_for_ip ''udp'' (Some ip)) \<and>
                 failed_against (the (sc_latency s0)) now current other target) cs,
              s0\<lparr>sc_health := h\<rparr>))"

section \<open>Live configuration\<close>

record scheduling_config =
  cfg_strategy :: string
  cfg_weighted :: bool
  cfg_adapters :: "adapter list"

definition sched_snapshot :: "scheduler \<Rightarrow> scheduling_config" where
  "sched_snapshot s =
     \<lparr>cfg_strategy = sc_strategy s, cfg_weighted = sc_weighted s, cfg_adapters = sc_adapters s\<rparr>"

definition refresh_allocation :: "scheduler \<Rightarrow> scheduling_config \<Rightarrow> perf_table \<Rightarrow> perf_table" where
  "refresh_allocation s c p =
     (if sc_strategy s \<noteq> cfg_strategy c \<or> \<not> alloc_matches (pf_allocation p) (cfg_adapters c)
      then p\<lparr>pf_allocation := no_allocation\<rparr> else p)"

fun add_missing_health :: "health_table \<Rightarrow> adapter list \<Rightarrow> health_table" where
  "add_missing_health h [] = h"
| "add_missing_health h (a # as) =
     add_missing_health
       (if ht_adapters h (name a) = None
        then h\<lparr>ht_adapters := (ht_adapters h)(name a \<mapsto> new_adapter_health)\<rparr> else h) as"

definition sched_update :: "scheduler \<Rightarrow> scheduling_config \<Rightarrow> scheduling_config \<times> scheduler" where
  "sched_update s c =
     (let s1 = s\<lparr>sc_performance := map_option (refresh_allocation s c) (sc_performance s),
                 sc_udp_performance := map_option (refresh_allocation s c) (sc_udp_performance s),
                 sc_health := add_missing_health (sc_health s) (cfg_adapters c)\<rparr>;
          s2 = set_strategy (s1\<lparr>sc_adapters := cfg_adapters c, sc_weighted := cfg_weighted c\<rparr>) (cfg_strategy c)
      in (sched_snapshot s, s2\<lparr>sc_next := 0, sc_current := (\<lambda>_. 0)\<rparr>))"

section \<open>Telemetry\<close>

record scheduling_telemetry =
  tel_strategy :: string
  tel_effective_tcp :: string
  tel_udp_strategy :: string
  tel_state :: string
  tel_udp_state :: string
  tel_decisions :: "string \<Rightarrow> u64 option"
  tel_udp_decisions :: "string \<Rightarrow> u64 option"
  tel_links :: "link_telemetry list"
  tel_udp_links :: "link_telemetry list"
  tel_latency :: "(string \<times> string \<times> string \<times> latency_sample) list"

definition performance_snapshot :: "scheduler \<Rightarrow> time \<Rightarrow> scheduling_telemetry" where
  "performance_snapshot s now =
     (let strategy = (case normalize_strategy (sc_strategy s) (sc_weighted s) of None \<Rightarrow> '''' | Some t \<Rightarrow> t);
          adaptive = (strategy = strategy_adaptive);
          base = \<lparr>tel_strategy = strategy,
                  tel_effective_tcp = (if adaptive then strategy_round_robin else strategy),
                  tel_udp_strategy = (if adaptive then strategy_round_robin else strategy),
                  tel_state = (if adaptive then ''warming-up'' else ''legacy''), tel_udp_state = '''',
                  tel_decisions = (\<lambda>_. None), tel_udp_decisions = (\<lambda>_. None),
                  tel_links = [], tel_udp_links = [], tel_latency = []\<rparr>
      in case (strategy = strategy_latency, sc_latency s) of
           (True, Some t) \<Rightarrow>
             base\<lparr>tel_state := ''estimating'', tel_udp_state := ''estimating'',
                  tel_latency := lt_snapshot t (sc_adapters s), tel_decisions := lt_reasons t\<rparr>
         | _ \<Rightarrow>
             let r1 = (case sc_udp_performance s of None \<Rightarrow> base
                       | Some p \<Rightarrow>
                           let (st, ds, ls) = pf_snapshot p now (sc_adapters s) strategy;
                               r = base\<lparr>tel_udp_state := st, tel_udp_decisions := ds, tel_udp_links := ls\<rparr>
                           in if adaptive \<and> st = ''adapting'' then r\<lparr>tel_udp_strategy := strategy_adaptive\<rparr> else r)
             in case sc_performance s of None \<Rightarrow> r1
                | Some p \<Rightarrow>
                    let (st, ds, ls) = pf_snapshot p now (sc_adapters s) strategy;
                        r = r1\<lparr>tel_state := st, tel_decisions := ds, tel_links := ls\<rparr>
                    in if adaptive \<and> st = ''adapting'' then r\<lparr>tel_effective_tcp := strategy_adaptive\<rparr> else r)"

end
