(* ===== verification/ProxyConfig.thy ===== *)
theory ProxyConfig
  imports Scheduler DnsConfig GoTime
begin

text \<open>
  The engine configuration of \<open>engine/internal/proxy/config.go\<close>: what \<open>normalizeConfig\<close> and
  \<open>normalizeChannels\<close> accept and what they make of it, and \<open>ValidateScheduling\<close> of
  \<open>scheduling.go\<close>. The two pointers to booleans are options; the clock is the argument
  \<open>now\<close>. \<open>normalizeChannels\<close> ends by looking for a missing required channel in map order;
  the model reports the first missing one of the fixed order.
\<close>

record proxy_config =
  pc_steam :: bool
  pc_listen :: string
  pc_socks_port :: int
  pc_http_port :: int
  pc_strategy :: string
  pc_weighted :: bool
  pc_adapters :: "adapter list"
  pc_channels :: "channel list"
  pc_timeout :: duration
  pc_dns :: dns_config
  pc_isolation :: "bool option"
  pc_isolation_expiry :: "bool option"
  pc_quarantines :: "quarantine_seed list"

abbreviation (input) channel_ethernet :: string where "channel_ethernet \<equiv> ''nic_ethernet''"
abbreviation (input) channel_wifi :: string where "channel_wifi \<equiv> ''nic_wifi''"
abbreviation (input) channel_aggregation :: string where "channel_aggregation \<equiv> ''aggregation''"
abbreviation (input) channel_direct :: string where "channel_direct \<equiv> ''direct''"

datatype config_error =
    UnknownStrategy string | NotLoopback | InvalidSocksPort int | InvalidHttpPort int | PortsMixed | PortsEqual
  | PoolWithPorts | NoAdapters | TooManyAdapters | AdapterNameRequired | AdapterIPv4 string | AdapterIndex string
  | AdapterIPv6Index string | AdapterIPv6 string | AdapterIPv6Unusable string | AdapterBinding dns_error
  | DuplicateName string | DuplicateIP string | DuplicateIPv6 string
  | MissingBaseline | ChannelNameRequired | UnsupportedChannel string | DuplicateChannel string
  | ChannelPort string int | DuplicatePort int | ChannelEmpty string | DirectWithAdapters
  | UnknownAdapter string string | RepeatedAdapter string string | MissingChannel string
  | DnsProblem dns_error | WeightRange string

section \<open>One adapter\<close>

definition adapter_dns_binding :: "adapter \<Rightarrow> binding" where
  "adapter_dns_binding a =
     \<lparr>db_name = name a, db_ip = source_ip a, db_index = if_index a, db_ipv6 = source_ipv6 a,
      db_index6 = ipv6_if_index a, db_servers = dns_servers a\<rparr>"

text \<open>The body of the adapter loop up to the duplicate tests.\<close>

definition normalize_adapter :: "adapter \<Rightarrow> config_error + adapter" where
  "normalize_adapter a0 =
     (let n = trim_space (name a0); ip = trim_space (source_ip a0); ipv6 = trim_space (source_ipv6 a0) in
      if n = '''' then Inl AdapterNameRequired
      else if ip \<noteq> '''' \<and> source_v4 ip = None then Inl (AdapterIPv4 n)
      else if if_index a0 < 0 then Inl (AdapterIndex n)
      else if ipv6_if_index a0 < 0 then Inl (AdapterIPv6Index n)
      else if ipv6 \<noteq> '''' \<and> (case parse_ip ipv6 of None \<Rightarrow> True | Some x \<Rightarrow> to4 x \<noteq> None) then Inl (AdapterIPv6 n)
      else if ipv6 \<noteq> '''' \<and> reserved_ip (the (parse_ip ipv6)) then Inl (AdapterIPv6Unusable n)
      else
        let a = a0\<lparr>name := n,
                   source_ip := (if ip = '''' then '''' else the (source_v4 ip)),
                   source_ipv6 := (if ipv6 = '''' then '''' else ip_string (the (parse_ip ipv6))),
                   ipv6_if_index := (if ipv6 \<noteq> '''' \<and> ipv6_if_index a0 = 0 then if_index a0 else ipv6_if_index a0)\<rparr>
        in case normalize_binding (adapter_dns_binding a) of
             Inl e \<Rightarrow> Inl (AdapterBinding e)
           | Inr b \<Rightarrow> Inr (a\<lparr>dns_servers := db_servers b, weight := (if weight a0 \<le> 0 then 1 else weight a0)\<rparr>))"

text \<open>
  The loop over the adapters. The three sets of the code hold the names, the IPv4 and the
  IPv6 source addresses of the adapters accepted so far, which \<open>accepted\<close> lists.
\<close>

fun normalize_adapters :: "adapter list \<Rightarrow> adapter list \<Rightarrow> config_error + adapter list" where
  "normalize_adapters [] accepted = Inr accepted"
| "normalize_adapters (a0 # rest) accepted =
     (case normalize_adapter a0 of Inl e \<Rightarrow> Inl e
      | Inr a \<Rightarrow>
          if name a \<in> set (map name accepted) then Inl (DuplicateName (name a))
          else if source_ip a \<noteq> '''' \<and> source_ip a \<in> set (map source_ip accepted) then Inl (DuplicateIP (source_ip a))
          else if source_ipv6 a \<noteq> '''' \<and> source_ipv6 a \<in> set (map source_ipv6 accepted)
          then Inl (DuplicateIPv6 (source_ipv6 a))
          else normalize_adapters rest (accepted @ [a]))"

section \<open>Channels\<close>

definition required_channels :: "string list" where
  "required_channels = [channel_ethernet, channel_wifi, channel_aggregation]"

fun channel_adapters :: "string \<Rightarrow> string set \<Rightarrow> string list \<Rightarrow> string list \<Rightarrow> config_error + string list" where
  "channel_adapters ch known [] names = Inr names"
| "channel_adapters ch known (raw # raws) names =
     (let n = trim_space raw in
      if n \<notin> known then Inl (UnknownAdapter ch n)
      else if n \<in> set names then Inl (RepeatedAdapter ch n)
      else channel_adapters ch known raws (names @ [n]))"

definition normalize_channel :: "string set \<Rightarrow> channel list \<Rightarrow> channel \<Rightarrow> config_error + channel" where
  "normalize_channel known accepted c =
     (let n = trim_space (ch_name c) in
      if n = '''' then Inl ChannelNameRequired
      else if n \<notin> set required_channels \<and> n \<noteq> channel_direct \<and> (take 4 n \<noteq> ''nic_'' \<or> length n \<le> 4)
      then Inl (UnsupportedChannel n)
      else if n \<in> set (map ch_name accepted) then Inl (DuplicateChannel n)
      else if ch_port c < 0 \<or> ch_port c > 65535 then Inl (ChannelPort n (ch_port c))
      else if ch_port c \<noteq> 0 \<and> ch_port c \<in> set (map ch_port accepted) then Inl (DuplicatePort (ch_port c))
      else if n \<noteq> channel_direct \<and> ch_adapters c = [] then Inl (ChannelEmpty n)
      else if n = channel_direct \<and> ch_adapters c \<noteq> [] then Inl DirectWithAdapters
      else case channel_adapters n known (ch_adapters c) [] of
        Inl e \<Rightarrow> Inl e
      | Inr names \<Rightarrow> Inr (c\<lparr>ch_name := n, ch_adapters := names\<rparr>))"

fun channel_loop :: "string set \<Rightarrow> channel list \<Rightarrow> channel list \<Rightarrow> config_error + channel list" where
  "channel_loop known [] accepted = Inr accepted"
| "channel_loop known (c # cs) accepted =
     (case normalize_channel known accepted c of Inl e \<Rightarrow> Inl e
      | Inr c' \<Rightarrow> channel_loop known cs (accepted @ [c']))"

definition normalize_channels :: "adapter list \<Rightarrow> channel list \<Rightarrow> config_error + channel list" where
  "normalize_channels adapters channels =
     (if channels = [] then Inr []
      else if length channels < 3 then Inl MissingBaseline
      else case channel_loop (set (map name adapters)) channels [] of
        Inl e \<Rightarrow> Inl e
      | Inr cs \<Rightarrow>
          (case find (\<lambda>n. n \<notin> set (map ch_name cs)) required_channels of
             Some n \<Rightarrow> Inl (MissingChannel n)
           | None \<Rightarrow> Inr cs))"

section \<open>The configuration\<close>

text \<open>The tests on the ports, with the error they report.\<close>

definition port_problem :: "proxy_config \<Rightarrow> config_error option" where
  "port_problem c =
     (let s = pc_socks_port c; h = pc_http_port c in
      if s < 0 \<or> s > 65535 then Some (InvalidSocksPort s)
      else if h < 0 \<or> h > 65535 then Some (InvalidHttpPort h)
      else if pc_channels c = [] then
        (if s = 0 \<and> h \<noteq> 0 \<or> h = 0 \<and> s \<noteq> 0 then Some PortsMixed
         else if s \<noteq> 0 \<and> s = h then Some PortsEqual else None)
      else if s \<noteq> 0 \<or> h \<noteq> 0 then Some PoolWithPorts else None)"

definition keep_seed :: "bool \<Rightarrow> string set \<Rightarrow> time \<Rightarrow> quarantine_seed \<Rightarrow> quarantine_seed option" where
  "keep_seed expiry known now s =
     (let a = trim_space (seed_adapter s); d = normalize_domain (seed_domain s);
          t = (if expiry then seed_expires s else add_years_100 now)
      in if a \<notin> known \<or> d = '''' \<or> t \<le> now then None
         else Some \<lparr>seed_adapter = a, seed_domain = d, seed_expires = t\<rparr>)"

definition normalize_config ::
  "(string \<Rightarrow> url option) \<Rightarrow> (string \<Rightarrow> string option) \<Rightarrow> time \<Rightarrow> proxy_config \<Rightarrow> config_error + proxy_config" where
  "normalize_config url_parse to_ascii now c =
     (case normalize_strategy (pc_strategy c) (pc_weighted c) of
        None \<Rightarrow> Inl (UnknownStrategy (pc_strategy c))
      | Some strategy \<Rightarrow>
        let trimmed = trim_space (pc_listen c); listen = (if trimmed = '''' then ''127.0.0.1'' else trimmed) in
        if (case parse_ip listen of None \<Rightarrow> True | Some ip \<Rightarrow> \<not> ip_loopback ip) then Inl NotLoopback
        else case port_problem c of Some e \<Rightarrow> Inl e
        | None \<Rightarrow>
          if pc_adapters c = [] then Inl NoAdapters
          else if length (pc_adapters c) > 64 then Inl TooManyAdapters
          else case normalize_adapters (pc_adapters c) [] of Inl e \<Rightarrow> Inl e
          | Inr adapters \<Rightarrow>
            (case normalize_channels adapters (pc_channels c) of Inl e \<Rightarrow> Inl e
             | Inr channels \<Rightarrow>
               (case normalize_dns_config url_parse to_ascii (pc_dns c) of Inl e \<Rightarrow> Inl (DnsProblem e)
                | Inr dns \<Rightarrow>
                  let expiry = (case pc_isolation_expiry c of None \<Rightarrow> True | Some v \<Rightarrow> v) in
                  Inr \<lparr>pc_steam = pc_steam c, pc_listen = listen, pc_socks_port = pc_socks_port c,
                       pc_http_port = pc_http_port c, pc_strategy = strategy,
                       pc_weighted = (strategy = strategy_weighted), pc_adapters = adapters, pc_channels = channels,
                       pc_timeout = bounded_setting (pc_timeout c) (6 * second) (30 * second), pc_dns = dns,
                       pc_isolation = Some (case pc_isolation c of None \<Rightarrow> True | Some v \<Rightarrow> v),
                       pc_isolation_expiry = Some expiry,
                       pc_quarantines = List.map_filter (keep_seed expiry (set (map name adapters)) now)
                                          (pc_quarantines c)\<rparr>)))"

section \<open>Live scheduling changes\<close>

definition scheduling_as_config :: "adapter list \<Rightarrow> proxy_config" where
  "scheduling_as_config adapters =
     \<lparr>pc_steam = False, pc_listen = '''', pc_socks_port = 0, pc_http_port = 0, pc_strategy = '''',
      pc_weighted = False, pc_adapters = adapters, pc_channels = [], pc_timeout = 0,
      pc_dns = \<lparr>dc_policy = '''', dc_legacy = [], dc_doh = [], dc_dot = [], dc_cache_ttl = 0, dc_query_timeout = 0,
                dc_max_cache = 0, dc_failure_threshold = 0\<rparr>,
      pc_isolation = None, pc_isolation_expiry = None, pc_quarantines = []\<rparr>"

definition validate_scheduling ::
  "(string \<Rightarrow> url option) \<Rightarrow> (string \<Rightarrow> string option) \<Rightarrow> time \<Rightarrow> scheduling_config \<Rightarrow> config_error + scheduling_config" where
  "validate_scheduling url_parse to_ascii now c =
     (case normalize_strategy (cfg_strategy c) (cfg_weighted c) of
        None \<Rightarrow> Inl (UnknownStrategy (cfg_strategy c))
      | Some strategy \<Rightarrow>
          (case find (\<lambda>a. weight a < 1 \<or> weight a > 100) (cfg_adapters c) of
             Some a \<Rightarrow> Inl (WeightRange (name a))
           | None \<Rightarrow>
               (case normalize_config url_parse to_ascii now (scheduling_as_config (cfg_adapters c)) of
                  Inl e \<Rightarrow> Inl e
                | Inr n \<Rightarrow> Inr \<lparr>cfg_strategy = strategy, cfg_weighted = (strategy = strategy_weighted),
                                 cfg_adapters = pc_adapters n\<rparr>)))"

end
