(* ===== verification/ProxyConfigFacts.thy ===== *)
theory ProxyConfigFacts
  imports ProxyConfig DnsConfigFacts
begin

text \<open>
  What an accepted engine configuration satisfies (\<open>config_ok\<close>), and that every channel of
  it resolves to exactly the adapters it names.
\<close>

section \<open>Adapters\<close>

definition adapter_valid :: "adapter \<Rightarrow> bool" where
  "adapter_valid a \<longleftrightarrow> name a \<noteq> '''' \<and> (source_ip a \<noteq> '''' \<or> source_ipv6 a \<noteq> '''') \<and>
     0 \<le> if_index a \<and> 0 \<le> ipv6_if_index a \<and> 1 \<le> weight a \<and>
     (source_ip a \<noteq> '''' \<longrightarrow> (\<exists>v4. length v4 = 4 \<and> source_ip a = format_ipv4 v4 \<and>
        \<not> ip_unspecified (v4_prefix @ v4) \<and> \<not> ip_multicast (v4_prefix @ v4))) \<and>
     (source_ipv6 a \<noteq> '''' \<longrightarrow> (\<exists>v6. length v6 = 16 \<and> source_ipv6 a = format_ipv6 v6 \<and> to4 v6 = None \<and> \<not> reserved_ip v6))"

definition adapters_valid :: "adapter list \<Rightarrow> bool" where
  "adapters_valid as \<longleftrightarrow> (\<forall>a \<in> set as. adapter_valid a) \<and> distinct (map name as) \<and>
     distinct (filter (\<lambda>x. x \<noteq> '''') (map source_ip as)) \<and> distinct (filter (\<lambda>x. x \<noteq> '''') (map source_ipv6 as))"

lemma normalize_adapter_ok:
  assumes "normalize_adapter a0 = Inr a"
  shows "adapter_valid a \<and> (0 < weight a0 \<longrightarrow> weight a = weight a0) \<and> name a = trim_space (name a0)"
proof -
  define ip where "ip = trim_space (source_ip a0)"
  define ipv6 where "ipv6 = trim_space (source_ipv6 a0)"
  define a1 where "a1 = a0\<lparr>name := trim_space (name a0),
                   source_ip := (if ip = '''' then '''' else the (source_v4 ip)),
                   source_ipv6 := (if ipv6 = '''' then '''' else ip_string (the (parse_ip ipv6))),
                   ipv6_if_index := (if ipv6 \<noteq> '''' \<and> ipv6_if_index a0 = 0 then if_index a0 else ipv6_if_index a0)\<rparr>"
  obtain b where o: "trim_space (name a0) \<noteq> ''''" "ip \<noteq> '''' \<longrightarrow> source_v4 ip \<noteq> None" "0 \<le> if_index a0" "0 \<le> ipv6_if_index a0"
    "ipv6 \<noteq> '''' \<longrightarrow> (\<exists>x. parse_ip ipv6 = Some x \<and> to4 x = None \<and> \<not> reserved_ip x)"
    "normalize_binding (adapter_dns_binding a1) = Inr b"
    "a = a1\<lparr>dns_servers := db_servers b, weight := (if weight a0 \<le> 0 then 1 else weight a0)\<rparr>"
    using assms[unfolded normalize_adapter_def Let_def, folded ip_def ipv6_def, folded a1_def]
    by (simp split: if_split_asm sum.split_asm option.split_asm) blast+
  have src: "source_ip a1 \<noteq> '''' \<or> source_ipv6 a1 \<noteq> ''''"
    using normalize_binding_facts[OF o(6)] by (auto simp: adapter_dns_binding_def)
  have v4: "source_ip a1 \<noteq> '''' \<longrightarrow> (\<exists>v4. length v4 = 4 \<and> source_ip a1 = format_ipv4 v4 \<and>
        \<not> ip_unspecified (v4_prefix @ v4) \<and> \<not> ip_multicast (v4_prefix @ v4))"
    using o(2) source_v4_form by (auto simp: a1_def)
  have v6: "source_ipv6 a1 \<noteq> '''' \<longrightarrow> (\<exists>v6. length v6 = 16 \<and> source_ipv6 a1 = format_ipv6 v6 \<and> to4 v6 = None \<and> \<not> reserved_ip v6)"
    using o(5) parse_ip_length by (fastforce simp: a1_def ip_string_def)
  show ?thesis using o(1,3,4) src v4 v6 unfolding o(7) adapter_valid_def by (simp add: a1_def)
qed

lemma normalize_adapters_ok:
  "normalize_adapters rest accepted = Inr out \<Longrightarrow> adapters_valid accepted \<Longrightarrow>
     adapters_valid out \<and> length out = length accepted + length rest \<and>
     (\<forall>a \<in> set out. a \<in> set accepted \<or> (\<exists>a0 \<in> set rest. normalize_adapter a0 = Inr a))"
proof (induction rest arbitrary: accepted)
  case (Cons a0 rest)
  then obtain a where a: "normalize_adapter a0 = Inr a" by (cases "normalize_adapter a0") auto
  have n: "name a \<notin> set (map name accepted)" "source_ip a = '''' \<or> source_ip a \<notin> set (map source_ip accepted)"
    "source_ipv6 a = '''' \<or> source_ipv6 a \<notin> set (map source_ipv6 accepted)"
    "normalize_adapters rest (accepted @ [a]) = Inr out"
    using Cons.prems(1) a by (auto split: if_splits)
  have "adapters_valid (accepted @ [a])"
    using Cons.prems(2) normalize_adapter_ok[OF a] n(1-3) by (auto simp: adapters_valid_def)
  from Cons.IH[OF n(4) this] show ?case using a by auto
qed simp

section \<open>Channels\<close>

definition channel_valid :: "string set \<Rightarrow> channel \<Rightarrow> bool" where
  "channel_valid known c \<longleftrightarrow> ch_name c \<noteq> '''' \<and> 0 \<le> ch_port c \<and> ch_port c \<le> 65535 \<and>
     set (ch_adapters c) \<subseteq> known \<and> distinct (ch_adapters c) \<and> (ch_adapters c = [] \<longleftrightarrow> ch_name c = channel_direct)"

definition channels_valid :: "string set \<Rightarrow> channel list \<Rightarrow> bool" where
  "channels_valid known cs \<longleftrightarrow> (\<forall>c \<in> set cs. channel_valid known c) \<and> distinct (map ch_name cs) \<and>
     distinct (filter (\<lambda>x. x \<noteq> 0) (map ch_port cs))"

lemma channel_adapters_ok:
  "channel_adapters ch known raws names = Inr out \<Longrightarrow> distinct names \<Longrightarrow> set names \<subseteq> known \<Longrightarrow>
     distinct out \<and> set out \<subseteq> known \<and> length out = length names + length raws"
proof (induction raws arbitrary: names)
  case (Cons raw raws)
  then have "channel_adapters ch known raws (names @ [trim_space raw]) = Inr out"
    "trim_space raw \<in> known" "trim_space raw \<notin> set names"
    by (auto simp: Let_def split: if_splits)
  then show ?case using Cons.IH[of "names @ [trim_space raw]"] Cons.prems by auto
qed simp

lemma normalize_channel_ok:
  assumes "normalize_channel known accepted c = Inr c'"
  shows "channel_valid known c' \<and> ch_name c' \<notin> set (map ch_name accepted) \<and>
    (ch_port c' \<noteq> 0 \<longrightarrow> ch_port c' \<notin> set (map ch_port accepted))"
proof -
  obtain names where o: "trim_space (ch_name c) \<noteq> ''''" "trim_space (ch_name c) \<notin> set (map ch_name accepted)"
    "0 \<le> ch_port c" "ch_port c \<le> 65535" "ch_port c \<noteq> 0 \<longrightarrow> ch_port c \<notin> set (map ch_port accepted)"
    "ch_adapters c = [] \<longleftrightarrow> trim_space (ch_name c) = channel_direct"
    "channel_adapters (trim_space (ch_name c)) known (ch_adapters c) [] = Inr names"
    "c' = c\<lparr>ch_name := trim_space (ch_name c), ch_adapters := names\<rparr>"
    using assms[unfolded normalize_channel_def Let_def]
    by (simp split: if_split_asm sum.split_asm) blast+
  have "names = [] \<longleftrightarrow> ch_adapters c = []"
    using channel_adapters_ok[OF o(7)] by auto
  then show ?thesis using o channel_adapters_ok[OF o(7)] by (auto simp: channel_valid_def)
qed

lemma channel_loop_ok:
  "channel_loop known cs accepted = Inr out \<Longrightarrow> channels_valid known accepted \<Longrightarrow>
     channels_valid known out \<and> length out = length accepted + length cs"
proof (induction cs arbitrary: accepted)
  case (Cons c cs)
  then obtain c' where c: "normalize_channel known accepted c = Inr c'" "channel_loop known cs (accepted @ [c']) = Inr out"
    by (cases "normalize_channel known accepted c") auto
  have "channels_valid known (accepted @ [c'])"
    using Cons.prems(2) normalize_channel_ok[OF c(1)] by (auto simp: channels_valid_def)
  from Cons.IH[OF c(2) this] show ?case by simp
qed simp

lemma normalize_channels_ok:
  assumes "normalize_channels as channels = Inr cs"
  shows "channels_valid (set (map name as)) cs \<and> (cs = [] \<longleftrightarrow> channels = []) \<and>
    (cs \<noteq> [] \<longrightarrow> set required_channels \<subseteq> set (map ch_name cs))"
proof (cases "channels = []")
  case False
  then have l: "channel_loop (set (map name as)) channels [] = Inr cs"
    "find (\<lambda>n. n \<notin> set (map ch_name cs)) required_channels = None"
    using assms by (auto simp: normalize_channels_def split: if_splits sum.splits option.splits)
  have "channels_valid (set (map name as)) []" by (simp add: channels_valid_def)
  from channel_loop_ok[OF l(1) this] False l(2) show ?thesis by (auto simp: find_None_iff)
qed (use assms in \<open>simp add: normalize_channels_def channels_valid_def\<close>)

section \<open>The configuration\<close>

definition config_ok :: "time \<Rightarrow> proxy_config \<Rightarrow> bool" where
  "config_ok now c \<longleftrightarrow>
     pc_adapters c \<noteq> [] \<and> length (pc_adapters c) \<le> 64 \<and> adapters_valid (pc_adapters c) \<and>
     channels_valid (set (map name (pc_adapters c))) (pc_channels c) \<and>
     (pc_channels c \<noteq> [] \<longrightarrow> set required_channels \<subseteq> set (map ch_name (pc_channels c)) \<and>
        pc_socks_port c = 0 \<and> pc_http_port c = 0) \<and>
     (pc_channels c = [] \<longrightarrow> (pc_socks_port c = 0 \<longleftrightarrow> pc_http_port c = 0) \<and>
        (pc_socks_port c \<noteq> 0 \<longrightarrow> pc_socks_port c \<noteq> pc_http_port c)) \<and>
     pc_socks_port c \<in> {0 .. 65535} \<and> pc_http_port c \<in> {0 .. 65535} \<and>
     (\<exists>ip. parse_ip (pc_listen c) = Some ip \<and> ip_loopback ip) \<and>
     normalize_strategy (pc_strategy c) (pc_weighted c) = Some (pc_strategy c) \<and>
     pc_weighted c = (pc_strategy c = strategy_weighted) \<and> pc_timeout c \<in> {1 .. 30 * second} \<and>
     (\<forall>s \<in> set (pc_quarantines c). seed_adapter s \<in> set (map name (pc_adapters c)) \<and> seed_domain s \<noteq> '''' \<and> now < seed_expires s)"

lemma normalize_config_fields:
  assumes "normalize_config url_parse to_ascii now c = Inr c'"
  shows "\<exists>expiry. normalize_strategy (pc_strategy c) (pc_weighted c) = Some (pc_strategy c') \<and>
    pc_weighted c' = (pc_strategy c' = strategy_weighted) \<and>
    (\<exists>ip. parse_ip (pc_listen c') = Some ip \<and> ip_loopback ip) \<and> port_problem c = None \<and>
    pc_adapters c \<noteq> [] \<and> length (pc_adapters c) \<le> 64 \<and> normalize_adapters (pc_adapters c) [] = Inr (pc_adapters c') \<and>
    normalize_channels (pc_adapters c') (pc_channels c) = Inr (pc_channels c') \<and>
    normalize_dns_config url_parse to_ascii (pc_dns c) = Inr (pc_dns c') \<and>
    pc_socks_port c' = pc_socks_port c \<and> pc_http_port c' = pc_http_port c \<and>
    pc_timeout c' = bounded_setting (pc_timeout c) (6 * second) (30 * second) \<and>
    pc_quarantines c' = List.map_filter (keep_seed expiry (set (map name (pc_adapters c'))) now) (pc_quarantines c)"
  using assms unfolding normalize_config_def Let_def
  by (auto split: option.splits sum.splits if_splits)

lemma normalize_strategy_idem:
  "normalize_strategy s w = Some t \<Longrightarrow> normalize_strategy t w' = Some t"
  by (auto simp: normalize_strategy_def split: if_splits)

lemma kept_seeds:
  "s \<in> set (List.map_filter (keep_seed expiry known now) xs) \<Longrightarrow>
     seed_adapter s \<in> known \<and> seed_domain s \<noteq> '''' \<and> now < seed_expires s"
  by (auto simp: List.map_filter_def keep_seed_def Let_def split: if_splits)

lemma port_problem_none:
  "port_problem c = None \<Longrightarrow> pc_socks_port c \<in> {0 .. 65535} \<and> pc_http_port c \<in> {0 .. 65535} \<and>
     (pc_channels c \<noteq> [] \<longrightarrow> pc_socks_port c = 0 \<and> pc_http_port c = 0) \<and>
     (pc_channels c = [] \<longrightarrow> (pc_socks_port c = 0 \<longleftrightarrow> pc_http_port c = 0) \<and>
        (pc_socks_port c \<noteq> 0 \<longrightarrow> pc_socks_port c \<noteq> pc_http_port c))"
  by (auto simp: port_problem_def Let_def split: if_split_asm)

text \<open> C12. An accepted engine configuration is well formed (\<open>config_ok\<close>): one to 64 adapters with distinct names and distinct source addresses, each with a source address in canonical text, non-negative indexes and a positive weight; either no channels and a consistent pair of ports, or a channel pool with the required channels, distinct names and ports, and only known adapters in it; a loopback listener; a known strategy; a bounded timeout; and only quarantines of known adapters that are still to run. \<close>

theorem normalized_config_ok:
  assumes "normalize_config url_parse to_ascii now c = Inr c'"
  shows "config_ok now c'"
proof -
  obtain expiry where f: "normalize_strategy (pc_strategy c) (pc_weighted c) = Some (pc_strategy c')"
    "pc_weighted c' = (pc_strategy c' = strategy_weighted)" "\<exists>ip. parse_ip (pc_listen c') = Some ip \<and> ip_loopback ip"
    "port_problem c = None" "pc_adapters c \<noteq> []" "length (pc_adapters c) \<le> 64"
    "normalize_adapters (pc_adapters c) [] = Inr (pc_adapters c')"
    "normalize_channels (pc_adapters c') (pc_channels c) = Inr (pc_channels c')"
    "pc_socks_port c' = pc_socks_port c" "pc_http_port c' = pc_http_port c"
    "pc_timeout c' = bounded_setting (pc_timeout c) (6 * second) (30 * second)"
    "pc_quarantines c' = List.map_filter (keep_seed expiry (set (map name (pc_adapters c'))) now) (pc_quarantines c)"
    using normalize_config_fields[OF assms] by blast
  have a: "adapters_valid (pc_adapters c')" "length (pc_adapters c') = length (pc_adapters c)"
    using normalize_adapters_ok[OF f(7)] by (simp_all add: adapters_valid_def)
  have t: "pc_timeout c' \<in> {1 .. 30 * second}" using f(11) by (simp add: bounded_setting_def)
  have p: "pc_socks_port c' \<in> {0 .. 65535}" "pc_http_port c' \<in> {0 .. 65535}"
    "pc_channels c' \<noteq> [] \<longrightarrow> pc_socks_port c' = 0 \<and> pc_http_port c' = 0"
    "pc_channels c' = [] \<longrightarrow> (pc_socks_port c' = 0 \<longleftrightarrow> pc_http_port c' = 0) \<and>
        (pc_socks_port c' \<noteq> 0 \<longrightarrow> pc_socks_port c' \<noteq> pc_http_port c')"
    using port_problem_none[OF f(4)] normalize_channels_ok[OF f(8)] unfolding f(9,10) by blast+
  have s: "\<forall>s \<in> set (pc_quarantines c'). seed_adapter s \<in> set (map name (pc_adapters c')) \<and> seed_domain s \<noteq> '''' \<and> now < seed_expires s"
    using kept_seeds unfolding f(12) by blast
  have ch: "channels_valid (set (map name (pc_adapters c'))) (pc_channels c')"
    "pc_channels c' \<noteq> [] \<longrightarrow> set required_channels \<subseteq> set (map ch_name (pc_channels c'))"
    using normalize_channels_ok[OF f(8)] by blast+
  have n: "pc_adapters c' \<noteq> []" "length (pc_adapters c') \<le> 64" using a(2) f(5,6) by auto
  show ?thesis
    unfolding config_ok_def using n a(1) ch p f(2,3) normalize_strategy_idem[OF f(1)] t s by blast
qed

text \<open>Every channel of an accepted configuration resolves: the adapters selected for a channel are exactly the ones it names, one each, so every channel other than the direct one has at least one adapter to schedule. \<close>

theorem channels_resolve:
  assumes "normalize_config url_parse to_ascii now c = Inr c'" and "ch \<in> set (pc_channels c')"
  shows "set (map name (adapters_for_channel (pc_adapters c') ch)) = set (ch_adapters ch) \<and>
    length (adapters_for_channel (pc_adapters c') ch) = length (ch_adapters ch) \<and>
    (ch_name ch \<noteq> ''direct'' \<longrightarrow> adapters_for_channel (pc_adapters c') ch \<noteq> [])"
proof -
  obtain expiry where f: "normalize_adapters (pc_adapters c) [] = Inr (pc_adapters c')"
    "normalize_channels (pc_adapters c') (pc_channels c) = Inr (pc_channels c')"
    using normalize_config_fields[OF assms(1)] by blast
  have a: "distinct (map name (pc_adapters c'))"
    using normalize_adapters_ok[OF f(1)] by (simp add: adapters_valid_def)
  have v: "set (ch_adapters ch) \<subseteq> set (map name (pc_adapters c'))" "distinct (ch_adapters ch)"
    "ch_adapters ch = [] \<longleftrightarrow> ch_name ch = ''direct''"
    using normalize_channels_ok[OF f(2)] assms(2) by (auto simp: channels_valid_def channel_valid_def)
  let ?xs = "adapters_for_channel (pc_adapters c') ch"
  have s: "set (map name ?xs) = set (ch_adapters ch)" using v(1) by (auto simp: adapters_for_channel_def)
  have "distinct (map name ?xs)" using a by (simp add: adapters_for_channel_def distinct_map_filter)
  then have l: "length ?xs = length (ch_adapters ch)"
    using s v(2) distinct_card by (metis length_map)
  show ?thesis using s l v(3) by auto
qed

text \<open>A validated live update keeps the weights and its adapters' names are distinct.\<close>

lemma validated_scheduling_ok:
  assumes "validate_scheduling url_parse to_ascii now c = Inr c'"
  shows "adapters_valid (cfg_adapters c') \<and> (\<forall>a \<in> set (cfg_adapters c'). 1 \<le> weight a \<and> weight a \<le> 100) \<and>
    cfg_adapters c' \<noteq> [] \<and> length (cfg_adapters c') \<le> 64 \<and> normalize_strategy (cfg_strategy c') (cfg_weighted c') = Some (cfg_strategy c') \<and>
    cfg_weighted c' = (cfg_strategy c' = strategy_weighted)"
proof -
  obtain strategy n where s: "normalize_strategy (cfg_strategy c) (cfg_weighted c) = Some strategy"
    "find (\<lambda>a. weight a < 1 \<or> weight a > 100) (cfg_adapters c) = None"
    "normalize_config url_parse to_ascii now (scheduling_as_config (cfg_adapters c)) = Inr n"
    "c' = \<lparr>cfg_strategy = strategy, cfg_weighted = (strategy = strategy_weighted), cfg_adapters = pc_adapters n\<rparr>"
    using assms by (auto simp: validate_scheduling_def split: option.splits sum.splits)
  have f: "normalize_adapters (cfg_adapters c) [] = Inr (pc_adapters n)" "cfg_adapters c \<noteq> []" "length (cfg_adapters c) \<le> 64"
    using normalize_config_fields[OF s(3)] by (auto simp: scheduling_as_config_def)
  have a: "adapters_valid (pc_adapters n)" "length (pc_adapters n) = length (cfg_adapters c)"
    "\<forall>a \<in> set (pc_adapters n). \<exists>a0 \<in> set (cfg_adapters c). normalize_adapter a0 = Inr a"
    using normalize_adapters_ok[OF f(1)] by (auto simp: adapters_valid_def)
  have w: "1 \<le> weight a \<and> weight a \<le> 100" if a_in: "a \<in> set (pc_adapters n)" for a
  proof -
    obtain a0 where a0: "a0 \<in> set (cfg_adapters c)" "normalize_adapter a0 = Inr a" using a(3) a_in by blast
    have "1 \<le> weight a0 \<and> weight a0 \<le> 100" using s(2) a0(1) by (auto simp: find_None_iff)
    then show ?thesis using normalize_adapter_ok[OF a0(2)] by simp
  qed
  have "pc_adapters n \<noteq> []" using a(2) f(2) by auto
  then show ?thesis using a(1,2) f(3) w normalize_strategy_idem[OF s(1)] by (simp add: s(4))
qed


section \<open>A concrete configuration\<close>

definition office_adapter :: "string \<Rightarrow> string \<Rightarrow> int \<Rightarrow> adapter" where
  "office_adapter n ip i =
     \<lparr>name = n, source_ip = ip, if_index = i, source_ipv6 = '''', ipv6_if_index = 0, weight = 0, dns_servers = []\<rparr>"

definition office_config :: proxy_config where
  "office_config = (scheduling_as_config [office_adapter '' Ethernet'' ''10.0.0.2'' 3, office_adapter ''Wi-Fi'' ''10.0.1.2'' 4])
     \<lparr>pc_channels := [\<lparr>ch_name = ''nic_ethernet'', ch_port = 7001, ch_adapters = [''Ethernet'']\<rparr>,
                      \<lparr>ch_name = ''nic_wifi'', ch_port = 0, ch_adapters = [''Wi-Fi'']\<rparr>,
                      \<lparr>ch_name = ''aggregation'', ch_port = 0, ch_adapters = [''Ethernet'', ''Wi-Fi'']\<rparr>]\<rparr>"

definition office_result :: "config_error + proxy_config" where
  "office_result = normalize_config (\<lambda>s. None) Some 0 office_config"

lemma office_accepted:
  "case office_result of Inl _ \<Rightarrow> False
   | Inr c \<Rightarrow> map name (pc_adapters c) = [''Ethernet'', ''Wi-Fi''] \<and> length (pc_channels c) = 3 \<and>
       ch_adapters (last (pc_channels c)) = [''Ethernet'', ''Wi-Fi''] \<and> pc_channels c \<noteq> []"
  by code_simp

theorem normalized_config_ok_witness:
  "case office_result of Inl _ \<Rightarrow> False | Inr c \<Rightarrow> config_ok 0 c"
  using normalized_config_ok[of "\<lambda>s. None" Some 0 office_config] office_accepted
  by (simp add: office_result_def split: sum.splits)

theorem channels_resolve_witness:
  "case office_result of Inl _ \<Rightarrow> False
   | Inr c \<Rightarrow> length (adapters_for_channel (pc_adapters c) (last (pc_channels c))) = 2"
  using channels_resolve[of "\<lambda>s. None" Some 0 office_config] office_accepted
  by (simp add: office_result_def split: sum.splits)

end
