(* ===== verification/Nat64.thy ===== *)
theory Nat64
  imports GoNet
begin

text \<open>
  NAT64 address synthesis and prefix discovery of \<open>engine/internal/dns/nat64.go\<close>. A
  prefix (\<open>netip.Prefix\<close>) is an address with a number of bits; an invalid one has more
  bits than its address. Bit lengths here are only the multiples of eight the code goes
  on with, so masking clears whole bytes.
\<close>

record prefix =
  pf_addr :: addr
  pf_bits :: nat

definition prefix_valid :: "prefix \<Rightarrow> bool" where
  "prefix_valid p = (pf_bits p \<le> 8 * length (addr_bytes (pf_addr p)))"

text \<open>\<open>Masked\<close> keeps the first bits of the address; a partial byte keeps its high bits.\<close>

definition mask_byte :: "nat \<Rightarrow> nat \<Rightarrow> u8 \<Rightarrow> u8" where
  "mask_byte bits i b =
     (if 8 * (i + 1) \<le> bits then b
      else if bits \<le> 8 * i then 0
      else push_bit (8 - (bits - 8 * i)) (drop_bit (8 - (bits - 8 * i)) b))"

definition mask_bytes :: "nat \<Rightarrow> bytes \<Rightarrow> bytes" where
  "mask_bytes bits b = map2 (mask_byte bits) [0..<length b] b"

definition prefix_masked :: "prefix \<Rightarrow> prefix" where
  "prefix_masked p =
     p\<lparr>pf_addr := (case pf_addr p of A4 b \<Rightarrow> A4 (mask_bytes (pf_bits p) b)
                    | A6 b z \<Rightarrow> A6 (mask_bytes (pf_bits p) b) z)\<rparr>"

datatype nat64_error = InvalidNat64 | UnsupportedLength | NoPrefix

text \<open>The loop over the four bytes skips the reserved octet 8.\<close>

fun embed_bytes :: "bytes \<Rightarrow> nat \<Rightarrow> bytes \<Rightarrow> bytes" where
  "embed_bytes out position [] = out"
| "embed_bytes out position (b # bs) =
     (let position' = (if position = 8 then position + 1 else position)
      in embed_bytes (out[position' := b]) (position' + 1) bs)"

definition synthesize_nat64 :: "prefix \<Rightarrow> addr \<Rightarrow> nat64_error + addr" where
  "synthesize_nat64 p address =
     (if \<not> prefix_valid p \<or> \<not> addr_is6 (pf_addr p) \<or> addr_is4in6 (pf_addr p) \<or> addr_multicast (pf_addr p)
         \<or> addr_link_local (pf_addr p) \<or> addr_unspecified (pf_addr p) \<or> addr_zone (pf_addr p) \<noteq> ''''
         \<or> p \<noteq> prefix_masked p \<or> \<not> addr_is4 address
      then Inl InvalidNat64
      else if pf_bits p \<notin> {32, 40, 48, 56, 64, 96} then Inl UnsupportedLength
      else Inr (A6 (embed_bytes (addr_bytes (pf_addr p)) (pf_bits p div 8) (addr_bytes address)) ''''))"

definition arpa_addresses :: "addr list" where
  "arpa_addresses = [A4 [192, 0, 0, 170], A4 [192, 0, 0, 171]]"

text \<open>
  The two inner loops: the lengths in the code's order, then the two addresses of
  ipv4only.arpa. When \<open>SynthesizeNAT64\<close> fails, Go's zero address is compared, which is no
  parsed answer.
\<close>

definition embeds :: "prefix \<Rightarrow> addr \<Rightarrow> bool" where
  "embeds p answer = list_ex (\<lambda>v4. synthesize_nat64 p v4 = Inr answer) arpa_addresses"

definition answer_prefix :: "addr \<Rightarrow> prefix option" where
  "answer_prefix answer =
     find (\<lambda>p. embeds p answer)
       (map (\<lambda>bits. prefix_masked \<lparr>pf_addr = answer, pf_bits = bits\<rparr>) [96, 64, 56, 48, 40, 32])"

fun discover_nat64_prefix :: "string list \<Rightarrow> nat64_error + prefix" where
  "discover_nat64_prefix [] = Inl NoPrefix"
| "discover_nat64_prefix (t # ts) =
     (case parse_addr t of
        None \<Rightarrow> discover_nat64_prefix ts
      | Some answer \<Rightarrow>
          if \<not> addr_is6 answer \<or> addr_is4in6 answer \<or> addr_zone answer \<noteq> '''' then discover_nat64_prefix ts
          else case answer_prefix answer of
            Some p \<Rightarrow> Inr p
          | None \<Rightarrow> discover_nat64_prefix ts)"

section \<open>Lemmas\<close>

definition good_prefix :: "prefix \<Rightarrow> bool" where
  "good_prefix p \<longleftrightarrow>
     (\<exists>b. pf_addr p = A6 b '''' \<and> length b = 16) \<and> \<not> addr_is4in6 (pf_addr p) \<and> \<not> addr_multicast (pf_addr p) \<and>
     \<not> addr_link_local (pf_addr p) \<and> \<not> addr_unspecified (pf_addr p) \<and> p = prefix_masked p \<and>
     pf_bits p \<in> {32, 40, 48, 56, 64, 96}"

lemma synthesize_good:
  assumes "good_prefix p"
  shows "synthesize_nat64 p (A4 v) =
         Inr (A6 (embed_bytes (addr_bytes (pf_addr p)) (pf_bits p div 8) v) '''')"
  using assms by (auto simp: good_prefix_def synthesize_nat64_def prefix_valid_def)

lemma length_16: "length b = 16 \<Longrightarrow> \<exists>b0 b1 b2 b3 b4 b5 b6 b7 b8 b9 b10 b11 b12 b13 b14 b15.
   b = [b0, b1, b2, b3, b4, b5, b6, b7, b8, b9, b10, b11, b12, b13, b14, b15]"
  by (auto simp: length_Suc_conv numeral_eq_Suc)

text \<open>Reading the embedded address back: the four bytes after the prefix, octet 8 left out.\<close>

definition embedded_v4 :: "nat \<Rightarrow> bytes \<Rightarrow> bytes" where
  "embedded_v4 bits out =
     take 4 (if bits \<le> 64 then drop (bits div 8) (take 8 out) @ drop 9 out else drop (bits div 8) out)"

lemma mask_byte_multiple:
  "mask_byte (8 * k) i b = (if i < k then b else 0)"
  by (simp add: mask_byte_def)

text \<open>A good prefix has one of six shapes.\<close>

lemma good_prefix_form:
  assumes "good_prefix p"
  shows "\<exists>net. pf_addr p = A6 (net @ replicate (16 - length net) 0) '''' \<and> pf_bits p = 8 * length net \<and>
           length net \<in> {4, 5, 6, 7, 8, 12}"
proof -
  obtain b where b: "pf_addr p = A6 b ''''" "length b = 16" using assms by (auto simp: good_prefix_def)
  have m: "mask_bytes (pf_bits p) b = b"
    using assms b by (cases p) (simp add: good_prefix_def prefix_masked_def)
  obtain k where k: "pf_bits p = 8 * k" "k \<in> {4, 5, 6, 7, 8, 12}"
    using assms by (auto simp: good_prefix_def)
  have z: "b ! i = 0" if "k \<le> i" "i < 16" for i
  proof -
    have "mask_bytes (pf_bits p) b ! i = mask_byte (8 * k) i (b ! i)"
      using that b(2) by (simp add: mask_bytes_def k(1))
    then show ?thesis using that by (simp add: m mask_byte_multiple)
  qed
  have "b = take k b @ replicate (16 - k) 0"
    by (rule nth_equalityI) (use b(2) k(2) z in \<open>auto simp: nth_append\<close>)
  moreover have "length (take k b) = k" using b(2) k(2) by auto
  ultimately show ?thesis using b(1) k by (metis (no_types, lifting))
qed

lemma embed_shapes:
  "embed_bytes [a, b, c, d, 0, 0, 0, 0, 0, 0, 0, 0, 0, 0, 0, 0] 4 [w, x, y, z] =
     [a, b, c, d, w, x, y, z, 0, 0, 0, 0, 0, 0, 0, 0]"
  "embed_bytes [a, b, c, d, e, 0, 0, 0, 0, 0, 0, 0, 0, 0, 0, 0] 5 [w, x, y, z] =
     [a, b, c, d, e, w, x, y, 0, z, 0, 0, 0, 0, 0, 0]"
  "embed_bytes [a, b, c, d, e, f, 0, 0, 0, 0, 0, 0, 0, 0, 0, 0] 6 [w, x, y, z] =
     [a, b, c, d, e, f, w, x, 0, y, z, 0, 0, 0, 0, 0]"
  "embed_bytes [a, b, c, d, e, f, g, 0, 0, 0, 0, 0, 0, 0, 0, 0] 7 [w, x, y, z] =
     [a, b, c, d, e, f, g, w, 0, x, y, z, 0, 0, 0, 0]"
  "embed_bytes [a, b, c, d, e, f, g, h, 0, 0, 0, 0, 0, 0, 0, 0] 8 [w, x, y, z] =
     [a, b, c, d, e, f, g, h, 0, w, x, y, z, 0, 0, 0]"
  "embed_bytes [a, b, c, d, e, f, g, h, i, j, k, l, 0, 0, 0, 0] 12 [w, x, y, z] =
     [a, b, c, d, e, f, g, h, i, j, k, l, w, x, y, z]"
  by (simp_all add: Let_def numeral_eq_Suc)

definition pad16 :: "bytes \<Rightarrow> bytes" where
  "pad16 net = net @ replicate (16 - length net) 0"

lemma network_cases:
  assumes "length net \<in> {4, 5, 6, 7, 8, 12}"
  obtains a b c d where "length net = 4" "net = [a, b, c, d]" "pad16 net = [a, b, c, d, 0, 0, 0, 0, 0, 0, 0, 0, 0, 0, 0, 0]"
  | a b c d e where "length net = 5" "net = [a, b, c, d, e]" "pad16 net = [a, b, c, d, e, 0, 0, 0, 0, 0, 0, 0, 0, 0, 0, 0]"
  | a b c d e f where "length net = 6" "net = [a, b, c, d, e, f]" "pad16 net = [a, b, c, d, e, f, 0, 0, 0, 0, 0, 0, 0, 0, 0, 0]"
  | a b c d e f g where "length net = 7" "net = [a, b, c, d, e, f, g]" "pad16 net = [a, b, c, d, e, f, g, 0, 0, 0, 0, 0, 0, 0, 0, 0]"
  | a b c d e f g h where "length net = 8" "net = [a, b, c, d, e, f, g, h]" "pad16 net = [a, b, c, d, e, f, g, h, 0, 0, 0, 0, 0, 0, 0, 0]"
  | a b c d e f g h i j k l where "length net = 12" "net = [a, b, c, d, e, f, g, h, i, j, k, l]"
      "pad16 net = [a, b, c, d, e, f, g, h, i, j, k, l, 0, 0, 0, 0]"
  using assms by (elim insertE emptyE) (auto simp: length_Suc_conv numeral_eq_Suc pad16_def)

lemma embed_spec:
  assumes "length net \<in> {4, 5, 6, 7, 8, 12}"
  shows "length (embed_bytes (pad16 net) (length net) [w, x, y, z]) = 16 \<and>
    take (length net) (embed_bytes (pad16 net) (length net) [w, x, y, z]) = net \<and>
    embedded_v4 (8 * length net) (embed_bytes (pad16 net) (length net) [w, x, y, z]) = [w, x, y, z]"
  using assms
proof (cases net rule: network_cases)
  case (1 a b c d)
  show ?thesis unfolding 1(1,3) embed_shapes embedded_v4_def by (simp add: 1(2))
next
  case (2 a b c d e)
  show ?thesis unfolding 2(1,3) embed_shapes embedded_v4_def by (simp add: 2(2))
next
  case (3 a b c d e f)
  show ?thesis unfolding 3(1,3) embed_shapes embedded_v4_def by (simp add: 3(2))
next
  case (4 a b c d e f g)
  show ?thesis unfolding 4(1,3) embed_shapes embedded_v4_def by (simp add: 4(2))
next
  case (5 a b c d e f g h)
  show ?thesis unfolding 5(1,3) embed_shapes embedded_v4_def by (simp add: 5(2))
next
  case (6 a b c d e f g h i j k l)
  show ?thesis unfolding 6(1,3) embed_shapes embedded_v4_def by (simp add: 6(2))
qed

text \<open>Synthesis embeds faithfully for every accepted prefix and IPv4 address: it succeeds, the result has sixteen bytes and no zone, it keeps the network bytes of the prefix, and the four bytes around the reserved octet are the IPv4 address, so the address can be read back. \<close>
theorem synthesize_embeds:
  assumes "good_prefix p"
  shows "\<exists>out. synthesize_nat64 p (A4 [w, x, y, z]) = Inr (A6 out '''') \<and> length out = 16 \<and>
    take (pf_bits p div 8) out = take (pf_bits p div 8) (addr_bytes (pf_addr p)) \<and>
    embedded_v4 (pf_bits p) out = [w, x, y, z]"
proof -
  obtain net where net: "pf_addr p = A6 (pad16 net) ''''" "pf_bits p = 8 * length net" "length net \<in> {4, 5, 6, 7, 8, 12}"
    using good_prefix_form[OF assms] by (auto simp: pad16_def)
  show ?thesis
    using net embed_spec[OF net(3), of w x y z] synthesize_good[OF assms, of "[w, x, y, z]"] 
    by (auto simp: pad16_def)
qed

lemma synthesize_needs_good:
  assumes "synthesize_nat64 p v4 = Inr a" "length (addr_bytes (pf_addr p)) = 16"
  shows "good_prefix p"
  using assms by (cases "pf_addr p") (auto simp: synthesize_nat64_def good_prefix_def split: if_splits)

lemma embedded_ipv4only:
  assumes "embeds p (A6 out '''')" "length (addr_bytes (pf_addr p)) = 16"
  shows "good_prefix p \<and> take (pf_bits p div 8) out = take (pf_bits p div 8) (addr_bytes (pf_addr p)) \<and>
    embedded_v4 (pf_bits p) out \<in> {[192, 0, 0, 170], [192, 0, 0, 171]}"
proof -
  obtain d :: u8 where d: "d \<in> {170, 171}" "synthesize_nat64 p (A4 [192, 0, 0, d]) = Inr (A6 out '''')"
    using assms(1) by (auto simp: embeds_def arpa_addresses_def)
  have g: "good_prefix p" by (rule synthesize_needs_good[OF d(2) assms(2)])
  obtain net where net: "pf_addr p = A6 (pad16 net) ''''" "pf_bits p = 8 * length net" "length net \<in> {4, 5, 6, 7, 8, 12}"
    using good_prefix_form[OF g] by (auto simp: pad16_def)
  show ?thesis
    using net embed_spec[OF net(3), of 192 0 0 d] synthesize_good[OF g, of "[192, 0, 0, d]"] d g
    by (auto simp: pad16_def)
qed

abbreviation candidate_prefix :: "bytes \<Rightarrow> nat \<Rightarrow> prefix" where
  "candidate_prefix out bits \<equiv> prefix_masked \<lparr>pf_addr = A6 out '''', pf_bits = bits\<rparr>"

lemma candidate_prefix_simps [simp]:
  "pf_bits (candidate_prefix out bits) = bits"
  "pf_addr (candidate_prefix out bits) = A6 (mask_bytes bits out) ''''"
  "length (mask_bytes bits out) = length out"
  by (simp_all add: prefix_masked_def mask_bytes_def)

lemma discovered_prefix:
  "discover_nat64_prefix ts = Inr p \<Longrightarrow>
     good_prefix p \<and> (\<exists>t \<in> set ts. \<exists>out. parse_addr t = Some (A6 out '''') \<and>
       take (pf_bits p div 8) out = take (pf_bits p div 8) (addr_bytes (pf_addr p)) \<and>
       embedded_v4 (pf_bits p) out \<in> {[192, 0, 0, 170], [192, 0, 0, 171]})"
proof (induction ts)
  case (Cons t ts)
  show ?case
  proof (cases "discover_nat64_prefix ts = Inr p")
    case True then show ?thesis using Cons.IH by auto
  next
    case False
    then obtain answer where a: "parse_addr t = Some answer" "addr_is6 answer" "addr_zone answer = ''''"
      "answer_prefix answer = Some p"
      using Cons.prems by (auto split: option.splits if_splits)
    then obtain out where o: "answer = A6 out ''''" by (cases answer) auto
    obtain bits where b: "p = candidate_prefix out bits" "embeds p (A6 out '''')"
      using a(4) by (auto simp: answer_prefix_def o find_Some_iff split: if_splits)
    have "length out = 16" using a(1) o parse_addr_length by simp
    then show ?thesis using embedded_ipv4only[OF b(2)] b(1) a(1) o by auto
  qed
qed simp

text \<open>Discovery is sound: a prefix it reports is one synthesis accepts, and one of the answers is an IPv6 address inside that prefix which embeds 192.0.0.170 or 192.0.0.171. \<close>

theorem discover_sound:
  "discover_nat64_prefix ts = Inr p \<Longrightarrow>
     good_prefix p \<and> (\<exists>t \<in> set ts. \<exists>out. parse_addr t = Some (A6 out '''') \<and>
       take (pf_bits p div 8) out = take (pf_bits p div 8) (addr_bytes (pf_addr p)) \<and>
       embedded_v4 (pf_bits p) out \<in> {[192, 0, 0, 170], [192, 0, 0, 171]})"
  by (rule discovered_prefix)

lemma candidate_of_synthesized:
  assumes "good_prefix p" "synthesize_nat64 p (A4 [192, 0, 0, d]) = Inr (A6 out '''')"
  shows "candidate_prefix out (pf_bits p) = p"
proof -
  obtain net where net: "pf_addr p = A6 (pad16 net) ''''" "pf_bits p = 8 * length net" "length net \<in> {4, 5, 6, 7, 8, 12}"
    using good_prefix_form[OF assms(1)] by (auto simp: pad16_def)
  have o: "out = embed_bytes (pad16 net) (length net) [192, 0, 0, d]" "length out = 16" "take (length net) out = net"
    using assms(2) embed_spec[OF net(3), of 192 0 0 d] synthesize_good[OF assms(1), of "[192, 0, 0, d]"] net by auto
  have "mask_bytes (8 * length net) out = pad16 net"
  proof (rule nth_equalityI)
    fix i assume "i < length (mask_bytes (8 * length net) out)"
    then have i: "i < 16" using o(2) by simp
    have "mask_bytes (8 * length net) out ! i = mask_byte (8 * length net) i (out ! i)"
      using i o(2) by (simp add: mask_bytes_def)
    also have "\<dots> = pad16 net ! i"
      using i o(3) nth_take[of i "length net" out] by (auto simp: mask_byte_multiple pad16_def nth_append)
    finally show "mask_bytes (8 * length net) out ! i = pad16 net ! i" .
  qed (use o net in \<open>auto simp: pad16_def\<close>)
  then show ?thesis using net by (cases p) (simp add: prefix_masked_def)
qed

text \<open>No longer prefix reads one of the two addresses out of a synthesized answer.\<close>

lemma longer_prefix_no_embed:
  assumes "length net \<in> {4, 5, 6, 7, 8, 12}" "k \<in> {5, 6, 7, 8, 12}" "length net < k" "d \<noteq> 192"
  shows "take 3 (embedded_v4 (8 * k) (embed_bytes (pad16 net) (length net) [192, 0, 0, d])) \<noteq> [192, 0, 0]"
  using assms(1)
proof (cases net rule: network_cases)
  case (1 a b c d)
  show ?thesis using assms(2-) unfolding 1(1,3) embed_shapes embedded_v4_def by auto
next
  case (2 a b c d e)
  show ?thesis using assms(2-) unfolding 2(1,3) embed_shapes embedded_v4_def by auto
next
  case (3 a b c d e f)
  show ?thesis using assms(2-) unfolding 3(1,3) embed_shapes embedded_v4_def by auto
next
  case (4 a b c d e f g)
  show ?thesis using assms(2-) unfolding 4(1,3) embed_shapes embedded_v4_def by auto
next
  case (5 a b c d e f g h)
  show ?thesis using assms(2-) unfolding 5(1,3) embed_shapes embedded_v4_def by auto
next
  case (6 a b c d e f g h i j k l)
  show ?thesis using assms(2-) unfolding 6(1,3) embed_shapes embedded_v4_def by auto
qed

lemma not_4in6_synthesized:
  assumes "good_prefix p" "synthesize_nat64 p (A4 [w, x, y, z]) = Inr (A6 out '''')"
  shows "take 12 out \<noteq> v4_prefix"
proof -
  obtain net where net: "pf_addr p = A6 (pad16 net) ''''" "pf_bits p = 8 * length net" "length net \<in> {4, 5, 6, 7, 8, 12}"
    using good_prefix_form[OF assms(1)] by (auto simp: pad16_def)
  have n: "take 12 (pad16 net) \<noteq> v4_prefix" and u: "pad16 net \<noteq> replicate 16 0"
    using assms(1) net by (auto simp: good_prefix_def addr_unspecified_def)
  have o: "out = embed_bytes (pad16 net) (length net) [w, x, y, z]"
    using assms(2) synthesize_good[OF assms(1), of "[w, x, y, z]"] net by auto
  show ?thesis
    using net(3)
  proof (cases net rule: network_cases)
    case (4 a b c d e f g)
    show ?thesis using u unfolding o 4(1,3) embed_shapes by (auto simp: v4_prefix_def replicate_numeral)
  next
    case (5 a b c d e f g h)
    show ?thesis using u unfolding o 5(1,3) embed_shapes by (auto simp: v4_prefix_def replicate_numeral)
  next
    case (6 a b c d e f g h i j k l)
    show ?thesis using n unfolding o 6(1,3) embed_shapes by simp
  qed (simp_all add: o embed_shapes v4_prefix_def replicate_numeral)
qed

text \<open>What synthesis makes of an IPv4 address under a discovered prefix is an IPv6 address.\<close>

lemma synthesized_v6:
  assumes "good_prefix p" "synthesize_nat64 p (A4 v) = Inr a" "length v = 4"
  shows "to4 (addr_bytes a) = None"
proof -
  obtain w x y z where v: "v = [w, x, y, z]" using assms(3) by (auto simp: length_Suc_conv numeral_eq_Suc)
  obtain out where o: "a = A6 out ''''" "length out = 16"
    using synthesize_embeds[OF assms(1), of w x y z] assms(2) unfolding v by auto
  show ?thesis using not_4in6_synthesized[OF assms(1) assms(2)[unfolded v o(1)]] o by (simp add: to4_def)
qed

text \<open>Discovery inverts synthesis: for every accepted prefix, an answer that parses to the synthesized address of one of the two well-known IPv4 addresses makes discovery return exactly that prefix, of all the lengths it tries. \<close>

theorem discover_round_trip:
  assumes "good_prefix p" "d \<in> {170, 171}" "synthesize_nat64 p (A4 [192, 0, 0, d]) = Inr a" "parse_addr t = Some a"
  shows "discover_nat64_prefix (t # ts) = Inr p"
proof -
  obtain net where net: "pf_addr p = A6 (pad16 net) ''''" "pf_bits p = 8 * length net" "length net \<in> {4, 5, 6, 7, 8, 12}"
    using good_prefix_form[OF assms(1)] by (auto simp: pad16_def)
  define out where "out = embed_bytes (pad16 net) (length net) [192, 0, 0, d]"
  have a: "a = A6 out ''''" using assms(3) synthesize_good[OF assms(1)] net by (simp add: out_def)
  note synth = assms(3)[unfolded a]
  have own: "embeds (candidate_prefix out (8 * length net)) a" "candidate_prefix out (8 * length net) = p"
    using candidate_of_synthesized[OF assms(1) synth] synth assms(2) net(2) a
    by (auto simp: embeds_def arpa_addresses_def)
  have lo: "length out = 16" using assms(4) a parse_addr_length by simp
  have longer: "\<not> embeds (candidate_prefix out (8 * k)) a" if k: "k \<in> {5, 6, 7, 8, 12}" "length net < k" for k
  proof
    assume "embeds (candidate_prefix out (8 * k)) a"
    then have "embedded_v4 (8 * k) out \<in> {[192, 0, 0, 170], [192, 0, 0, 171]}"
      using embedded_ipv4only[of "candidate_prefix out (8 * k)" out] lo by (simp add: a)
    then have "take 3 (embedded_v4 (8 * k) out) = [192, 0, 0]" by auto
    moreover have "d \<noteq> 192" using assms(2) by auto
    ultimately show False using longer_prefix_no_embed[OF net(3) k] by (simp add: out_def)
  qed
  have "answer_prefix a = Some p"
    using net(3) own longer[of 5] longer[of 6] longer[of 7] longer[of 8] longer[of 12]
    by (elim insertE emptyE) (simp_all add: answer_prefix_def a)
  then show ?thesis using assms(4) not_4in6_synthesized[OF assms(1) synth] by (simp add: a)
qed

section \<open>The well-known prefix\<close>

definition well_known :: prefix where
  "well_known = \<lparr>pf_addr = A6 [0, 0x64, 0xFF, 0x9B, 0, 0, 0, 0, 0, 0, 0, 0, 0, 0, 0, 0] '''', pf_bits = 96\<rparr>"

lemma well_known_good: "good_prefix well_known"
  by (simp add: good_prefix_def well_known_def addr_multicast_def addr_link_local_def addr_unspecified_def
      prefix_masked_def mask_bytes_def mask_byte_def v4_prefix_def upt_rec replicate_numeral)

lemma hex_digits: "hex_val CHR ''6'' = Some 6" "hex_val CHR ''4'' = Some 4" "hex_val CHR ''f'' = Some 15"
  "hex_val CHR ''9'' = Some 9" "hex_val CHR ''b'' = Some 11" "hex_val CHR ''c'' = Some 12"
  "hex_val CHR ''0'' = Some 0" "hex_val CHR ''a'' = Some 10" "hex_val CHR '':'' = None"
  by (simp_all add: hex_val_def)

lemma well_known_answer:
  "parse_addr ''64:ff9b::c000:aa'' = Some (A6 [0, 0x64, 0xFF, 0x9B, 0, 0, 0, 0, 0, 0, 0, 0, 192, 0, 0, 170] '''')"
proof -
  have "v6_loop ''64:ff9b::c000:aa'' [] None = Some ([0, 0x64, 0xFF, 0x9B, 192, 0, 0, 170], Some 4, '''')"
    by (simp add: v6_loop.simps is_hex_def hex_digits)
  then show ?thesis by (simp add: parse_addr_def parse_ipv6_def replicate_numeral)
qed

lemma well_known_synthesized:
  "synthesize_nat64 well_known (A4 [192, 0, 0, 170]) = Inr (A6 [0, 0x64, 0xFF, 0x9B, 0, 0, 0, 0, 0, 0, 0, 0, 192, 0, 0, 170] '''')"
  by (simp add: synthesize_good[OF well_known_good]) (simp add: well_known_def)

theorem synthesize_embeds_witness:
  "\<exists>out. synthesize_nat64 well_known (A4 [8, 8, 4, 4]) = Inr (A6 out '''') \<and> take 12 out = take 12 (addr_bytes (pf_addr well_known)) \<and>
     embedded_v4 96 out = [8, 8, 4, 4]"
  using synthesize_embeds[OF well_known_good, of 8 8 4 4] by (auto simp: well_known_def)

theorem discover_round_trip_witness:
  "discover_nat64_prefix [''64:ff9b::c000:aa''] = Inr well_known"
  by (rule discover_round_trip[OF well_known_good _ well_known_synthesized well_known_answer]) simp

lemma well_known_discovered: "discover_nat64_prefix [''64:ff9b::c000:aa''] = Inr well_known"
proof -
  have "answer_prefix (A6 [0, 0x64, 0xFF, 0x9B, 0, 0, 0, 0, 0, 0, 0, 0, 192, 0, 0, 170] '''') = Some well_known"
    using candidate_of_synthesized[OF well_known_good well_known_synthesized] well_known_synthesized
    by (simp add: answer_prefix_def embeds_def arpa_addresses_def well_known_def)
  then show ?thesis by (simp add: well_known_answer v4_prefix_def)
qed

theorem discover_sound_witness:
  "good_prefix well_known \<and> (\<exists>t \<in> set [''64:ff9b::c000:aa'']. \<exists>out. parse_addr t = Some (A6 out '''') \<and>
       take (pf_bits well_known div 8) out = take (pf_bits well_known div 8) (addr_bytes (pf_addr well_known)) \<and>
       embedded_v4 (pf_bits well_known) out \<in> {[192, 0, 0, 170], [192, 0, 0, 171]})"
  by (rule discover_sound[OF well_known_discovered])

end
