(* ===== verification/DualStack.thy ===== *)
theory DualStack
  imports Scheduler Resolver Nat64 ProxyConfig
begin

text \<open>
  One adapter's attempt to reach a target: \<open>dialAdapterTargets\<close> of
  \<open>engine/internal/proxy/dual_stack.go\<close>, with \<open>TranslateIPv4\<close> of \<open>engine/internal/dns/nat64.go\<close>.
  DNS lookups and dials overlap. The function is an event loop: its variables are the record
  \<open>dial_state\<close>, the top of the loop is \<open>settle\<close>, and the arms of its select statement are the
  cases of \<open>dial_event\<close>. A run takes the list of the events with their times; an event that
  cannot happen in the state it meets (an answer nobody waits for, a timer that is not set)
  is passed over, and the list ends where the context of the attempt ends.
  What the resolver answers is in the events, and for the lookup of ipv4only.arpa that
  \<open>TranslateIPv4\<close> makes for an address, in the argument \<open>arpa\<close>.
\<close>

section \<open>Errors\<close>

text \<open>
  What the callers ask of an error: the verdict of \<open>isLocalConnectErrno\<close> on the first
  \<open>syscall.Errno\<close> it wraps, whether it wraps \<open>context.DeadlineExceeded\<close>, and the \<open>Timeout\<close> of
  the first \<open>net.Error\<close> it wraps. \<open>errors.Join\<close> searches its errors in order.
\<close>

record dial_error =
  de_errno :: "bool option"
  de_deadline :: bool
  de_timeout :: "bool option"

fun first_some :: "'a option list \<Rightarrow> 'a option" where
  "first_some [] = None"
| "first_some (None # xs) = first_some xs"
| "first_some (Some x # xs) = Some x"

definition join_errors :: "dial_error list \<Rightarrow> dial_error" where
  "join_errors es =
     \<lparr>de_errno = first_some (map de_errno es), de_deadline = list_ex de_deadline es,
      de_timeout = first_some (map de_timeout es)\<rparr>"

definition plain_error :: dial_error where
  "plain_error = \<lparr>de_errno = None, de_deadline = False, de_timeout = None\<rparr>"

definition is_local_connect_failure :: "dial_error \<Rightarrow> bool" where
  "is_local_connect_failure e = (de_errno e = Some True)"

definition is_connect_timeout :: "dial_error \<Rightarrow> bool" where
  "is_connect_timeout e = (de_deadline e \<or> de_timeout e = Some True)"

section \<open>Addresses\<close>

abbreviation (input) connection_attempt_delay :: duration where "connection_attempt_delay \<equiv> 250 * millisecond"
abbreviation (input) nat64_attempt_delay :: duration where "nat64_attempt_delay \<equiv> 2 * second"
abbreviation (input) max_target_addresses :: nat where "max_target_addresses \<equiv> 8"

definition answer_addresses :: "dns_result \<Rightarrow> string list" where
  "answer_addresses r = (if dr_addresses r = [] then [dr_address r] else dr_addresses r)"

text \<open>\<open>TranslateIPv4\<close>, from the outcome of its lookup; without a resolver that is an error.\<close>

definition translate_ipv4 :: "dial_error + dns_result \<Rightarrow> binding \<Rightarrow> bytes \<Rightarrow> dial_error + bytes" where
  "translate_ipv4 answer b ip =
     (case to4 ip of None \<Rightarrow> Inl plain_error
      | Some v4 \<Rightarrow>
          if db_ipv6 b = '''' then Inl plain_error
          else case answer of Inl e \<Rightarrow> Inl e
          | Inr r \<Rightarrow>
              (case discover_nat64_prefix (answer_addresses r) of Inl _ \<Rightarrow> Inl plain_error
               | Inr p \<Rightarrow> (case synthesize_nat64 p (A4 v4) of Inl _ \<Rightarrow> Inl plain_error | Inr a \<Rightarrow> Inr (addr_bytes a))))"

definition adapter_translate :: "(bytes \<Rightarrow> dial_error + dns_result) \<Rightarrow> adapter \<Rightarrow> bytes \<Rightarrow> dial_error + bytes" where
  "adapter_translate arpa a ip = translate_ipv4 (arpa ip) (adapter_dns_binding a) ip"

text \<open>The addresses of a lookup's answer that may be dialed, the first eight different ones.\<close>

fun address_loop :: "record_type \<Rightarrow> string list \<Rightarrow> bytes list \<Rightarrow> bytes list" where
  "address_loop kind [] acc = acc"
| "address_loop kind (t # ts) acc =
     (case parse_ip t of None \<Rightarrow> address_loop kind ts acc
      | Some ip \<Rightarrow>
          if reserved_ip ip \<or> ip_string ip \<in> set (map ip_string acc) \<or> (kind = RecordA) \<noteq> (to4 ip \<noteq> None)
          then address_loop kind ts acc
          else if length acc + 1 = max_target_addresses then acc @ [ip]
          else address_loop kind ts (acc @ [ip]))"

text \<open>The NAT64 addresses of an answer; a failed translation keeps what was translated before it.\<close>

fun nat64_loop ::
  "(bytes \<Rightarrow> dial_error + bytes) \<Rightarrow> string list \<Rightarrow> bytes list \<Rightarrow> bytes list \<times> dial_error option" where
  "nat64_loop translate [] acc = (acc, None)"
| "nat64_loop translate (t # ts) acc =
     (case parse_ip t of None \<Rightarrow> nat64_loop translate ts acc
      | Some ip \<Rightarrow>
          if to4 ip = None \<or> reserved_ip ip then nat64_loop translate ts acc
          else case translate ip of Inl e \<Rightarrow> (acc, Some e)
          | Inr t6 \<Rightarrow>
              if length acc + 1 = max_target_addresses then (acc @ [t6], None)
              else nat64_loop translate ts (acc @ [t6]))"

datatype dial_lookup = LookupA | LookupAAAA | LookupNat64

text \<open>The batch of a lookup: its addresses and its error, if any.\<close>

definition lookup_batch ::
  "(bytes \<Rightarrow> dial_error + bytes) \<Rightarrow> dial_lookup \<Rightarrow> dial_error + dns_result \<Rightarrow> bytes list \<times> dial_error option" where
  "lookup_batch translate l answer =
     (case answer of Inl e \<Rightarrow> ([], Some e)
      | Inr r \<Rightarrow>
          (if l = LookupNat64
           then (let (ips, failed) = nat64_loop translate (answer_addresses r) []
                 in (ips, if failed = None \<and> ips = [] then Some plain_error else failed))
           else (let ips = address_loop (if l = LookupA then RecordA else RecordAAAA) (answer_addresses r) []
                 in (ips, if ips = [] then Some plain_error else None))))"

section \<open>State\<close>

text \<open>
  \<open>da_pending\<close> are the lookups that run, so the variable \<open>resolving\<close> is its length;
  \<open>da_active\<close> the addresses being dialed, so \<open>active\<close> is its length. \<open>da_request\<close> is None
  without the channel \<open>requestNAT64\<close>, and otherwise says whether the lookup was asked for.
  \<open>da_launched\<close> records every address a dial was started to and \<open>da_offered\<close> every address
  that was ever queued.
\<close>

record dial_state =
  da_adapter :: adapter
  da_pending :: "dial_lookup list"
  da_queue :: "bytes list"
  da_active :: "bytes list"
  da_last :: time
  da_request :: "bool option"
  da_failures :: "dial_error list"
  da_sched :: scheduler
  da_now :: time
  da_launched :: "bytes list"
  da_offered :: "bytes list"

datatype dial_event =
    LookupDone dial_lookup "dial_error + dns_result"
  | DialDone bytes "dial_error option" bool
  | TimerFired
  | ContextDone dial_error

type_synonym dial_result = "dial_error + bytes"

definition connection_budget :: "proxy_config \<Rightarrow> adapter \<Rightarrow> bytes option \<Rightarrow> duration" where
  "connection_budget c a literal =
     pc_timeout c +
     (if literal = None \<or> (Option.bind literal to4 \<noteq> None \<and> source_ip a = '''') then dc_query_timeout (pc_dns c) else 0) +
     (if literal = None \<and> source_ip a = '''' \<and> dns_servers a \<noteq> [] then dc_query_timeout (pc_dns c) + nat64_attempt_delay else 0)"

text \<open>The lookups that are started for a name, NAT64 first.\<close>

definition dial_lookups :: "health_table \<Rightarrow> time \<Rightarrow> adapter \<Rightarrow> dial_lookup list" where
  "dial_lookups h now a =
     (let ready4 = (source_ip a \<noteq> '''' \<and> family_available h now a ''tcp4'');
          ready6 = (source_ipv6 a \<noteq> '''' \<and> family_available h now a ''tcp6'')
      in (if source_ip a = '''' \<and> source_ipv6 a \<noteq> '''' \<and> dns_servers a \<noteq> [] then [LookupNat64] else []) @
         (if source_ip a = '''' \<or> ((ready4 \<or> ready6) \<and> \<not> ready4) then [] else [LookupA]) @
         (if source_ipv6 a = '''' \<or> ((ready4 \<or> ready6) \<and> \<not> ready6) then [] else [LookupAAAA]))"

definition dial_start ::
  "(bytes \<Rightarrow> dial_error + bytes) \<Rightarrow> bool \<Rightarrow> scheduler \<Rightarrow> time \<Rightarrow> adapter \<Rightarrow> bytes option \<Rightarrow> dial_error + dial_state" where
  "dial_start translate resolver s now a literal =
     (let st = \<lparr>da_adapter = a, da_pending = [], da_queue = [], da_active = [], da_last = zero_time,
                da_request = None, da_failures = [], da_sched = s, da_now = now, da_launched = [], da_offered = []\<rparr>
      in case literal of
           Some ip \<Rightarrow>
             if to4 ip \<noteq> None \<and> source_ip a = ''''
             then (case translate ip of Inl e \<Rightarrow> Inl e | Inr t \<Rightarrow> Inr (st\<lparr>da_queue := [t], da_offered := [t]\<rparr>))
             else Inr (st\<lparr>da_queue := [ip], da_offered := [ip]\<rparr>)
         | None \<Rightarrow>
             if \<not> resolver then Inl plain_error
             else let ls = dial_lookups (sc_health s) now a in
                  Inr (st\<lparr>da_pending := ls,
                          da_request := (if LookupNat64 \<in> set ls then Some False else None)\<rparr>))"

section \<open>The loop\<close>

definition dial_finished :: "dial_state \<Rightarrow> bool" where
  "dial_finished st = (da_pending st = [] \<and> da_active st = [] \<and> da_queue st = [])"

definition dial_launch :: "dial_state \<Rightarrow> time \<Rightarrow> dial_state" where
  "dial_launch st now =
     st\<lparr>da_queue := tl (da_queue st), da_active := da_active st @ [hd (da_queue st)], da_last := now,
        da_launched := da_launched st @ [hd (da_queue st)]\<rparr>"

text \<open>The second socket is reserved while another lookup is pending.\<close>

definition may_launch :: "dial_state \<Rightarrow> bool" where
  "may_launch st = (da_queue st \<noteq> [] \<and> length (da_active st) < 2 \<and> (da_active st = [] \<or> da_pending st = []))"

definition settle :: "dial_state \<Rightarrow> dial_state" where
  "settle st =
     (if may_launch st \<and> (da_active st = [] \<or> da_last st + connection_attempt_delay \<le> da_now st)
      then dial_launch st (da_now st) else st)"

definition possible :: "dial_state \<Rightarrow> time \<Rightarrow> dial_event \<Rightarrow> bool" where
  "possible st t ev =
     (da_now st \<le> t \<and>
      (case ev of
         LookupDone l _ \<Rightarrow> l \<in> set (da_pending st)
       | DialDone ip _ _ \<Rightarrow> ip \<in> set (da_active st)
       | TimerFired \<Rightarrow> may_launch st \<and> da_last st + connection_attempt_delay \<le> t
       | ContextDone _ \<Rightarrow> True))"

text \<open>After the select statement: ask for NAT64 once nothing else is left to wait for.\<close>

definition ask_nat64 :: "dial_state \<Rightarrow> dial_state" where
  "ask_nat64 st =
     (if da_request st \<noteq> None \<and> da_active st = [] \<and> da_queue st = [] \<and> length (da_pending st) = 1
      then st\<lparr>da_request := Some True\<rparr> else st)"

definition record_dial :: "dial_state \<Rightarrow> time \<Rightarrow> bytes \<Rightarrow> bool \<Rightarrow> scheduler" where
  "record_dial st t ip ok =
     (da_sched st)\<lparr>sc_health := record_family (sc_health (da_sched st)) t (da_adapter st) (network_for_ip ''tcp'' (Some ip)) ok\<rparr>"

definition dial_handle ::
  "(bytes \<Rightarrow> dial_error + bytes) \<Rightarrow> dial_state \<Rightarrow> time \<Rightarrow> dial_event \<Rightarrow> dial_state \<times> dial_result option" where
  "dial_handle translate st0 t ev =
     (let st = st0\<lparr>da_now := t\<rparr> in
      case ev of
        LookupDone l answer \<Rightarrow>
          (let (ips, err) = lookup_batch translate l answer in
           (ask_nat64 (st\<lparr>da_pending := remove1 l (da_pending st), da_queue := ips @ da_queue st,
                          da_offered := da_offered st @ ips,
                          da_failures := da_failures st @ (case err of None \<Rightarrow> [] | Some e \<Rightarrow> [e])\<rparr>), None))
      | DialDone ip err ended \<Rightarrow>
          (let st1 = st\<lparr>da_active := remove1 ip (da_active st)\<rparr> in
           case err of
             None \<Rightarrow> (st1\<lparr>da_sched := watch_latency (record_dial st1 t ip True) t (ip_string ip)\<rparr>, Some (Inr ip))
           | Some e \<Rightarrow>
               (ask_nat64 (st1\<lparr>da_sched := (if \<not> ended \<and> is_local_connect_failure e then record_dial st1 t ip False
                                            else da_sched st1),
                               da_failures := da_failures st1 @ [e]\<rparr>), None))
      | TimerFired \<Rightarrow> (ask_nat64 (dial_launch st t), None)
      | ContextDone e \<Rightarrow> (st, Some (Inl (join_errors (da_failures st @ [e])))))"

definition no_success :: "dial_state \<Rightarrow> dial_result" where
  "no_success st = Inl (if da_failures st = [] then plain_error else join_errors (da_failures st))"

definition deadline_error :: dial_error where
  "deadline_error = \<lparr>de_errno = None, de_deadline = True, de_timeout = Some True\<rparr>"

fun dial_run :: "(bytes \<Rightarrow> dial_error + bytes) \<Rightarrow> dial_state \<Rightarrow> (time \<times> dial_event) list \<Rightarrow> dial_state \<times> dial_result" where
  "dial_run translate st [] =
     (if dial_finished st then (st, no_success st)
      else (settle st, Inl (join_errors (da_failures st @ [deadline_error]))))"
| "dial_run translate st ((t, ev) # es) =
     (if dial_finished st then (st, no_success st)
      else let st1 = settle st in
        if \<not> possible st1 t ev then dial_run translate st1 es
        else case dial_handle translate st1 t ev of
          (st2, Some r) \<Rightarrow> (st2, r)
        | (st2, None) \<Rightarrow> dial_run translate st2 es)"

definition dial_adapter_targets ::
  "(bytes \<Rightarrow> dial_error + dns_result) \<Rightarrow> bool \<Rightarrow> scheduler \<Rightarrow> time \<Rightarrow> adapter \<Rightarrow> bytes option \<Rightarrow>
   (time \<times> dial_event) list \<Rightarrow> scheduler \<times> dial_result" where
  "dial_adapter_targets arpa resolver s now a literal events =
     (let translate = adapter_translate arpa a in
      case dial_start translate resolver s now a literal of
        Inl e \<Rightarrow> (s, Inl e)
      | Inr st0 \<Rightarrow> (let (st, r) = dial_run translate st0 events in (da_sched st, r)))"

end
