(* ===== verification/Dial.thy ===== *)
theory Dial
  imports DualStack
begin

text \<open>
  \<open>dialUpstream\<close> of \<open>engine/internal/proxy/dial.go\<close>: two adapters at most are tried for a
  target, and what their attempts showed is recorded in the health table. The attempts
  themselves are \<open>dial_adapter_targets\<close>.

  The environment of a dial gives, for the attempt with number i, the time at which the
  adapter is chosen and the dial starts, the events of the dial, the time at which its
  outcome is recorded, and whether the caller's context has ended by then. The scheduler is
  not changed by others in between.
\<close>

record upstream_env =
  ue_resolver :: bool
  ue_arpa :: "adapter \<Rightarrow> bytes \<Rightarrow> dial_error + dns_result"
  ue_begin :: "nat \<Rightarrow> time"
  ue_events :: "nat \<Rightarrow> (time \<times> dial_event) list"
  ue_end :: "nat \<Rightarrow> time"
  ue_ended :: "nat \<Rightarrow> bool"

text \<open>
  The variables of the loop: the excluded names, the two lists of adapters whose failure is
  evidence once another adapter succeeds, the pending lease, and (\<open>us_tried\<close>, for the
  proofs) the adapters tried.
\<close>

record upstream_state =
  us_sched :: scheduler
  us_excluded :: "string set"
  us_comparative :: "string list"
  us_timed_out :: "string list"
  us_pending :: "nat option"
  us_failures :: "dial_error list"
  us_tried :: "adapter list"

datatype upstream_error = BadTarget | LiteralRequired | NoAdapterAvailable | DialFailed dial_error

text \<open>\<open>timeoutTargetKey\<close> of \<open>health.go\<close>.\<close>

definition mask_ip :: "nat \<Rightarrow> bytes \<Rightarrow> bytes" where
  "mask_ip keep ip = take keep ip @ replicate (length ip - keep) 0"

definition timeout_target_key :: "string \<Rightarrow> bytes option \<Rightarrow> string" where
  "timeout_target_key host ip =
     (case ip of
        Some x \<Rightarrow> (case to4 x of
                     Some v4 \<Rightarrow> ip_string (mask_ip 3 v4) @ ''/24''
                   | None \<Rightarrow> ip_string (mask_ip 6 x) @ ''/48'')
      | None \<Rightarrow> normalize_domain host)"

definition on_tcp_table :: "(perf_table \<Rightarrow> perf_table) \<Rightarrow> scheduler \<Rightarrow> scheduler" where
  "on_tcp_table f s = s\<lparr>sc_performance := map_option f (sc_performance s)\<rparr>"

definition on_health :: "(health_table \<Rightarrow> health_table) \<Rightarrow> scheduler \<Rightarrow> scheduler" where
  "on_health f s = s\<lparr>sc_health := f (sc_health s)\<rparr>"

definition finish_pending :: "time \<Rightarrow> upstream_state \<Rightarrow> upstream_state" where
  "finish_pending now u =
     (case us_pending u of None \<Rightarrow> u
      | Some l \<Rightarrow> u\<lparr>us_sched := on_tcp_table (\<lambda>p. pf_finish p now (Some l)) (us_sched u), us_pending := None\<rparr>)"

text \<open>The adapters a literal target rules out before the first attempt.\<close>

definition unsupported :: "adapter list \<Rightarrow> bytes \<Rightarrow> string set" where
  "unsupported adapters ip =
     set (map name (filter (\<lambda>a. \<not> adapter_supports_network a (network_for_ip ''tcp'' (Some ip)) \<and>
                                \<not> (to4 ip \<noteq> None \<and> source_ipv6 a \<noteq> '''')) adapters))"

definition initially_excluded :: "scheduler \<Rightarrow> time \<Rightarrow> bytes option \<Rightarrow> string set" where
  "initially_excluded s now literal =
     (case literal of None \<Rightarrow> {}
      | Some ip \<Rightarrow> exclude_cooling_families (sc_adapters s) (unsupported (sc_adapters s) ip) (sc_health s) now
                     (network_for_ip ''tcp'' (Some ip)))"

section \<open>Recording an attempt\<close>

definition record_evidence :: "time \<Rightarrow> string \<Rightarrow> string \<Rightarrow> bytes option \<Rightarrow> upstream_state \<Rightarrow> health_table \<Rightarrow> health_table" where
  "record_evidence now domain host literal u h =
     (let h1 = foldl (\<lambda>h n. record_comparative_domain_failure h now n domain) h (us_comparative u)
      in foldl (\<lambda>h n. record_comparative_timeout h now n (timeout_target_key host literal)) h1 (us_timed_out u))"

definition attempt_succeeded ::
  "time \<Rightarrow> string \<Rightarrow> string \<Rightarrow> bytes option \<Rightarrow> adapter \<Rightarrow> upstream_state \<Rightarrow> upstream_state" where
  "attempt_succeeded now domain host literal a u =
     (let s1 = on_health (record_evidence now domain host literal u) (mark_success (us_sched u) now (name a) (Some domain))
      in u\<lparr>us_sched := (case us_pending u of None \<Rightarrow> s1 | Some l \<Rightarrow> on_tcp_table (\<lambda>p. pf_attach p now l) s1)\<rparr>)"

definition attempt_failed :: "time \<Rightarrow> bool \<Rightarrow> string \<Rightarrow> adapter \<Rightarrow> dial_error \<Rightarrow> upstream_state \<Rightarrow> upstream_state" where
  "attempt_failed now ended domain a e u =
     (let local = (is_local_connect_failure e \<and> (source_ip a = '''' \<or> source_ipv6 a = ''''));
          u1 = (if local then u\<lparr>us_sched := mark_failure (us_sched u) now (name a)\<rparr>
                else if domain \<noteq> '''' then u\<lparr>us_comparative := us_comparative u @ [name a]\<rparr> else u)
      in u1\<lparr>us_timed_out := (if \<not> ended \<and> is_connect_timeout e then us_timed_out u1 @ [name a] else us_timed_out u1),
            us_failures := us_failures u1 @ [e]\<rparr>)"

section \<open>The loop\<close>

text \<open>
  \<open>upstream_loop n i\<close> makes at most n more attempts, the next with number i. With an adapter
  it returns the connection and the lease that the connection owns from then on; otherwise
  the deferred \<open>finish\<close> of the last lease has run.
\<close>

fun upstream_loop ::
  "nat \<Rightarrow> nat \<Rightarrow> upstream_env \<Rightarrow> string \<Rightarrow> string \<Rightarrow> bytes option \<Rightarrow> upstream_state \<Rightarrow>
   upstream_state \<times> (adapter \<times> bytes) option" where
  "upstream_loop 0 i env domain host literal u = (finish_pending (ue_begin env i) u, None)"
| "upstream_loop (Suc n) i env domain host literal u =
     (let u0 = finish_pending (ue_begin env i) u;
          (choice, lease, s1) = acquire_tcp (us_sched u0) (ue_begin env i) (us_excluded u0) domain (Some host);
          u1 = u0\<lparr>us_sched := s1, us_pending := lease\<rparr>
      in case choice of
           None \<Rightarrow> (finish_pending (ue_begin env i) u1, None)
         | Some a \<Rightarrow>
             let (s2, r) = dial_adapter_targets (ue_arpa env a) (ue_resolver env) s1 (ue_begin env i) a literal (ue_events env i);
                 u2 = u1\<lparr>us_sched := s2, us_excluded := insert (name a) (us_excluded u1), us_tried := us_tried u1 @ [a]\<rparr>
             in case r of
                  Inr ip \<Rightarrow> (attempt_succeeded (ue_end env i) domain host literal a u2, Some (a, ip))
                | Inl e \<Rightarrow> upstream_loop n (i + 1) env domain host literal
                             (attempt_failed (ue_end env i) (ue_ended env i) domain a e u2))"

definition upstream_start :: "scheduler \<Rightarrow> time \<Rightarrow> bytes option \<Rightarrow> upstream_state" where
  "upstream_start s now literal =
     \<lparr>us_sched = s, us_excluded = initially_excluded s now literal, us_comparative = [], us_timed_out = [],
      us_pending = None, us_failures = [], us_tried = []\<rparr>"

definition dial_upstream ::
  "upstream_env \<Rightarrow> scheduler \<Rightarrow> string \<Rightarrow> bool \<Rightarrow> upstream_state \<times> (upstream_error + adapter \<times> bytes)" where
  "dial_upstream env s target literal_only =
     (let u = \<lparr>us_sched = s, us_excluded = {}, us_comparative = [], us_timed_out = [], us_pending = None,
               us_failures = [], us_tried = []\<rparr>
      in case split_host_port target of None \<Rightarrow> (u, Inl BadTarget)
      | Some (host, port) \<Rightarrow>
          let literal = parse_ip host in
          if literal_only \<and> literal = None then (u, Inl LiteralRequired)
          else
            let u0 = upstream_start s (ue_begin env 0) literal;
                attempts = length (sc_adapters s) - card (us_excluded u0);
                domain = (if literal = None then normalize_domain host else '''');
                (u1, r) = upstream_loop (min 2 attempts) 0 env domain host literal u0
            in (u1, case r of
                      Some (a, ip) \<Rightarrow> Inr (a, ip)
                    | None \<Rightarrow> Inl (if us_failures u1 = [] then NoAdapterAvailable else DialFailed (join_errors (us_failures u1)))))"

end
