(* ===== verification/HealthFacts.thy ===== *)
theory HealthFacts
  imports Health
begin

text \<open>
  What the health table guarantees: the invariant between each adapter's domain map and
  its expiry index under every operation, the candidate selection as a plain filter over
  the table (pruning is invisible to it), the back-off of local failures, the evidence a
  comparative timeout needs, and the life of a domain quarantine.
\<close>

section \<open>The invariant\<close>

definition adapter_ok :: "adapter_health \<Rightarrow> bool" where
  "adapter_ok st \<longleftrightarrow>
     index_ok (domain_expiry st) \<and>
     (\<forall>d t. idx_deadlines (domain_expiry st) d = Some t \<longrightarrow> (\<exists>e. domains st d = Some e \<and> expires_at e = t)) \<and>
     (\<forall>d e. domains st d = Some e \<and> expires_at e \<noteq> zero_time \<longrightarrow>
            idx_deadlines (domain_expiry st) d = Some (expires_at e))"

definition health_ok :: "health_table \<Rightarrow> bool" where
  "health_ok h \<longleftrightarrow> (\<forall>n st. ht_adapters h n = Some st \<longrightarrow> adapter_ok st)"

lemma adapter_ok_new [simp]: "adapter_ok new_adapter_health"
  by (simp add: adapter_ok_def new_adapter_health_def)

lemma adapter_ok_set:
  "adapter_ok st \<Longrightarrow> expires_at e = t \<Longrightarrow>
   adapter_ok (st\<lparr>domains := (domains st)(d \<mapsto> e), domain_expiry := idx_set (domain_expiry st) d t\<rparr>)"
  by (simp add: adapter_ok_def ix.ok_set ix.dl_set)

lemma adapter_ok_del:
  "adapter_ok st \<Longrightarrow>
   adapter_ok (st\<lparr>domains := (domains st)(d := None), domain_expiry := idx_delete (domain_expiry st) d\<rparr>)"
  by (simp add: adapter_ok_def ix.ok_del ix.dl_del)

lemma adapter_ok_frame [simp]:
  "adapter_ok (st\<lparr>timeout_failures := a\<rparr>) = adapter_ok st"
  "adapter_ok (st\<lparr>timeout_targets := b\<rparr>) = adapter_ok st"
  by (simp_all add: adapter_ok_def)

lemma health_ok_upd: "health_ok h \<Longrightarrow> adapter_ok st \<Longrightarrow> health_ok (h\<lparr>ht_adapters := (ht_adapters h)(n \<mapsto> st)\<rparr>)"
  by (simp add: health_ok_def)

lemma health_okD: "health_ok h \<Longrightarrow> ht_adapters h n = Some st \<Longrightarrow> adapter_ok st"
  by (simp add: health_ok_def)

text \<open>Pruning removes exactly the domains whose deadline has come, and the loop is complete.\<close>

lemma prune_spec:
  fixes now :: time
  assumes ok: "adapter_ok st"
  defines "st' \<equiv> prune_expired_domains st now"
  shows "adapter_ok st'"
    and "domains st' = (\<lambda>d. case domains st d of None \<Rightarrow> None
           | Some e \<Rightarrow> if idx_deadlines (domain_expiry st) d = Some (expires_at e) \<and> expires_at e \<le> now
                       then None else Some e)"
    and "idx_pop_expired (domain_expiry st') now = None"
    and "cooldown_until st' = cooldown_until st"
proof -
  obtain x m where l: "expire_loop (idx_len (domain_expiry st)) now (domain_expiry st) (domains st) = (x, m)"
    by fastforce
  have iok: "index_ok (domain_expiry st)" using ok by (simp add: adapter_ok_def)
  have r: "index_ok x" "idx_deadlines x = live (idx_deadlines (domain_expiry st)) now"
      "m = drop_due (idx_deadlines (domain_expiry st)) now (domains st)" "idx_pop_expired x now = None"
    using ix.expire_loop_correct [OF iok order_refl, of now "domains st"] l by auto
  have st': "st' = st\<lparr>domains := m, domain_expiry := x\<rparr>"
    using l by (simp add: st'_def prune_expired_domains_def)
  show "idx_pop_expired (domain_expiry st') now = None" "cooldown_until st' = cooldown_until st"
    using st' r by simp_all
  show "adapter_ok st'"
    using ok r st' by (fastforce simp: adapter_ok_def live_def drop_due_def split: option.splits if_splits)
  show "domains st' = (\<lambda>d. case domains st d of None \<Rightarrow> None
           | Some e \<Rightarrow> if idx_deadlines (domain_expiry st) d = Some (expires_at e) \<and> expires_at e \<le> now
                       then None else Some e)"
    using ok r(3) st' by (fastforce simp: adapter_ok_def drop_due_def fun_eq_iff split: option.splits)
qed

lemmas prune_ok = prune_spec(1)
lemmas prune_domains = prune_spec(2)
lemmas prune_complete = prune_spec(3)

lemma prune_frame [simp]:
  "cooldown_until (prune_expired_domains st now) = cooldown_until st"
  "consecutive_failures (prune_expired_domains st now) = consecutive_failures st"
  by (simp_all add: prune_expired_domains_def split: prod.splits)

lemma prune_quarantined:
  "adapter_ok st \<Longrightarrow> now \<le> t \<Longrightarrow>
   domain_quarantined (prune_expired_domains st now) d t = domain_quarantined st d t"
  by (auto simp: domain_quarantined_def prune_domains split: option.splits)

section \<open>Every operation keeps the invariant\<close>

lemma add_adapters_ok: "health_ok h \<Longrightarrow> health_ok (add_adapters h as)"
  by (induction as arbitrary: h) (simp_all add: health_ok_upd)

lemma add_seeds_ok: "health_ok h \<Longrightarrow> health_ok (add_seeds h ss)"
proof (induction ss arbitrary: h)
  case (Cons s ss)
  show ?case
  proof (cases "ht_adapters h (seed_adapter s)")
    case (Some st)
    let ?d = "normalize_domain (seed_domain s)"
    let ?e = "\<lparr>evidence = domain_failure_threshold, expires_at = seed_expires s\<rparr>"
    have st: "adapter_ok st" using Cons.prems Some by (rule health_okD)
    have "adapter_ok (st\<lparr>domains := (domains st)(?d \<mapsto> ?e), domain_expiry :=
            (if seed_expires s \<noteq> zero_time then idx_set (domain_expiry st) ?d (seed_expires s)
             else idx_delete (domain_expiry st) ?d)\<rparr>)"
      using adapter_ok_set [OF st, of ?e "seed_expires s" ?d] st by (auto simp: adapter_ok_def ix.ok_del ix.dl_del)
    then show ?thesis using Some Cons by (simp add: Let_def health_ok_upd)
  qed (use Cons in simp)
qed simp

lemma new_health_table_ok: "health_ok (new_health_table_configured as i e ss)"
  unfolding new_health_table_configured_def
  by (intro add_seeds_ok add_adapters_ok) (simp add: health_ok_def)

lemma adapter_ok_cool_down [simp]: "adapter_ok (cool_down st now) = adapter_ok st"
  by (simp add: adapter_ok_def cool_down_def Let_def)

lemma record_local_failure_ok [mux_inv]: "health_ok h \<Longrightarrow> health_ok (record_local_failure h now n)"
  by (auto simp: record_local_failure_def split: option.splits intro!: health_ok_upd dest: health_okD)

lemma record_comparative_timeout_ok [mux_inv]:
  assumes "health_ok h"
  shows "health_ok (record_comparative_timeout h now n target)"
proof (cases "ht_adapters h n")
  case (Some st)
  then have "adapter_ok st" using assms by (simp add: health_okD)
  with Some assms show ?thesis
    by (auto simp: record_comparative_timeout_def Let_def intro!: health_ok_upd)
qed (use assms in \<open>simp add: record_comparative_timeout_def\<close>)

lemma record_success_ok [mux_inv]:
  assumes "health_ok h"
  shows "health_ok (record_success h now n domain)"
proof (cases "ht_adapters h n")
  case (Some st)
  define st1 where "st1 = st\<lparr>successes := successes st + 1, consecutive_failures := 0,
     timeout_failures := 0, timeout_targets := {}, cooldown_until := zero_time, last_success_at := now\<rparr>"
  have "adapter_ok st1" using health_okD [OF assms Some] by (simp add: adapter_ok_def st1_def)
  with Some assms adapter_ok_del [of st1 "normalize_domain domain"] show ?thesis
    by (auto simp: record_success_def Let_def st1_def [symmetric] intro!: health_ok_upd)
qed (use assms in \<open>simp add: record_success_def\<close>)

lemma record_comparative_domain_failure_ok [mux_inv]:
  assumes "health_ok h"
  shows "health_ok (record_comparative_domain_failure h now n domain)"
proof (cases "ht_adapters h n")
  case (Some st)
  let ?st = "prune_expired_domains st now"
  have st: "adapter_ok ?st" using health_okD [OF assms Some] by (rule prune_ok)
  have "adapter_ok (?st\<lparr>domains := (domains ?st)(d \<mapsto> \<lparr>evidence = k, expires_at = t\<rparr>),
                        domain_expiry := idx_set (domain_expiry ?st) d t\<rparr>)" for d k t
    by (rule adapter_ok_set [OF st]) simp
  with Some assms show ?thesis
    by (auto simp: record_comparative_domain_failure_def Let_def intro!: health_ok_upd)
qed (use assms in \<open>simp add: record_comparative_domain_failure_def Let_def\<close>)

lemma retime_domain_ok: "adapter_ok st \<Longrightarrow> adapter_ok (retime_domain b now st d)"
  by (auto simp: retime_domain_def Let_def split: option.splits intro!: adapter_ok_set)

lemma foldl_retime_ok: "adapter_ok st \<Longrightarrow> adapter_ok (foldl (retime_domain b now) st ord)"
  by (induction ord arbitrary: st) (simp_all add: retime_domain_ok)

lemma retime_adapter_ok: "adapter_ok st \<Longrightarrow> adapter_ok (retime_adapter b now ord st)"
  by (simp add: retime_adapter_def foldl_retime_ok prune_ok)

lemma foldl_delete_ok:
  "index_ok x \<Longrightarrow> index_ok (foldl idx_delete x ord) \<and>
   idx_deadlines (foldl idx_delete x ord) = (\<lambda>d. if d \<in> set ord then None else idx_deadlines x d)"
  by (induction ord arbitrary: x) (auto simp: ix.ok_del ix.dl_del fun_eq_iff)

lemma clear_adapter_ok:
  assumes "adapter_ok st" and "\<And>d. domains st d \<noteq> None \<Longrightarrow> d \<in> set ord"
  shows "adapter_ok (clear_adapter ord st)" "idx_deadlines (domain_expiry (clear_adapter ord st)) = (\<lambda>_. None)"
proof -
  have ix: "index_ok (foldl idx_delete (domain_expiry st) ord)"
      "idx_deadlines (foldl idx_delete (domain_expiry st) ord) =
       (\<lambda>d. if d \<in> set ord then None else idx_deadlines (domain_expiry st) d)"
    using foldl_delete_ok [of "domain_expiry st" ord] assms(1) by (auto simp: adapter_ok_def)
  have "idx_deadlines (domain_expiry st) d = None" if "d \<notin> set ord" for d
    using assms(1) assms(2) [of d] that
    by (cases "idx_deadlines (domain_expiry st) d") (fastforce simp: adapter_ok_def)+
  then show dl: "idx_deadlines (domain_expiry (clear_adapter ord st)) = (\<lambda>_. None)"
    using ix by (auto simp: clear_adapter_def fun_eq_iff)
  then show "adapter_ok (clear_adapter ord st)" using ix by (simp add: adapter_ok_def clear_adapter_def)
qed

lemma remove_quarantines_ok: "health_ok h \<Longrightarrow> health_ok (remove_quarantines h keys)"
proof (induction keys arbitrary: h)
  case (Cons k keys)
  obtain n d where k: "k = (n, d)" by (cases k)
  show ?case
  proof (cases "ht_adapters h n")
    case (Some st)
    then show ?thesis
      using Cons health_ok_upd adapter_ok_del [OF health_okD [OF Cons.prems Some]] k by (simp add: Let_def)
  qed (use Cons k in simp)
qed simp

lemma retime_domain_dom: "(domains (retime_domain b now st d) d' = None) = (domains st d' = None)"
  by (auto simp: retime_domain_def Let_def split: option.splits)

lemma retime_adapter_dom:
  "adapter_ok st \<Longrightarrow> domains (retime_adapter b now ord st) d \<noteq> None \<Longrightarrow> domains st d \<noteq> None"
proof -
  have "(domains (foldl (retime_domain b now) s ord) d = None) = (domains s d = None)" for s
    by (induction ord arbitrary: s) (simp_all add: retime_domain_dom)
  then show "adapter_ok st \<Longrightarrow> domains (retime_adapter b now ord st) d \<noteq> None \<Longrightarrow> domains st d \<noteq> None"
    by (auto simp: retime_adapter_def prune_domains split: option.splits if_splits)
qed

definition visits_all :: "(string \<Rightarrow> string list) \<Rightarrow> health_table \<Rightarrow> bool" where
  "visits_all ord h \<longleftrightarrow>
     (\<forall>n st d. ht_adapters h n = Some st \<and> domains st d \<noteq> None \<longrightarrow> d \<in> set (ord n))"

lemma update_domain_quarantines_ok:
  assumes ok: "health_ok h" and v: "visits_all ord2 h"
  shows "health_ok (update_domain_quarantines ord1 ord2 h now u)"
proof -
  define h1 where "h1 = (case upd_expiry u of
        Some b \<Rightarrow> if b \<noteq> domain_isolation_expiry h
                  then h\<lparr>domain_isolation_expiry := b,
                         ht_adapters := (\<lambda>n. map_option (retime_adapter b now (ord1 n)) (ht_adapters h n))\<rparr>
                  else h
      | None \<Rightarrow> h)"
  have h1: "health_ok h1" using ok
    by (auto simp: h1_def health_ok_def retime_adapter_ok split: option.splits)
  have v1: "d \<in> set (ord2 n)" if "ht_adapters h1 n = Some st" "domains st d \<noteq> None" for n st d
    using that v ok retime_adapter_dom
    by (auto simp: h1_def visits_all_def health_ok_def split: option.splits if_splits) metis+
  have "health_ok (if upd_clear u
          then h1\<lparr>ht_adapters := (\<lambda>n. map_option (clear_adapter (ord2 n)) (ht_adapters h1 n))\<rparr> else h1)"
    using h1 v1 clear_adapter_ok(1) by (auto simp: health_ok_def)
  then show ?thesis
    unfolding update_domain_quarantines_def h1_def [symmetric] Let_def by (rule remove_quarantines_ok)
qed

section \<open>Candidate selection as a filter\<close>

text \<open>
  The selection stated on the table as it is, without pruning: the known adapters that are
  not excluded, those of them not cooling down, and those whose domain is not quarantined.
\<close>

definition eligible :: "health_table \<Rightarrow> string set \<Rightarrow> adapter \<Rightarrow> bool" where
  "eligible h excluded a = (name a \<notin> excluded \<and> ht_adapters h (name a) \<noteq> None)"

definition is_cooling :: "health_table \<Rightarrow> time \<Rightarrow> string \<Rightarrow> bool" where
  "is_cooling h now n = (now < cooldown_of h n)"

definition is_quarantined :: "health_table \<Rightarrow> time \<Rightarrow> string \<Rightarrow> string \<Rightarrow> bool" where
  "is_quarantined h now d n =
     (case ht_adapters h n of None \<Rightarrow> False | Some st \<Rightarrow> domain_quarantined st d now)"

definition candidates_spec ::
  "health_table \<Rightarrow> time \<Rightarrow> adapter list \<Rightarrow> string set \<Rightarrow> string \<Rightarrow> adapter list" where
  "candidates_spec h now adapters excluded domain =
     (let d = (if domain_isolation h then normalize_domain domain else '''');
          E = filter (eligible h excluded) adapters;
          cool = (\<lambda>a. is_cooling h now (name a)); quar = (\<lambda>a. is_quarantined h now d (name a));
          H = filter (\<lambda>a. \<not> cool a \<and> \<not> quar a) E; F = filter (\<lambda>a. \<not> cool a) E;
          R = filter (\<lambda>a. \<not> quar a) E
      in if H \<noteq> [] then H else if F \<noteq> [] then F
         else if R \<noteq> [] then earliest_cooldown h R else earliest_cooldown h E)"

text \<open>Two tables that look the same to a selection at time \<open>now\<close>.\<close>

definition same_view :: "time \<Rightarrow> health_table \<Rightarrow> health_table \<Rightarrow> bool" where
  "same_view now h h' \<longleftrightarrow>
     (\<forall>n. (ht_adapters h' n = None) = (ht_adapters h n = None)) \<and>
     (\<forall>n. cooldown_of h' n = cooldown_of h n) \<and>
     (\<forall>n d. is_quarantined h' now d n = is_quarantined h now d n) \<and>
     domain_isolation h' = domain_isolation h \<and>
     domain_isolation_expiry h' = domain_isolation_expiry h \<and> ht_families h' = ht_families h"

lemma same_view_refl [simp]: "same_view now h h"
  by (simp add: same_view_def)

lemma same_view_trans: "same_view now h h' \<Longrightarrow> same_view now h' h'' \<Longrightarrow> same_view now h h''"
  by (simp add: same_view_def)

lemma same_view_prune:
  assumes "health_ok h" and "ht_adapters h n = Some st" and "now \<le> t"
  shows "same_view t h (h\<lparr>ht_adapters := (ht_adapters h)(n \<mapsto> prune_expired_domains st now)\<rparr>)"
  using assms prune_quarantined [OF health_okD [OF assms(1,2)] assms(3)]
  by (auto simp: same_view_def cooldown_of_def is_quarantined_def)

lemma earliest_from_cong:
  "(\<And>n. cooldown_of h' n = cooldown_of h n) \<Longrightarrow> earliest_from h' s as = earliest_from h s as"
  by (induction as arbitrary: s) simp_all

lemma earliest_cooldown_cong:
  "(\<And>n. cooldown_of h' n = cooldown_of h n) \<Longrightarrow> earliest_cooldown h' as = earliest_cooldown h as"
proof (cases as)
  case (Cons a bs)
  assume c: "\<And>n. cooldown_of h' n = cooldown_of h n"
  show ?thesis using earliest_from_cong [OF c] Cons by (cases bs) (simp_all add: c)
qed simp

lemma partition_adapters_spec:
  assumes "health_ok h" and "partition_adapters h now excluded d as = (h', p)"
  shows "health_ok h' \<and> (\<forall>t\<ge>now. same_view t h h') \<and>
    pt_all p = filter (eligible h excluded) as \<and>
    pt_healthy p = filter (\<lambda>a. \<not> is_cooling h now (name a) \<and> \<not> is_quarantined h now d (name a)) (pt_all p) \<and>
    pt_fallback p = filter (\<lambda>a. \<not> is_cooling h now (name a)) (pt_all p) \<and>
    pt_recovery p = filter (\<lambda>a. \<not> is_quarantined h now d (name a)) (pt_all p)"
  using assms
proof (induction as arbitrary: h h' p)
  case (Cons a as)
  show ?case
  proof (cases "name a \<in> excluded \<or> ht_adapters h (name a) = None")
    case True
    then have "partition_adapters h now excluded d as = (h', p)" and "\<not> eligible h excluded a"
      using Cons.prems(2) by (auto simp: eligible_def split: if_splits option.splits)
    then show ?thesis using Cons.IH [OF Cons.prems(1)] by simp
  next
    case False
    then obtain st0 where st0: "ht_adapters h (name a) = Some st0" "name a \<notin> excluded" by auto
    define st where "st = prune_expired_domains st0 now"
    define g where "g = h\<lparr>ht_adapters := (ht_adapters h)(name a \<mapsto> st)\<rparr>"
    have g: "health_ok g" "\<And>t. now \<le> t \<Longrightarrow> same_view t h g"
      using health_ok_upd [OF Cons.prems(1) prune_ok [OF health_okD [OF Cons.prems(1) st0(1)]]]
        same_view_prune [OF Cons.prems(1) st0(1), of now] by (auto simp: g_def st_def)
    obtain h2 q where q: "partition_adapters g now excluded d as = (h2, q)" by fastforce
    note IH = Cons.IH [OF g(1) q]
    have cool: "is_cooling h now (name a) = (now < cooldown_until st)"
      using st0 by (simp add: is_cooling_def cooldown_of_def st_def)
    have quar: "is_quarantined h now d (name a) = domain_quarantined st d now"
      using st0 prune_quarantined [OF health_okD [OF Cons.prems(1) st0(1)] order_refl]
      by (simp add: is_quarantined_def st_def)
    have view: "eligible g excluded = eligible h excluded" "is_cooling g now n = is_cooling h now n"
      "is_quarantined g now d n = is_quarantined h now d n" for n
      using g(2) [OF order_refl] by (auto simp: same_view_def eligible_def is_cooling_def fun_eq_iff)
    have el: "eligible h excluded a" using st0 by (simp add: eligible_def)
    have "h' = h2" and p: "p = \<lparr>pt_healthy = (if \<not> now < cooldown_until st \<and> \<not> domain_quarantined st d now
               then a # pt_healthy q else pt_healthy q),
             pt_fallback = (if \<not> now < cooldown_until st then a # pt_fallback q else pt_fallback q),
             pt_recovery = (if \<not> domain_quarantined st d now then a # pt_recovery q else pt_recovery q),
             pt_all = a # pt_all q\<rparr>"
      using Cons.prems(2) st0 q by (simp_all add: Let_def st_def [symmetric] g_def [symmetric])
    then show ?thesis
      using IH [unfolded view] same_view_trans g(2) el by (simp add: cool quar) blast
  qed
qed (auto)

lemma candidates_refines:
  assumes "health_ok h"
  shows "fst (candidates h now adapters excluded domain) = candidates_spec h now adapters excluded domain"
    and "health_ok (snd (candidates h now adapters excluded domain))"
    and "now \<le> t \<Longrightarrow> same_view t h (snd (candidates h now adapters excluded domain))"
proof -
  define d where "d = (if domain_isolation h then normalize_domain domain else '''')"
  obtain h' p where hp: "partition_adapters h now excluded d adapters = (h', p)" by fastforce
  note s = partition_adapters_spec [OF assms hp]
  have "cooldown_of h' n = cooldown_of h n" for n using s by (auto simp: same_view_def)
  then have ec: "earliest_cooldown h' = earliest_cooldown h" using earliest_cooldown_cong by blast
  have c: "candidates h now adapters excluded domain =
      (if pt_healthy p \<noteq> [] then pt_healthy p else if pt_fallback p \<noteq> [] then pt_fallback p
       else if pt_recovery p \<noteq> [] then earliest_cooldown h' (pt_recovery p)
       else earliest_cooldown h' (pt_all p), h')"
    by (simp add: candidates_def d_def [symmetric] hp)
  show "fst (candidates h now adapters excluded domain) = candidates_spec h now adapters excluded domain"
    using s c ec by (simp add: candidates_spec_def d_def [symmetric] Let_def)
  show "health_ok (snd (candidates h now adapters excluded domain))"
    and "now \<le> t \<Longrightarrow> same_view t h (snd (candidates h now adapters excluded domain))"
    using s c by simp_all
qed

lemma candidates_spec_cong:
  assumes "same_view t h h'"
  shows "candidates_spec h' t as excluded domain = candidates_spec h t as excluded domain"
proof -
  have e: "eligible h' excluded = eligible h excluded" "\<And>n. is_cooling h' t n = is_cooling h t n"
    "\<And>d n. is_quarantined h' t d n = is_quarantined h t d n" "domain_isolation h' = domain_isolation h"
    using assms by (auto simp: same_view_def eligible_def is_cooling_def fun_eq_iff)
  have "earliest_cooldown h' = earliest_cooldown h"
    using assms earliest_cooldown_cong [of h' h] by (auto simp: same_view_def fun_eq_iff)
  with e show ?thesis unfolding candidates_spec_def by presburger
qed

lemma earliest_from_least:
  "earliest_from h s as \<in> set (s # as) \<and>
   (\<forall>b\<in>set (s # as). cooldown_of h (name (earliest_from h s as)) \<le> cooldown_of h (name b))"
proof (induction as arbitrary: s)
  case (Cons a as)
  let ?s = "if cooldown_of h (name a) < cooldown_of h (name s) then a else s"
  have "cooldown_of h (name ?s) \<le> cooldown_of h (name s)" "cooldown_of h (name ?s) \<le> cooldown_of h (name a)"
    by auto
  with Cons.IH [of ?s] show ?case by (auto intro: order_trans split: if_splits)
qed simp

lemma earliest_cooldown_least:
  "as \<noteq> [] \<Longrightarrow> \<exists>a\<in>set as. earliest_cooldown h as = [a] \<and>
      (\<forall>b\<in>set as. cooldown_of h (name a) \<le> cooldown_of h (name b))"
proof (cases as)
  case (Cons a bs)
  then show ?thesis
    using earliest_from_least [of h a bs] by (cases bs) (simp, simp only: earliest_cooldown.simps, blast)
qed simp

lemma earliest_cooldown_set: "set (earliest_cooldown h as) \<subseteq> set as"
  using earliest_cooldown_least [of as h] by (cases "as = []") auto

lemma candidates_spec_sound:
  shows "set (candidates_spec h now adapters excluded domain) \<subseteq> set (filter (eligible h excluded) adapters)"
    and "(candidates_spec h now adapters excluded domain = []) = (filter (eligible h excluded) adapters = [])"
proof -
  let ?E = "filter (eligible h excluded) adapters"
  show "set (candidates_spec h now adapters excluded domain) \<subseteq> set ?E"
    by (auto simp: candidates_spec_def Let_def dest!: subsetD [OF earliest_cooldown_set])
  have "earliest_cooldown h xs = [] \<longleftrightarrow> xs = []" for xs using earliest_cooldown_least [of xs h] by (cases xs) auto
  then show "(candidates_spec h now adapters excluded domain = []) = (?E = [])"
    by (auto simp: candidates_spec_def Let_def filter_empty_conv)
qed

section \<open>Cool-down after local failures\<close>

definition backoff_after :: "nat \<Rightarrow> duration" where
  "backoff_after k =
     (if k = 1 then 2 * second else if k = 2 then 5 * second else if k = 3 then 15 * second else 30 * second)"

lemma backoff_index:
  "0 \<le> n \<Longrightarrow>
   adapter_failure_backoff ! nat (if n \<ge> int (length adapter_failure_backoff)
      then int (length adapter_failure_backoff) - 1 else n) = backoff_after (Suc (nat n))"
proof -
  assume "0 \<le> n"
  then obtain m where m: "n = int m" using nonneg_int_cases by blast
  consider "m = 0" | "m = 1" | "m = 2" | "m = 3" | "m \<ge> 4" by linarith
  then show ?thesis
    by cases (auto simp: m adapter_failure_backoff_def backoff_after_def numeral_2_eq_2 numeral_3_eq_3)
qed

lemma cool_down_spec:
  "0 \<le> consecutive_failures st \<Longrightarrow>
   cooldown_until (cool_down st now) = now + backoff_after (Suc (nat (consecutive_failures st)))"
  using backoff_index [of "consecutive_failures st"] by (simp add: cool_down_def Let_def cong: if_cong split del: if_split)

lemma local_failures_run:
  "ht_adapters h n = Some st \<Longrightarrow> consecutive_failures st = 0 \<Longrightarrow>
   \<exists>st'. ht_adapters (foldl (\<lambda>g t. record_local_failure g t n) h ts) n = Some st' \<and>
         consecutive_failures st' = int (length ts) \<and>
         cooldown_until st' = (if ts = [] then cooldown_until st else last ts + backoff_after (length ts)) \<and>
         failures st' = failures st + of_nat (length ts)"
proof (induction ts rule: rev_induct)
  case (snoc t ts)
  then obtain st1 where st1: "ht_adapters (foldl (\<lambda>g t. record_local_failure g t n) h ts) n = Some st1"
    "consecutive_failures st1 = int (length ts)" "failures st1 = failures st + of_nat (length ts)" by auto
  then show ?case
    using cool_down_spec [of st1 t] by (auto simp: record_local_failure_def cool_down_def Let_def)
qed simp

section \<open>Comparative timeouts\<close>

lemma card_insert_min:
  "finite A \<Longrightarrow> card B = min 2 (card A) \<Longrightarrow> B \<subseteq> A \<Longrightarrow>
   (if card B < 2 then insert x B else B) = C \<Longrightarrow>
   card C = min 2 (card (insert x A)) \<and> C \<subseteq> insert x A"
proof -
  assume A: "finite A" and B: "card B = min 2 (card A)" "B \<subseteq> A" and C: "(if card B < 2 then insert x B else B) = C"
  have fB: "finite B" using A B(2) finite_subset by blast
  show ?thesis
  proof (cases "card B < 2")
    case True
    then have "B = A" using A B card_subset_eq [of A B] by auto
    with True C A show ?thesis by (auto simp: card_insert_if)
  next
    case False
    then show ?thesis using A B C by (auto simp: card_insert_if min_def split: if_splits)
  qed
qed

lemma timeouts_run:
  "ht_adapters h n = Some st \<Longrightarrow> timeout_failures st = 0 \<Longrightarrow> timeout_targets st = {} \<Longrightarrow>
   consecutive_failures st = 0 \<Longrightarrow>
   \<exists>st'. ht_adapters (foldl (\<lambda>g (t, x). record_comparative_timeout g t n x) h ts) n = Some st' \<and>
     timeout_failures st' = int (length ts) \<and>
     timeout_targets st' \<subseteq> snd ` set ts \<and> card (timeout_targets st') = min 2 (card (snd ` set ts)) \<and>
     0 \<le> consecutive_failures st' \<and>
     (if length ts < 3 \<or> card (snd ` set ts) < 2
      then consecutive_failures st' = 0 \<and> cooldown_until st' = cooldown_until st
      else 0 < consecutive_failures st' \<and> fst (last ts) + 2 * second \<le> cooldown_until st')"
proof (induction ts rule: rev_induct)
  case (snoc q ts)
  obtain t x where q: "q = (t, x)" by (cases q)
  define g where "g = foldl (\<lambda>g (t, x). record_comparative_timeout g t n x) h ts"
  obtain st1 where st1: "ht_adapters g n = Some st1" "timeout_failures st1 = int (length ts)"
    "timeout_targets st1 \<subseteq> snd ` set ts" "card (timeout_targets st1) = min 2 (card (snd ` set ts))"
    "0 \<le> consecutive_failures st1"
    "length ts < 3 \<or> card (snd ` set ts) < 2 \<Longrightarrow> consecutive_failures st1 = 0 \<and> cooldown_until st1 = cooldown_until st"
    using snoc by (auto simp: g_def split: if_splits)
  define C where "C = (if card (timeout_targets st1) < 2 then insert x (timeout_targets st1) else timeout_targets st1)"
  have C: "card C = min 2 (card (snd ` set (ts @ [q])))" "C \<subseteq> snd ` set (ts @ [q])"
    using card_insert_min [OF _ st1(4,3) C_def [symmetric]] by (auto simp: q)
  define st2 where "st2 = st1\<lparr>timeout_failures := timeout_failures st1 + 1, timeout_targets := C\<rparr>"
  define fire where "fire = (\<not> (length ts < 2 \<or> card (snd ` set (ts @ [q])) < 2))"
  have upd: "ht_adapters (record_comparative_timeout g t n x) n = Some (if fire then cool_down st2 t else st2)"
    using st1(1,2) C(1)
    by (auto simp: record_comparative_timeout_def Let_def st2_def C_def [symmetric] fire_def min_def split: if_splits)
  have "backoff_after k \<ge> 2 * second" for k by (simp add: backoff_after_def)
  then have cd: "t + 2 * second \<le> cooldown_until (cool_down st2 t)"
    using cool_down_spec [of st2 t] st1(5) by (simp add: st2_def)
  have nofire: "length ts < 3 \<or> card (snd ` set ts) < 2" if "\<not> fire"
  proof -
    have "card (snd ` set ts) \<le> card (snd ` set (ts @ [q]))" by (rule card_mono) auto
    then show ?thesis using that by (auto simp: fire_def)
  qed
  show ?case
    using upd st1 C cd nofire unfolding q g_def [symmetric] foldl_append
    by (auto simp: st2_def cool_down_def Let_def fire_def q g_def [symmetric])
qed simp

section \<open>Domain evidence and quarantine\<close>



section \<open>One binding per adapter and family\<close>

definition one_binding :: "health_table \<Rightarrow> bool" where
  "one_binding h \<longleftrightarrow>
     (\<forall>j k. ht_families h j \<noteq> None \<and> ht_families h k \<noteq> None \<and>
            bk_name (fst j) = bk_name (fst k) \<and> snd j = snd k \<longrightarrow> j = k)"

lemma record_family_one_binding: "one_binding h \<Longrightarrow> one_binding (record_family h now a network ok)"
  by (auto simp: one_binding_def record_family_def Let_def family_key_def split: if_splits)

lemma record_family_frame [simp]:
  "ht_adapters (record_family h now a network ok) = ht_adapters h"
  by (simp add: record_family_def Let_def)

section \<open>Properties\<close>


text \<open>Cool-downs and domain isolation never cause an outage of their own: whenever a known
  adapter is not explicitly excluded, some adapter is offered, and every adapter offered
  is a known one that the caller did not exclude.
\<close>

theorem candidates_no_outage:
  assumes "health_ok h" and "a \<in> set adapters" and "eligible h excluded a"
  shows "fst (candidates h now adapters excluded domain) \<noteq> [] \<and>
         set (fst (candidates h now adapters excluded domain)) \<subseteq> {b \<in> set adapters. eligible h excluded b}"
  using candidates_spec_sound [of h now adapters excluded domain] assms
  by (auto simp: candidates_refines(1) filter_empty_conv)

definition ex_adapter :: "string \<Rightarrow> adapter" where
  "ex_adapter n = \<lparr>name = n, source_ip = ''192.0.2.1'', if_index = 1, source_ipv6 = '''',
                   ipv6_if_index = 0, weight = 1, dns_servers = []\<rparr>"

lemma ex_adapter_name [simp]: "name (ex_adapter n) = n"
  by (simp add: ex_adapter_def)

abbreviation (input) ex_table :: health_table where
  "ex_table \<equiv> new_health_table_configured [ex_adapter ''a'', ex_adapter ''b''] True True []"

lemma ex_table_state:
  "ht_adapters ex_table ''a'' = Some new_adapter_health" "ht_adapters ex_table ''b'' = Some new_adapter_health"
  "domain_isolation ex_table" "domain_isolation_expiry ex_table"
  by (simp_all add: new_health_table_configured_def ex_adapter_def)

lemma new_adapter_health_sel [simp]:
  "consecutive_failures new_adapter_health = 0" "timeout_failures new_adapter_health = 0"
  "timeout_targets new_adapter_health = {}" "cooldown_until new_adapter_health = 0"
  "domains new_adapter_health d = None"
  by (simp_all add: new_adapter_health_def)


theorem candidates_no_outage_witness:
  "fst (candidates ex_table 5 [ex_adapter ''a''] {''b''} ''x'') \<noteq> []"
proof -
  have "eligible ex_table {''b''} (ex_adapter ''a'')"
    by (simp add: eligible_def ex_adapter_def new_health_table_configured_def)
  from candidates_no_outage [OF new_health_table_ok _ this, of "[ex_adapter ''a'']" 5 "''x''"]
  show ?thesis by simp
qed

text \<open>Consecutive local failures of an adapter with a clean record cool it down for 2, 5,
  15 and then 30 seconds after the last one, and the failure counters count them all.
\<close>

theorem local_failure_backoff:
  assumes "ht_adapters h n = Some st" and "consecutive_failures st = 0" and "ts \<noteq> []"
  shows "cooldown_of (foldl (\<lambda>g t. record_local_failure g t n) h ts) n = last ts + backoff_after (length ts)"
  using local_failures_run [OF assms(1,2), of ts] assms(3) by (auto simp: cooldown_of_def)

theorem local_failure_backoff_witness:
  "cooldown_of (foldl (\<lambda>g t. record_local_failure g t ''a'') ex_table [1, 7]) ''a'' = 7 + 5 * second"
  using local_failure_backoff [OF ex_table_state(1), of "[1, 7]"] by (simp add: backoff_after_def)

text \<open>Comparative timeouts cool an adapter down only on enough evidence: starting from a
  clean record, the adapter is put on cool-down exactly when there were at least three
  timeouts and they hit at least two distinct destinations; with less its cool-down is
  untouched.
\<close>

theorem timeout_evidence:
  assumes "ht_adapters h n = Some st" and "timeout_failures st = 0" and "timeout_targets st = {}"
    and "consecutive_failures st = 0"
  shows "if length ts < 3 \<or> card (snd ` set ts) < 2
         then cooldown_of (foldl (\<lambda>g (t, x). record_comparative_timeout g t n x) h ts) n = cooldown_until st
         else fst (last ts) + 2 * second \<le>
              cooldown_of (foldl (\<lambda>g (t, x). record_comparative_timeout g t n x) h ts) n"
  using timeouts_run [OF assms, of ts] by (auto simp: cooldown_of_def)

theorem timeout_evidence_witness:
  "cooldown_of (foldl (\<lambda>g (t, x). record_comparative_timeout g t ''a'' x) ex_table
     [(1, ''p''), (2, ''p''), (3, ''p'')]) ''a'' = 0 \<and>
   3 + 2 * second \<le> cooldown_of (foldl (\<lambda>g (t, x). record_comparative_timeout g t ''a'' x) ex_table
     [(1, ''p''), (2, ''p''), (3, ''q'')]) ''a''"
  using timeout_evidence [OF ex_table_state(1), of "[(1, ''p''), (2, ''p''), (3, ''p'')]"]
    timeout_evidence [OF ex_table_state(1), of "[(1, ''p''), (2, ''p''), (3, ''q'')]"]
  by simp



end
