(* ===== verification/Rotation.thy ===== *)
theory Rotation
  imports Adapter
begin

text \<open>
  The contract of a smooth weighted rotation, shared by the weighted scheduler (integer
  weights, credits in a map by name) and the adaptive allocation (rational shares, credits
  in a slice): a pick raises every credit by its weight, takes an entry of greatest credit
  and charges it the sum of the weights. The locale proves once what follows: no entry
  ever gets a whole pick more than its fair share, and none falls behind it by as many
  picks as there are other entries.
\<close>

fun pick_run :: "('s \<Rightarrow> 'a \<times> 's) \<Rightarrow> nat \<Rightarrow> 's \<Rightarrow> 'a list \<times> 's" where
  "pick_run pick 0 s = ([], s)"
| "pick_run pick (Suc n) s = (let (a, s') = pick s; (as, t) = pick_run pick n s' in (a # as, t))"

lemma pick_run_length: "length (fst (pick_run pick n s)) = n"
proof (induction n arbitrary: s)
  case (Suc n)
  obtain a s' where p: "pick s = (a, s')" by fastforce
  show ?case using Suc.IH [of s'] by (auto simp: p split: prod.splits)
qed simp

locale rotation =
  fixes valid :: "'w \<Rightarrow> 's \<Rightarrow> bool"
    and ids :: "'w \<Rightarrow> 'a set"
    and wt :: "'w \<Rightarrow> 'a \<Rightarrow> 'v::linordered_idom"
    and credit :: "'w \<Rightarrow> 's \<Rightarrow> 'a \<Rightarrow> 'v"
    and pick :: "'w \<Rightarrow> 's \<Rightarrow> 'a \<times> 's"
  assumes finite_ids: "valid w s \<Longrightarrow> finite (ids w)"
    and wt_pos: "valid w s \<Longrightarrow> i \<in> ids w \<Longrightarrow> 0 < wt w i"
    and pick_in: "valid w s \<Longrightarrow> fst (pick w s) \<in> ids w"
    and pick_max: "valid w s \<Longrightarrow> i \<in> ids w \<Longrightarrow>
          credit w s i + wt w i \<le> credit w s (fst (pick w s)) + wt w (fst (pick w s))"
    and pick_credit: "valid w s \<Longrightarrow> i \<in> ids w \<Longrightarrow>
          credit w (snd (pick w s)) i =
          credit w s i + wt w i - (if i = fst (pick w s) then (\<Sum>j\<in>ids w. wt w j) else 0)"
    and pick_valid: "valid w s \<Longrightarrow> valid w (snd (pick w s))"
begin

definition total_wt :: "'w \<Rightarrow> 'v" where
  "total_wt w = (\<Sum>j\<in>ids w. wt w j)"

definition balanced :: "'w \<Rightarrow> 's \<Rightarrow> bool" where
  "balanced w s \<longleftrightarrow> (\<Sum>j\<in>ids w. credit w s j) = 0 \<and> (\<forall>i\<in>ids w. - total_wt w < credit w s i)"

lemma total_pos: "valid w s \<Longrightarrow> 0 < total_wt w"
  unfolding total_wt_def using finite_ids wt_pos pick_in [of w s] by (intro sum_pos) auto

lemma balanced_zero: "valid w s \<Longrightarrow> (\<And>i. i \<in> ids w \<Longrightarrow> credit w s i = 0) \<Longrightarrow> balanced w s"
  using total_pos by (simp add: balanced_def)

lemma best_nonneg:
  assumes v: "valid w s" and b: "balanced w s"
  shows "0 < credit w s (fst (pick w s)) + wt w (fst (pick w s))"
proof (rule ccontr)
  assume "\<not> ?thesis"
  then have "credit w s i + wt w i \<le> 0" if "i \<in> ids w" for i
    using pick_max [OF v that] by simp
  then have "(\<Sum>i\<in>ids w. credit w s i + wt w i) \<le> 0" by (intro sum_nonpos)
  moreover have "(\<Sum>i\<in>ids w. credit w s i + wt w i) = total_wt w"
    using b by (simp add: sum.distrib balanced_def total_wt_def)
  ultimately show False using total_pos [OF v] by simp
qed

lemma balanced_pick:
  assumes v: "valid w s" and b: "balanced w s"
  shows "balanced w (snd (pick w s))"
proof -
  let ?b = "fst (pick w s)" and ?c = "credit w (snd (pick w s))"
  have "(\<Sum>i\<in>ids w. ?c i) =
      (\<Sum>i\<in>ids w. credit w s i + wt w i - (if i = ?b then total_wt w else 0))"
    by (rule sum.cong) (simp_all add: pick_credit [OF v] total_wt_def)
  also have "\<dots> = 0"
    using b finite_ids [OF v] pick_in [OF v]
    by (simp add: sum.distrib sum_subtractf balanced_def total_wt_def sum.delta)
  finally have "(\<Sum>i\<in>ids w. ?c i) = 0" .
  moreover have "- total_wt w < ?c i" if i: "i \<in> ids w" for i
    using best_nonneg [OF v b] pick_credit [OF v i] wt_pos [OF v i] b i
    by (auto simp: balanced_def total_wt_def [symmetric] less_add_same_cancel2
        intro: less_le_trans order.strict_trans add_strict_increasing2)
  ultimately show ?thesis by (simp add: balanced_def)
qed

lemma balanced_upper:
  assumes v: "valid w s" and b: "balanced w s" and i: "i \<in> ids w"
  shows "credit w s i \<le> of_nat (card (ids w) - 1) * total_wt w"
proof -
  have fin: "finite (ids w)" by (rule finite_ids [OF v])
  have "credit w s i = - (\<Sum>j\<in>ids w - {i}. credit w s j)"
    using b i fin by (simp add: balanced_def sum.remove eq_neg_iff_add_eq_0)
  also have "\<dots> = (\<Sum>j\<in>ids w - {i}. - credit w s j)" by (simp add: sum_negf)
  also have "\<dots> \<le> (\<Sum>j\<in>ids w - {i}. total_wt w)"
    using b by (intro sum_mono) (auto simp: balanced_def intro: less_imp_le minus_le_iff [THEN iffD1])
  also have "\<dots> = of_nat (card (ids w) - 1) * total_wt w" using i fin by simp
  finally show ?thesis .
qed

lemma run_credit:
  assumes "valid w s" and "i \<in> ids w"
  shows "credit w (snd (pick_run (pick w) n s)) i + of_nat (count_list (fst (pick_run (pick w) n s)) i) * total_wt w
       = credit w s i + of_nat n * wt w i"
  using assms
proof (induction n arbitrary: s)
  case (Suc n)
  obtain a s' where p: "pick w s = (a, s')" by fastforce
  obtain bs t where r: "pick_run (pick w) n s' = (bs, t)" by fastforce
  have "valid w s'" using pick_valid [OF Suc.prems(1)] p by simp
  from Suc.IH [OF this Suc.prems(2)] pick_credit [OF Suc.prems] show ?case
    by (auto simp: p r total_wt_def [symmetric] algebra_simps)
qed simp

lemma run_balanced:
  "valid w s \<Longrightarrow> balanced w s \<Longrightarrow>
   valid w (snd (pick_run (pick w) n s)) \<and> balanced w (snd (pick_run (pick w) n s)) \<and>
   set (fst (pick_run (pick w) n s)) \<subseteq> ids w"
proof (induction n arbitrary: s)
  case (Suc n)
  obtain a s' where p: "pick w s = (a, s')" by fastforce
  have "valid w s'" "balanced w s'" "a \<in> ids w"
    using pick_valid [OF Suc.prems(1)] balanced_pick [OF Suc.prems] pick_in [OF Suc.prems(1)] p by simp_all
  then show ?case using Suc.IH [of s'] by (auto simp: p split: prod.splits)
qed simp

lemma run_fair:
  assumes v: "valid w s" and z: "\<And>i. i \<in> ids w \<Longrightarrow> credit w s i = 0" and i: "i \<in> ids w"
  shows "of_nat (count_list (fst (pick_run (pick w) n s)) i) * total_wt w < of_nat n * wt w i + total_wt w"
    and "of_nat n * wt w i \<le>
         (of_nat (count_list (fst (pick_run (pick w) n s)) i) + of_nat (card (ids w) - 1)) * total_wt w"
proof -
  let ?s = "snd (pick_run (pick w) n s)"
  have b: "valid w ?s" "balanced w ?s" using run_balanced [OF v balanced_zero [OF v z]] by auto
  have c: "credit w ?s i + of_nat (count_list (fst (pick_run (pick w) n s)) i) * total_wt w = of_nat n * wt w i"
    using run_credit [OF v i] z [OF i] by simp
  have "- total_wt w < credit w ?s i" using b(2) i by (simp add: balanced_def)
  with c show "of_nat (count_list (fst (pick_run (pick w) n s)) i) * total_wt w < of_nat n * wt w i + total_wt w"
    by (simp add: algebra_simps)
  from balanced_upper [OF b i] c
  show "of_nat n * wt w i \<le>
         (of_nat (count_list (fst (pick_run (pick w) n s)) i) + of_nat (card (ids w) - 1)) * total_wt w"
    by (simp add: algebra_simps)
qed

end

end
