(* ===== verification/PerformanceFacts.thy ===== *)
theory PerformanceFacts
  imports Performance Rotation
begin

text \<open>
  What the throughput feedback guarantees: the shares are always a distribution that
  gives every link of the pool at least half of its uniform share, the rotation over them
  is fair, and a link's load is the number of its counted leases, whatever happens to the
  link in the table.
\<close>

section \<open>The rotation over the shares\<close>

definition shares_ok :: "rat list \<Rightarrow> bool" where
  "shares_ok w \<longleftrightarrow> w \<noteq> [] \<and> sum_list w = 1 \<and> (\<forall>x\<in>set w. 1 / (2 * of_nat (length w)) \<le> x)"

lemma shares_ok_pos: "shares_ok w \<Longrightarrow> i < length w \<Longrightarrow> 0 < w ! i"
proof -
  assume w: "shares_ok w" and i: "i < length w"
  then have "0 < 1 / (2 * of_nat (length w) :: rat)" by (auto simp: shares_ok_def)
  also have "\<dots> \<le> w ! i" using w i by (simp add: shares_ok_def)
  finally show ?thesis .
qed

lemma shares_ok_uniform: "n \<noteq> 0 \<Longrightarrow> length xs = n \<Longrightarrow> shares_ok (map (\<lambda>_. 1 / of_nat n) xs)"
  by (auto simp: shares_ok_def sum_list_triv field_simps)

lemma choose_loop_spec:
  assumes "choose_loop shares i credit best = (c, b)" and "i + length shares = length credit"
    and "i = 0 \<and> best = 0 \<or> best < i \<and> (\<forall>k<i. credit ! k \<le> credit ! best)"
  shows "length c = length credit \<and>
    (\<forall>k<length credit. c ! k = credit ! k + (if i \<le> k then shares ! (k - i) else 0)) \<and>
    (credit \<noteq> [] \<longrightarrow> b < length credit \<and> (\<forall>k<length credit. c ! k \<le> c ! b))"
  using assms
proof (induction shares arbitrary: i credit best)
  case (Cons share shares)
  define credit' where "credit' = credit[i := credit ! i + share]"
  define best' where "best' = (if credit' ! i > credit' ! best then i else best)"
  have r: "choose_loop shares (i + 1) credit' best' = (c, b)"
    using Cons.prems(1) by (simp add: credit'_def best'_def Let_def)
  have i: "i < length credit" using Cons.prems(2) by simp
  have len: "length credit' = length credit" by (simp add: credit'_def)
  have b': "best' < i + 1 \<and> (\<forall>k<i + 1. credit' ! k \<le> credit' ! best')"
  proof (cases "i = 0 \<and> best = 0")
    case True
    then show ?thesis by (simp add: best'_def)
  next
    case False
    then have old: "best < i" "\<forall>k<i. credit ! k \<le> credit ! best" using Cons.prems(3) by auto
    then have "\<forall>k<i. credit' ! k \<le> credit' ! best" by (simp add: credit'_def)
    then show ?thesis using old by (auto simp: best'_def less_Suc_eq intro: order_trans less_imp_le)
  qed
  have "(i + 1) + length shares = length credit'" using Cons.prems(2) len by simp
  note IH = Cons.IH [OF r this disjI2, OF b', unfolded len]
  have "c ! k = credit ! k + (if i \<le> k then (share # shares) ! (k - i) else 0)" if "k < length credit" for k
  proof -
    have "c ! k = credit' ! k + (if i + 1 \<le> k then shares ! (k - (i + 1)) else 0)" using IH that by simp
    then show ?thesis using i that
      by (cases k i rule: linorder_cases) (simp_all add: credit'_def nth_Cons')
  qed
  moreover have "credit' \<noteq> []" using i len by auto
  then have "length c = length credit" "b < length credit" "\<forall>k<length credit. c ! k \<le> c ! b"
    using IH by blast+
  ultimately show ?case by blast
qed auto

definition rot_valid :: "rat list \<Rightarrow> rat list \<Rightarrow> bool" where
  "rot_valid w c \<longleftrightarrow> shares_ok w \<and> length c = length w"

lemma rotate_credit_spec:
  assumes "rot_valid w c"
  defines "b \<equiv> fst (rotate_credit w c)"
  shows "b < length w"
    and "\<And>i. i < length w \<Longrightarrow> c ! i + w ! i \<le> c ! b + w ! b"
    and "\<And>i. i < length w \<Longrightarrow> snd (rotate_credit w c) ! i = c ! i + w ! i - (if i = b then 1 else 0)"
    and "length (snd (rotate_credit w c)) = length w"
proof -
  obtain c' b' where r: "choose_loop w 0 c 0 = (c', b')" by fastforce
  have len: "length c = length w" "w \<noteq> []" using assms(1) by (auto simp: rot_valid_def shares_ok_def)
  have s: "length c' = length w" "\<And>k. k < length w \<Longrightarrow> c' ! k = c ! k + w ! k" "b' < length w"
    "\<And>k. k < length w \<Longrightarrow> c' ! k \<le> c' ! b'"
    using choose_loop_spec [OF r] len by auto
  have eq: "rotate_credit w c = (b', c'[b' := c' ! b' - 1])" by (simp add: rotate_credit_def r)
  show "b < length w" "\<And>i. i < length w \<Longrightarrow> c ! i + w ! i \<le> c ! b + w ! b"
    "\<And>i. i < length w \<Longrightarrow> snd (rotate_credit w c) ! i = c ! i + w ! i - (if i = b then 1 else 0)"
    "length (snd (rotate_credit w c)) = length w"
    using s s(4) [unfolded s(2)] by (auto simp: b_def eq s(2) [symmetric])
qed

lemma sum_shares: "shares_ok w \<Longrightarrow> (\<Sum>j<length w. w ! j) = 1"
  by (simp add: shares_ok_def sum_list_sum_nth atLeast0LessThan)

interpretation rot: rotation rot_valid "\<lambda>w. {..<length w}" "\<lambda>w i. w ! i" "\<lambda>w c i. c ! i" rotate_credit
proof (unfold_locales, goal_cases)
  case 1 then show ?case by simp
next
  case (2 w s i) then show ?case by (simp add: rot_valid_def shares_ok_pos)
next
  case (3 w s) then show ?case by (simp add: rotate_credit_spec)
next
  case (4 w s i) then show ?case by (simp add: rotate_credit_spec)
next
  case (5 w s i) then show ?case by (simp add: rotate_credit_spec sum_shares rot_valid_def)
next
  case (6 w s) then show ?case using rotate_credit_spec(4) [of w s] by (simp add: rot_valid_def)
qed

section \<open>The allocation invariant\<close>

definition alloc_ok :: "allocation \<Rightarrow> bool" where
  "alloc_ok a \<longleftrightarrow>
     length (al_shares a) = length (al_keys a) \<and> length (al_credit a) = length (al_keys a) \<and>
     (al_keys a \<noteq> [] \<longrightarrow> shares_ok (al_shares a))"

lemma alloc_ok_none [simp]: "alloc_ok no_allocation"
  by (simp add: alloc_ok_def no_allocation_def)

lemma alloc_reset_sel [simp]:
  "al_shares (alloc_reset cs now) = map (\<lambda>_. 1 / of_nat (length cs)) cs"
  "al_keys (alloc_reset cs now) = map performance_key cs"
  "al_credit (alloc_reset cs now) = map (\<lambda>_. 0) cs"
  "al_state (alloc_reset cs now) = ''warming-up''"
  by (simp_all add: alloc_reset_def)

lemma alloc_ok_reset [simp]: "alloc_ok (alloc_reset cs now)"
  by (auto simp: alloc_ok_def intro!: shares_ok_uniform)

lemma alloc_ok_uniform: "alloc_ok a \<Longrightarrow> alloc_ok (alloc_uniform a s)"
  by (auto simp: alloc_ok_def alloc_uniform_def intro!: shares_ok_uniform)

lemma alloc_ok_frame [simp]:
  "alloc_ok (a\<lparr>al_started := t\<rparr>) = alloc_ok a" "alloc_ok (a\<lparr>al_cooldown_until := t\<rparr>) = alloc_ok a"
  "alloc_ok (a\<lparr>al_state := s\<rparr>) = alloc_ok a" "alloc_ok (a\<lparr>al_allocations := n\<rparr>) = alloc_ok a"
  "alloc_ok (a\<lparr>al_window_samples := n\<rparr>) = alloc_ok a" "alloc_ok (a\<lparr>al_window_total := r\<rparr>) = alloc_ok a"
  "alloc_ok (a\<lparr>al_reference := r\<rparr>) = alloc_ok a"
  by (simp_all add: alloc_ok_def)

lemma alloc_choose_ok [mux_inv]:
  assumes "alloc_ok a"
  shows "alloc_ok (snd (alloc_choose a cs fb now))"
proof -
  define a1 where "a1 = (if \<not> alloc_matches a cs then alloc_reset cs now else a)"
  have a1: "alloc_ok a1" using assms by (simp add: a1_def)
  have "length (snd (rotate_credit (al_shares a1) (al_credit a1))) = length (al_keys a1)"
  proof (cases "al_keys a1 = []")
    case True
    then show ?thesis using a1 by (simp add: alloc_ok_def rotate_credit_def)
  next
    case False
    then show ?thesis using a1 by (simp add: alloc_ok_def rotate_credit_spec(4) rot_valid_def)
  qed
  then show ?thesis using a1
    by (auto simp: alloc_choose_def a1_def [symmetric] Let_def alloc_ok_def split: prod.splits)
qed

lemma step_shares_ok:
  assumes s: "shares_ok s" and t: "shares_ok t" and len: "length t = length s"
    and step: "0 \<le> step" "step \<le> 1"
  shows "shares_ok (step_shares step t s)"
proof -
  have l: "length (step_shares step t s) = length s" using len by (simp add: step_shares_def)
  have nth: "step_shares step t s ! i = s ! i + step * (t ! i - s ! i)" if "i < length s" for i
    using that len by (simp add: step_shares_def)
  have "sum_list (step_shares step t s) = (\<Sum>i<length s. s ! i + step * (t ! i - s ! i))"
    by (simp add: sum_list_sum_nth l atLeast0LessThan nth)
  also have "\<dots> = (\<Sum>i<length s. s ! i) + step * ((\<Sum>i<length s. t ! i) - (\<Sum>i<length s. s ! i))"
    by (simp add: sum.distrib sum_distrib_left [symmetric] sum_subtractf)
  also have "\<dots> = 1" using sum_shares [OF s] sum_shares [OF t] len by simp
  finally have sum: "sum_list (step_shares step t s) = 1" .
  have "1 / (2 * of_nat (length s)) \<le> s ! i + step * (t ! i - s ! i)" if i: "i < length s" for i
  proof -
    define m :: rat where "m = 1 / (2 * of_nat (length s))"
    have "m \<le> s ! i" "m \<le> t ! i" using s t i len by (simp_all add: shares_ok_def m_def)
    then have "(1 - step) * m + step * m \<le> (1 - step) * s ! i + step * t ! i"
      using step by (intro add_mono mult_left_mono) simp_all
    then show ?thesis unfolding m_def [symmetric] by (simp add: algebra_simps)
  qed
  then have "\<forall>x\<in>set (step_shares step t s). 1 / (2 * of_nat (length s)) \<le> x"
    using l nth by (auto simp: in_set_conv_nth)
  then show ?thesis using sum l s by (auto simp: shares_ok_def)
qed

lemma alloc_target_ok:
  assumes k: "keys \<noteq> []" and r: "\<And>k. 0 \<le> link_rate links k"
    and o: "obs = sum_list (map (link_rate links) keys)" "0 < obs"
  shows "shares_ok (alloc_target links keys obs)"
proof -
  have "sum_list (alloc_target links keys obs) =
      sum_list (map (\<lambda>_. (1 / 2) / of_nat (length keys)) keys) + sum_list (map (\<lambda>k. (1 / 2) / obs * link_rate links k) keys)"
    by (simp add: alloc_target_def sum_list_addf [symmetric] algebra_simps)
  also have "\<dots> = 1 / 2 + (1 / 2) / obs * obs"
    unfolding o(1) sum_list_const_mult using k by (simp add: sum_list_triv)
  also have "\<dots> = 1" using o(2) by simp
  finally have "sum_list (alloc_target links keys obs) = 1" .
  moreover have "1 / (2 * of_nat (length keys)) \<le> (1 / 2) / of_nat (length keys) + (1 / 2) * link_rate links k / obs" for k
    using r [of k] o(2) by simp
  ultimately show ?thesis using k by (auto simp: shares_ok_def alloc_target_def)
qed

lemma alloc_observe_ok [mux_inv]:
  assumes a: "alloc_ok a" and r: "\<And>k. 0 \<le> link_rate links k"
  shows "alloc_ok (alloc_observe a links now m)"
proof -
  have step: "shares_ok (step_shares (min 1 ((5 / 100) / mx)) (alloc_target links (al_keys a) ob) (al_shares a)) \<and>
       length (step_shares (min 1 ((5 / 100) / mx)) (alloc_target links (al_keys a) ob) (al_shares a)) = length (al_keys a)"
    if "ob = sum_list (map (link_rate links) (al_keys a))" "\<not> ob \<le> 0" "\<not> mx < 2 / 100" "\<not> length (al_keys a) < 2"
    for ob mx
  proof -
    have k: "al_keys a \<noteq> []" using that(4) by auto
    then have "shares_ok (al_shares a)" "length (al_shares a) = length (al_keys a)"
      using a by (simp_all add: alloc_ok_def)
    moreover have "shares_ok (alloc_target links (al_keys a) ob)"
      using alloc_target_ok [OF k r that(1)] that(2) by simp
    ultimately show ?thesis
      using that(3) by (auto intro!: step_shares_ok simp: alloc_target_def) (simp_all add: step_shares_def)
  qed
  show ?thesis
    using a step
    by (auto simp: alloc_observe_def Let_def alloc_ok_uniform split: option.splits)
       (auto simp: alloc_ok_def)
qed

section \<open>The table invariant\<close>

definition link_ok :: "(nat \<Rightarrow> perf_lease) \<Rightarrow> nat \<Rightarrow> nat \<Rightarrow> link_perf \<Rightarrow> bool" where
  "link_ok ls n a k \<longleftrightarrow>
     finite (lk_leases k) \<and> 0 \<le> lk_rate k \<and>
     (\<forall>l\<in>lk_leases k. l < n \<and> ls_link (ls l) = a \<and> \<not> ls_finished (ls l)) \<and>
     lk_load k = int (card {l \<in> lk_leases k. ls_counted (ls l)})"

definition perf_ok :: "perf_table \<Rightarrow> bool" where
  "perf_ok p \<longleftrightarrow>
     alloc_ok (pf_allocation p) \<and>
     (\<forall>a. link_ok (pf_lease_store p) (pf_next_lease p) a (pf_link_store p a)) \<and>
     (\<forall>l<pf_next_lease p. \<not> ls_finished (pf_lease_store p l) \<longrightarrow>
        l \<in> lk_leases (pf_link_store p (ls_link (pf_lease_store p l)))) \<and>
     (\<forall>a\<ge>pf_next_link p. lk_leases (pf_link_store p a) = {})"

lemma perf_okD:
  assumes "perf_ok p"
  shows "alloc_ok (pf_allocation p)" "link_ok (pf_lease_store p) (pf_next_lease p) a (pf_link_store p a)"
    "a \<ge> pf_next_link p \<Longrightarrow> lk_leases (pf_link_store p a) = {}"
  using assms by (simp_all add: perf_ok_def)

lemma link_ok_new [simp]: "link_ok ls n a (new_link now)"
  by (simp add: link_ok_def new_link_def)

lemma perf_ok_new: "perf_ok new_performance_table" "perf_ok new_udp_performance_table"
  by (simp_all add: perf_ok_def new_udp_performance_table_def new_performance_table_def)
     (simp_all add: new_link_def)

lemma link_rate_nonneg: "perf_ok p \<Longrightarrow> 0 \<le> link_rate (link_view p) k"
  by (auto simp: link_rate_def link_view_def perf_ok_def link_ok_def split: option.splits)

lemma perf_ok_allocation [mux_inv]: "perf_ok p \<Longrightarrow> alloc_ok al \<Longrightarrow> perf_ok (p\<lparr>pf_allocation := al\<rparr>)"
  by (simp add: perf_ok_def)

lemma perf_ok_decisions [simp]: "perf_ok (p\<lparr>pf_decisions := d\<rparr>) = perf_ok p"
  by (simp add: perf_ok_def)

lemma perf_ok_retain [mux_inv]: "perf_ok p \<Longrightarrow> perf_ok (pf_retain p as)"
  by (simp add: perf_ok_def pf_retain_def)

lemma pf_link_ok:
  assumes p: "perf_ok p"
  shows "perf_ok (snd (pf_link p a now))"
proof (cases "pf_links p (performance_key a)")
  case None
  then have q: "snd (pf_link p a now) =
      p\<lparr>pf_links := (pf_links p)(performance_key a \<mapsto> pf_next_link p), pf_next_link := pf_next_link p + 1,
        pf_link_store := (pf_link_store p)(pf_next_link p := new_link now)\<rparr>"
    by (simp add: pf_link_def Let_def)
  have "ls_link (pf_lease_store p l) \<noteq> pf_next_link p"
    if "l < pf_next_lease p" "\<not> ls_finished (pf_lease_store p l)" for l
    using p that by (auto simp: perf_ok_def)
  then show ?thesis using p unfolding q by (simp add: perf_ok_def new_link_def link_ok_def)
qed (use p in \<open>simp add: pf_link_def\<close>)

lemma pf_link_known:
  "\<forall>k a. pf_links p k = Some a \<longrightarrow> a < pf_next_link p \<Longrightarrow>
   pf_link p c now = (l, q) \<Longrightarrow>
   l < pf_next_link q \<and> (\<forall>k a. pf_links q k = Some a \<longrightarrow> a < pf_next_link q) \<and>
   pf_lease_store q = pf_lease_store p \<and> pf_next_lease q = pf_next_lease p"
  by (auto simp: pf_link_def Let_def less_Suc_eq split: option.splits if_splits)

text \<open>The links of the table are allocated ones.\<close>

definition links_known :: "perf_table \<Rightarrow> bool" where
  "links_known p \<longleftrightarrow> (\<forall>k a. pf_links p k = Some a \<longrightarrow> a < pf_next_link p)"

lemma perf_ok_new_lease:
  assumes p: "perf_ok p" and l: "l < pf_next_link p"
  shows "perf_ok (p\<lparr>pf_reasons := r,
             pf_lease_store := (pf_lease_store p)
               (pf_next_lease p := no_lease\<lparr>ls_link := l, ls_started := now, ls_counted := True\<rparr>),
             pf_next_lease := pf_next_lease p + 1,
             pf_link_store := (pf_link_store p)
               (l := (pf_link_store p l)\<lparr>lk_leases := insert (pf_next_lease p) (lk_leases (pf_link_store p l)),
                     lk_load := lk_load (pf_link_store p l) + 1\<rparr>)\<rparr>)"
proof -
  let ?n = "pf_next_lease p"
  define ls where "ls = (pf_lease_store p)(?n := no_lease\<lparr>ls_link := l, ls_started := now, ls_counted := True\<rparr>)"
  have new: "ls_link (ls ?n) = l" "\<not> ls_finished (ls ?n)" "ls_counted (ls ?n)"
    by (simp_all add: ls_def no_lease_def)
  have old: "ls x = pf_lease_store p x" if "x \<noteq> ?n" for x using that by (simp add: ls_def)
  have fresh: "?n \<notin> lk_leases (pf_link_store p a)" for a
    using perf_okD(2) [OF p, of a] by (auto simp: link_ok_def)
  have set: "{x \<in> lk_leases (pf_link_store p a). ls_counted (ls x)} =
      {x \<in> lk_leases (pf_link_store p a). ls_counted (pf_lease_store p x)}" for a
    using fresh [of a] old by (metis (lifting))
  have keep: "link_ok ls (?n + 1) a (pf_link_store p a)" for a
    using perf_okD(2) [OF p, of a] set [of a] fresh [of a] old by (fastforce simp: link_ok_def)
  have ins: "{x \<in> insert ?n (lk_leases (pf_link_store p l)). ls_counted (ls x)} =
      insert ?n {x \<in> lk_leases (pf_link_store p l). ls_counted (pf_lease_store p x)}"
    using set [of l] new by auto
  have c: "card {x \<in> insert ?n (lk_leases (pf_link_store p l)). ls_counted (ls x)} =
      Suc (card {x \<in> lk_leases (pf_link_store p l). ls_counted (pf_lease_store p x)})"
    using perf_okD(2) [OF p, of l] fresh [of l] unfolding ins by (simp add: link_ok_def)
  have "link_ok ls (?n + 1) l ((pf_link_store p l)\<lparr>lk_leases := insert ?n (lk_leases (pf_link_store p l)),
                     lk_load := lk_load (pf_link_store p l) + 1\<rparr>)"
    using keep [of l] perf_okD(2) [OF p, of l] new fresh [of l] unfolding link_ok_def
    by (simp add: c del: insert_iff)
  with keep new old p l show ?thesis
    unfolding ls_def [symmetric] by (auto simp: perf_ok_def less_Suc_eq)
qed

definition table_ok :: "perf_table \<Rightarrow> bool" where
  "table_ok p \<longleftrightarrow> perf_ok p \<and> links_known p"

lemma table_okI:
  assumes "alloc_ok (pf_allocation p)"
    and "\<And>a. link_ok (pf_lease_store p) (pf_next_lease p) a (pf_link_store p a)"
    and "\<And>l. l < pf_next_lease p \<Longrightarrow> \<not> ls_finished (pf_lease_store p l) \<Longrightarrow>
        l \<in> lk_leases (pf_link_store p (ls_link (pf_lease_store p l)))"
    and "\<And>a. a \<ge> pf_next_link p \<Longrightarrow> lk_leases (pf_link_store p a) = {}"
    and "links_known p"
  shows "table_ok p"
  using assms by (simp add: table_ok_def perf_ok_def)

lemma table_okD:
  assumes "table_ok p"
  shows "alloc_ok (pf_allocation p)" "link_ok (pf_lease_store p) (pf_next_lease p) a (pf_link_store p a)"
    "l < pf_next_lease p \<Longrightarrow> \<not> ls_finished (pf_lease_store p l) \<Longrightarrow>
       l \<in> lk_leases (pf_link_store p (ls_link (pf_lease_store p l)))"
    "a \<ge> pf_next_link p \<Longrightarrow> lk_leases (pf_link_store p a) = {}" "links_known p"
  using assms by (simp_all add: table_ok_def perf_ok_def)

lemma table_ok_new: "table_ok new_performance_table" "table_ok new_udp_performance_table"
  unfolding table_ok_def using perf_ok_new
  by (simp_all add: links_known_def new_udp_performance_table_def new_performance_table_def)

lemma table_ok_allocation [mux_inv]:
  "table_ok p \<Longrightarrow> alloc_ok al \<Longrightarrow> table_ok (p\<lparr>pf_allocation := al\<rparr>)"
  by (simp add: table_ok_def perf_ok_allocation links_known_def)

lemma table_ok_decisions [simp]: "table_ok (p\<lparr>pf_decisions := d\<rparr>) = table_ok p"
  by (simp add: table_ok_def links_known_def)

lemma table_ok_retain [mux_inv]: "table_ok p \<Longrightarrow> table_ok (pf_retain p as)"
  by (simp add: table_ok_def perf_ok_retain) (simp add: links_known_def pf_retain_def)

lemma table_ok_decide:
  assumes "table_ok p"
  shows "table_ok (snd (snd (pf_decide p now cs adaptive fb pools)))"
proof -
  define al where "al = (\<lambda>pool. if \<not> alloc_matches (pf_allocation p) pool then alloc_reset pool now
                                else pf_allocation p)"
  have al: "alloc_ok (al pool)" for pool using table_okD(1) [OF assms] by (simp add: al_def)
  have "pf_decide p now cs adaptive fb pools =
      (if adaptive \<and> length cs > 1
       then let a = al (case pools of None \<Rightarrow> cs | Some q \<Rightarrow> q);
                p0 = p\<lparr>pf_decisions := pf_decisions p + 1, pf_allocation := a\<rparr>
            in if alloc_matches a cs
               then (fst (alloc_choose a cs fb now), al_state (snd (alloc_choose a cs fb now)),
                     p0\<lparr>pf_allocation := snd (alloc_choose a cs fb now)\<rparr>)
               else (fb, ''constrained-pool'', p0)
       else (fb, ''legacy-or-single'', p))"
    unfolding pf_decide_def al_def Let_def case_prod_unfold by (rule refl)
  then show ?thesis
    using assms al alloc_choose_ok [OF al] by (simp add: Let_def table_ok_allocation)
qed

lemma table_ok_acquire [mux_inv]:
  assumes p: "table_ok p"
  shows "table_ok (snd (snd (pf_acquire p now cs adaptive fb pools)))"
proof -
  obtain chosen reason p1 where first: "pf_decide p now cs adaptive fb pools = (chosen, reason, p1)"
    by (metis prod_cases3)
  obtain l p2 where p2: "pf_link p1 chosen now = (l, p2)" by fastforce
  have p1: "perf_ok p1" "links_known p1"
    using table_ok_decide [OF p, of now cs adaptive fb pools] first by (simp_all add: table_ok_def)
  have ok2: "perf_ok p2" using pf_link_ok [OF p1(1), of chosen now] p2 by simp
  have k: "l < pf_next_link p2" "links_known p2"
    using pf_link_known [OF p1(2) [unfolded links_known_def] p2] by (simp_all add: links_known_def)
  show ?thesis
    using perf_ok_new_lease [OF ok2 k(1)] k(2)
    by (simp add: pf_acquire_def first Let_def p2 table_ok_def links_known_def)
qed

lemma link_ok_lease_frame:
  assumes "link_ok ls n a k"
    and "\<And>l. l \<in> lk_leases k \<Longrightarrow> ls_link (ls' l) = ls_link (ls l) \<and> ls_finished (ls' l) = ls_finished (ls l)
              \<and> ls_counted (ls' l) = ls_counted (ls l)"
  shows "link_ok ls' n a k"
proof -
  have "{l \<in> lk_leases k. ls_counted (ls' l)} = {l \<in> lk_leases k. ls_counted (ls l)}" using assms(2) by auto
  then show ?thesis using assms by (simp add: link_ok_def)
qed

text \<open>An update that keeps the links of the leases, their flags and the lease sets.\<close>

lemma table_ok_frame:
  assumes p: "table_ok p"
    and "pf_allocation q = pf_allocation p" "pf_next_lease q = pf_next_lease p" "pf_next_link q = pf_next_link p"
      "pf_links q = pf_links p"
    and ls: "\<And>l. ls_link (pf_lease_store q l) = ls_link (pf_lease_store p l) \<and>
        ls_finished (pf_lease_store q l) = ls_finished (pf_lease_store p l) \<and>
        ls_counted (pf_lease_store q l) = ls_counted (pf_lease_store p l)"
    and lk: "\<And>a. lk_leases (pf_link_store q a) = lk_leases (pf_link_store p a) \<and>
        lk_load (pf_link_store q a) = lk_load (pf_link_store p a) \<and>
        lk_rate (pf_link_store q a) = lk_rate (pf_link_store p a)"
  shows "table_ok q"
proof (rule table_okI)
  show "link_ok (pf_lease_store q) (pf_next_lease q) a (pf_link_store q a)" for a
    using link_ok_lease_frame [OF table_okD(2) [OF p], of a "pf_lease_store q"] ls assms(3) lk [of a]
    by (simp add: link_ok_def)
qed (use assms table_okD [OF p] in \<open>simp_all add: links_known_def\<close>)

lemma table_ok_attach [mux_inv]: "table_ok p \<Longrightarrow> table_ok (pf_attach p now lease)"
  by (erule table_ok_frame) (simp_all add: pf_attach_def Let_def)

lemma table_ok_write [mux_inv]: "table_ok p \<Longrightarrow> table_ok (pf_write p lease n took)"
  by (erule table_ok_frame) (simp_all add: pf_write_def Let_def)

lemma card_counted_remove:
  assumes "finite A" and "x \<in> A" and "\<And>y. y \<noteq> x \<Longrightarrow> c' y = c y"
  shows "int (card {y \<in> A - {x}. c' y}) = int (card {y \<in> A. c y}) - (if c x then 1 else 0)"
proof -
  have s: "{y \<in> A - {x}. c' y} = {y \<in> A. c y} - {x}" using assms(3) by auto
  show ?thesis
  proof (cases "c x")
    case True
    then have m: "x \<in> {y \<in> A. c y}" using assms(2) by simp
    then have "0 < card {y \<in> A. c y}" using assms(1) by (auto simp: card_gt_0_iff)
    then show ?thesis using True m unfolding s by (simp add: card_Diff_singleton of_nat_diff)
  next
    case False
    then have "{y \<in> A. c y} - {x} = {y \<in> A. c y}" by auto
    then show ?thesis using False unfolding s by simp
  qed
qed

lemma pf_finish_step:
  assumes "\<not> ls_finished (pf_lease_store p lease)"
  defines "l \<equiv> pf_lease_store p lease"
  defines "k \<equiv> pf_link_store p (ls_link l)"
  shows "\<exists>f. pf_finish p now (Some lease) =
    p\<lparr>pf_lease_store := (pf_lease_store p)(lease := l\<lparr>ls_finished := True, ls_counted := False\<rparr>),
      pf_link_store := (pf_link_store p)(ls_link l := k\<lparr>lk_finished_transfers := f,
        lk_load := lk_load k - (if ls_counted l then 1 else 0), lk_leases := lk_leases k - {lease}\<rparr>)\<rparr>"
  by (rule exI [of _ "if 64 * 1024 \<le> ls_bytes l - ls_last_bytes l \<and> 200 * millisecond \<le> now - ls_started l
        then lk_finished_transfers k + 1 else lk_finished_transfers k"])
    (use assms(1) in \<open>simp add: pf_finish_def Let_def k_def l_def\<close>)

lemma table_ok_finish [mux_inv]:
  assumes p: "table_ok p" and lt: "lease < pf_next_lease p"
  shows "table_ok (pf_finish p now (Some lease))"
proof (cases "ls_finished (pf_lease_store p lease)")
  case True
  then show ?thesis using p by (simp add: pf_finish_def)
next
  case False
  define l where "l = pf_lease_store p lease"
  define k where "k = pf_link_store p (ls_link l)"
  define ls where "ls = (pf_lease_store p)(lease := l\<lparr>ls_finished := True, ls_counted := False\<rparr>)"
  obtain f where q: "pf_finish p now (Some lease) =
      p\<lparr>pf_lease_store := ls, pf_link_store := (pf_link_store p)(ls_link l := k\<lparr>lk_finished_transfers := f,
        lk_load := lk_load k - (if ls_counted l then 1 else 0), lk_leases := lk_leases k - {lease}\<rparr>)\<rparr>"
    using pf_finish_step [OF False, of now] by (auto simp: l_def k_def ls_def)
  have mem: "lease \<in> lk_leases k" using table_okD(3) [OF p lt False] by (simp add: k_def l_def)
  have kok: "link_ok (pf_lease_store p) (pf_next_lease p) (ls_link l) k" unfolding k_def by (rule table_okD(2) [OF p])
  have old: "ls x = pf_lease_store p x" if "x \<noteq> lease" for x using that by (simp add: ls_def)
  define k' where "k' = k\<lparr>lk_finished_transfers := f,
        lk_load := lk_load k - (if ls_counted l then 1 else 0), lk_leases := lk_leases k - {lease}\<rparr>"
  have this_link: "link_ok ls (pf_next_lease p) (ls_link l) k'"
    using kok card_counted_remove [OF _ mem, of "\<lambda>x. ls_counted (ls x)" "\<lambda>x. ls_counted (pf_lease_store p x)"] old
    by (simp add: link_ok_def l_def k'_def)
  have other: "link_ok ls (pf_next_lease p) a (pf_link_store p a)" if "a \<noteq> ls_link l" for a
  proof -
    have "lease \<notin> lk_leases (pf_link_store p a)"
      using table_okD(2) [OF p, of a] that by (auto simp: link_ok_def l_def)
    then have "ls x = pf_lease_store p x" if "x \<in> lk_leases (pf_link_store p a)" for x
      using old that by metis
    then show ?thesis by (intro link_ok_lease_frame [OF table_okD(2) [OF p]]) simp
  qed
  have listed: "x \<in> lk_leases (((pf_link_store p)(ls_link l := k')) (ls_link (ls x)))"
    if "x < pf_next_lease p" "\<not> ls_finished (ls x)" for x
  proof -
    have x: "x \<noteq> lease" using that(2) by (auto simp: ls_def)
    then have "x \<in> lk_leases (pf_link_store p (ls_link (ls x)))"
      using table_okD(3) [OF p that(1)] that(2) old [OF x] by simp
    then show ?thesis using x by (auto simp: k'_def k_def)
  qed
  have fresh: "lk_leases (((pf_link_store p)(ls_link l := k')) a) = {}" if "pf_next_link p \<le> a" for a
    using table_okD(4) [OF p that] by (auto simp: k'_def k_def)
  show ?thesis unfolding q k'_def [symmetric]
  proof (rule table_okI, goal_cases)
    case 1 show ?case using table_okD(1) [OF p] by simp
  next
    case (2 a) show ?case using this_link other [of a] by simp
  next
    case (3 x) then show ?case using listed [of x] by simp
  next
    case (4 a) then show ?case using fresh [of a] by simp
  next
    case 5 show ?case using table_okD(5) [OF p] by (simp add: links_known_def)
  qed
qed

lemma table_ok_sample_link:
  assumes p: "table_ok p"
  shows "table_ok (sample_link now p a)"
proof (cases "now - lk_last_sample (pf_link_store p a) \<le> 0")
  case True
  then show ?thesis using p by (simp add: sample_link_def Let_def)
next
  case False
  let ?k = "pf_link_store p a"
  define ls where "ls = (\<lambda>l. if l \<in> lk_leases ?k then sample_lease now (pf_lease_store p l) else pf_lease_store p l)"
  define k where "k = pf_link_store (sample_link now p a) a"
  have q: "sample_link now p a = p\<lparr>pf_lease_store := ls, pf_link_store := (pf_link_store p)(a := k)\<rparr>"
    using False by (simp add: k_def sample_link_def Let_def ls_def)
  have k: "lk_leases k = lk_leases ?k" "0 \<le> lk_rate ?k \<longrightarrow> 0 \<le> lk_rate k"
    using False by (simp_all add: k_def sample_link_def Let_def)
  have load: "lk_load k = int (card {l \<in> lk_leases ?k. ls_counted (ls l)})"
  proof -
    have "{x. (x \<in> lk_leases ?k \<longrightarrow> ls_counted (sample_lease now (pf_lease_store p x))) \<and> x \<in> lk_leases ?k} =
        {l \<in> lk_leases ?k. ls_counted (ls l)}" by (auto simp: ls_def)
    then show ?thesis using False by (simp add: k_def sample_link_def Let_def)
  qed
  have frame: "ls_link (ls l) = ls_link (pf_lease_store p l)" "ls_finished (ls l) = ls_finished (pf_lease_store p l)" for l
    by (simp_all add: ls_def sample_lease_def Let_def)
  have out: "ls l = pf_lease_store p l" if "b \<noteq> a" "l \<in> lk_leases (pf_link_store p b)" for b l
    using table_okD(2) [OF p, of a] table_okD(2) [OF p, of b] that by (auto simp: ls_def link_ok_def)
  have "link_ok ls (pf_next_lease p) a k"
    using table_okD(2) [OF p, of a] k load by (simp add: link_ok_def frame)
  moreover have "link_ok ls (pf_next_lease p) b (pf_link_store p b)" if "b \<noteq> a" for b
    using out [OF that] by (intro link_ok_lease_frame [OF table_okD(2) [OF p]]) simp
  moreover have "x \<in> lk_leases (((pf_link_store p)(a := k)) (ls_link (ls x)))"
    if "x < pf_next_lease p" "\<not> ls_finished (ls x)" for x
    using table_okD(3) [OF p that(1)] that(2) k(1) by (auto simp: frame)
  moreover have "lk_leases (((pf_link_store p)(a := k)) b) = {}" if "pf_next_link p \<le> b" for b
    using table_okD(4) [OF p that] k(1) by auto
  ultimately show ?thesis
    using table_okD(1,5) [OF p] unfolding q by (intro table_okI) (simp_all add: links_known_def)
qed

lemma table_ok_sample [mux_inv]:
  assumes "table_ok p"
  shows "table_ok (pf_sample ord p now)"
proof -
  define p1 where "p1 = foldl (\<lambda>q k. case pf_links q k of None \<Rightarrow> q | Some a \<Rightarrow> sample_link now q a) p ord"
  have "table_ok (foldl (\<lambda>q k. case pf_links q k of None \<Rightarrow> q | Some a \<Rightarrow> sample_link now q a) q ord)" if "table_ok q" for q
    using that by (induction ord arbitrary: q) (auto simp: table_ok_sample_link split: option.splits)
  then have ok1: "table_ok p1" using assms by (simp add: p1_def)
  then have "alloc_ok (alloc_observe (pf_allocation p1) (link_view p1) now (pf_minimum p1))"
    using table_okD(1) link_rate_nonneg by (intro alloc_observe_ok) (simp_all add: table_ok_def)
  with ok1 show ?thesis by (simp add: pf_sample_def p1_def [symmetric] Let_def table_ok_allocation)
qed

section \<open>Any use of the table\<close>

text \<open>
  The operations of the clients, each at the time it reads. A lease argument is one that
  \<open>acquire\<close> has handed out; \<open>PoolChanged\<close> is the reset in \<open>scheduler.update\<close>.
\<close>

datatype perf_op =
    Acquire time "adapter list" bool adapter "adapter list option"
  | Attach time nat
  | Finish time nat
  | Wrote nat int duration
  | Sample time "binding_key list"
  | Retain "adapter list"
  | PoolChanged

fun perf_step :: "perf_table \<Rightarrow> perf_op \<Rightarrow> perf_table" where
  "perf_step p (Acquire now cs adaptive fb pools) = snd (snd (pf_acquire p now cs adaptive fb pools))"
| "perf_step p (Attach now l) = (if l < pf_next_lease p then pf_attach p now l else p)"
| "perf_step p (Finish now l) = (if l < pf_next_lease p then pf_finish p now (Some l) else p)"
| "perf_step p (Wrote l n took) = (if l < pf_next_lease p then pf_write p l n took else p)"
| "perf_step p (Sample now ord) = pf_sample ord p now"
| "perf_step p (Retain as) = pf_retain p as"
| "perf_step p PoolChanged = p\<lparr>pf_allocation := no_allocation\<rparr>"

lemma table_ok_step: "table_ok p \<Longrightarrow> table_ok (perf_step p op)"
  by (cases op) (auto intro: mux_inv simp: table_ok_allocation)

lemma table_ok_run: "table_ok p \<Longrightarrow> table_ok (foldl perf_step p ops)"
  by (induction ops arbitrary: p) (simp_all add: table_ok_step)

section \<open>Properties\<close>

text \<open>
  C38. However the table is used, its allocation is a distribution over the links of the
  pool in which every link keeps at least half of a uniform share, 1/(2N): the feedback
  never starves a link.
\<close>

theorem allocation_never_starves:
  "let a = pf_allocation (foldl perf_step new_performance_table ops) in
    length (al_shares a) = length (al_keys a) \<and>
    (al_keys a \<noteq> [] \<longrightarrow> sum_list (al_shares a) = 1 \<and>
       (\<forall>s\<in>set (al_shares a). 1 / (2 * of_nat (length (al_keys a))) \<le> s))"
  using table_okD(1) [OF table_ok_run [OF table_ok_new(1)], of ops]
  by (auto simp: Let_def alloc_ok_def shares_ok_def)

definition two_links :: "adapter list" where
  "two_links = [\<lparr>name = ''a'', source_ip = ''192.0.2.1'', if_index = 1, source_ipv6 = '''',
                 ipv6_if_index = 0, weight = 1, dns_servers = []\<rparr>,
                \<lparr>name = ''b'', source_ip = ''192.0.2.2'', if_index = 2, source_ipv6 = '''',
                 ipv6_if_index = 0, weight = 1, dns_servers = []\<rparr>]"

theorem allocation_never_starves_witness:
  "list_all (\<lambda>s. 1 / 4 \<le> s) (al_shares (pf_allocation (foldl perf_step new_performance_table
       [Acquire 5 two_links True (two_links ! 0) None])))"
proof -
  let ?p = "foldl perf_step new_performance_table [Acquire 5 two_links True (two_links ! 0) None]"
  have k: "length (al_keys (pf_allocation ?p)) = 2" "al_keys (pf_allocation ?p) \<noteq> []"
    by code_simp+
  from allocation_never_starves [of "[Acquire 5 two_links True (two_links ! 0) None]"] k
  show ?thesis unfolding Let_def list_all_iff by simp
qed


lemma alloc_choose_adapting:
  assumes "alloc_matches a cs" and "al_state a = ''adapting''"
  shows "alloc_choose a cs fb now =
     (cs ! fst (rotate_credit (al_shares a) (al_credit a)),
      a\<lparr>al_allocations := al_allocations a + 1, al_credit := snd (rotate_credit (al_shares a) (al_credit a))\<rparr>)"
  using assms by (simp add: alloc_choose_def Let_def case_prod_unfold)

lemma choose_run:
  "alloc_matches a cs \<Longrightarrow> al_state a = ''adapting'' \<Longrightarrow>
   fst (pick_run (\<lambda>a. alloc_choose a cs fb now) n a) =
   map ((!) cs) (fst (pick_run (rotate_credit (al_shares a)) n (al_credit a)))"
proof (induction n arbitrary: a)
  case (Suc n)
  let ?a = "a\<lparr>al_allocations := al_allocations a + 1, al_credit := snd (rotate_credit (al_shares a) (al_credit a))\<rparr>"
  have "alloc_matches ?a cs" "al_state ?a = ''adapting''" using Suc.prems by (simp_all add: alloc_matches_def)
  from Suc.IH [OF this] show ?case
    by (simp add: alloc_choose_adapting [OF Suc.prems] case_prod_unfold Let_def)
qed simp

lemma count_list_map_nth:
  "distinct cs \<Longrightarrow> i < length cs \<Longrightarrow> set is \<subseteq> {..<length cs} \<Longrightarrow> count_list (map ((!) cs) is) (cs ! i) = count_list is i"
  by (induction "is") (auto simp: nth_eq_iff_index_eq)

text \<open>While the allocation is adapting, successive new connections are spread by the
  shares: out of \<open>n\<close> picks a link of share \<open>s\<close> gets fewer than \<open>n s + 1\<close> and at least
  \<open>n s - (N - 1)\<close>, for any \<open>n\<close>. No burst of concurrent dials can chase one link.
\<close>

theorem allocation_rotation_fair:
  assumes "alloc_ok a" and "alloc_matches a cs" and "al_state a = ''adapting''"
    and "\<forall>c\<in>set (al_credit a). c = 0" and "distinct cs" and "i < length cs"
  shows "let k = of_nat (count_list (fst (pick_run (\<lambda>b. alloc_choose b cs fb now) n a)) (cs ! i));
             s = al_shares a ! i
         in k < of_nat n * s + 1 \<and> of_nat n * s \<le> k + (of_nat (length cs) - 1)"
proof -
  let ?w = "al_shares a"
  have len: "length (al_keys a) = length cs" using assms(2) by (simp add: alloc_matches_def)
  have w: "rot_valid ?w (al_credit a)" "length ?w = length cs"
    using assms(1,6) len by (auto simp: alloc_ok_def rot_valid_def)
  have z: "\<And>j. j \<in> {..<length ?w} \<Longrightarrow> al_credit a ! j = 0" using assms(1,4) by (simp add: alloc_ok_def)
  have i: "i \<in> {..<length ?w}" using assms(6) w by simp
  have tot: "rot.total_wt ?w = 1" using w(1) by (simp add: rot.total_wt_def sum_shares rot_valid_def)
  have sub: "set (fst (pick_run (rotate_credit ?w) n (al_credit a))) \<subseteq> {..<length cs}"
    using rot.run_balanced [OF w(1) rot.balanced_zero [OF w(1) z]] w(2) by simp
  show ?thesis
    using rot.run_fair [OF w(1) z i, of n] assms(6) w(2)
    by (simp add: Let_def choose_run [OF assms(2,3)] count_list_map_nth [OF assms(5,6) sub] tot of_nat_diff)
qed

definition adapting_pool :: allocation where
  "adapting_pool = (alloc_reset two_links 0)\<lparr>al_state := ''adapting'', al_shares := [3 / 4, 1 / 4]\<rparr>"

theorem allocation_rotation_fair_witness:
  "let k = of_nat (count_list (fst (pick_run (\<lambda>b. alloc_choose b two_links (two_links ! 0) 7) 8 adapting_pool))
             (two_links ! 0)) :: rat
   in k < 7 \<and> 5 \<le> k"
proof -
  have "alloc_ok adapting_pool" "alloc_matches adapting_pool two_links" "al_state adapting_pool = ''adapting''"
    "\<forall>c\<in>set (al_credit adapting_pool). c = 0" "distinct two_links" "0 < length two_links"
    "al_shares adapting_pool ! 0 = 3 / 4" "length two_links = 2"
    by (simp_all add: adapting_pool_def two_links_def alloc_ok_def shares_ok_def alloc_matches_def)
  with allocation_rotation_fair [of adapting_pool two_links 0 "two_links ! 0" 7 8] show ?thesis
    by (simp add: Let_def)
qed

end
