(* ===== verification/LatencyFacts.thy ===== *)
theory LatencyFacts
  imports Latency
begin

text \<open>
  What the latency table guarantees: the samples stay meaningful (losses are fractions,
  times are not negative) and the watch list bounded however it is used; a selection
  is a least-score candidate of the first source all candidates have fresh samples for,
  or the incumbent within its hold-down and hysteresis.
\<close>

section \<open>Invariant\<close>

lemma latency_ok_new: "latency_ok new_latency_table"
  by (simp add: latency_ok_def new_latency_table_def)

lemma lt_value_ok: "latency_ok p \<Longrightarrow> sample_ok (lt_value p b t)"
  by (auto simp: latency_ok_def lt_value_def split: option.splits dest!: map_of_SomeD)

lemma latency_ok_cong:
  "lt_values q = lt_values p \<Longrightarrow> lt_targets q = lt_targets p \<Longrightarrow> latency_ok q = latency_ok p"
  by (simp add: latency_ok_def)

lemma set_update_subset: "set (AList.update k v al) \<subseteq> insert (k, v) (set al)"
  by (induction al) auto

lemma lt_record_ok:
  assumes "latency_ok p" and "0 \<le> pr_avg_ms r"
  shows "latency_ok (lt_record p now a t r)"
  using assms sample_update_ok [OF lt_value_ok [OF assms(1)] assms(2)] set_update_subset
  by (fastforce simp: latency_ok_def lt_record_def distinct_update)

lemma watch_addr_ok: "latency_ok p \<Longrightarrow> latency_ok (watch_addr p now ip)"
proof -
  assume p: "latency_ok p"
  have len: "length (AList.update k v al) = (if k \<in> fst ` set al then length al else Suc (length al))"
    for k :: bytes and v :: time and al by (induction al) auto
  show ?thesis using p
    unfolding watch_addr_def Let_def latency_ok_def
    by (simp add: distinct_update len dom_update map_of_eq_None_iff)
qed

lemma lt_watch_ok: "latency_ok p \<Longrightarrow> latency_ok (lt_watch p now target)"
  by (simp add: lt_watch_def Let_def watch_addr_ok split: option.splits)

lemma count_reason_sel [simp]:
  "lt_values (count_reason p r) = lt_values p" "lt_targets (count_reason p r) = lt_targets p"
  by (simp_all add: count_reason_def)

lemma select_from_frame:
  "lt_values (snd (select_from p now host cs ss)) = lt_values p \<and>
   lt_targets (snd (select_from p now host cs ss)) = lt_targets p"
  by (induction ss) (auto simp: Let_def split: option.splits prod.splits)

lemma lt_select_ok: "latency_ok p \<Longrightarrow> latency_ok (snd (lt_select p now cs target))"
  using latency_ok_cong [of "snd (lt_select p now cs target)" p] unfolding lt_select_def
  by (simp only: select_from_frame)

lemma round_targets_ok:
  "latency_ok p \<Longrightarrow> latency_ok (fst (round_targets now ts p acc))"
proof (induction ts arbitrary: p acc)
  case (Cons q ts)
  obtain addr seen where q: "q = (addr, seen)" by (cases q)
  have "latency_ok (p\<lparr>lt_targets := AList.delete addr (lt_targets p), lt_choices := c\<rparr>)" for c
    using Cons.prems length_delete_le [of addr "lt_targets p"] dom_delete_subset [of addr "lt_targets p"]
    unfolding latency_ok_def by (simp add: distinct_delete) (meson order_trans)
  with Cons show ?case by (simp add: q Let_def)
qed simp

lemma round_prune_ok: "latency_ok p \<Longrightarrow> latency_ok (fst (round_prune p now as))"
proof -
  assume "latency_ok p"
  then have "latency_ok (fst (round_targets now (lt_targets p) p (latency_references @ latency_references_ipv6)))"
    by (rule round_targets_ok)
  moreover have "distinct (map fst xs) \<Longrightarrow> distinct (map fst (filter P xs))"
    for P and xs :: "((binding_key \<times> string) \<times> latency_sample) list" by (simp add: distinct_map_filter)
  ultimately show ?thesis
    by (auto simp: round_prune_def latency_ok_def Let_def case_prod_unfold)
qed

datatype latency_op =
    Watch time string
  | WatchAddr time bytes
  | Record time adapter string probe_result
  | Select time "adapter list" string
  | Round time "adapter list"

fun latency_step :: "latency_table \<Rightarrow> latency_op \<Rightarrow> latency_table" where
  "latency_step p (Watch now t) = lt_watch p now t"
| "latency_step p (WatchAddr now ip) = watch_addr p now ip"
| "latency_step p (Record now a t r) = lt_record p now a t r"
| "latency_step p (Select now cs t) = snd (lt_select p now cs t)"
| "latency_step p (Round now as) = fst (round_prune p now as)"

fun probe_sane :: "latency_op \<Rightarrow> bool" where
  "probe_sane (Record now a t r) = (0 \<le> pr_avg_ms r)"
| "probe_sane op = True"

lemma latency_step_ok: "latency_ok p \<Longrightarrow> probe_sane op \<Longrightarrow> latency_ok (latency_step p op)"
  by (cases op) (simp_all add: lt_watch_ok watch_addr_ok lt_record_ok lt_select_ok round_prune_ok)

lemma latency_run_ok: "latency_ok p \<Longrightarrow> list_all probe_sane ops \<Longrightarrow> latency_ok (foldl latency_step p ops)"
  by (induction ops arbitrary: p) (simp_all add: latency_step_ok)

section \<open>Selection\<close>

definition usable :: "latency_table \<Rightarrow> time \<Rightarrow> adapter list \<Rightarrow> string \<Rightarrow> bool" where
  "usable p now cs source \<longleftrightarrow> source \<noteq> '''' \<and>
     (\<forall>a\<in>set cs. sample_fresh (lt_value p (performance_key a) source) now) \<and>
     (\<exists>a\<in>set cs. sample_score (lt_value p (performance_key a) source) \<noteq> None)"

lemma score_less_trans: "score_less a b \<Longrightarrow> \<not> score_less c b \<Longrightarrow> \<not> score_less c a"
  by (auto simp: score_less_def split: option.splits)

lemma score_cases: "score_less a b \<Longrightarrow> a \<noteq> None"
  by (auto simp: score_less_def split: option.splits)

lemma score_not_less_refl: "\<not> score_less a a"
  by (auto simp: score_less_def split: option.splits)

text \<open>The scan answers exactly when every sample is fresh, with a least score.\<close>

lemma scan_source_None:
  "(scan_source p now source as best s = None) =
   (\<exists>a\<in>set as. \<not> sample_fresh (lt_value p (performance_key a) source) now)"
  by (induction "as" arbitrary: best s) (auto simp: Let_def)

lemma scan_source_Some:
  "scan_source p now source as best s = Some (b, r) \<Longrightarrow>
   (b = best \<and> r = s \<or> b \<in> set as \<and> r = sample_score (lt_value p (performance_key b) source) \<and> r \<noteq> None) \<and>
   \<not> score_less s r \<and> (\<forall>a\<in>set as. \<not> score_less (sample_score (lt_value p (performance_key a) source)) r)"
proof (induction "as" arbitrary: best s)
  case Nil
  then show ?case by (simp add: score_not_less_refl)
next
  case (Cons a as)
  let ?s = "sample_score (lt_value p (performance_key a) source)"
  show ?case
  proof (cases "score_less ?s s")
    case True
    then have r: "scan_source p now source as a ?s = Some (b, r)"
      using Cons.prems by (auto simp: Let_def split: if_splits)
    show ?thesis using Cons.IH [OF r] True score_cases [OF True]
      by (auto simp: score_less_def split: option.splits)
  next
    case False
    then have r: "scan_source p now source as best s = Some (b, r)"
      using Cons.prems by (auto simp: Let_def split: if_splits)
    show ?thesis using Cons.IH [OF r] False
      by (auto simp: score_less_def split: option.splits)
  qed
qed

lemma scan_usable:
  assumes "usable p now cs source"
  shows "\<exists>b x. scan_source p now source cs (hd cs) None = Some (b, Some x) \<and> b \<in> set cs \<and>
     sample_score (lt_value p (performance_key b) source) = Some x \<and>
     (\<forall>a\<in>set cs. \<forall>y. sample_score (lt_value p (performance_key a) source) = Some y \<longrightarrow> x \<le> y)"
proof -
  obtain b r where br: "scan_source p now source cs (hd cs) None = Some (b, r)"
    using scan_source_None [of p now source cs "hd cs" None] assms by (auto simp: usable_def)
  note s = scan_source_Some [OF br]
  obtain a y where "a \<in> set cs" "sample_score (lt_value p (performance_key a) source) = Some y"
    using assms by (auto simp: usable_def)
  then have "r \<noteq> None" using s by (auto simp: score_less_def)
  then obtain x where x: "r = Some x" by auto
  then have b: "b \<in> set cs" "sample_score (lt_value p (performance_key b) source) = Some x" using s by auto
  have "x \<le> y" if "a \<in> set cs" "sample_score (lt_value p (performance_key a) source) = Some y" for a y
  proof -
    have "\<not> score_less (Some y) (Some x)" using s that x by metis
    then show ?thesis by (simp add: score_less_def)
  qed
  then show ?thesis using br b x by blast
qed

lemma scan_not_usable:
  "\<not> usable p now cs source \<Longrightarrow> source \<noteq> '''' \<Longrightarrow>
   scan_source p now source cs (hd cs) None = None \<or> (\<exists>b. scan_source p now source cs (hd cs) None = Some (b, None))"
proof -
  assume u: "\<not> usable p now cs source" "source \<noteq> ''''"
  show ?thesis
  proof (cases "scan_source p now source cs (hd cs) None")
    case (Some q)
    obtain b r where q: "q = (b, r)" by (cases q)
    have "\<forall>a\<in>set cs. sample_fresh (lt_value p (performance_key a) source) now"
      using scan_source_None [of p now source cs "hd cs" None] Some by auto
    then have "\<forall>a\<in>set cs. sample_score (lt_value p (performance_key a) source) = None"
      using u by (auto simp: usable_def)
    then have "r = None" using scan_source_Some [OF Some [unfolded q]] by auto
    then show ?thesis using Some q by simp
  qed simp
qed

text \<open>
  What \<open>keep_incumbent\<close> may return instead of the best: a candidate that is the incumbent,
  has a finite score, and is within its hold-down or close to the best.
\<close>

definition held :: "latency_table \<Rightarrow> time \<Rightarrow> string \<Rightarrow> rat \<Rightarrow> adapter \<Rightarrow> bool" where
  "held p now source best a \<longleftrightarrow>
     (\<exists>since old. (case lt_choices p source of None \<Rightarrow> (no_binding, zero_time) | Some c \<Rightarrow> c) = (performance_key a, since) \<and>
        sample_score (lt_value p (performance_key a) source) = Some old \<and>
        (now - since < 10 * second \<or> old - best < max 8 (old * (15 / 100))))"

lemma keep_incumbent_spec:
  assumes "prev = (case lt_choices p source of None \<Rightarrow> (no_binding, zero_time) | Some c \<Rightarrow> c)"
  shows "keep_incumbent p now source prev bs as best = best \<or>
     (keep_incumbent p now source prev bs as best \<in> set as \<and>
      held p now source bs (keep_incumbent p now source prev bs as best))"
proof (induction "as" arbitrary: best)
  case (Cons a as)
  let ?b = "case sample_score (lt_value p (fst prev) source) of None \<Rightarrow> best
    | Some old \<Rightarrow> if now - snd prev < 10 * second \<or> old - bs < max 8 (old * (15 / 100)) then a else best"
  show ?case
  proof (cases "performance_key a = fst prev")
    case True
    have "?b = best \<or> ?b = a \<and> held p now source bs a"
      using True assms by (cases prev) (auto simp: held_def split: option.splits if_splits)
    with True Cons.IH [of ?b] show ?thesis by auto
  next
    case False
    with Cons.IH [of best] show ?thesis by auto
  qed
qed simp

lemma select_good:
  assumes "cs \<noteq> []"
  shows "case find (usable p now cs) (lt_sources cs target) of
      None \<Rightarrow> fst (lt_select p now cs target) = hd cs
    | Some source \<Rightarrow> fst (lt_select p now cs target) \<in> set cs \<and>
        (\<exists>x best. sample_score (lt_value p (performance_key (fst (lt_select p now cs target))) source) = Some x \<and>
          (\<forall>a\<in>set cs. \<forall>y. sample_score (lt_value p (performance_key a) source) = Some y \<longrightarrow> best \<le> y) \<and>
          (x = best \<or> held p now source best (fst (lt_select p now cs target))))"
proof -
  define good where "good = (\<lambda>c source. c \<in> set cs \<and>
        (\<exists>x best. sample_score (lt_value p (performance_key c) source) = Some x \<and>
          (\<forall>a\<in>set cs. \<forall>y. sample_score (lt_value p (performance_key a) source) = Some y \<longrightarrow> best \<le> y) \<and>
          (x = best \<or> held p now source best c)))"
  have "case find (usable p now cs) ss of None \<Rightarrow> fst (select_from p now host cs ss) = hd cs
      | Some source \<Rightarrow> good (fst (select_from p now host cs ss)) source" for ss host
  proof (induction ss)
    case (Cons source ss)
    show ?case
    proof (cases "usable p now cs source")
      case True
      define prev where "prev = (case lt_choices p source of None \<Rightarrow> (no_binding, zero_time) | Some c \<Rightarrow> c)"
      obtain b x where b: "scan_source p now source cs (hd cs) None = Some (b, Some x)" "b \<in> set cs"
        "sample_score (lt_value p (performance_key b) source) = Some x"
        "\<forall>a\<in>set cs. \<forall>y. sample_score (lt_value p (performance_key a) source) = Some y \<longrightarrow> x \<le> y"
        using scan_usable [OF True] by blast
      have ne: "source \<noteq> ''''" using True by (simp add: usable_def)
      have "fst (select_from p now host cs (source # ss)) = keep_incumbent p now source prev x cs b"
        using ne b(1) by (simp add: Let_def prev_def)
      moreover have "good (keep_incumbent p now source prev x cs b) source"
      proof (cases "keep_incumbent p now source prev x cs b = b")
        case True
        then show ?thesis using b by (auto simp: good_def)
      next
        case False
        then have k: "keep_incumbent p now source prev x cs b \<in> set cs"
          "held p now source x (keep_incumbent p now source prev x cs b)"
          using keep_incumbent_spec [OF prev_def, of now x cs b] by auto
        from k(2) obtain old where
          "sample_score (lt_value p (performance_key (keep_incumbent p now source prev x cs b)) source) = Some old"
          by (auto simp: held_def)
        with k b(4) show ?thesis unfolding good_def by blast
      qed
      ultimately show ?thesis using True by simp
    next
      case False
      then have eq: "fst (select_from p now host cs (source # ss)) = fst (select_from p now host cs ss)"
        using scan_not_usable [OF False] by (cases "source = ''''") auto
      show ?thesis unfolding eq using False Cons by simp
    qed
  qed simp
  then show ?thesis unfolding lt_select_def good_def by simp
qed

lemma latency_select_in:
  assumes "cs \<noteq> []"
  shows "fst (lt_select p now cs target) \<in> set cs"
  using select_good [OF assms, of p now target] assms by (auto split: option.splits)

section \<open>Properties\<close>

text \<open>However the latency table is used (watching, recording probe results that report a
  non-negative time, selecting, probe rounds), it watches at most eight addresses, all of
  them unicast, keeps one sample per binding and target, and every sample is meaningful:
  times are not negative, the loss is a fraction, and the run of failures is no longer
  than the number of samples.
\<close>

theorem latency_table_invariant:
  assumes "list_all probe_sane ops"
  shows "length (lt_targets (foldl latency_step new_latency_table ops)) \<le> 8 \<and>
    (\<forall>addr\<in>fst ` set (lt_targets (foldl latency_step new_latency_table ops)). latency_watchable addr) \<and>
    sample_ok (lt_value (foldl latency_step new_latency_table ops) b t)"
  using latency_run_ok [OF latency_ok_new assms] lt_value_ok [OF latency_run_ok [OF latency_ok_new assms]]
  unfolding latency_ok_def by blast

definition probe_ok :: probe_result where
  "probe_ok = \<lparr>pr_sent = 1, pr_received = 1, pr_avg_ms = 12\<rparr>"

definition nic :: "string \<Rightarrow> adapter" where
  "nic n = \<lparr>name = n, source_ip = ''192.0.2.1'', if_index = 1, source_ipv6 = '''',
            ipv6_if_index = 0, weight = 1, dns_servers = []\<rparr>"

theorem latency_table_invariant_witness:
  "sample_ok (lt_value (foldl latency_step new_latency_table [Record 5 (nic ''a'') ''1.1.1.1'' probe_ok])
     (performance_key (nic ''a'')) ''1.1.1.1'')"
  using latency_table_invariant [of "[Record 5 (nic ''a'') ''1.1.1.1'' probe_ok]"]
  by (simp add: probe_ok_def)

text \<open>The selection: the first source (the target itself, then the references) for which
  every candidate has a fresh sample and some score is finite decides. The choice is a
  candidate of finite score that is either least among the candidates, or the incumbent
  of that source, which yields only after ten seconds and to an advantage of at least 8
  points and 15 percent. Without such a source the first candidate is taken.
\<close>

theorem latency_selection:
  assumes "cs \<noteq> []"
  shows "case find (usable p now cs) (lt_sources cs target) of
      None \<Rightarrow> fst (lt_select p now cs target) = hd cs
    | Some source \<Rightarrow> fst (lt_select p now cs target) \<in> set cs \<and>
        (\<exists>x best. sample_score (lt_value p (performance_key (fst (lt_select p now cs target))) source) = Some x \<and>
          (\<forall>a\<in>set cs. \<forall>y. sample_score (lt_value p (performance_key a) source) = Some y \<longrightarrow> best \<le> y) \<and>
          (x = best \<or> held p now source best (fst (lt_select p now cs target))))"
  by (rule select_good [OF assms])

theorem latency_selection_witness:
  "fst (lt_select new_latency_table 5 [nic ''a'', nic ''b''] ''example.org'') = nic ''a''"
proof -
  have "\<not> usable new_latency_table 5 [nic ''a'', nic ''b''] s" for s
  proof -
    have "\<not> sample_fresh (lt_value new_latency_table (performance_key (nic ''a'')) s) 5"
      by (simp add: sample_fresh_def lt_value_def new_latency_table_def no_sample_def)
    then show ?thesis unfolding usable_def by (metis list.set_intros(1))
  qed
  then have "find (usable new_latency_table 5 [nic ''a'', nic ''b'']) ss = None" for ss
    by (simp add: find_None_iff)
  then show ?thesis using latency_selection [of "[nic ''a'', nic ''b'']" new_latency_table 5 "''example.org''"] by simp
qed

end
