(* ===== verification/SchedulerFacts.thy ===== *)
theory SchedulerFacts
  imports Scheduler HealthFacts PerformanceFacts LatencyFacts
begin

text \<open>
  What the scheduler guarantees: the weighted selection is the smooth rotation of the
  locale \<open>rotation\<close>, the round robin visits every candidate in turn, and whatever the
  strategy and the tables do, an adapter that is handed out is one of the candidates of
  the health table, with none handed out exactly when there is no candidate.
\<close>

section \<open>The weighted selection\<close>

lemma effective_weight_pos [simp]: "0 < effective_weight a"
  by (simp add: effective_weight_def)

lemma weigh_loop_spec:
  assumes "weigh_loop as cw tot sel = (cw', t, b)" and "distinct (map name as)"
    and "name sel \<notin> name ` set as"
  shows "t = tot + sum_list (map effective_weight as) \<and>
    (\<forall>a\<in>set as. cw' (name a) = cw (name a) + effective_weight a) \<and>
    (\<forall>n. n \<notin> name ` set as \<longrightarrow> cw' n = cw n) \<and>
    b \<in> insert sel (set as) \<and> (\<forall>a\<in>insert sel (set as). cw' (name a) \<le> cw' (name b))"
  using assms
proof (induction "as" arbitrary: cw tot sel)
  case (Cons a as)
  define cw1 where "cw1 = cw(name a := cw (name a) + effective_weight a)"
  define sel1 where "sel1 = (if cw1 (name a) > cw1 (name sel) then a else sel)"
  have r: "weigh_loop as cw1 (tot + effective_weight a) sel1 = (cw', t, b)"
    using Cons.prems(1) by (simp add: cw1_def sel1_def Let_def)
  have n: "name sel1 \<notin> name ` set as" "distinct (map name as)"
    using Cons.prems by (auto simp: sel1_def)
  note IH = Cons.IH [OF r n(2,1)]
  have a: "name a \<notin> name ` set as" "name sel \<notin> name ` set as" "name sel \<noteq> name a"
    using Cons.prems by auto
  have keep: "cw' (name a) = cw (name a) + effective_weight a" "cw' (name sel) = cw (name sel)"
    using IH a by (simp_all add: cw1_def)
  have best: "cw' (name a) \<le> cw' (name sel1)" "cw' (name sel) \<le> cw' (name sel1)"
    using keep a by (auto simp: sel1_def cw1_def)
  have "cw' (name sel1) \<le> cw' (name b)" using IH by simp
  then have "cw' (name a) \<le> cw' (name b)" "cw' (name sel) \<le> cw' (name b)" using best by (auto intro: order_trans)
  moreover have "\<forall>x\<in>set as. cw' (name x) = cw (name x) + effective_weight x"
  proof
    fix x assume x: "x \<in> set as"
    then have "name x \<noteq> name a" using a(1) by (metis imageI)
    then show "cw' (name x) = cw (name x) + effective_weight x" using IH x by (simp add: cw1_def)
  qed
  moreover have "b \<in> insert sel (set (a # as))" using IH by (auto simp: sel1_def split: if_splits)
  ultimately show ?case using IH keep by (auto simp: cw1_def)
qed simp

definition wrr_valid :: "adapter list \<Rightarrow> (string \<Rightarrow> int) \<Rightarrow> bool" where
  "wrr_valid cs cw \<longleftrightarrow> cs \<noteq> [] \<and> distinct (map name cs)"

lemma sum_list_distinct_names:
  "distinct (map name cs) \<Longrightarrow> sum_list (map f cs) = sum f (set cs)"
  by (simp add: sum_list_distinct_conv_sum_set distinct_map)

lemma select_weighted_spec:
  assumes "wrr_valid cs cw"
  defines "b \<equiv> fst (select_weighted cw cs)"
  shows "b \<in> set cs"
    and "\<And>a. a \<in> set cs \<Longrightarrow> cw (name a) + effective_weight a \<le> cw (name b) + effective_weight b"
    and "\<And>a. a \<in> set cs \<Longrightarrow> snd (select_weighted cw cs) (name a) =
           cw (name a) + effective_weight a - (if a = b then (\<Sum>c\<in>set cs. effective_weight c) else 0)"
proof -
  obtain a as where cs: "cs = a # as" using assms(1) by (cases cs) (auto simp: wrr_valid_def)
  define cw1 where "cw1 = cw(name a := cw (name a) + effective_weight a)"
  obtain cw' t b' where r: "weigh_loop as cw1 (effective_weight a) a = (cw', t, b')" by (metis prod_cases3)
  have d: "distinct (map name as)" "name a \<notin> name ` set as" using assms(1) cs by (auto simp: wrr_valid_def)
  note s = weigh_loop_spec [OF r d]
  have w: "weigh_loop cs cw 0 (hd cs) = (cw', t, b')" using r by (simp add: cs cw1_def Let_def)
  have eq: "select_weighted cw cs = (b', cw'(name b' := cw' (name b') - t))" by (simp add: select_weighted_def w)
  have all: "\<forall>c\<in>set cs. cw' (name c) = cw (name c) + effective_weight c"
  proof -
    have "name c \<noteq> name a" if "c \<in> set as" for c using d(2) that by (metis imageI)
    then show ?thesis using s d(2) cs by (simp add: cw1_def)
  qed
  have b': "b' \<in> set cs" using s cs by auto
  have t: "t = (\<Sum>c\<in>set cs. effective_weight c)"
    using s sum_list_distinct_names [of cs effective_weight] assms(1) cs by (simp add: wrr_valid_def)
  have inj: "name c = name b' \<longleftrightarrow> c = b'" if "c \<in> set cs" for c
    using assms(1) that b' by (auto simp: wrr_valid_def distinct_map inj_on_def)
  show "b \<in> set cs" using b' by (simp add: b_def eq)
  show "cw (name c) + effective_weight c \<le> cw (name b) + effective_weight b" if "c \<in> set cs" for c
  proof -
    have "\<forall>x\<in>set cs. cw' (name x) \<le> cw' (name b')" using s unfolding cs by (metis list.set_intros(1) list.simps(15))
    moreover have "b = b'" by (simp add: b_def eq)
    ultimately show ?thesis using all b' that by simp
  qed
  show "snd (select_weighted cw cs) (name c) =
         cw (name c) + effective_weight c - (if c = b then (\<Sum>x\<in>set cs. effective_weight x) else 0)"
    if "c \<in> set cs" for c
    using all inj [OF that] that by (auto simp: b_def eq t)
qed

interpretation wrr: rotation wrr_valid set "\<lambda>_. effective_weight" "\<lambda>_ cw a. cw (name a)"
  "\<lambda>cs cw. select_weighted cw cs"
  by unfold_locales (simp_all add: select_weighted_spec wrr_valid_def)

section \<open>Stable candidates\<close>

text \<open>A run of selections at the times \<open>ts\<close>.\<close>

fun select_run :: "scheduler \<Rightarrow> string set \<Rightarrow> string \<Rightarrow> time list \<Rightarrow> adapter option list" where
  "select_run s excluded domain [] = []"
| "select_run s excluded domain (t # ts) =
     (let (a, s') = select_locked s t excluded domain in a # select_run s' excluded domain ts)"

text \<open>From time \<open>t0\<close> on the health table offers the same candidates \<open>cs\<close>.\<close>

definition stable :: "scheduler \<Rightarrow> string set \<Rightarrow> string \<Rightarrow> time \<Rightarrow> adapter list \<Rightarrow> bool" where
  "stable s excluded domain t0 cs \<longleftrightarrow>
     health_ok (sc_health s) \<and> (\<forall>t\<ge>t0. candidates_spec (sc_health s) t (sc_adapters s) excluded domain = cs)"

lemma stable_candidates:
  assumes "stable s excluded domain t0 cs" and "t0 \<le> t"
  shows "fst (candidates (sc_health s) t (sc_adapters s) excluded domain) = cs"
    and "stable (s\<lparr>sc_health := snd (candidates (sc_health s) t (sc_adapters s) excluded domain)\<rparr>) excluded domain t cs"
proof -
  have ok: "health_ok (sc_health s)" using assms by (simp add: stable_def)
  show "fst (candidates (sc_health s) t (sc_adapters s) excluded domain) = cs"
    using assms by (simp add: stable_def candidates_refines(1))
  show "stable (s\<lparr>sc_health := snd (candidates (sc_health s) t (sc_adapters s) excluded domain)\<rparr>) excluded domain t cs"
    using assms candidates_refines(2) [OF ok] candidates_spec_cong [OF candidates_refines(3) [OF ok]]
    by (simp add: stable_def)
qed

lemma stable_frame:
  "stable (s\<lparr>sc_health := h, sc_current := c\<rparr>) e d t cs = stable (s\<lparr>sc_health := h\<rparr>) e d t cs"
  "stable (s\<lparr>sc_health := h, sc_next := n\<rparr>) e d t cs = stable (s\<lparr>sc_health := h\<rparr>) e d t cs"
  by (simp_all add: stable_def)

lemma weighted_run:
  assumes "stable s excluded domain t0 cs" and "2 \<le> length cs" and "sc_weighted s" and "\<not> uses_latency s"
    and "sorted (t0 # ts)"
  shows "select_run s excluded domain ts =
         map Some (fst (pick_run (\<lambda>cw. select_weighted cw cs) (length ts) (sc_current s)))"
  using assms
proof (induction ts arbitrary: s t0)
  case (Cons t ts)
  note c = stable_candidates [OF Cons.prems(1), of t]
  have t: "t0 \<le> t" "sorted (t # ts)" using Cons.prems(5) by auto
  define h where "h = snd (candidates (sc_health s) t (sc_adapters s) excluded domain)"
  obtain a cw where sw: "select_weighted (sc_current s) cs = (a, cw)" by fastforce
  have sel: "select_locked s t excluded domain = (Some a, s\<lparr>sc_health := h, sc_current := cw\<rparr>)"
    using c(1) [OF t(1)] Cons.prems(2-4) sw
    by (auto simp: select_locked_def case_prod_unfold Let_def h_def uses_latency_def)
  have "stable (s\<lparr>sc_health := h, sc_current := cw\<rparr>) excluded domain t cs"
    using c(2) [OF t(1)] by (simp add: stable_frame h_def)
  from Cons.IH [OF this] Cons.prems(2-4) t(2) show ?case
    by (simp add: sel sw uses_latency_def case_prod_unfold Let_def)
qed simp

lemma round_robin_run:
  assumes "stable s excluded domain t0 cs" and "2 \<le> length cs" and "\<not> sc_weighted s" and "\<not> uses_latency s"
    and "sorted (t0 # ts)"
  shows "select_run s excluded domain ts = map (\<lambda>i. Some (cs ! ((sc_next s + i) mod length cs))) [0..<length ts]"
  using assms
proof (induction ts arbitrary: s t0)
  case (Cons t ts)
  note c = stable_candidates [OF Cons.prems(1), of t]
  have t: "t0 \<le> t" "sorted (t # ts)" using Cons.prems(5) by auto
  define h where "h = snd (candidates (sc_health s) t (sc_adapters s) excluded domain)"
  define n where "n = (sc_next s + 1) mod length cs"
  have sel: "select_locked s t excluded domain =
      (Some (cs ! (sc_next s mod length cs)), s\<lparr>sc_health := h, sc_next := n\<rparr>)"
    using c(1) [OF t(1)] Cons.prems(2-4)
    by (auto simp: select_locked_def case_prod_unfold Let_def h_def n_def uses_latency_def)
  have "stable (s\<lparr>sc_health := h, sc_next := n\<rparr>) excluded domain t cs"
    using c(2) [OF t(1)] by (simp add: stable_frame h_def)
  from Cons.IH [OF this] Cons.prems(2-4) t(2) have "select_run (s\<lparr>sc_health := h, sc_next := n\<rparr>) excluded domain ts =
      map (\<lambda>i. Some (cs ! ((n + i) mod length cs))) [0..<length ts]"
    by (simp add: uses_latency_def)
  moreover have "(n + i) mod length cs = (sc_next s + Suc i) mod length cs" for i
    by (simp add: n_def mod_add_left_eq)
  ultimately show ?case
    by (simp add: sel map_upt_Suc del: upt_Suc)
qed simp

section \<open>Handing out adapters\<close>

lemma weigh_loop_in: "snd (snd (weigh_loop as cw tot sel)) \<in> insert sel (set as)"
proof (induction "as" arbitrary: cw tot sel)
  case (Cons a as)
  define cw1 where "cw1 = cw(name a := cw (name a) + effective_weight a)"
  have eq: "weigh_loop (a # as) cw tot sel =
      weigh_loop as cw1 (tot + effective_weight a) (if cw1 (name a) > cw1 (name sel) then a else sel)"
    by (simp add: cw1_def Let_def)
  show ?case unfolding eq
    using Cons.IH [of cw1 "tot + effective_weight a" "if cw1 (name a) > cw1 (name sel) then a else sel"]
    by (auto split: if_splits)
qed simp

lemma select_locked_spec:
  fixes s :: scheduler and now :: time and excluded :: "string set" and domain :: string
  assumes ok: "health_ok (sc_health s)"
  defines "cs \<equiv> candidates_spec (sc_health s) now (sc_adapters s) excluded domain"
  shows "(case fst (select_locked s now excluded domain) of None \<Rightarrow> cs = [] | Some a \<Rightarrow> a \<in> set cs)"
    and "sc_health (snd (select_locked s now excluded domain)) =
         snd (candidates (sc_health s) now (sc_adapters s) excluded domain)"
    and "sc_adapters (snd (select_locked s now excluded domain)) = sc_adapters s"
    and "sc_strategy (snd (select_locked s now excluded domain)) = sc_strategy s"
    and "sc_performance (snd (select_locked s now excluded domain)) = sc_performance s"
    and "sc_udp_performance (snd (select_locked s now excluded domain)) = sc_udp_performance s"
proof -
  have c: "fst (candidates (sc_health s) now (sc_adapters s) excluded domain) = cs"
    unfolding cs_def by (rule candidates_refines(1) [OF ok])
  have lat: "fst (latency_pick t now cs target) \<in> set cs" if "cs \<noteq> []" for t target
    using latency_select_in [OF that] by (simp add: latency_pick_def case_prod_unfold Let_def)
  have w: "fst (select_weighted cw cs) \<in> set cs" if "cs \<noteq> []" for cw
    using weigh_loop_in [of cs cw 0 "hd cs"] that by (auto simp: select_weighted_def case_prod_unfold Let_def)
  show "(case fst (select_locked s now excluded domain) of None \<Rightarrow> cs = [] | Some a \<Rightarrow> a \<in> set cs)"
    using c lat w by (simp add: select_locked_def case_prod_unfold Let_def)
  show "sc_health (snd (select_locked s now excluded domain)) =
         snd (candidates (sc_health s) now (sc_adapters s) excluded domain)"
    "sc_adapters (snd (select_locked s now excluded domain)) = sc_adapters s"
    "sc_strategy (snd (select_locked s now excluded domain)) = sc_strategy s"
    "sc_performance (snd (select_locked s now excluded domain)) = sc_performance s"
    "sc_udp_performance (snd (select_locked s now excluded domain)) = sc_udp_performance s"
    by (simp_all add: select_locked_def latency_pick_def case_prod_unfold Let_def)
qed

lemma pf_decide_in:
  assumes "alloc_ok (pf_allocation p)" and "fb \<in> set cs"
  shows "fst (pf_decide p now cs adaptive fb pools) \<in> set cs"
proof -
  have "fst (alloc_choose al cs fb now) \<in> set cs"
    if al: "alloc_ok al" "alloc_matches al cs" "length cs > 1" for al
  proof (cases "al_state al = ''adapting''")
    case True
    have "length (al_keys al) = length cs" using al(2) by (simp add: alloc_matches_def)
    then have "rot_valid (al_shares al) (al_credit al)" "length (al_shares al) = length cs"
      using al(1,3) by (auto simp: alloc_ok_def rot_valid_def)
    then show ?thesis
      using rotate_credit_spec(1) by (fastforce simp: alloc_choose_adapting [OF al(2) True])
  next
    case False
    then show ?thesis using al assms(2) by (simp add: alloc_choose_def Let_def)
  qed
  then show ?thesis using assms by (simp add: pf_decide_def Let_def case_prod_unfold)
qed

lemma pf_acquire_in:
  "alloc_ok (pf_allocation p) \<Longrightarrow> fb \<in> set cs \<Longrightarrow> fst (pf_acquire p now cs adaptive fb pools) \<in> set cs"
  using pf_decide_in by (simp add: pf_acquire_def Let_def case_prod_unfold)

lemma latency_pick_spec:
  assumes "cs \<noteq> []"
  shows "fst (latency_pick s now cs target) \<in> set cs"
    "sc_performance (snd (latency_pick s now cs target)) = sc_performance s"
    "sc_udp_performance (snd (latency_pick s now cs target)) = sc_udp_performance s"
  using latency_select_in [OF assms] by (simp_all add: latency_pick_def case_prod_unfold Let_def)

definition handed_out :: "scheduler \<Rightarrow> time \<Rightarrow> string set \<Rightarrow> string \<Rightarrow> adapter option \<Rightarrow> bool" where
  "handed_out s now excluded domain a \<longleftrightarrow>
     (case a of None \<Rightarrow> candidates_spec (sc_health s) now (sc_adapters s) excluded domain = []
      | Some x \<Rightarrow> x \<in> set (candidates_spec (sc_health s) now (sc_adapters s) excluded domain) \<and>
                  x \<in> set (sc_adapters s) \<and> name x \<notin> excluded)"

lemma handed_outI:
  assumes "case a of None \<Rightarrow> candidates_spec (sc_health s) now (sc_adapters s) excluded domain = []
           | Some x \<Rightarrow> x \<in> set (candidates_spec (sc_health s) now (sc_adapters s) excluded domain)"
  shows "handed_out s now excluded domain a"
  using assms candidates_spec_sound(1) [of "sc_health s" now "sc_adapters s" excluded domain]
  by (auto simp: handed_out_def eligible_def split: option.splits)

definition tables_ok :: "scheduler \<Rightarrow> bool" where
  "tables_ok s \<longleftrightarrow> health_ok (sc_health s) \<and>
     (\<forall>p. sc_performance s = Some p \<longrightarrow> table_ok p) \<and> (\<forall>p. sc_udp_performance s = Some p \<longrightarrow> table_ok p)"

lemma acquire_tcp_in:
  assumes ok: "tables_ok s"
  shows "case fst (acquire_tcp s now excluded domain target) of
      None \<Rightarrow> candidates_spec (sc_health s) now (sc_adapters s) excluded domain = []
    | Some x \<Rightarrow> x \<in> set (candidates_spec (sc_health s) now (sc_adapters s) excluded domain)"
proof -
  have h: "health_ok (sc_health s)" and p: "\<And>p. sc_performance s = Some p \<Longrightarrow> alloc_ok (pf_allocation p)"
    using ok table_okD(1) by (auto simp: tables_ok_def)
  obtain cs h' where c: "candidates (sc_health s) now (sc_adapters s) excluded domain = (cs, h')" by fastforce
  have cs: "candidates_spec (sc_health s) now (sc_adapters s) excluded domain = cs"
    using candidates_refines(1) [OF h, of now "sc_adapters s" excluded domain] c by simp
  have h': "health_ok h'" "same_view now (sc_health s) h'"
    using candidates_refines(2) [OF h] candidates_refines(3) [OF h order_refl] c by (metis snd_conv)+
  show ?thesis
  proof (cases "uses_latency s \<and> target \<noteq> None")
    case True
    then show ?thesis
      using latency_pick_spec [of cs "s\<lparr>sc_health := h'\<rparr>" now "the target"] p pf_acquire_in
      by (auto simp: acquire_tcp_def c cs case_prod_unfold Let_def split: option.split)
  next
    case False
    note sel = select_locked_spec [OF h, of now excluded domain, unfolded c cs snd_conv]
    obtain fb s1 where s1: "select_locked s now excluded domain = (fb, s1)" by fastforce
    have again: "fst (candidates h' now (sc_adapters s) excluded domain) = cs"
      using candidates_refines(1) [OF h'(1)] candidates_spec_cong [OF h'(2)] cs by simp
    show ?thesis
      using False sel again p pf_acquire_in unfolding s1
      by (auto simp: acquire_tcp_def s1 cs case_prod_unfold Let_def split: option.splits)
  qed
qed

lemma acquire_udp_in:
  assumes ok: "tables_ok s"
  shows "case fst (acquire_udp s now excluded target) of
      None \<Rightarrow> candidates_spec (sc_health s) now (sc_adapters s) excluded '''' = []
    | Some x \<Rightarrow> x \<in> set (candidates_spec (sc_health s) now (sc_adapters s) excluded '''')"
proof -
  have h: "health_ok (sc_health s)" and p: "\<And>p. sc_udp_performance s = Some p \<Longrightarrow> alloc_ok (pf_allocation p)"
    using ok table_okD(1) by (auto simp: tables_ok_def)
  obtain cs h' where c: "candidates (sc_health s) now (sc_adapters s) excluded '''' = (cs, h')" by fastforce
  have cs: "candidates_spec (sc_health s) now (sc_adapters s) excluded '''' = cs"
    using candidates_refines(1) [OF h, of now "sc_adapters s" excluded "''''"] c by simp
  have h': "health_ok h'" "same_view now (sc_health s) h'"
    using candidates_refines(2) [OF h] candidates_refines(3) [OF h order_refl] c by (metis snd_conv)+
  let ?s = "s\<lparr>sc_health := h'\<rparr>"
  have hs: "health_ok (sc_health ?s)" using h' by simp
  have cs': "candidates_spec (sc_health ?s) now (sc_adapters ?s) excluded '''' = cs"
    using candidates_spec_cong [OF h'(2)] cs by simp
  show ?thesis
  proof (cases "cs = [] \<or> uses_latency ?s")
    case True
    then show ?thesis
      using latency_pick_spec [of cs ?s now target] p pf_acquire_in
      by (auto simp: acquire_udp_def c cs case_prod_unfold Let_def split: option.splits)
  next
    case False
    note sel = select_locked_spec [OF hs, of now excluded "''''", unfolded cs']
    obtain fb s1 where s1: "select_locked ?s now excluded '''' = (fb, s1)" by fastforce
    show ?thesis
      using False sel p pf_acquire_in unfolding s1
      by (auto simp: acquire_udp_def c cs s1 case_prod_unfold Let_def split: option.splits)
  qed
qed

section \<open>Properties\<close>

text \<open>
  C14. The weighted strategy is fair: while the health table keeps offering the same
  candidates with distinct names, the first \<open>N\<close> selections of a fresh rotation pick an
  adapter of weight \<open>w\<close> (out of a total \<open>W\<close>) fewer than \<open>N w / W + 1\<close> times and at
  least \<open>N w / W - (n - 1)\<close> times, \<open>n\<close> being the number of candidates, for every \<open>N\<close>.
\<close>

theorem weighted_selection_fair:
  assumes "stable s excluded domain t0 cs" and "2 \<le> length cs" and "distinct (map name cs)"
    and "sc_weighted s" and "\<not> uses_latency s" and "\<forall>a\<in>set cs. sc_current s (name a) = 0"
    and "sorted (t0 # ts)" and "a \<in> set cs"
  shows "let k = int (count_list (select_run s excluded domain ts) (Some a));
             W = (\<Sum>c\<in>set cs. effective_weight c)
         in k * W < int (length ts) * effective_weight a + W \<and>
            int (length ts) * effective_weight a \<le> (k + int (length cs - 1)) * W"
proof -
  have v: "wrr_valid cs (sc_current s)" using assms(2,3) by (auto simp: wrr_valid_def)
  have run: "select_run s excluded domain ts =
      map Some (fst (pick_run (\<lambda>cw. select_weighted cw cs) (length ts) (sc_current s)))"
    using weighted_run [OF assms(1,2,4,5,7)] .
  have count: "count_list (map Some xs) (Some a) = count_list xs a" for xs :: "adapter list"
    by (induction xs) auto
  have card: "card (set cs) = length cs" using assms(3) by (simp add: distinct_card distinct_map)
  have z: "\<And>b. b \<in> set cs \<Longrightarrow> sc_current s (name b) = 0" using assms(6) by simp
  show ?thesis
    using wrr.run_fair [OF v z assms(8), of "length ts"]
    by (simp add: Let_def run count wrr.total_wt_def card)
qed

definition fresh_pool :: scheduler where
  "fresh_pool = new_scheduler [nic ''a'', (nic ''b'')\<lparr>weight := 3\<rparr>] True None"

lemma fresh_pool_stable:
  "stable fresh_pool {} ''x'' 0 [nic ''a'', (nic ''b'')\<lparr>weight := 3\<rparr>]"
proof -
  have t: "ht_adapters (sc_health fresh_pool) n =
      (if n = ''a'' \<or> n = ''b'' then Some new_adapter_health else None)" for n
    by (simp add: fresh_pool_def new_scheduler_def new_health_table_def new_health_table_configured_def nic_def)
  have "health_ok (sc_health fresh_pool)"
    using t by (auto simp: health_ok_def split: if_splits)
  moreover have "candidates_spec (sc_health fresh_pool) u (sc_adapters fresh_pool) {} ''x'' = sc_adapters fresh_pool"
    if "0 \<le> u" for u
  proof -
    have "filter (eligible (sc_health fresh_pool) {}) (sc_adapters fresh_pool) = sc_adapters fresh_pool"
      by (auto simp: eligible_def t filter_id_conv) (auto simp: fresh_pool_def new_scheduler_def nic_def)
    moreover have "\<not> is_cooling (sc_health fresh_pool) u n" "\<not> is_quarantined (sc_health fresh_pool) u d n" for n d
      using that by (auto simp: is_cooling_def cooldown_of_def is_quarantined_def domain_quarantined_def t)
    moreover have "sc_adapters fresh_pool \<noteq> []" by (simp add: fresh_pool_def new_scheduler_def)
    ultimately show ?thesis by (simp add: candidates_spec_def Let_def)
  qed
  ultimately show ?thesis by (simp add: stable_def fresh_pool_def new_scheduler_def)
qed

theorem weighted_selection_fair_witness:
  "6 \<le> count_list (select_run fresh_pool {} ''x'' [1, 2, 3, 4, 5, 6, 7, 8, 9]) (Some ((nic ''b'')\<lparr>weight := 3\<rparr>))"
proof -
  let ?b = "(nic ''b'')\<lparr>weight := 3\<rparr>" and ?ts = "[1, 2, 3, 4, 5, 6, 7, 8, 9] :: time list"
  have ne: "nic ''a'' \<noteq> ?b" by (simp add: nic_def)
  have "uses_latency fresh_pool = False" "sc_weighted fresh_pool" "\<forall>n. sc_current fresh_pool n = 0"
    by (simp_all add: fresh_pool_def new_scheduler_def uses_latency_def)
  moreover have "distinct (map name [nic ''a'', ?b])" by (simp add: nic_def)
  moreover have "effective_weight (nic ''a'') = 1" "effective_weight ?b = 3"
    by (simp_all add: effective_weight_def nic_def)
  ultimately show ?thesis
    using weighted_selection_fair [OF fresh_pool_stable, of ?ts ?b] ne by (simp add: Let_def)
qed

text \<open>The round robin visits the candidates in turn: while the health table keeps
  offering the same two or more, selection \<open>i\<close> of a run takes the candidate \<open>i\<close> places
  after the one whose turn it was, so any \<open>length cs\<close> successive selections visit each
  candidate exactly once.
\<close>

theorem round_robin_in_turn:
  assumes "stable s excluded domain t0 cs" and "2 \<le> length cs" and "\<not> sc_weighted s" and "\<not> uses_latency s"
    and "sorted (t0 # ts)"
  shows "select_run s excluded domain ts = map (\<lambda>i. Some (cs ! ((sc_next s + i) mod length cs))) [0..<length ts]"
  by (rule round_robin_run [OF assms])

theorem round_robin_in_turn_witness:
  "select_run (fresh_pool\<lparr>sc_weighted := False\<rparr>) {} ''x'' [4, 4, 9] =
   [Some (nic ''a''), Some ((nic ''b'')\<lparr>weight := 3\<rparr>), Some (nic ''a'')]"
proof -
  have st: "stable (fresh_pool\<lparr>sc_weighted := False\<rparr>) {} ''x'' 0 [nic ''a'', (nic ''b'')\<lparr>weight := 3\<rparr>]"
    using fresh_pool_stable by (simp add: stable_def)
  have "\<not> uses_latency (fresh_pool\<lparr>sc_weighted := False\<rparr>)" "sc_next fresh_pool = 0"
    by (simp_all add: fresh_pool_def new_scheduler_def uses_latency_def)
  then show ?thesis
    using round_robin_in_turn [OF st, of "[4, 4, 9]"] by (simp add: upt_rec numeral_eq_Suc)
qed

text \<open>
  C2. Whatever the strategy (round robin, weighted, adaptive, latency-first) and the state
  of its tables, an adapter handed out for a TCP or UDP flow is one of the candidates of
  the health table for that flow, hence a member of the pool the caller did not exclude;
  and the flow is refused exactly when there is no candidate.
\<close>

theorem acquire_respects_candidates:
  assumes "tables_ok s"
  shows "handed_out s now excluded domain (fst (acquire_tcp s now excluded domain target)) \<and>
         handed_out s now excluded '''' (fst (acquire_udp s now excluded udp_target))"
  using acquire_tcp_in [OF assms] acquire_udp_in [OF assms] handed_outI by blast

theorem acquire_respects_candidates_witness:
  "handed_out fresh_pool 7 {''a''} ''x'' (fst (acquire_tcp fresh_pool 7 {''a''} ''x'' None))"
proof -
  have "tables_ok fresh_pool"
    using fresh_pool_stable by (simp add: tables_ok_def stable_def) (simp add: fresh_pool_def new_scheduler_def)
  from acquire_respects_candidates [OF this] show ?thesis by blast
qed

lemma add_missing_health_spec:
  "ht_adapters (add_missing_health h as) n =
     (case ht_adapters h n of Some st \<Rightarrow> Some st
      | None \<Rightarrow> if n \<in> name ` set as then Some new_adapter_health else None)"
  by (induction "as" arbitrary: h) (auto split: option.splits)

lemma new_scheduler_reset [simp]:
  "sc_health (set_strategy s st) = sc_health s" "sc_next (set_strategy s st) = sc_next s"
  "sc_adapters (set_strategy s st) = sc_adapters s"
  by (simp_all add: set_strategy_def publish_latency_def)

text \<open>A live scheduling update keeps what the health table knows about every adapter,
  registers the new ones as healthy, restarts the rotation, and publishes the latency
  table to the datagram path exactly when the new strategy is latency-first and a table
  is installed; it answers with the previous configuration.
\<close>

theorem live_update_spec:
  "let (previous, s') = sched_update s c in
     previous = sched_snapshot s \<and> sched_snapshot s' = c \<and>
     (\<forall>n. ht_adapters (sc_health s') n =
        (case ht_adapters (sc_health s) n of Some st \<Rightarrow> Some st
         | None \<Rightarrow> if n \<in> name ` set (cfg_adapters c) then Some new_adapter_health else None)) \<and>
     sc_next s' = 0 \<and> (\<forall>n. sc_current s' n = 0) \<and> sc_latency_watch s' = uses_latency s'"
  by (simp add: sched_update_def Let_def add_missing_health_spec)
     (simp add: set_strategy_def publish_latency_def sched_snapshot_def uses_latency_def)

end
