(* ===== verification/DualStackFacts.thy ===== *)
theory DualStackFacts
  imports DualStack SchedulerFacts DnsConfigFacts
begin

text \<open>
  The dial loop: which addresses it may dial (\<open>dialable\<close>), and an invariant of the event loop
  (\<open>dial_ok\<close>) that bounds the sockets in flight and the addresses tried and keeps every
  address of the queue dialable.
\<close>

section \<open>Addresses that may be dialed\<close>

definition v6_only :: "(bytes \<Rightarrow> dial_error + bytes) \<Rightarrow> bool" where
  "v6_only translate \<longleftrightarrow> (\<forall>ip t. translate ip = Inr t \<longrightarrow> to4 t = None)"

definition dialable :: "adapter \<Rightarrow> bytes \<Rightarrow> bool" where
  "dialable a ip \<longleftrightarrow> (if to4 ip \<noteq> None then source_ip a \<noteq> '''' else source_ipv6 a \<noteq> '''')"

definition record_address :: "record_type \<Rightarrow> bytes \<Rightarrow> bool" where
  "record_address kind ip \<longleftrightarrow> \<not> reserved_ip ip \<and> (kind = RecordA) = (to4 ip \<noteq> None)"

lemma address_loop_step:
  "address_loop kind (t # ts) acc = address_loop kind ts acc \<or>
   (\<exists>ip. record_address kind ip \<and>
     address_loop kind (t # ts) acc = (if length acc + 1 = 8 then acc @ [ip] else address_loop kind ts (acc @ [ip])))"
proof (cases "parse_ip t")
  case (Some ip)
  show ?thesis
  proof (cases "record_address kind ip \<and> ip_string ip \<notin> set (map ip_string acc)")
    case True
    then have "address_loop kind (t # ts) acc = (if length acc + 1 = 8 then acc @ [ip] else address_loop kind ts (acc @ [ip]))"
      unfolding address_loop.simps Some option.case record_address_def by presburger
    then show ?thesis using True by blast
  next
    case False
    then have "address_loop kind (t # ts) acc = address_loop kind ts acc"
      unfolding address_loop.simps Some option.case record_address_def by presburger
    then show ?thesis ..
  qed
qed simp

declare address_loop.simps(2) [simp del] nat64_loop.simps(2) [simp del]

lemma address_loop_spec:
  "\<forall>ip \<in> set acc. record_address kind ip \<Longrightarrow> length acc < 8 \<Longrightarrow>
   (\<forall>ip \<in> set (address_loop kind ts acc). record_address kind ip) \<and> length (address_loop kind ts acc) \<le> 8"
proof (induction ts arbitrary: acc)
  case (Cons t ts)
  show ?case
    using address_loop_step[of kind t ts acc]
  proof (elim disjE exE conjE)
    assume e: "address_loop kind (t # ts) acc = address_loop kind ts acc"
    show ?thesis unfolding e by (rule Cons.IH[OF Cons.prems])
  next
    fix ip
    assume ip: "record_address kind ip"
      and e: "address_loop kind (t # ts) acc = (if length acc + 1 = 8 then acc @ [ip] else address_loop kind ts (acc @ [ip]))"
    have a: "\<forall>ip \<in> set (acc @ [ip]). record_address kind ip" using Cons.prems(1) ip by simp
    show ?thesis
    proof (cases "length acc + 1 = 8")
      case True
      show ?thesis unfolding e if_P[OF True] using a True by simp
    next
      case False
      then have "length (acc @ [ip]) < 8" using Cons.prems(2) by simp
      show ?thesis unfolding e if_not_P[OF False] by (rule Cons.IH[OF a]) fact
    qed
  qed
qed simp

lemma translated_v6:
  assumes "translate_ipv4 answer b ip = Inr t"
  shows "to4 t = None \<and> db_ipv6 b \<noteq> ''''"
proof -
  obtain v4 r p x where t: "to4 ip = Some v4" "db_ipv6 b \<noteq> ''''" "discover_nat64_prefix (answer_addresses r) = Inr p"
    "synthesize_nat64 p (A4 v4) = Inr x" "t = addr_bytes x"
    using assms by (auto simp: translate_ipv4_def split: option.splits if_splits sum.splits)
  have "length v4 = 4" using t(1) by (auto simp: to4_def split: if_splits)
  then have "to4 (addr_bytes x) = None" using discovered_prefix[OF t(3)] synthesized_v6[of p v4 x] t(4) by blast
  then show ?thesis using t by simp
qed

lemma adapter_translated:
  "adapter_translate arpa a ip = Inr t \<Longrightarrow> to4 t = None \<and> source_ipv6 a \<noteq> ''''"
  using translated_v6 unfolding adapter_translate_def by (fastforce simp: adapter_dns_binding_def)

lemma adapter_translate_v6 [simp]: "v6_only (adapter_translate arpa a)"
  using adapter_translated by (auto simp: v6_only_def)

lemma nat64_loop_step:
  assumes "v6_only translate"
  shows "nat64_loop translate (t # ts) acc = nat64_loop translate ts acc \<or>
    (\<exists>e. nat64_loop translate (t # ts) acc = (acc, Some e)) \<or>
    (\<exists>t6. to4 t6 = None \<and>
      nat64_loop translate (t # ts) acc = (if length acc + 1 = 8 then (acc @ [t6], None) else nat64_loop translate ts (acc @ [t6])))"
  using assms by (auto simp: v6_only_def nat64_loop.simps(2) split: option.split sum.split)

lemma nat64_loop_spec:
  assumes tr: "v6_only translate"
  shows "\<forall>ip \<in> set acc. to4 ip = None \<Longrightarrow> length acc < 8 \<Longrightarrow>
    (\<forall>ip \<in> set (fst (nat64_loop translate ts acc)). to4 ip = None) \<and> length (fst (nat64_loop translate ts acc)) \<le> 8"
proof (induction ts arbitrary: acc)
  case (Cons t ts)
  show ?case
    using nat64_loop_step[OF tr, where t = t and ts = ts and acc = acc]
  proof (elim disjE exE conjE)
    assume e: "nat64_loop translate (t # ts) acc = nat64_loop translate ts acc"
    show ?thesis unfolding e by (rule Cons.IH[OF Cons.prems])
  next
    fix e
    assume e: "nat64_loop translate (t # ts) acc = (acc, Some e)"
    show ?thesis unfolding e using Cons.prems by simp
  next
    fix t6
    assume t6: "to4 t6 = None"
      and e: "nat64_loop translate (t # ts) acc = (if length acc + 1 = 8 then (acc @ [t6], None) else nat64_loop translate ts (acc @ [t6]))"
    have a: "\<forall>ip \<in> set (acc @ [t6]). to4 ip = None" using Cons.prems(1) t6 by simp
    show ?thesis
    proof (cases "length acc + 1 = 8")
      case True
      show ?thesis unfolding e if_P[OF True] using a True by simp
    next
      case False
      then have "length (acc @ [t6]) < 8" using Cons.prems(2) by simp
      show ?thesis unfolding e if_not_P[OF False] by (rule Cons.IH[OF a]) fact
    qed
  qed
qed simp

definition lookup_fits :: "adapter \<Rightarrow> dial_lookup \<Rightarrow> bool" where
  "lookup_fits a l \<longleftrightarrow> (if l = LookupA then source_ip a \<noteq> '''' else source_ipv6 a \<noteq> '''')"

lemma lookup_batch_spec:
  assumes "lookup_fits a l" "v6_only translate"
  shows "(\<forall>ip \<in> set (fst (lookup_batch translate l answer)). dialable a ip) \<and> length (fst (lookup_batch translate l answer)) \<le> 8"
proof (cases answer)
  case (Inr r)
  note n = nat64_loop_spec[OF assms(2), where acc = "[]" and ts = "answer_addresses r"]
  note d = address_loop_spec[of "[]" "if l = LookupA then RecordA else RecordAAAA" "answer_addresses r"]
  show ?thesis
    using n d assms(1) Inr
    by (cases l) (auto simp: lookup_batch_def case_prod_unfold Let_def lookup_fits_def dialable_def record_address_def)
qed (simp add: lookup_batch_def)

lemma dial_lookups_fit:
  "(\<forall>l \<in> set (dial_lookups h now a). lookup_fits a l) \<and> length (dial_lookups h now a) \<le> 2"
  by (auto simp: dial_lookups_def Let_def lookup_fits_def)

section \<open>The invariant\<close>

definition dial_ok :: "adapter \<Rightarrow> nat \<Rightarrow> dial_state \<Rightarrow> bool" where
  "dial_ok a n st \<longleftrightarrow> da_adapter st = a \<and> length (da_active st) \<le> 2 \<and>
     (length (da_active st) = 2 \<longrightarrow> da_pending st = []) \<and> (\<forall>l \<in> set (da_pending st). lookup_fits a l) \<and>
     (\<forall>ip \<in> set (da_offered st). dialable a ip) \<and> set (da_offered st) = set (da_queue st) \<union> set (da_launched st) \<and>
     set (da_active st) \<subseteq> set (da_launched st) \<and>
     length (da_launched st) + length (da_queue st) + 8 * length (da_pending st) \<le> n"

lemma dial_ok_launch: "dial_ok a n st \<Longrightarrow> may_launch st \<Longrightarrow> dial_ok a n (dial_launch st now)"
  by (cases "da_queue st") (auto simp: dial_ok_def may_launch_def dial_launch_def)

lemma dial_ok_settle [mux_inv]: "dial_ok a n st \<Longrightarrow> dial_ok a n (settle st)"
  by (simp add: settle_def dial_ok_launch)

lemma dial_ok_frame [simp]:
  "dial_ok a n (st\<lparr>da_now := t\<rparr>) = dial_ok a n st" "dial_ok a n (ask_nat64 st) = dial_ok a n st"
  by (simp_all add: dial_ok_def ask_nat64_def)

lemma length_remove1_Suc: "x \<in> set xs \<Longrightarrow> length xs = Suc (length (remove1 x xs))"
  by (induction xs) auto

lemma dial_ok_handle:
  assumes ok: "dial_ok a n st" and p: "possible st t ev" and tr: "v6_only translate"
  shows "dial_ok a n (fst (dial_handle translate st t ev)) \<and>
    (\<forall>ip. snd (dial_handle translate st t ev) = Some (Inr ip) \<longrightarrow> ip \<in> set (da_launched st)) \<and>
    set (da_launched st) \<subseteq> set (da_launched (fst (dial_handle translate st t ev)))"
proof (cases ev)
  case (LookupDone l answer)
  obtain ips err where b: "lookup_batch translate l answer = (ips, err)" by fastforce
  have l: "l \<in> set (da_pending st)" using p LookupDone by (simp add: possible_def)
  have batch: "(\<forall>ip \<in> set ips. dialable a ip) \<and> length ips \<le> 8"
    using lookup_batch_spec[of a l translate answer] l ok b tr by (auto simp: dial_ok_def)
  note len = length_remove1_Suc[OF l]
  have sub: "set (remove1 l (da_pending st)) \<subseteq> set (da_pending st)" by (rule set_remove1_subset)
  show ?thesis
    using ok batch LookupDone len sub b
    by (auto simp: dial_handle_def dial_ok_def ask_nat64_def Let_def)
next
  case (DialDone ip err ended)
  have ip: "ip \<in> set (da_active st)" using p DialDone by (simp add: possible_def)
  have r: "length (remove1 ip (da_active st)) < 2" "set (remove1 ip (da_active st)) \<subseteq> set (da_active st)"
    using ip ok by (auto simp: length_remove1 dial_ok_def set_remove1_subset)
  show ?thesis
    using ok r ip DialDone
    by (cases err) (auto simp: dial_handle_def dial_ok_def Let_def ask_nat64_def)
next
  case TimerFired
  then have "may_launch st" using p by (simp add: possible_def)
  then have "dial_ok a n (dial_launch st t)" by (rule dial_ok_launch[OF ok])
  then have "dial_ok a n (dial_launch (st\<lparr>da_now := t\<rparr>) t)" by (simp add: dial_ok_def dial_launch_def)
  then show ?thesis using TimerFired by (auto simp: dial_handle_def dial_launch_def ask_nat64_def)
next
  case (ContextDone e)
  then show ?thesis using ok by (auto simp: dial_handle_def)
qed

lemma dial_ok_run:
  "dial_ok a n st \<Longrightarrow> v6_only translate \<Longrightarrow>
   dial_ok a n (fst (dial_run translate st es)) \<and>
    (\<forall>ip. snd (dial_run translate st es) = Inr ip \<longrightarrow> ip \<in> set (da_launched (fst (dial_run translate st es))))"
proof (induction translate st es rule: dial_run.induct)
  case (1 translate st)
  then show ?case by (auto simp: no_success_def intro: mux_inv)
next
  case (2 translate st t ev es)
  have s: "dial_ok a n (settle st)" using 2(3) by (rule mux_inv)
  obtain st2 r where h: "dial_handle translate (settle st) t ev = (st2, r)" by fastforce
  consider "dial_finished st" | "\<not> dial_finished st" "\<not> possible (settle st) t ev"
    | "\<not> dial_finished st" "possible (settle st) t ev" by blast
  then show ?case
  proof cases
    case 1
    then show ?thesis using 2(3) by (simp add: no_success_def)
  next
    case skip: 2
    then show ?thesis using 2(1)[OF skip(1) refl skip(2) s 2(4)] by (simp add: Let_def)
  next
    case 3
    note ok = dial_ok_handle[OF s 3(2) 2(4), unfolded h fst_conv snd_conv]
    show ?thesis
    proof (cases r)
      case None
      then show ?thesis
        using 2(2)[OF 3(1) refl _ h[symmetric] None _ 2(4)] 3 ok by (simp add: Let_def h)
    next
      case (Some x)
      then show ?thesis using ok 3 by (auto simp: Let_def h)
    qed
  qed
qed


section \<open>Starting\<close>

text \<open>An IPv6 target is given only to an adapter with an IPv6 source.\<close>

definition literal_fits :: "adapter \<Rightarrow> bytes option \<Rightarrow> bool" where
  "literal_fits a literal \<longleftrightarrow> (case literal of None \<Rightarrow> True | Some ip \<Rightarrow> to4 ip = None \<longrightarrow> source_ipv6 a \<noteq> '''')"

lemma dial_start_ok:
  assumes "dial_start (adapter_translate arpa a) resolver s now a literal = Inr st" "literal_fits a literal"
  shows "dial_ok a 16 st"
proof (cases literal)
  case None
  then have st: "da_pending st = dial_lookups (sc_health s) now a" "da_adapter st = a" "da_queue st = []" "da_active st = []"
    "da_launched st = []" "da_offered st = []"
    using assms(1) by (auto simp: dial_start_def Let_def split: if_splits)
  show ?thesis using dial_lookups_fit[of "sc_health s" now a] by (simp add: dial_ok_def st)
next
  case (Some ip)
  show ?thesis
    using assms adapter_translated[of arpa a ip] unfolding Some
    by (auto simp: dial_start_def dial_ok_def dialable_def literal_fits_def Let_def split: if_splits sum.splits)
qed

section \<open>Progress\<close>

text \<open>Failures are counted: every address dialed is still in flight or has failed.\<close>

definition accounted :: "dial_state \<Rightarrow> bool" where
  "accounted st \<longleftrightarrow> length (da_launched st) \<le> length (da_active st) + length (da_failures st)"

lemma accounted_frame [simp]:
  "accounted (ask_nat64 st) = accounted st" "accounted (dial_launch st t) = accounted st" "accounted (settle st) = accounted st"
  by (simp_all add: accounted_def ask_nat64_def dial_launch_def settle_def)

lemma accounted_handle:
  assumes "accounted st" "possible st t ev" "snd (dial_handle translate st t ev) = None"
  shows "accounted (fst (dial_handle translate st t ev))"
proof (cases ev)
  case (DialDone ip err ended)
  then have "length (da_active st) = Suc (length (remove1 ip (da_active st)))"
    using assms(2) length_remove1_Suc[of ip "da_active st"] by (simp add: possible_def)
  then show ?thesis using assms DialDone by (cases err) (auto simp: dial_handle_def accounted_def ask_nat64_def Let_def)
next
  case TimerFired
  have "accounted (st\<lparr>da_now := t\<rparr>)" using assms(1) by (simp add: accounted_def)
  then show ?thesis using TimerFired by (simp add: dial_handle_def)
qed (use assms in \<open>auto simp: dial_handle_def accounted_def ask_nat64_def Let_def case_prod_unfold\<close>)

lemma accounted_run:
  "accounted st \<Longrightarrow> snd (dial_run translate st es) = Inl e \<Longrightarrow> dial_finished (fst (dial_run translate st es)) \<Longrightarrow>
   \<forall>x \<in> set es. \<forall>c. snd x \<noteq> ContextDone c \<Longrightarrow> accounted (fst (dial_run translate st es))"
proof (induction translate st es rule: dial_run.induct)
  case (2 translate st t ev es)
  have s: "accounted (settle st)" using 2(3) by simp
  obtain st2 r where h: "dial_handle translate (settle st) t ev = (st2, r)" by fastforce
  consider "dial_finished st" | "\<not> dial_finished st" "\<not> possible (settle st) t ev"
    | "\<not> dial_finished st" "possible (settle st) t ev" by blast
  then show ?case
  proof cases
    case 1
    then show ?thesis using 2(3) by (simp add: no_success_def)
  next
    case skip: 2
    then show ?thesis using 2(1)[OF skip(1) refl skip(2) s] 2(4-6) by (simp add: Let_def)
  next
    case 3
    show ?thesis
    proof (cases r)
      case None
      then show ?thesis
        using 2(2)[OF 3(1) refl _ h[symmetric] None] accounted_handle[OF s 3(2), of translate] 3 2(4-6) by (simp add: Let_def h)
    next
      case (Some x)
      then have "(\<exists>c. ev = ContextDone c) \<or> (\<exists>ip. x = Inr ip)"
        using h by (cases ev) (auto simp: dial_handle_def Let_def split: option.splits prod.splits)
      then show ?thesis using Some 3 2(4,6) by (auto simp: Let_def h)
    qed
  qed
qed (auto simp: no_success_def)


text \<open> C37. A dial does not give up early: while it is not finished it always waits for a lookup or a socket of its own, and when it ends with an error before its context ends, every address the lookups offered was dialed and every dial failed. \<close>

theorem dial_gives_up_late:
  assumes "dial_start (adapter_translate arpa a) resolver s now a literal = Inr st" and "literal_fits a literal"
    and "dial_run (adapter_translate arpa a) st events = (st', Inl e)"
    and "\<forall>x \<in> set events. \<forall>c. snd x \<noteq> ContextDone c"
  shows "if dial_finished st' then set (da_offered st') = set (da_launched st') \<and> length (da_launched st') \<le> length (da_failures st')
         else da_pending (settle st') \<noteq> [] \<or> da_active (settle st') \<noteq> []"
proof (cases "dial_finished st'")
  case True
  have "dial_ok a 16 st'" using dial_ok_run[OF dial_start_ok[OF assms(1,2)] adapter_translate_v6[of arpa a], where es = events] assms(3) by simp
  moreover have "accounted st"
    using assms(1) by (auto simp: dial_start_def accounted_def Let_def split: option.splits if_splits sum.splits)
  then have "accounted st'" using accounted_run[of st "adapter_translate arpa a" events e] assms(3,4) True by simp
  ultimately show ?thesis using True by (auto simp: dial_ok_def accounted_def dial_finished_def)
next
  case False
  then show ?thesis by (auto simp: dial_finished_def settle_def may_launch_def dial_launch_def)
qed


section \<open>A concrete dial\<close>

definition dual_nic :: adapter where
  "dual_nic = \<lparr>name = ''wan'', source_ip = ''10.0.0.2'', if_index = 3, source_ipv6 = ''2001:db8::2'', ipv6_if_index = 3,
               weight = 1, dns_servers = []\<rparr>"

definition lookup_answer :: "string list \<Rightarrow> dns_result" where
  "lookup_answer ips = \<lparr>dr_addresses = ips, dr_domain = '''', dr_address = '''', dr_type = None, dr_adapter = '''',
     dr_transport = ''udp'', dr_server = '''', dr_doh_path = '''', dr_cached = False, dr_expires = None\<rparr>"

definition dial_example :: "dial_error + dial_state" where
  "dial_example = dial_start (adapter_translate (\<lambda>_. Inl plain_error) dual_nic) True
     (new_scheduler [dual_nic] False None) 1 dual_nic None"

text \<open>The A answer arrives, its first address is refused, and the AAAA lookup fails.\<close>

definition failing_events :: "(time \<times> dial_event) list" where
  "failing_events = [(2, LookupDone LookupA (Inr (lookup_answer [''127.0.0.1'', ''224.0.0.1'']))),
     (3, DialDone (v4_prefix @ [127, 0, 0, 1]) (Some plain_error) False), (4, LookupDone LookupAAAA (Inl plain_error))]"

lemma dial_example_start: "\<exists>st. dial_example = Inr st"
  by (simp add: dial_example_def dial_start_def Let_def)


lemma failing_run:
  "case dial_example of Inl _ \<Rightarrow> False
   | Inr st \<Rightarrow> (case dial_run (adapter_translate (\<lambda>_. Inl plain_error) dual_nic) st failing_events of
       (st', r) \<Rightarrow> dial_finished st' \<and> da_launched st' = [v4_prefix @ [127, 0, 0, 1]] \<and> r = Inl plain_error)"
  by code_simp

theorem dial_gives_up_late_witness:
  "case dial_example of Inl _ \<Rightarrow> False
   | Inr st \<Rightarrow> set (da_offered (fst (dial_run (adapter_translate (\<lambda>_. Inl plain_error) dual_nic) st failing_events))) =
       {v4_prefix @ [127, 0, 0, 1]}"
proof -
  obtain st where st: "dial_example = Inr st" using dial_example_start ..
  obtain st' where run: "dial_run (adapter_translate (\<lambda>_. Inl plain_error) dual_nic) st failing_events = (st', Inl plain_error)"
    "dial_finished st'" "da_launched st' = [v4_prefix @ [127, 0, 0, 1]]"
    using failing_run unfolding st sum.case by (auto split: prod.splits)
  show ?thesis
    unfolding st sum.case using dial_gives_up_late[OF st[unfolded dial_example_def] _ run(1)] run
    by (simp add: literal_fits_def failing_events_def)
qed

end
