(* ===== verification/DialFacts.thy ===== *)
theory DialFacts
  imports Dial DualStackFacts
begin

text \<open>
  What a dial over several adapters does to the tables it shares with all other flows. Blame
  is the evidence the health table keeps against an adapter: counted timeouts, their targets
  and the failed domains. \<open>blames_less\<close> says an operation adds none for an adapter; the
  leases are followed by \<open>lease_effect\<close> and the loop invariant \<open>leases_closed\<close>.
\<close>

section \<open>Blame\<close>

definition no_more_blame :: "adapter_health \<Rightarrow> adapter_health \<Rightarrow> bool" where
  "no_more_blame st' st \<longleftrightarrow> timeout_failures st' \<in> {0, timeout_failures st} \<and>
     timeout_targets st' \<subseteq> timeout_targets st \<and> domains st' \<subseteq>\<^sub>m domains st"

definition blames_less :: "health_table \<Rightarrow> health_table \<Rightarrow> string \<Rightarrow> bool" where
  "blames_less h' h n \<longleftrightarrow>
     (case ht_adapters h n of None \<Rightarrow> ht_adapters h' n = None
      | Some st \<Rightarrow> (\<exists>st'. ht_adapters h' n = Some st' \<and> no_more_blame st' st))"

lemma no_more_blame_refl [simp]: "no_more_blame st st"
  by (simp add: no_more_blame_def)

lemma no_more_blame_trans: "no_more_blame a b \<Longrightarrow> no_more_blame b c \<Longrightarrow> no_more_blame a c"
  by (auto simp: no_more_blame_def intro: map_le_trans)

lemma blames_less_same: "ht_adapters h' n = ht_adapters h n \<Longrightarrow> blames_less h' h n"
  by (simp add: blames_less_def split: option.split)

lemma blames_less_refl [simp]: "blames_less h h n"
  by (simp add: blames_less_same)

lemma blames_less_trans: "blames_less a b n \<Longrightarrow> blames_less b c n \<Longrightarrow> blames_less a c n"
  using no_more_blame_trans by (fastforce simp: blames_less_def split: option.splits)

lemma blames_less_upd:
  "(n = m \<Longrightarrow> \<exists>st. ht_adapters h m = Some st \<and> no_more_blame st' st) \<Longrightarrow>
   blames_less (h\<lparr>ht_adapters := (ht_adapters h)(m \<mapsto> st')\<rparr>) h n"
  by (auto simp: blames_less_def split: option.split)

lemma expire_loop_le: "snd (expire_loop f now x m) \<subseteq>\<^sub>m m"
proof (induction f now x m rule: expire_loop.induct)
  case (2 f now x m)
  have "m(k := None) \<subseteq>\<^sub>m m" for k by (simp add: map_le_def)
  then show ?case using 2 map_le_trans by (fastforce split: option.split)
qed simp

lemma prune_blame: "no_more_blame (prune_expired_domains st now) st"
  using expire_loop_le[of "idx_len (domain_expiry st)" now "domain_expiry st" "domains st"]
  by (simp add: no_more_blame_def prune_expired_domains_def case_prod_unfold Let_def)

lemma partition_blame: "blames_less (fst (partition_adapters h now excluded d as)) h n"
proof (induction h now excluded d as rule: partition_adapters.induct)
  case (2 h now excluded d a as)
  show ?case
  proof (cases "name a \<in> excluded")
    case False
    show ?thesis
    proof (cases "ht_adapters h (name a)")
      case None
      then show ?thesis using 2(2) False by simp
    next
      case (Some st0)
      let ?g = "h\<lparr>ht_adapters := (ht_adapters h)(name a \<mapsto> prune_expired_domains st0 now)\<rparr>"
      have "blames_less ?g h n" by (rule blames_less_upd) (simp add: Some prune_blame)
      moreover have "blames_less (fst (partition_adapters ?g now excluded d as)) ?g n"
        using 2(3)[OF False Some refl refl refl] by simp
      ultimately show ?thesis using blames_less_trans False Some by (simp add: case_prod_unfold Let_def)
    qed
  qed (use 2(1) in simp)
qed simp

lemma candidates_blame: "blames_less (snd (candidates h now as excluded d)) h n"
  using partition_blame by (simp add: candidates_def case_prod_unfold Let_def)

lemma mark_failure_blame: "blames_less (sc_health (mark_failure s now m)) (sc_health s) n"
  by (auto simp: mark_failure_def record_local_failure_def no_more_blame_def cool_down_def Let_def
      intro!: blames_less_upd split: option.split)

lemma mark_success_blame: "blames_less (sc_health (mark_success s now m d)) (sc_health s) n"
  by (auto simp: mark_success_def record_success_def no_more_blame_def Let_def map_le_def
      intro!: blames_less_upd split: option.split)

lemma comparative_blame:
  "n \<noteq> m \<Longrightarrow> blames_less (record_comparative_domain_failure h now m d) h n"
  "n \<noteq> m \<Longrightarrow> blames_less (record_comparative_timeout h now m t) h n"
  by (auto simp: record_comparative_domain_failure_def record_comparative_timeout_def Let_def
      intro!: blames_less_upd split: option.split)

section \<open>Leases\<close>

text \<open>Acquiring hands out at most one lease, a new and unfinished one, and leaves the others.\<close>

definition lease_effect :: "perf_table option \<Rightarrow> nat option \<Rightarrow> perf_table option \<Rightarrow> bool" where
  "lease_effect p lease p' \<longleftrightarrow>
     (case (p, lease) of
        (Some q, Some l) \<Rightarrow> (\<exists>q'. p' = Some q' \<and> l = pf_next_lease q \<and> pf_next_lease q' = l + 1 \<and>
           (\<forall>x. x \<noteq> l \<longrightarrow> pf_lease_store q' x = pf_lease_store q x))
      | (None, Some l) \<Rightarrow> False
      | _ \<Rightarrow> p' = p)"

lemma pf_decide_frame:
  "pf_lease_store (snd (snd (pf_decide p now cs adaptive fb pools))) = pf_lease_store p"
  "pf_next_lease (snd (snd (pf_decide p now cs adaptive fb pools))) = pf_next_lease p"
  by (simp_all add: pf_decide_def Let_def case_prod_unfold)

lemma pf_link_frame:
  "pf_lease_store (snd (pf_link p a now)) = pf_lease_store p" "pf_next_lease (snd (pf_link p a now)) = pf_next_lease p"
  by (simp_all add: pf_link_def Let_def split: option.split)

lemma pf_acquire_effect:
  "lease_effect (Some p) (Some (fst (snd (pf_acquire p now cs adaptive fb pools)))) (Some (snd (snd (pf_acquire p now cs adaptive fb pools))))"
  by (simp add: lease_effect_def pf_acquire_def Let_def case_prod_unfold pf_decide_frame pf_link_frame)

text \<open>
  Every way through \<open>acquire_tcp\<close> ends in a state that differs from the first one in the
  health table after a selection, in the latency table and rotation, and in the lease.
\<close>

lemma select_locked_blame:
  "blames_less (sc_health (snd (select_locked s now excluded d))) (sc_health s) n"
  using candidates_blame[of "sc_health s" now "sc_adapters s" excluded d n]
  by (simp add: select_locked_def latency_pick_def case_prod_unfold Let_def)

lemma lease_effect_none [simp]: "lease_effect p None p"
  by (simp add: lease_effect_def split: option.split)

lemma tables_ok_lease:
  "tables_ok s \<Longrightarrow> sc_performance s = Some p \<Longrightarrow>
   tables_ok (s\<lparr>sc_performance := Some (snd (snd (pf_acquire p now cs adaptive fb pools)))\<rparr>)"
  using table_ok_acquire by (auto simp: tables_ok_def)

lemma tables_ok_cong:
  "tables_ok s \<Longrightarrow> health_ok (sc_health s') \<Longrightarrow> sc_performance s' = sc_performance s \<Longrightarrow>
   sc_udp_performance s' = sc_udp_performance s \<Longrightarrow> tables_ok s'"
  by (simp add: tables_ok_def)

lemma acquire_tcp_effect:
  assumes ok: "tables_ok s" and a: "acquire_tcp s now excluded domain target = (choice, lease, s')"
  shows "tables_ok s' \<and> sc_adapters s' = sc_adapters s \<and> blames_less (sc_health s') (sc_health s) n \<and>
    lease_effect (sc_performance s) lease (sc_performance s')"
proof -
  have h: "health_ok (sc_health s)" using ok by (simp add: tables_ok_def)
  obtain cs h' where c: "candidates (sc_health s) now (sc_adapters s) excluded domain = (cs, h')" by fastforce
  have h': "health_ok h'" "blames_less h' (sc_health s) n"
    using candidates_refines(2)[OF h, of now "sc_adapters s" excluded domain]
      candidates_blame[of "sc_health s" now "sc_adapters s" excluded domain n] c by simp_all
  show ?thesis
  proof (cases "uses_latency s \<and> target \<noteq> None")
    case True
    then obtain t where t: "target = Some t" "uses_latency s" by auto
    obtain chosen s1 where l: "latency_pick (s\<lparr>sc_health := h'\<rparr>) now cs t = (chosen, s1)" by fastforce
    have s1: "sc_performance s1 = sc_performance s" "sc_udp_performance s1 = sc_udp_performance s"
      "sc_adapters s1 = sc_adapters s" "sc_health s1 = h'"
      using l by (auto simp: latency_pick_def Let_def case_prod_unfold)
    have ok1: "tables_ok s1" "tables_ok (s\<lparr>sc_health := h'\<rparr>)" using tables_ok_cong[OF ok] h' s1 by auto
    have blame1: "blames_less (sc_health s1) (sc_health s) n" using h' s1(4) by simp
    show ?thesis
      using a h'(2) blame1 s1(1-3) ok1 tables_ok_lease[OF ok1(1)] pf_acquire_effect
      by (auto simp: acquire_tcp_def c t l Let_def case_prod_unfold split: if_splits option.splits)
  next
    case False
    obtain fb s1 where sl: "select_locked s now excluded domain = (fb, s1)" by fastforce
    note spec = select_locked_spec[OF h, of now excluded domain, unfolded sl c fst_conv snd_conv]
    have ok1: "tables_ok s1" using tables_ok_cong[OF ok] h'(1) spec by simp
    have blame1: "blames_less (sc_health s1) (sc_health s) n" using h'(2) spec(2) by simp
    have s1: "sc_adapters s1 = sc_adapters s" "sc_performance s1 = sc_performance s" using spec by simp_all
    obtain cs2 h2 where c2: "candidates (sc_health s1) now (sc_adapters s1) excluded domain = (cs2, h2)" by fastforce
    have h2: "health_ok h2" "blames_less h2 (sc_health s) n"
      using candidates_refines(2)[of "sc_health s1" now "sc_adapters s1" excluded domain] ok1 c2 blames_less_trans[OF _ blame1]
        candidates_blame[of "sc_health s1" now "sc_adapters s1" excluded domain n] by (simp_all add: tables_ok_def)
    have ok2: "tables_ok (s1\<lparr>sc_health := h2\<rparr>)" by (rule tables_ok_cong[OF ok1]) (simp_all add: h2)
    have "tables_ok s' \<and> sc_adapters s' = sc_adapters s1 \<and> blames_less (sc_health s') (sc_health s) n \<and>
        lease_effect (sc_performance s1) lease (sc_performance s')"
      using False a blame1 h2(2) ok1 ok2 tables_ok_lease[OF ok2] pf_acquire_effect
      by (auto simp: acquire_tcp_def sl c2 Let_def case_prod_unfold split: if_splits option.splits)
    then show ?thesis using s1 by simp
  qed
qed


section \<open>One attempt\<close>

text \<open>A dial touches the families of the health table and the latency table only.\<close>

definition same_tables :: "scheduler \<Rightarrow> scheduler \<Rightarrow> bool" where
  "same_tables s s' \<longleftrightarrow> ht_adapters (sc_health s') = ht_adapters (sc_health s) \<and> sc_adapters s' = sc_adapters s \<and>
     sc_performance s' = sc_performance s \<and> sc_udp_performance s' = sc_udp_performance s"

lemma same_tables_refl [simp]: "same_tables s s"
  by (simp add: same_tables_def)

lemma same_tables_trans: "same_tables s t \<Longrightarrow> same_tables t u \<Longrightarrow> same_tables s u"
  by (simp add: same_tables_def)

lemma same_tables_record: "same_tables (da_sched st) (record_dial st t ip ok)"
  by (simp add: same_tables_def record_dial_def)

lemma same_tables_watch: "same_tables s (watch_latency s t x)"
  by (simp add: same_tables_def watch_latency_def)

lemma dial_sched_frame [simp]:
  "da_sched (ask_nat64 st) = da_sched st" "da_sched (settle st) = da_sched st" "da_sched (dial_launch st t) = da_sched st"
  by (simp_all add: ask_nat64_def settle_def dial_launch_def)

lemma record_dial_frame [simp]:
  "record_dial (st\<lparr>da_now := n\<rparr>) t ip ok = record_dial st t ip ok"
  "record_dial (st\<lparr>da_active := x\<rparr>) t ip ok = record_dial st t ip ok"
  by (simp_all add: record_dial_def)

lemma dial_handle_tables: "same_tables (da_sched st) (da_sched (fst (dial_handle translate st t ev)))"
  using same_tables_record same_tables_trans[OF same_tables_record same_tables_watch]
  by (cases ev) (auto simp: dial_handle_def Let_def case_prod_unfold split: option.split)

lemma dial_run_tables: "same_tables (da_sched st) (da_sched (fst (dial_run translate st es)))"
proof (induction translate st es rule: dial_run.induct)
  case (2 translate st t ev es)
  obtain st2 r where h: "dial_handle translate (settle st) t ev = (st2, r)" by fastforce
  have 1: "same_tables (da_sched st) (da_sched st2)" using dial_handle_tables[of "settle st" translate t ev] h by simp
  show ?case
    using 2(1)[OF _ refl] 2(2)[OF _ refl _ h[symmetric]] same_tables_trans[OF 1] 1
    by (auto simp: Let_def h split: option.split)
qed simp

lemma dial_adapter_targets_spec:
  assumes "literal_fits a literal" "dial_adapter_targets arpa resolver s now a literal es = (s', r)"
  shows "same_tables s s' \<and> (\<forall>ip. r = Inr ip \<longrightarrow> dialable a ip)"
proof (cases "dial_start (adapter_translate arpa a) resolver s now a literal")
  case (Inl e)
  then show ?thesis using assms(2) by (auto simp: dial_adapter_targets_def)
next
  case (Inr st)
  obtain st' r' where run: "dial_run (adapter_translate arpa a) st es = (st', r')" by fastforce
  have "da_sched st = s" using Inr by (auto simp: dial_start_def Let_def split: option.splits if_splits sum.splits)
  moreover have "s' = da_sched st'" "r' = r" using assms(2) Inr run by (simp_all add: dial_adapter_targets_def)
  ultimately show ?thesis
    using dial_run_tables[of st "adapter_translate arpa a" es] run
      dial_ok_run[OF dial_start_ok[OF Inr assms(1)] adapter_translate_v6[of arpa a], where es = es]
    by (auto simp: dial_ok_def)
qed

lemma same_tables_ok: "same_tables s s' \<Longrightarrow> tables_ok s \<Longrightarrow> tables_ok s'"
  by (simp add: same_tables_def tables_ok_def health_ok_def)

lemma same_tables_blame: "same_tables s s' \<Longrightarrow> blames_less (sc_health s') (sc_health s) n"
  by (simp add: same_tables_def blames_less_same)

section \<open>Leases through the loop\<close>

definition leases_closed :: "nat \<Rightarrow> scheduler \<Rightarrow> nat option \<Rightarrow> bool" where
  "leases_closed n0 s pending \<longleftrightarrow>
     (case sc_performance s of
        None \<Rightarrow> pending = None
      | Some p \<Rightarrow> n0 \<le> pf_next_lease p \<and> (\<forall>l. pending = Some l \<longrightarrow> n0 \<le> l \<and> l < pf_next_lease p) \<and>
          (\<forall>l. n0 \<le> l \<and> l < pf_next_lease p \<and> \<not> ls_finished (pf_lease_store p l) \<longrightarrow> pending = Some l))"

lemma pf_finish_effect:
  "pf_next_lease (pf_finish p now (Some l)) = pf_next_lease p"
  "ls_finished (pf_lease_store (pf_finish p now (Some l)) x) = (x = l \<or> ls_finished (pf_lease_store p x))"
  by (auto simp: pf_finish_def Let_def)

lemma pf_attach_effect:
  "pf_next_lease (pf_attach p now l) = pf_next_lease p"
  "ls_finished (pf_lease_store (pf_attach p now l) x) = ls_finished (pf_lease_store p x)"
  by (auto simp: pf_attach_def Let_def)

lemma leases_closed_acquire:
  assumes "leases_closed n0 s None" "lease_effect (sc_performance s) lease (sc_performance s')"
  shows "leases_closed n0 s' lease"
  using assms
  by (cases "sc_performance s"; cases lease)
    (fastforce simp: leases_closed_def lease_effect_def less_Suc_eq split: option.splits)+

lemma leases_closed_open:
  assumes "leases_closed n0 s q" "sc_performance s = Some p"
  shows "n0 \<le> l \<Longrightarrow> l < pf_next_lease p \<Longrightarrow> \<not> ls_finished (pf_lease_store p l) \<Longrightarrow> q = Some l"
  using assms(1) unfolding leases_closed_def assms(2) option.case by blast

lemma leases_closed_finished:
  assumes "leases_closed n0 s (Some l)" "sc_performance s = Some p"
  shows "l < pf_next_lease p" "leases_closed n0 (s\<lparr>sc_performance := Some (pf_finish p now (Some l))\<rparr>) None"
proof -
  have p: "n0 \<le> pf_next_lease p" "l < pf_next_lease p"
    "\<And>l'. n0 \<le> l' \<Longrightarrow> l' < pf_next_lease p \<Longrightarrow> \<not> ls_finished (pf_lease_store p l') \<Longrightarrow> l' = l"
    using assms(1) unfolding leases_closed_def assms(2) by auto
  show "l < pf_next_lease p" by (rule p)
  show "leases_closed n0 (s\<lparr>sc_performance := Some (pf_finish p now (Some l))\<rparr>) None"
    using p unfolding leases_closed_def by (auto simp: pf_finish_effect)
qed

lemma tables_ok_performance:
  "tables_ok s \<Longrightarrow> table_ok q \<Longrightarrow> tables_ok (s\<lparr>sc_performance := Some q\<rparr>)"
  by (simp add: tables_ok_def)

lemma finish_pending_some:
  "us_pending u = Some l \<Longrightarrow> sc_performance (us_sched u) = Some p \<Longrightarrow>
   finish_pending now u =
     u\<lparr>us_sched := (us_sched u)\<lparr>sc_performance := Some (pf_finish p now (Some l))\<rparr>, us_pending := None\<rparr>"
  by (simp add: finish_pending_def on_tcp_table_def)

lemma leases_closed_pending: "leases_closed n0 s (Some l) \<Longrightarrow> \<exists>p. sc_performance s = Some p"
  by (cases "sc_performance s") (simp_all add: leases_closed_def)

lemma leases_closed_finish:
  assumes "leases_closed n0 (us_sched u) (us_pending u)" "tables_ok (us_sched u)"
  shows "leases_closed n0 (us_sched (finish_pending now u)) None \<and> tables_ok (us_sched (finish_pending now u)) \<and>
    us_pending (finish_pending now u) = None"
proof (cases "us_pending u")
  case None
  then show ?thesis using assms by (simp add: finish_pending_def)
next
  case (Some l)
  then obtain p where p: "sc_performance (us_sched u) = Some p"
    using leases_closed_pending[OF assms(1)[unfolded Some]] by blast
  note l = leases_closed_finished[OF assms(1)[unfolded Some] p]
  have "table_ok p" using assms(2) p by (simp add: tables_ok_def)
  then have "tables_ok ((us_sched u)\<lparr>sc_performance := Some (pf_finish p now (Some l))\<rparr>)"
    by (intro tables_ok_performance[OF assms(2)] table_ok_finish l(1))
  then show ?thesis unfolding finish_pending_some[OF Some p] using l(2) by simp
qed

lemma finish_pending_frame [simp]:
  "sc_adapters (us_sched (finish_pending now u)) = sc_adapters (us_sched u)"
  "sc_health (us_sched (finish_pending now u)) = sc_health (us_sched u)"
  "us_excluded (finish_pending now u) = us_excluded u" "us_tried (finish_pending now u) = us_tried u"
  "us_comparative (finish_pending now u) = us_comparative u" "us_timed_out (finish_pending now u) = us_timed_out u"
  by (simp_all add: finish_pending_def on_tcp_table_def split: option.split)


section \<open>The loop over adapters\<close>

definition upstream_ok :: "nat \<Rightarrow> scheduler \<Rightarrow> string set \<Rightarrow> upstream_state \<Rightarrow> bool" where
  "upstream_ok n0 s0 ex u \<longleftrightarrow> tables_ok (us_sched u) \<and> sc_adapters (us_sched u) = sc_adapters s0 \<and>
     leases_closed n0 (us_sched u) (us_pending u) \<and> us_excluded u = ex \<union> name ` set (us_tried u) \<and>
     distinct (map name (us_tried u)) \<and> (\<forall>a \<in> set (us_tried u). a \<in> set (sc_adapters s0) \<and> name a \<notin> ex) \<and>
     set (us_comparative u) \<union> set (us_timed_out u) \<subseteq> name ` set (us_tried u)"

definition blame_free :: "scheduler \<Rightarrow> upstream_state \<Rightarrow> bool" where
  "blame_free s0 u \<longleftrightarrow> (\<forall>n. blames_less (sc_health (us_sched u)) (sc_health s0) n)"

lemma foldl_blame:
  assumes "\<And>h m. n \<noteq> m \<Longrightarrow> blames_less (f h m) h n" "n \<notin> set ms"
  shows "blames_less (foldl f h ms) h n"
  using assms(2)
proof (induction ms arbitrary: h)
  case (Cons m ms)
  then show ?case using blames_less_trans[OF Cons.IH[of "f h m"] assms(1)[of m h]] by simp
qed simp

lemma foldl_health_ok:
  "(\<And>h m. health_ok h \<Longrightarrow> health_ok (f h m)) \<Longrightarrow> health_ok h \<Longrightarrow> health_ok (foldl f h ms)"
  by (induction ms arbitrary: h) simp_all

lemma record_evidence_spec:
  "health_ok h \<Longrightarrow> health_ok (record_evidence now domain host literal u h)"
  "n \<notin> set (us_comparative u) \<union> set (us_timed_out u) \<Longrightarrow> blames_less (record_evidence now domain host literal u h) h n"
proof -
  let ?d = "\<lambda>h m. record_comparative_domain_failure h now m domain"
  let ?t = "\<lambda>h m. record_comparative_timeout h now m (timeout_target_key host literal)"
  show "health_ok (record_evidence now domain host literal u h)" if "health_ok h"
    unfolding record_evidence_def Let_def
    by (intro foldl_health_ok that record_comparative_timeout_ok record_comparative_domain_failure_ok)
  assume n: "n \<notin> set (us_comparative u) \<union> set (us_timed_out u)"
  have "blames_less (foldl ?d h (us_comparative u)) h n"
    by (rule foldl_blame) (use comparative_blame(1) n in auto)
  moreover have "blames_less (foldl ?t g (us_timed_out u)) g n" for g
    by (rule foldl_blame) (use comparative_blame(2) n in auto)
  ultimately show "blames_less (record_evidence now domain host literal u h) h n"
    unfolding record_evidence_def Let_def using blames_less_trans by blast
qed

lemma mark_tables_ok:
  "tables_ok s \<Longrightarrow> tables_ok (mark_failure s now m)" "tables_ok s \<Longrightarrow> tables_ok (mark_success s now m d)"
  using record_local_failure_ok record_success_ok by (simp_all add: tables_ok_def mark_failure_def mark_success_def)

text \<open>The state after the choice and the dial of one attempt.\<close>

lemma attempt_ok:
  assumes u: "upstream_ok n0 s0 ex u" and b: "blame_free s0 u" and fits: "\<And>a. a \<in> set (sc_adapters s0) \<Longrightarrow> name a \<notin> ex \<Longrightarrow> literal_fits a literal"
    and a: "acquire_tcp (us_sched (finish_pending t u)) t (us_excluded u) domain (Some host) = (Some a, lease, s1)"
    and d: "dial_adapter_targets arpa resolver s1 t a literal es = (s2, r)"
  defines "u2 \<equiv> (finish_pending t u)\<lparr>us_pending := lease, us_sched := s2, us_excluded := insert (name a) (us_excluded u),
                      us_tried := us_tried u @ [a]\<rparr>"
  shows "upstream_ok n0 s0 ex u2 \<and> blame_free s0 u2 \<and> name a \<notin> name ` set (us_tried u) \<and> (\<forall>ip. r = Inr ip \<longrightarrow> dialable a ip)"
proof -
  let ?s = "us_sched (finish_pending t u)"
  have fin: "leases_closed n0 ?s None" "tables_ok ?s"
    using leases_closed_finish[of n0 u t] u by (simp_all add: upstream_ok_def)
  note eff = acquire_tcp_effect[OF fin(2) a]
  have "handed_out ?s t (us_excluded u) domain (Some a)"
    using acquire_tcp_in[OF fin(2), of t "us_excluded u" domain "Some host"] a by (intro handed_outI) simp
  then have mem: "a \<in> set (sc_adapters s0)" "name a \<notin> us_excluded u" using u by (auto simp: handed_out_def upstream_ok_def)
  then have "literal_fits a literal" using fits u by (auto simp: upstream_ok_def)
  note spec = dial_adapter_targets_spec[OF this d]
  have lc: "leases_closed n0 s2 lease"
    using leases_closed_acquire[OF fin(1)] eff spec by (auto simp: leases_closed_def same_tables_def)
  have bl: "blames_less (sc_health s2) (sc_health s0) n" for n
    using blames_less_trans[OF same_tables_blame blames_less_trans[OF eff[THEN conjunct2, THEN conjunct2, THEN conjunct1]]]
      spec b by (simp add: blame_free_def)
  have ok: "tables_ok s2" using same_tables_ok eff spec by blast
  have ad: "sc_adapters s2 = sc_adapters s0" using eff spec u by (simp add: same_tables_def upstream_ok_def)
  have ex: "us_excluded u = ex \<union> name ` set (us_tried u)" using u by (simp add: upstream_ok_def)
  have ev: "set (us_comparative u) \<union> set (us_timed_out u) \<subseteq> name ` set (us_tried u)" using u by (simp add: upstream_ok_def)
  show ?thesis
    using u lc bl ok ad mem ev spec unfolding upstream_ok_def blame_free_def u2_def ex by auto
qed


lemma attempt_failed_ok:
  assumes "upstream_ok n0 s0 ex u" "blame_free s0 u" "name a \<in> name ` set (us_tried u)"
  shows "upstream_ok n0 s0 ex (attempt_failed now ended domain a e u) \<and> blame_free s0 (attempt_failed now ended domain a e u)"
proof -
  have f: "sc_adapters (mark_failure s now m) = sc_adapters s" "sc_performance (mark_failure s now m) = sc_performance s" for s m
    by (simp_all add: mark_failure_def)
  have l: "leases_closed n0 (mark_failure s now m) q = leases_closed n0 s q" for s m q
    by (simp add: leases_closed_def f)
  have b: "blames_less (sc_health (mark_failure (us_sched u) now m)) (sc_health s0) n" for m n
    using blames_less_trans[OF mark_failure_blame] assms(2) by (simp add: blame_free_def)
  show ?thesis
    using assms b mark_tables_ok(1) by (auto simp: attempt_failed_def Let_def upstream_ok_def blame_free_def f l)
qed

text \<open>Success: only the adapters tried before the last one may be blamed.\<close>

definition upstream_result :: "nat \<Rightarrow> scheduler \<Rightarrow> string set \<Rightarrow> upstream_state \<Rightarrow> adapter \<Rightarrow> bool" where
  "upstream_result n0 s0 ex u a \<longleftrightarrow> upstream_ok n0 s0 ex u \<and> (\<exists>before. us_tried u = before @ [a] \<and>
     (\<forall>n. n \<notin> name ` set before \<longrightarrow> blames_less (sc_health (us_sched u)) (sc_health s0) n))"

lemma on_tcp_table_attach:
  assumes "leases_closed n0 s (Some l)" "tables_ok s"
  shows "leases_closed n0 (on_tcp_table (\<lambda>p. pf_attach p now l) s) (Some l)" "tables_ok (on_tcp_table (\<lambda>p. pf_attach p now l) s)"
proof -
  obtain p where p: "sc_performance s = Some p" using leases_closed_pending[OF assms(1)] by blast
  show "leases_closed n0 (on_tcp_table (\<lambda>p. pf_attach p now l) s) (Some l)"
    using assms(1) unfolding leases_closed_def on_tcp_table_def p by (simp add: pf_attach_effect)
  show "tables_ok (on_tcp_table (\<lambda>p. pf_attach p now l) s)"
    using assms(2) table_ok_attach p by (simp add: tables_ok_def on_tcp_table_def)
qed

lemma attempt_succeeded_ok:
  assumes u: "upstream_ok n0 s0 ex u" and b: "blame_free s0 u" and t: "us_tried u = before @ [a]"
    and ev: "set (us_comparative u) \<union> set (us_timed_out u) \<subseteq> name ` set before"
  shows "upstream_result n0 s0 ex (attempt_succeeded now domain host literal a u) a"
proof -
  define s1 where "s1 = on_health (record_evidence now domain host literal u) (mark_success (us_sched u) now (name a) (Some domain))"
  have h: "sc_health s1 = record_evidence now domain host literal u (sc_health (mark_success (us_sched u) now (name a) (Some domain)))"
    and f: "sc_adapters s1 = sc_adapters (us_sched u)" "sc_performance s1 = sc_performance (us_sched u)"
    "sc_udp_performance s1 = sc_udp_performance (us_sched u)"
    by (simp_all add: s1_def on_health_def mark_success_def)
  have ok0: "tables_ok (mark_success (us_sched u) now (name a) (Some domain))"
    by (rule mark_tables_ok(2)) (use u in \<open>simp add: upstream_ok_def\<close>)
  then have "health_ok (sc_health s1)" unfolding h by (intro record_evidence_spec(1)) (simp add: tables_ok_def)
  then have ok1: "tables_ok s1" using u f by (simp add: upstream_ok_def tables_ok_def)
  have lc: "leases_closed n0 s1 (us_pending u)" using u f by (simp add: upstream_ok_def leases_closed_def)
  define s2 where "s2 = (case us_pending u of None \<Rightarrow> s1 | Some l \<Rightarrow> on_tcp_table (\<lambda>p. pf_attach p now l) s1)"
  have fr: "sc_adapters (on_tcp_table g s1) = sc_adapters s1" "sc_health (on_tcp_table g s1) = sc_health s1" for g
    by (simp_all add: on_tcp_table_def)
  have s2: "tables_ok s2 \<and> leases_closed n0 s2 (us_pending u)" "sc_adapters s2 = sc_adapters (us_sched u)" "sc_health s2 = sc_health s1"
  proof -
    show "tables_ok s2 \<and> leases_closed n0 s2 (us_pending u)"
    proof (cases "us_pending u")
      case None
      show ?thesis using ok1 lc unfolding s2_def None option.case by (rule conjI)
    next
      case (Some l)
      show ?thesis
        using on_tcp_table_attach[OF lc[unfolded Some] ok1, of now] unfolding s2_def Some option.case by (rule conjI[rotated])
    qed
    show "sc_adapters s2 = sc_adapters (us_sched u)" "sc_health s2 = sc_health s1"
      unfolding s2_def by (cases "us_pending u"; simp add: fr f(1))+
  qed
  have bl: "blames_less (sc_health s2) (sc_health s0) n" if "n \<notin> name ` set before" for n
  proof -
    have "blames_less (sc_health s1) (sc_health (mark_success (us_sched u) now (name a) (Some domain))) n"
      unfolding h by (rule record_evidence_spec(2)) (use ev that in auto)
    then have "blames_less (sc_health s1) (sc_health (us_sched u)) n" by (rule blames_less_trans[OF _ mark_success_blame])
    then show ?thesis using blames_less_trans b unfolding s2(3) blame_free_def by blast
  qed
  have "attempt_succeeded now domain host literal a u = u\<lparr>us_sched := s2\<rparr>"
    unfolding attempt_succeeded_def Let_def s2_def s1_def ..
  moreover have "upstream_ok n0 s0 ex (u\<lparr>us_sched := s2\<rparr>)" using u s2(1,2) by (simp add: upstream_ok_def)
  moreover have "\<forall>n. n \<notin> name ` set before \<longrightarrow> blames_less (sc_health s2) (sc_health s0) n" using bl by blast
  ultimately show ?thesis using t unfolding upstream_result_def by (intro conjI exI[of _ before]) simp_all
qed

lemma upstream_loop_spec:
  assumes fits: "\<And>a. a \<in> set (sc_adapters s0) \<Longrightarrow> name a \<notin> ex \<Longrightarrow> literal_fits a literal"
  shows "upstream_ok n0 s0 ex u \<Longrightarrow> blame_free s0 u \<Longrightarrow> upstream_loop n i env domain host literal u = (u', r) \<Longrightarrow>
    length (us_tried u') \<le> length (us_tried u) + n \<and>
    (case r of None \<Rightarrow> upstream_ok n0 s0 ex u' \<and> blame_free s0 u' \<and> us_pending u' = None
     | Some (a, ip) \<Rightarrow> upstream_result n0 s0 ex u' a \<and> dialable a ip)"
proof (induction n arbitrary: i u)
  case 0
  then have u': "u' = finish_pending (ue_begin env i) u" "r = None" by auto
  show ?case
    using leases_closed_finish[of n0 u "ue_begin env i"] 0(1,2) unfolding u' by (simp add: upstream_ok_def blame_free_def)
next
  case (Suc n)
  define t where "t = ue_begin env i"
  have ev: "set (us_comparative u) \<union> set (us_timed_out u) \<subseteq> name ` set (us_tried u)" using Suc.prems(1) by (simp add: upstream_ok_def)
  obtain choice lease s1 where a: "acquire_tcp (us_sched (finish_pending t u)) t (us_excluded u) domain (Some host) = (choice, lease, s1)"
    by (metis prod_cases3)
  have fin: "leases_closed n0 (us_sched (finish_pending t u)) None" "tables_ok (us_sched (finish_pending t u))"
    using leases_closed_finish[of n0 u t] Suc.prems(1) by (simp_all add: upstream_ok_def)
  show ?case
  proof (cases choice)
    case None
    let ?u1 = "(finish_pending t u)\<lparr>us_sched := s1, us_pending := lease\<rparr>"
    have u': "u' = finish_pending t ?u1" "r = None"
      using Suc.prems(3) a None by (auto simp: t_def[symmetric] Let_def)
    note eff = acquire_tcp_effect[OF fin(2) a]
    have "blames_less (sc_health s1) (sc_health s0) m" for m
      using blames_less_trans[OF eff[THEN conjunct2, THEN conjunct2, THEN conjunct1]] Suc.prems(2) by (simp add: blame_free_def)
    moreover have "leases_closed n0 s1 lease" using leases_closed_acquire[OF fin(1)] eff by blast
    then have "leases_closed n0 (us_sched (finish_pending t ?u1)) None \<and> tables_ok (us_sched (finish_pending t ?u1)) \<and>
        us_pending (finish_pending t ?u1) = None"
      using leases_closed_finish[of n0 ?u1 t] eff by simp
    ultimately show ?thesis
      using Suc.prems(1) eff unfolding u' by (simp add: upstream_ok_def blame_free_def)
  next
    case (Some c)
    obtain s2 dr where d: "dial_adapter_targets (ue_arpa env c) (ue_resolver env) s1 t c literal (ue_events env i) = (s2, dr)"
      by fastforce
    define u2 where "u2 = (finish_pending t u)\<lparr>us_pending := lease, us_sched := s2, us_excluded := insert (name c) (us_excluded u),
                      us_tried := us_tried u @ [c]\<rparr>"
    note att = attempt_ok[OF Suc.prems(1,2) fits a[unfolded Some] d, folded u2_def]
    have tried: "us_tried u2 = us_tried u @ [c]" "us_comparative u2 = us_comparative u" "us_timed_out u2 = us_timed_out u"
      by (simp_all add: u2_def)
    show ?thesis
    proof (cases dr)
      case (Inr ip)
      then have "u' = attempt_succeeded (ue_end env i) domain host literal c u2" "r = Some (c, ip)"
        using Suc.prems(3) a Some d by (auto simp: t_def[symmetric] Let_def u2_def)
      moreover have "us_tried (attempt_succeeded (ue_end env i) domain host literal c u2) = us_tried u2"
        by (simp add: attempt_succeeded_def Let_def)
      ultimately show ?thesis
        using attempt_succeeded_ok[OF _ _ tried(1), of n0 s0 ex] att ev tried Inr by simp
    next
      case (Inl e)
      let ?u3 = "attempt_failed (ue_end env i) (ue_ended env i) domain c e u2"
      have rec: "upstream_loop n (i + 1) env domain host literal ?u3 = (u', r)"
        using Suc.prems(3) a Some d Inl by (auto simp: t_def[symmetric] Let_def u2_def)
      have ok3: "upstream_ok n0 s0 ex ?u3 \<and> blame_free s0 ?u3"
        by (rule attempt_failed_ok) (use att tried in auto)
      have "us_tried ?u3 = us_tried u @ [c]" by (simp add: attempt_failed_def Let_def tried)
      then show ?thesis using Suc.IH[OF _ _ rec] ok3 by simp
    qed
  qed
qed


section \<open>A whole dial\<close>

lemma initially_excluded_fits:
  "a \<in> set (sc_adapters s) \<Longrightarrow> name a \<notin> initially_excluded s now literal \<Longrightarrow> literal_fits a literal"
  by (auto simp: initially_excluded_def literal_fits_def exclude_cooling_families_def unsupported_def
      network_for_ip_def adapter_supports_network_def split: option.splits if_splits)

definition next_lease :: "scheduler \<Rightarrow> nat" where
  "next_lease s = (case sc_performance s of None \<Rightarrow> 0 | Some p \<Rightarrow> pf_next_lease p)"

lemma blame_free_start [simp]: "us_sched u = s \<Longrightarrow> blame_free s u"
  by (auto simp: blame_free_def)

lemma upstream_start_ok:
  assumes "tables_ok s"
  shows "upstream_ok (next_lease s) s (initially_excluded s now literal) (upstream_start s now literal)"
    "blame_free s (upstream_start s now literal)"
  using assms by (simp_all add: upstream_start_def upstream_ok_def leases_closed_def next_lease_def split: option.split)

text \<open>What the caller of \<open>dialUpstream\<close> may rely on.\<close>

definition dial_outcome :: "upstream_env \<Rightarrow> scheduler \<Rightarrow> string \<Rightarrow> upstream_state \<Rightarrow> (upstream_error + adapter \<times> bytes) \<Rightarrow> bool" where
  "dial_outcome env s target u r \<longleftrightarrow> length (us_tried u) \<le> 2 \<and>
     (\<exists>ex. upstream_ok (next_lease s) s ex u \<and>
       (\<forall>host port. split_host_port target = Some (host, port) \<longrightarrow>
          initially_excluded s (ue_begin env 0) (parse_ip host) \<subseteq> ex \<or> us_tried u = []) \<and>
       (case r of Inl _ \<Rightarrow> blame_free s u \<and> us_pending u = None
        | Inr (a, ip) \<Rightarrow> upstream_result (next_lease s) s ex u a \<and> dialable a ip))"

lemma dial_upstream_outcome:
  assumes "tables_ok s"
  shows "case dial_upstream env s target literal_only of (u, r) \<Rightarrow> dial_outcome env s target u r"
proof -
  let ?u = "\<lparr>us_sched = s, us_excluded = {}, us_comparative = [], us_timed_out = [], us_pending = None,
               us_failures = [], us_tried = []\<rparr>"
  have idle: "dial_outcome env s target ?u (Inl e)" for e
    using assms unfolding dial_outcome_def upstream_ok_def leases_closed_def next_lease_def
    by (intro conjI exI[of _ "{}"]) (simp_all split: option.split)
  show ?thesis
  proof (cases "split_host_port target")
    case None
    then show ?thesis using idle by (simp add: dial_upstream_def Let_def)
  next
    case (Some hp)
    obtain host port where hp: "hp = (host, port)" by fastforce
    define literal where "literal = parse_ip host"
    show ?thesis
    proof (cases "literal_only \<and> literal = None")
      case True
      then show ?thesis using idle Some hp by (simp add: dial_upstream_def Let_def literal_def)
    next
      case False
      define u0 where "u0 = upstream_start s (ue_begin env 0) literal"
      define domain where "domain = (if literal = None then normalize_domain host else '''')"
      define k where "k = min 2 (length (sc_adapters s) - card (us_excluded u0))"
      obtain u1 r where l: "upstream_loop k 0 env domain host literal u0 = (u1, r)" by fastforce
      let ?ex = "initially_excluded s (ue_begin env 0) literal"
      note spec = upstream_loop_spec[OF initially_excluded_fits upstream_start_ok[OF assms, of "ue_begin env 0" literal, folded u0_def] l]
      have t: "length (us_tried u1) \<le> 2" using spec by (simp add: u0_def upstream_start_def k_def)
      have run: "dial_upstream env s target literal_only = (u1, case r of Some (a, ip) \<Rightarrow> Inr (a, ip)
            | None \<Rightarrow> Inl (if us_failures u1 = [] then NoAdapterAvailable else DialFailed (join_errors (us_failures u1))))"
        using l unfolding u0_def k_def domain_def literal_def
        using False by (auto simp: dial_upstream_def Some hp Let_def literal_def split: option.split)
      show ?thesis
        unfolding run dial_outcome_def using t spec
        by (auto simp: Some hp literal_def upstream_result_def split: option.splits intro!: exI[of _ ?ex])
    qed
  qed
qed


section \<open>Properties\<close>

text \<open> C4. A dial leaks no lease: whatever fails and however it ends, when \<open>dialUpstream\<close> returns, the scheduler's tables are still consistent and every performance lease it took is finished, except the one of the connection it returns. \<close>

theorem dial_leaks_no_lease:
  assumes "tables_ok s" and "dial_upstream env s target literal_only = (u, r)"
  shows "tables_ok (us_sched u) \<and>
    (\<forall>p'. sc_performance (us_sched u) = Some p' \<longrightarrow>
       (\<forall>l. next_lease s \<le> l \<and> l < pf_next_lease p' \<and> \<not> ls_finished (pf_lease_store p' l) \<longrightarrow>
            us_pending u = Some l \<and> (\<exists>c. r = Inr c)))"
proof -
  obtain ex where o: "upstream_ok (next_lease s) s ex u" "case r of Inl _ \<Rightarrow> us_pending u = None | Inr _ \<Rightarrow> True"
    using dial_upstream_outcome[OF assms(1), of env target literal_only] assms(2)
    by (fastforce simp: dial_outcome_def split: sum.splits)
  have ok: "tables_ok (us_sched u)" and lc: "leases_closed (next_lease s) (us_sched u) (us_pending u)"
    using o(1) by (simp_all add: upstream_ok_def)
  have "us_pending u = Some l \<and> (\<exists>c. r = Inr c)"
    if "sc_performance (us_sched u) = Some p'" "next_lease s \<le> l" "l < pf_next_lease p'" "\<not> ls_finished (pf_lease_store p' l)" for p' l
    using leases_closed_open[OF lc that] o(2) by (cases r) simp_all
  then show ?thesis using ok by blast
qed

text \<open> C3. Blame needs a comparison: when a dial fails with every adapter it tried, as it does when the destination itself is down, no adapter gets a timeout, a timeout target or a failed domain counted against it; and when it succeeds, only the adapters that were tried for the same target before the successful one can. \<close>

theorem blame_needs_comparison:
  assumes "tables_ok s" and "dial_upstream env s target literal_only = (u, r)"
    and "case r of Inl _ \<Rightarrow> True | Inr _ \<Rightarrow> n \<notin> name ` set (butlast (us_tried u))"
  shows "blames_less (sc_health (us_sched u)) (sc_health s) n"
  using dial_upstream_outcome[OF assms(1), of env target literal_only] assms(2,3)
  by (fastforce simp: dial_outcome_def blame_free_def upstream_result_def split: sum.splits)

text \<open>A dial tries at most two adapters, never the same one twice, all of them from the pool; for a literal address none that has no source address of a fitting family; and the connection it returns belongs to the last adapter it tried and leads to an address of a family that adapter has a source for. \<close>

theorem dial_tries_two:
  assumes "tables_ok s" and "dial_upstream env s target literal_only = (u, r)"
  shows "length (us_tried u) \<le> 2 \<and> distinct (map name (us_tried u)) \<and> set (us_tried u) \<subseteq> set (sc_adapters s) \<and>
    (\<forall>host port. split_host_port target = Some (host, port) \<longrightarrow> list_all (\<lambda>a. literal_fits a (parse_ip host)) (us_tried u)) \<and>
    (case r of Inl _ \<Rightarrow> True | Inr (a, ip) \<Rightarrow> us_tried u \<noteq> [] \<and> a = last (us_tried u) \<and> dialable a ip)"
proof -
  obtain ex where o: "upstream_ok (next_lease s) s ex u" "length (us_tried u) \<le> 2"
    "\<And>host port. split_host_port target = Some (host, port) \<Longrightarrow>
       initially_excluded s (ue_begin env 0) (parse_ip host) \<subseteq> ex \<or> us_tried u = []"
    "case r of Inl _ \<Rightarrow> True | Inr (a, ip) \<Rightarrow> (\<exists>before. us_tried u = before @ [a]) \<and> dialable a ip"
    using dial_upstream_outcome[OF assms(1), of env target literal_only] assms(2)
    by (fastforce simp: dial_outcome_def upstream_result_def split: sum.splits)
  have "list_all (\<lambda>a. literal_fits a (parse_ip host)) (us_tried u)" if "split_host_port target = Some (host, port)" for host port
  proof (cases "us_tried u")
    case (Cons a as)
    then have "initially_excluded s (ue_begin env 0) (parse_ip host) \<subseteq> ex" using o(3)[OF that] by simp
    then have "literal_fits a (parse_ip host)" if "a \<in> set (us_tried u)" for a
      using o(1) that initially_excluded_fits[of a s "ue_begin env 0" "parse_ip host"] unfolding upstream_ok_def by blast
    then show ?thesis by (simp add: list_all_iff)
  qed simp
  then show ?thesis using o(1,2,4) by (auto simp: upstream_ok_def split: sum.splits)
qed

section \<open>A concrete dial\<close>

text \<open>Both adapters of the pool are tried; without a resolver both attempts fail.\<close>

definition failing_env :: upstream_env where
  "failing_env = \<lparr>ue_resolver = False, ue_arpa = (\<lambda>_ _. Inl plain_error), ue_begin = (\<lambda>i. 10 + int i), ue_events = (\<lambda>_. []),
                  ue_end = (\<lambda>i. 20 + int i), ue_ended = (\<lambda>_. False)\<rparr>"

text \<open>The first adapter is refused by the target, the second connects.\<close>

definition comparing_env :: upstream_env where
  "comparing_env = failing_env\<lparr>ue_events := (\<lambda>i. if i = 0 then [(12, DialDone (v4_prefix @ [10, 1, 2, 3]) (Some deadline_error) False)]
                                             else [(14, DialDone (v4_prefix @ [10, 1, 2, 3]) None False)])\<rparr>"

definition leased_pool :: scheduler where
  "leased_pool = fresh_pool\<lparr>sc_performance := Some new_performance_table\<rparr>"

lemma leased_pool_ok: "tables_ok leased_pool"
  using fresh_pool_stable table_ok_new(1)
  by (simp add: tables_ok_def stable_def leased_pool_def) (simp add: fresh_pool_def new_scheduler_def)


lemma comparing_dial:
  "case dial_upstream comparing_env leased_pool ''10.1.2.3:80'' False of (u, r) \<Rightarrow>
     us_pending u = Some 1 \<and> map name (us_tried u) = [''b'', ''a''] \<and> (case r of Inl _ \<Rightarrow> False | Inr (a, ip) \<Rightarrow> name a = ''a'')"
  by code_simp

theorem dial_leaks_no_lease_witness:
  "case dial_upstream comparing_env leased_pool ''10.1.2.3:80'' False of (u, r) \<Rightarrow> us_pending u = Some 1 \<and> tables_ok (us_sched u)"
  using dial_leaks_no_lease[OF leased_pool_ok, of comparing_env "''10.1.2.3:80''" False] comparing_dial
  by (auto split: prod.splits)

theorem blame_needs_comparison_witness:
  "blames_less (sc_health (us_sched (fst (dial_upstream comparing_env leased_pool ''10.1.2.3:80'' False)))) (sc_health leased_pool) ''a''"
proof -
  obtain u r where d: "dial_upstream comparing_env leased_pool ''10.1.2.3:80'' False = (u, r)" by fastforce
  then have t: "map name (us_tried u) = [''b'', ''a'']" using comparing_dial by simp
  then have "''a'' \<notin> name ` set (butlast (us_tried u))" by (auto simp: map_eq_Cons_conv)
  then show ?thesis using blame_needs_comparison[OF leased_pool_ok d, of "''a''"] d by (simp split: sum.split)
qed

theorem dial_tries_two_witness:
  "case dial_upstream comparing_env leased_pool ''10.1.2.3:80'' False of (u, r) \<Rightarrow>
     length (us_tried u) = 2 \<and> set (us_tried u) \<subseteq> set (sc_adapters leased_pool)"
proof -
  obtain u r where d: "dial_upstream comparing_env leased_pool ''10.1.2.3:80'' False = (u, r)" by fastforce
  have "length (us_tried u) = 2" using comparing_dial d by (auto simp: map_eq_Cons_conv)
  then show ?thesis using dial_tries_two[OF leased_pool_ok d] d by simp
qed

end
