(* ===== verification/SocksWire.thy ===== *)
theory SocksWire
  imports DnsWire
begin

text \<open>
  The SOCKS5 front end of the proxy: the handshake, the request and its replies of
  \<open>engine/internal/proxy/socks.go\<close>, and the header codec of its UDP relay, the end of
  \<open>engine/internal/proxy/udp.go\<close>. A client is the bytes it sends until it closes its side;
  \<open>io.ReadFull\<close> takes a prefix of them or fails. A \<open>netip.AddrPort\<close> is a pair whose first
  half is None for the zero address.
\<close>

section \<open>Reading\<close>

definition read_full :: "nat \<Rightarrow> bytes \<Rightarrow> (bytes \<times> bytes) option" where
  "read_full n s = (if length s < n then None else Some (take n s, drop n s))"

definition bytes_text :: "bytes \<Rightarrow> string" where
  "bytes_text bs = map (\<lambda>b. char_of (unat b)) bs"

text \<open>\<open>readSOCKSHost\<close>: None also stands for the empty domain name.\<close>

definition read_socks_host :: "bytes \<Rightarrow> u8 \<Rightarrow> (string \<times> bytes) option" where
  "read_socks_host s address_type =
     (if address_type = 1 then map_option (\<lambda>(v, rest). (ip_string v, rest)) (read_full 4 s)
      else if address_type = 3 then
        (case s of [] \<Rightarrow> None
         | len # s' \<Rightarrow>
             if len = 0 then None
             else map_option (\<lambda>(v, rest). (bytes_text v, rest)) (read_full (unat len) s'))
      else if address_type = 4 then map_option (\<lambda>(v, rest). (ip_string v, rest)) (read_full 16 s)
      else None)"

section \<open>Replies\<close>

definition socks_reply :: "u8 \<Rightarrow> bytes" where
  "socks_reply code = [5, code, 0, 1, 0, 0, 0, 0, 0, 0]"

text \<open>
  What \<open>socksConnectFailureReply\<close> sees of an error: the errors it joins, the error it wraps,
  or a last error with the answers of \<open>errors.Is\<close> and \<open>Timeout\<close> on it.
\<close>

datatype errno = ECONNREFUSED | ENETUNREACH | EHOSTUNREACH | Errno nat

datatype go_error =
    Joined "go_error list"
  | Wrapped go_error
  | Leaf (deadline_exceeded: bool) (net_timeout: "bool option") (leaf_errno: "errno option")

definition leaf_reply :: "bool \<Rightarrow> bool option \<Rightarrow> errno option \<Rightarrow> u8" where
  "leaf_reply deadline timeout e =
     (if deadline \<or> timeout = Some True then 6
      else if e = Some ECONNREFUSED \<or> e = Some (Errno 10061) then 5
      else if e = Some ENETUNREACH \<or> e = Some (Errno 10051) then 3
      else if e = Some EHOSTUNREACH \<or> e = Some (Errno 10065) then 4
      else 1)"

text \<open>The loop over joined errors, with the reply of each of them.\<close>

fun joined_reply :: "u8 \<Rightarrow> u8 list \<Rightarrow> u8" where
  "joined_reply code [] = code"
| "joined_reply code (next # rest) = (if code \<noteq> 0 \<and> code \<noteq> next then 1 else joined_reply next rest)"

fun socks_connect_failure_reply :: "go_error \<Rightarrow> u8" where
  "socks_connect_failure_reply (Joined es) =
     (let code = joined_reply 0 (map socks_connect_failure_reply es)
      in if code \<noteq> 0 then code else leaf_reply False None None)"
| "socks_connect_failure_reply (Wrapped e) = socks_connect_failure_reply e"
| "socks_connect_failure_reply (Leaf d t e) = leaf_reply d t e"

section \<open>The handshake\<close>

text \<open>
  \<open>handleSOCKS\<close> from its first read to the request: what is written to the client, and what
  is asked for, with the bytes not yet read. The argument says whether the client takes the
  answer to its greeting.
\<close>

datatype socks_request =
    SocksNone
  | SocksConnect string nat bytes
  | SocksAssociate string nat bytes

definition socks_greeting :: "bytes \<Rightarrow> (bool \<times> bytes) option" where
  "socks_greeting s =
     (case read_full 2 s of None \<Rightarrow> None
      | Some (header, s1) \<Rightarrow>
          if header ! 0 \<noteq> 5 then None
          else map_option (\<lambda>(methods, s2). (list_ex (\<lambda>m. m = 0) methods, s2)) (read_full (unat (header ! 1)) s1))"

definition socks_command :: "bytes \<Rightarrow> bytes list \<times> socks_request" where
  "socks_command s =
     (case read_full 4 s of None \<Rightarrow> ([], SocksNone)
      | Some (request, s1) \<Rightarrow>
          if request ! 0 \<noteq> 5 then ([], SocksNone)
          else case read_socks_host s1 (request ! 3) of
            None \<Rightarrow> ([socks_reply 8], SocksNone)
          | Some (host, s2) \<Rightarrow>
              (case read_full 2 s2 of None \<Rightarrow> ([], SocksNone)
               | Some (p, s3) \<Rightarrow>
                   let port = unat (the (get16 p 0)) in
                   if request ! 1 = 3 then ([], SocksAssociate host port s3)
                   else if request ! 1 \<noteq> 1 then ([socks_reply 7], SocksNone)
                   else ([], SocksConnect host port s3)))"

definition socks_handshake :: "bool \<Rightarrow> bytes \<Rightarrow> bytes list \<times> socks_request" where
  "socks_handshake greeted s =
     (case socks_greeting s of None \<Rightarrow> ([], SocksNone)
      | Some (no_auth, s1) \<Rightarrow>
          if \<not> no_auth then ([[5, 0xFF]], SocksNone)
          else if \<not> greeted then ([[5, 0]], SocksNone)
          else case socks_command s1 of (w, r) \<Rightarrow> ([5, 0] # w, r))"

text \<open>
  The rest of the handler. \<open>connect\<close> is \<open>Server.connect\<close> on the joined target;
  \<open>associate\<close> is \<open>handleUDPAssociation\<close>, as whether it started and whether it failed, and
  the replies it writes itself are not in the list here. A connection
  is relayed, with the bytes the client sent early, once the client took the reply.
\<close>

definition socks_target :: "string \<Rightarrow> nat \<Rightarrow> string" where
  "socks_target host port = join_host_port host (itoa_nat port)"

record 'u socks_end =
  sd_writes :: "bytes list"
  sd_relayed :: "('u \<times> bytes) option"
  sd_abandoned :: "'u option"
  sd_reported :: "u8 option"

definition socks_done :: "bytes list \<Rightarrow> 'u socks_end" where
  "socks_done w = \<lparr>sd_writes = w, sd_relayed = None, sd_abandoned = None, sd_reported = None\<rparr>"

definition handle_socks ::
  "bool \<Rightarrow> bool \<Rightarrow> (string \<Rightarrow> nat \<Rightarrow> bytes \<Rightarrow> bool \<times> bool) \<Rightarrow> (string \<Rightarrow> go_error + 'u) \<Rightarrow> bytes \<Rightarrow> 'u socks_end" where
  "handle_socks greeted replied associate connect s =
     (case socks_handshake greeted s of
        (w, SocksNone) \<Rightarrow> socks_done w
      | (w, SocksAssociate host port rest) \<Rightarrow>
          (case associate host port rest of
             (started, failed) \<Rightarrow> socks_done (w @ (if failed \<and> \<not> started then [socks_reply 1] else [])))
      | (w, SocksConnect host port rest) \<Rightarrow>
          (case connect (socks_target host port) of
             Inl e \<Rightarrow>
               (let code = socks_connect_failure_reply e
                in (socks_done (w @ [socks_reply code]))\<lparr>sd_reported := Some code\<rparr>)
           | Inr u \<Rightarrow>
               let r = socks_done (w @ [socks_reply 0])
               in if replied then r\<lparr>sd_relayed := Some (u, rest)\<rparr> else r\<lparr>sd_abandoned := Some u\<rparr>))"

section \<open>UDP datagrams\<close>

type_synonym addr_port = "addr option \<times> u16"

text \<open>A slice of the datagram that is out of range panics: that is the outer None.\<close>

definition port_and_payload :: "addr \<Rightarrow> bytes \<Rightarrow> nat \<Rightarrow> (addr_port \<times> bytes) option option" where
  "port_and_payload a p offset =
     (case get16 p offset of None \<Rightarrow> None
      | Some port \<Rightarrow>
          if port = 0 \<or> length p = offset + 2 then Some None
          else Some (Some ((Some a, port), drop (offset + 2) p)))"

definition parse_socks_udp_packet :: "bytes \<Rightarrow> (addr_port \<times> bytes) option option" where
  "parse_socks_udp_packet p =
     (if length p < 4 \<or> p ! 0 \<noteq> 0 \<or> p ! 1 \<noteq> 0 \<or> p ! 2 \<noteq> 0 then Some None
      else if p ! 3 = 1 then
        (if length p < 10 then Some None
         else case slice p 4 8 of None \<Rightarrow> None
         | Some b \<Rightarrow> port_and_payload (A4 b) p 8)
      else if p ! 3 = 4 then
        (if length p < 22 then Some None
         else case slice p 4 20 of None \<Rightarrow> None
         | Some b \<Rightarrow>
             let a = A6 b ''''; unmapped = addr_unmap a
             in port_and_payload (if addr_is4 unmapped then unmapped else a) p 20)
      else Some None)"

definition udp_header :: "addr \<Rightarrow> u16 \<Rightarrow> bytes" where
  "udp_header a port =
     (case addr_unmap a of
        A4 b \<Rightarrow> [0, 0, 0, 1] @ b @ put16 port
      | A6 b z \<Rightarrow> [0, 0, 0, 4] @ b @ put16 port)"

definition pack_socks_udp_reply :: "addr_port \<Rightarrow> bytes \<Rightarrow> bytes option" where
  "pack_socks_udp_reply target payload =
     (case fst target of None \<Rightarrow> None
      | Some a \<Rightarrow> if snd target = 0 then None else Some (udp_header a (snd target) @ payload))"

abbreviation (input) max_socks_udp_datagram_bytes :: nat where "max_socks_udp_datagram_bytes \<equiv> 65535"

text \<open>The buffer of a flow: the header, room for a datagram, and the size of the header.\<close>

definition new_socks_udp_reply_buffer :: "addr_port \<Rightarrow> (bytes \<times> nat) option" where
  "new_socks_udp_reply_buffer target =
     (case pack_socks_udp_reply target [] of None \<Rightarrow> None
      | Some header \<Rightarrow> Some (header @ replicate max_socks_udp_datagram_bytes 0, length header))"

text \<open>What \<open>receiveLoop\<close> sends to the client after reading \<open>data\<close> into the buffer.\<close>

definition reply_datagram :: "bytes \<times> nat \<Rightarrow> bytes \<Rightarrow> bytes" where
  "reply_datagram buf data =
     (let (packet, size) = buf in take (size + length data) (take size packet @ data @ drop (size + length data) packet))"

definition socks_bind_reply :: "u8 \<Rightarrow> (bytes \<times> int) option \<Rightarrow> bytes option" where
  "socks_bind_reply reply address =
     (case address of None \<Rightarrow> None
      | Some (ip, port) \<Rightarrow>
          (case to4 ip of None \<Rightarrow> None
           | Some v4 \<Rightarrow>
               if port < 0 \<or> 65535 < port then None
               else Some ([5, reply, 0, 1] @ take 4 (v4 @ replicate 4 0) @ put16 (of_int port))))"

definition addr_port_string :: "addr_port \<Rightarrow> string" where
  "addr_port_string t =
     (case fst t of None \<Rightarrow> ''invalid AddrPort''
      | Some a \<Rightarrow> join_host_port (addr_string a) (itoa_nat (unat (snd t))))"

end
