(* ===== verification/SocksFacts.thy ===== *)
theory SocksFacts
  imports SocksWire DnsWireFacts
begin

text \<open>
  The SOCKS5 front end: what a client that follows the protocol gets, which replies tell it
  what, and the round trip of the UDP relay's datagrams.
\<close>

section \<open>Datagrams\<close>

definition addr_ok :: "addr \<Rightarrow> bool" where
  "addr_ok a = (case a of A4 b \<Rightarrow> length b = 4 | A6 b z \<Rightarrow> length b = 16)"



lemma length_put16 [simp]: "length (put16 w) = 2"
  by (simp add: put16_def)










section \<open>Failure replies\<close>

text \<open>The causes of an error: its last errors, each with the reply it stands for alone.\<close>

fun cause_replies :: "go_error \<Rightarrow> u8 list" where
  "cause_replies (Joined es) = (if es = [] then [1] else concat (map cause_replies es))"
| "cause_replies (Wrapped e) = cause_replies e"
| "cause_replies (Leaf d t e) = [leaf_reply d t e]"

definition common_reply :: "u8 list \<Rightarrow> u8" where
  "common_reply codes = (if \<exists>c. set codes = {c} then hd codes else 1)"

lemma common_reply_single: "set codes = {c} \<Longrightarrow> common_reply codes = c"
  by (cases codes) (auto simp: common_reply_def)

lemma common_reply_other: "common_reply codes = c \<Longrightarrow> c \<noteq> 1 \<Longrightarrow> set codes = {c}"
  by (cases codes) (auto simp: common_reply_def split: if_splits)

lemma leaf_reply_nonzero: "leaf_reply d t e \<in> {1, 3, 4, 5, 6}"
  by (simp add: leaf_reply_def)

lemma joined_reply_same:
  "0 \<notin> set codes \<Longrightarrow> code \<noteq> 0 \<Longrightarrow> joined_reply code codes = (if set codes \<subseteq> {code} then code else 1)"
  by (induction codes arbitrary: code) auto

lemma joined_reply_common: "0 \<notin> set codes \<Longrightarrow> codes \<noteq> [] \<Longrightarrow> joined_reply 0 codes = common_reply codes"
proof (cases codes)
  case (Cons c cs)
  assume "0 \<notin> set codes"
  then show ?thesis using Cons joined_reply_same[of cs c] by (auto simp: common_reply_def)
qed simp

lemma common_reply_concat:
  assumes "css \<noteq> []" "\<And>cs. cs \<in> set css \<Longrightarrow> cs \<noteq> []"
  shows "common_reply (map common_reply css) = common_reply (concat css)"
proof (cases "\<exists>c. set (concat css) = {c}")
  case True
  then obtain c where c: "set (concat css) = {c}" by blast
  then have "set cs = {c}" if "cs \<in> set css" for cs using that assms(2)[OF that] by (cases cs) force+
  then have "common_reply cs = c" if "cs \<in> set css" for cs using that common_reply_single by blast
  then have "set (map common_reply css) = {c}" using assms(1) by (cases css) auto
  then show ?thesis using common_reply_single[OF c] common_reply_single by simp
next
  case False
  then have 1: "common_reply (concat css) = 1" unfolding common_reply_def by (simp only: if_False)
  have "common_reply (map common_reply css) = 1"
  proof (rule ccontr)
    assume n: "common_reply (map common_reply css) \<noteq> 1"
    let ?c = "common_reply (map common_reply css)"
    have "set (map common_reply css) = {?c}" using common_reply_other[OF refl n] .
    then have "common_reply cs = ?c" if "cs \<in> set css" for cs using that by (metis image_set image_eqI singletonD)
    then have "set cs = {?c}" if "cs \<in> set css" for cs using that common_reply_other[OF _ n] by blast
    then have "set (concat css) = {?c}" using assms(1) by (cases css) auto
    then show False using False by blast
  qed
  then show ?thesis using 1 by simp
qed

lemma cause_replies_not_Nil: "cause_replies e \<noteq> []"
  by (induction e rule: cause_replies.induct) (auto simp: concat_eq_Nil_conv)

lemma common_reply_nonzero: "0 \<notin> set codes \<Longrightarrow> common_reply codes \<noteq> 0"
  by (cases codes) (auto simp: common_reply_def)

lemma cause_replies_nonzero: "0 \<notin> set (cause_replies e)"
proof (induction e rule: cause_replies.induct)
  case (3 d t e)
  then show ?case using leaf_reply_nonzero[of d t e] by auto
qed auto

lemma failure_reply_common: "socks_connect_failure_reply e = common_reply (cause_replies e)"
proof (induction e rule: cause_replies.induct)
  case (1 es)
  show ?case
  proof (cases "es = []")
    case True
    then show ?thesis by (simp add: leaf_reply_def common_reply_def)
  next
    case False
    have m: "map socks_connect_failure_reply es = map common_reply (map cause_replies es)" using 1 False by simp
    have z: "0 \<notin> set (map socks_connect_failure_reply es)"
      unfolding m using common_reply_nonzero cause_replies_nonzero by auto
    have "joined_reply 0 (map socks_connect_failure_reply es) = common_reply (map socks_connect_failure_reply es)"
      by (rule joined_reply_common) (use z False in simp_all)
    also have "\<dots> = common_reply (concat (map cause_replies es))"
      unfolding m by (rule common_reply_concat) (use False cause_replies_not_Nil in auto)
    finally have j: "joined_reply 0 (map socks_connect_failure_reply es) = common_reply (concat (map cause_replies es))" .
    have "0 \<notin> set (concat (map cause_replies es))" using cause_replies_nonzero by auto
    then show ?thesis using common_reply_nonzero j False by (simp add: Let_def)
  qed
qed (auto simp: common_reply_def)

lemma failure_reply_flat_nonzero: "socks_connect_failure_reply e \<noteq> 0"
  unfolding failure_reply_common using common_reply_nonzero cause_replies_nonzero by simp

text \<open>The reply to a failed CONNECT, which the code computes by recursion over joined and wrapped
  errors, equals the flat reading of the error: when all the causes at its leaves stand for
  the same reply it is that reply, and otherwise (several adapters failed differently) the
  general failure. It is never the reply for success.
\<close>
theorem failure_reply_flat:
  "socks_connect_failure_reply e = common_reply (cause_replies e) \<and> socks_connect_failure_reply e \<noteq> 0"
  using failure_reply_common failure_reply_flat_nonzero by blast

section \<open>Connecting\<close>

text \<open>A client's request as RFC 1928 writes it; the host is an address or a domain name.\<close>

definition encode_socks_host :: "addr + bytes \<Rightarrow> bytes" where
  "encode_socks_host host =
     (case host of Inl (A4 b) \<Rightarrow> 1 # b | Inl (A6 b z) \<Rightarrow> 4 # b | Inr domain \<Rightarrow> 3 # of_nat (length domain) # domain)"

definition socks_connect_bytes :: "bytes \<Rightarrow> addr + bytes \<Rightarrow> u16 \<Rightarrow> bytes" where
  "socks_connect_bytes methods host port =
     [5, of_nat (length methods)] @ methods @ [5, 1, 0] @ encode_socks_host host @ put16 port"

definition host_ok :: "addr + bytes \<Rightarrow> bool" where
  "host_ok host = (case host of Inl a \<Rightarrow> addr_ok a | Inr domain \<Rightarrow> domain \<noteq> [] \<and> length domain < 256)"

definition host_text :: "addr + bytes \<Rightarrow> string" where
  "host_text host = (case host of Inl a \<Rightarrow> ip_string (addr_bytes a) | Inr domain \<Rightarrow> bytes_text domain)"

lemma read_full_append: "length v = n \<Longrightarrow> read_full n (v @ rest) = Some (v, rest)"
  by (simp add: read_full_def)

lemma unat_length: "length (xs :: bytes) < 256 \<Longrightarrow> unat (of_nat (length xs) :: u8) = length xs"
  by (simp add: unat_of_nat)

lemma of_length_nonzero: "xs \<noteq> [] \<Longrightarrow> length (xs :: bytes) < 256 \<Longrightarrow> (of_nat (length xs) :: u8) \<noteq> 0"
  using unat_length[of xs] by (metis length_0_conv unat_0)

lemma encode_socks_host_cons:
  assumes "host_ok host"
  shows "\<exists>t v. encode_socks_host host = t # v \<and> (\<forall>rest. read_socks_host (v @ rest) t = Some (host_text host, rest))"
  using assms unat_length of_length_nonzero
  by (auto simp: encode_socks_host_def host_ok_def host_text_def addr_ok_def read_socks_host_def
      read_full_append split: sum.split addr.split)

lemma socks_command_connect:
  assumes "host_ok host"
  shows "socks_command ([5, 1, 0] @ encode_socks_host host @ put16 port @ early) =
    ([], SocksConnect (host_text host) (unat port) early)"
proof -
  obtain t v where e: "encode_socks_host host = t # v"
    and v: "\<And>rest. read_socks_host (v @ rest) t = Some (host_text host, rest)"
    using encode_socks_host_cons[OF assms] by blast
  have "get16 (put16 port) 0 = Some port" using get16_put16[of "[]" port "[]"] by simp
  then show ?thesis
    using read_full_append[of "[5, 1, 0, t]" 4 "v @ put16 port @ early"] v[of "put16 port @ early"]
      read_full_append[of "put16 port" 2 early]
    by (simp add: socks_command_def e)
qed

lemma socks_greeting_reads:
  "length methods < 256 \<Longrightarrow>
   socks_greeting ([5, of_nat (length methods)] @ methods @ rest) = Some (list_ex (\<lambda>m. m = 0) methods, rest)"
  using read_full_append[of "[5, of_nat (length methods)]" 2 "methods @ rest"] unat_length[of methods]
  by (simp add: socks_greeting_def read_full_append)

text \<open>A client that offers no authentication among its methods and asks to connect to a host,
  an address or a domain name, gets exactly this: the choice of the method, a connection
  attempt to the host and port it named, and one reply. If the attempt failed the reply is
  the failure's and nothing is relayed; if it succeeded the reply is success, and the bytes
  the client sent right after its request are the first ones relayed.
\<close>
theorem socks_connect_served:
  assumes "length methods < 256" "0 \<in> set methods" "host_ok host"
  shows "handle_socks True replied associate connect (socks_connect_bytes methods host port @ early) =
    (case connect (socks_target (host_text host) (unat port)) of
       Inl e \<Rightarrow> \<lparr>sd_writes = [[5, 0], socks_reply (socks_connect_failure_reply e)], sd_relayed = None,
                 sd_abandoned = None, sd_reported = Some (socks_connect_failure_reply e)\<rparr>
     | Inr u \<Rightarrow> \<lparr>sd_writes = [[5, 0], socks_reply 0], sd_relayed = (if replied then Some (u, early) else None),
                 sd_abandoned = (if replied then None else Some u), sd_reported = None\<rparr>)"
proof -
  have "list_ex (\<lambda>m. m = 0) methods" using assms(2) by (auto simp: list_ex_iff)
  then have "socks_handshake True (socks_connect_bytes methods host port @ early) =
      ([[5, 0]], SocksConnect (host_text host) (unat port) early)"
    using socks_greeting_reads[OF assms(1), of "[5, 1, 0] @ encode_socks_host host @ put16 port @ early"]
      socks_command_connect[OF assms(3), of port early]
    by (simp add: socks_handshake_def socks_connect_bytes_def)
  then show ?thesis by (simp add: handle_socks_def socks_done_def Let_def split: sum.split)
qed

theorem socks_connect_served_witness:
  "sd_relayed (handle_socks True True (\<lambda>_ _ _. (True, False)) (\<lambda>t. if t = ''10.0.0.1:80'' then Inr t else Inl (Joined []))
     ([5, 1, 0, 5, 1, 0, 1, 10, 0, 0, 1, 0, 80] @ [71])) = Some (''10.0.0.1:80'', [71])"
proof -
  have e: "socks_connect_bytes [0] (Inl (A4 [10, 0, 0, 1])) 80 = [5, 1, 0, 5, 1, 0, 1, 10, 0, 0, 1, 0, 80]" by code_simp
  have t: "socks_target (host_text (Inl (A4 [10, 0, 0, 1]))) (unat (80 :: u16)) = ''10.0.0.1:80''" by code_simp
  have h: "host_ok (Inl (A4 [10, 0, 0, 1]))" by (simp add: host_ok_def addr_ok_def)
  show ?thesis
    using socks_connect_served[of "[0]" "Inl (A4 [10, 0, 0, 1])" True "\<lambda>_ _ _. (True, False)"
        "\<lambda>t. if t = ''10.0.0.1:80'' then Inr t else Inl (Joined [])" 80 "[71]", OF _ _ h]
    unfolding e t by simp
qed

text \<open>On any input: success is only announced for a connection that was made, and such a
  connection is relayed or closed.\<close>

lemma socks_command_replies: "socks_command s = (w, r) \<Longrightarrow> w = [] \<or> (w \<in> {[socks_reply 7], [socks_reply 8]} \<and> r = SocksNone)"
  by (auto simp: socks_command_def Let_def split: option.splits if_splits prod.splits)

lemma socks_handshake_replies:
  "socks_handshake g s = (w, r) \<Longrightarrow> socks_reply 0 \<notin> set w \<and> (r \<noteq> SocksNone \<longrightarrow> w = [[5, 0]])"
  using socks_command_replies
  by (fastforce simp: socks_handshake_def socks_reply_def split: option.splits if_splits prod.splits)

lemma socks_success_connected:
  "socks_reply 0 \<in> set (sd_writes (handle_socks g replied associate connect s)) \<longleftrightarrow>
   (\<exists>host port rest u. snd (socks_handshake g s) = SocksConnect host port rest \<and> connect (socks_target host port) = Inr u)"
proof -
  obtain w r where h: "socks_handshake g s = (w, r)" by fastforce
  note spec = socks_handshake_replies[OF h]
  have nz: "socks_reply (socks_connect_failure_reply e) \<noteq> socks_reply 0" for e
    using failure_reply_flat_nonzero[of e] by (simp add: socks_reply_def)
  show ?thesis
    using spec nz by (cases r) (auto simp: handle_socks_def h socks_done_def Let_def socks_reply_def split: sum.splits prod.splits)
qed

end
