(* ===== verification/UdpAssoc.thy ===== *)
theory UdpAssoc
  imports SocksWire Dial Registry "HOL-Library.AList"
begin

text \<open>
  The SOCKS5 UDP associations of \<open>engine/internal/proxy/udp.go\<close>, and the bound dialer of
  \<open>dial_windows.go\<close> they use. An association maps each destination to a flow: a connected
  socket, a session of the registry and a lease of the scheduler's UDP table. A flow is
  created by the goroutine that reads the client's datagrams and closed by that one, by its
  own receiving goroutine, or when the association ends.

  Flows are held by pointer, so they live in a store and are named by numbers; sockets are
  numbers too. The flow map is an association list, and the loop that closes all flows
  follows its order. \<open>as_leases\<close> and \<open>as_sessions\<close> are the leases and sessions the
  association ever took, for the proofs.
\<close>

unbundle bit_operations_syntax

section \<open>Bound dialers\<close>

text \<open>
  \<open>boundNetworkDialer\<close>: the source address, and the interface option: the IPv4 index in
  network byte order, the IPv6 index as it is. An error is None.
\<close>

definition reverse_bytes :: "u32 \<Rightarrow> u32" where
  "reverse_bytes w =
     push_bit 24 (w AND 0xFF) OR push_bit 8 (w AND 0xFF00) OR drop_bit 8 (w AND 0xFF0000) OR drop_bit 24 w"

record bound_dialer =
  bd_udp :: bool
  bd_source :: bytes
  bd_interface :: "u32 option"

definition bound_network_dialer :: "adapter \<Rightarrow> string \<Rightarrow> bound_dialer option" where
  "bound_network_dialer a network =
     (let ipv6 = (network = ''tcp6'' \<or> network = ''udp6'');
          index = (if ipv6 then ipv6_if_index a else if_index a)
      in case parse_ip (if ipv6 then source_ipv6 a else source_ip a) of None \<Rightarrow> None
         | Some source \<Rightarrow>
             if ipv6 \<and> to4 source \<noteq> None \<or> \<not> ipv6 \<and> to4 source = None then None
             else Some \<lparr>bd_udp = (network = ''udp4'' \<or> network = ''udp6''),
                        bd_source = (if ipv6 then source else the (to4 source)),
                        bd_interface = (if index \<le> 0 then None
                                        else Some (if ipv6 then of_int index else reverse_bytes (of_int index)))\<rparr>)"

section \<open>State\<close>

definition unix_epoch :: time where
  "unix_epoch = 62135596800 * second"

record udp_flow =
  uf_addr :: addr_port
  uf_target :: string
  uf_adapter :: adapter
  uf_remote :: bytes
  uf_conn :: nat
  uf_session :: nat
  uf_lease :: "nat option"
  uf_active :: time
  uf_reply :: time
  uf_closed :: bool

definition no_flow :: udp_flow where
  "no_flow = \<lparr>uf_addr = (None, 0), uf_target = [], uf_adapter = no_adapter, uf_remote = [], uf_conn = 0,
              uf_session = 0, uf_lease = None, uf_active = 0, uf_reply = 0, uf_closed = True\<rparr>"

record association =
  as_channel :: string
  as_sched :: "scheduler option"
  as_registry :: registry
  as_allowed :: addr
  as_locked :: nat
  as_limit :: nat
  as_idle :: duration
  as_flows :: "(addr_port \<times> nat) list"
  as_store :: "nat \<Rightarrow> udp_flow"
  as_next :: nat
  as_open :: "nat set"
  as_next_conn :: nat
  as_relay :: nat
  as_closed :: bool
  as_leases :: "nat set"
  as_sessions :: "nat set"

definition on_sched :: "(scheduler \<Rightarrow> scheduler) \<Rightarrow> association \<Rightarrow> association" where
  "on_sched f a = a\<lparr>as_sched := map_option f (as_sched a)\<rparr>"

definition on_udp_table :: "(perf_table \<Rightarrow> perf_table) \<Rightarrow> association \<Rightarrow> association" where
  "on_udp_table f = on_sched (\<lambda>s. s\<lparr>sc_udp_performance := map_option f (sc_udp_performance s)\<rparr>)"

definition on_flow :: "nat \<Rightarrow> (udp_flow \<Rightarrow> udp_flow) \<Rightarrow> association \<Rightarrow> association" where
  "on_flow f g a = a\<lparr>as_store := (as_store a)(f := g (as_store a f))\<rparr>"

definition on_registry :: "(registry \<Rightarrow> registry) \<Rightarrow> association \<Rightarrow> association" where
  "on_registry g a = a\<lparr>as_registry := g (as_registry a)\<rparr>"

definition lease_finish :: "time \<Rightarrow> nat option \<Rightarrow> association \<Rightarrow> association" where
  "lease_finish now lease = on_udp_table (\<lambda>p. pf_finish p now lease)"

section \<open>Starting\<close>

text \<open>
  The checks of \<open>handleUDPAssociation\<close>: peer and local address are None when they are no TCP
  addresses. The result is the address the client's datagrams must come from.
\<close>

definition association_allowed ::
  "bytes option \<Rightarrow> bytes option \<Rightarrow> string \<Rightarrow> addr option" where
  "association_allowed peer local requested =
     (case (peer, parse_ip requested, local) of
        (Some ip, Some asked, Some l) \<Rightarrow>
          (case (to4 ip, to4 l) of
             (Some v4, Some _) \<Rightarrow>
               if \<not> ip_unspecified asked \<and> as16 asked \<noteq> as16 ip then None else Some (A4 v4)
           | _ \<Rightarrow> None)
      | _ \<Rightarrow> None)"

definition udp_scheduler :: "scheduler \<Rightarrow> (string \<Rightarrow> scheduler option) \<Rightarrow> string \<Rightarrow> scheduler option" where
  "udp_scheduler main schedulers ch = (if ch = '''' then Some main else schedulers ch)"

definition new_association ::
  "scheduler option \<Rightarrow> registry \<Rightarrow> string \<Rightarrow> addr \<Rightarrow> nat \<Rightarrow> nat \<Rightarrow> duration \<Rightarrow> nat \<Rightarrow> association option" where
  "new_association s r ch allowed port limit idle relay =
     (if s = None \<and> ch \<noteq> channel_direct then None
      else Some \<lparr>as_channel = ch, as_sched = s, as_registry = r, as_allowed = allowed, as_locked = port,
                 as_limit = limit, as_idle = idle, as_flows = [], as_store = (\<lambda>_. no_flow), as_next = 0,
                 as_open = {}, as_next_conn = relay + 1, as_relay = relay, as_closed = False,
                 as_leases = {}, as_sessions = {}\<rparr>)"

section \<open>Flows\<close>

definition flow_touch :: "time \<Rightarrow> udp_flow \<Rightarrow> udp_flow" where
  "flow_touch now f = f\<lparr>uf_active := now\<rparr>"

text \<open>\<open>close\<close>, once: the lease, the socket, the entry in the flow map if it is this flow's, the session.\<close>

definition flow_close :: "time \<Rightarrow> nat \<Rightarrow> association \<Rightarrow> association" where
  "flow_close now f a =
     (let fl = as_store a f in
      if uf_closed fl then a
      else let a1 = lease_finish now (uf_lease fl) (on_flow f (\<lambda>x. x\<lparr>uf_closed := True\<rparr>) a)
           in on_registry (\<lambda>r. reg_finish r (uf_session fl))
                (a1\<lparr>as_open := as_open a1 - {uf_conn fl},
                    as_flows := (if map_of (as_flows a1) (uf_addr fl) = Some f
                                 then AList.delete (uf_addr fl) (as_flows a1) else as_flows a1)\<rparr>))"

text \<open>\<open>send\<close>: the outcome of the write is the number of bytes written and an error.\<close>

definition flow_send ::
  "time \<Rightarrow> nat \<Rightarrow> bytes \<Rightarrow> nat \<times> dial_error option \<Rightarrow> association \<Rightarrow> association \<times> dial_error option" where
  "flow_send now f payload outcome a =
     (let (written, e) = outcome;
          a1 = (if 0 < written
                then on_flow f (flow_touch now)
                       (on_registry (\<lambda>r. reg_add_up r (uf_session (as_store a f)) (of_nat written)) a)
                else a)
      in (a1, if e \<noteq> None then e else if written \<noteq> length payload then Some plain_error else None))"

definition single_family :: "adapter \<Rightarrow> bool" where
  "single_family a = (source_ip a = '''' \<or> source_ipv6 a = '''')"

definition record_udp_failure :: "time \<Rightarrow> adapter \<Rightarrow> string \<Rightarrow> scheduler \<Rightarrow> scheduler" where
  "record_udp_failure now ad network s =
     (let s1 = on_health (\<lambda>h. record_family h now ad network False) s
      in if single_family ad then mark_failure s1 now (name ad) else s1)"

text \<open>\<open>recordFailure\<close>: only local failures count, and only under the latency strategy.\<close>

definition flow_record_failure :: "time \<Rightarrow> nat \<Rightarrow> dial_error \<Rightarrow> association \<Rightarrow> association" where
  "flow_record_failure now f e a =
     on_sched (\<lambda>s. if is_local_connect_failure e \<and> sc_strategy s = strategy_latency
                   then record_udp_failure now (uf_adapter (as_store a f))
                          (network_for_ip ''udp'' (Some (uf_remote (as_store a f)))) s
                   else s) a"

text \<open>
  \<open>receiveLoop\<close> of a flow, one reading at a time: an error of the read, or a datagram with
  the outcome of passing it on to the client and the time that took. The loop ends when it
  closes the flow.
\<close>

datatype flow_event =
    ReadFailed dial_error
  | ReadData nat "nat option" duration

definition flow_receive :: "time \<Rightarrow> nat \<Rightarrow> flow_event \<Rightarrow> association \<Rightarrow> association" where
  "flow_receive now f ev a =
     (case ev of
        ReadFailed e \<Rightarrow>
          if de_timeout e = Some True \<and> now - uf_active (as_store a f) < as_idle a then a
          else flow_close now f (flow_record_failure now f e a)
      | ReadData count written took \<Rightarrow>
          let fl = as_store a f;
              a1 = on_flow f (\<lambda>x. x\<lparr>uf_reply := now\<rparr>) a;
              size = (case new_socks_udp_reply_buffer (uf_addr fl) of None \<Rightarrow> 0 | Some (_, n) \<Rightarrow> n);
              served = (written = Some (size + count));
              amount = (if served then int count else 0);
              a2 = (case uf_lease fl of None \<Rightarrow> a1 | Some l \<Rightarrow> on_udp_table (\<lambda>p. pf_write p l amount took) a1)
          in if count = 0 then a1
             else if served
             then on_flow f (flow_touch now) (on_registry (\<lambda>r. reg_add_down r (uf_session fl) (of_nat count)) a2)
             else flow_close now f a2)"

section \<open>Creating a flow\<close>

text \<open>
  What happens outside during the attempts of one flow: the times an attempt begins and ends,
  the translation of IPv4 addresses, whether the dial succeeds, and how the write of the
  first datagram ends.
\<close>

record flow_env =
  fe_begin :: "nat \<Rightarrow> time"
  fe_end :: "nat \<Rightarrow> time"
  fe_translate :: "adapter \<Rightarrow> bytes \<Rightarrow> dial_error + bytes"
  fe_dial :: "nat \<Rightarrow> dial_error option"
  fe_write :: "nat \<Rightarrow> nat \<times> dial_error option"

definition write_error :: "bytes \<Rightarrow> nat \<times> dial_error option \<Rightarrow> dial_error option" where
  "write_error payload w =
     (case snd w of Some e \<Rightarrow> Some e | None \<Rightarrow> if fst w \<noteq> length payload then Some plain_error else None)"

definition open_socket :: "association \<Rightarrow> nat \<times> association" where
  "open_socket a = (as_next_conn a, a\<lparr>as_open := insert (as_next_conn a) (as_open a), as_next_conn := as_next_conn a + 1\<rparr>)"

definition close_socket :: "nat \<Rightarrow> association \<Rightarrow> association" where
  "close_socket c a = a\<lparr>as_open := as_open a - {c}\<rparr>"

text \<open>A new session of the registry and the flow that owns it, the socket and the lease.\<close>

definition begin_session :: "time \<Rightarrow> addr_port \<Rightarrow> association \<Rightarrow> nat \<times> association" where
  "begin_session now client a =
     (let (se, r) = begin_address (as_registry a) now ''socks5_udp'' (as_channel a) (addr_port_string client)
                      '''' (as_relay a)
      in (se, a\<lparr>as_registry := r, as_sessions := insert se (as_sessions a)\<rparr>))"

definition add_flow :: "udp_flow \<Rightarrow> association \<Rightarrow> nat \<times> association" where
  "add_flow fl a =
     (as_next a, a\<lparr>as_store := (as_store a)(as_next a := fl), as_next := as_next a + 1\<rparr>)"

definition flow_connected ::
  "time \<Rightarrow> addr_port \<Rightarrow> addr_port \<Rightarrow> bytes \<Rightarrow> adapter option \<Rightarrow> bytes \<Rightarrow> string \<Rightarrow> nat \<Rightarrow> nat option \<Rightarrow>
   association \<Rightarrow> nat \<times> association" where
  "flow_connected now client addr payload ad remote dialed conn lease a =
     (let target = addr_port_string addr;
          (se, a1) = begin_session now client a;
          a2 = on_registry (\<lambda>r. case ad of
                  Some x \<Rightarrow> reg_attach r se conn (Some dialed) target x
                | None \<Rightarrow> reg_attach_direct r se conn (Some dialed) target) a1;
          a3 = on_registry (\<lambda>r. reg_add_up r se (of_nat (length payload))) a2
      in add_flow \<lparr>uf_addr = addr, uf_target = target,
                   uf_adapter = (case ad of Some x \<Rightarrow> x | None \<Rightarrow> no_adapter), uf_remote = remote,
                   uf_conn = conn, uf_session = se, uf_lease = lease, uf_active = now,
                   uf_reply = (if ad = None then unix_epoch else now), uf_closed = False\<rparr> a3)"

text \<open>Taking an adapter: the lease is remembered.\<close>

definition take_adapter ::
  "time \<Rightarrow> string set \<Rightarrow> string \<Rightarrow> scheduler \<Rightarrow> association \<Rightarrow> adapter option \<times> nat option \<times> association" where
  "take_adapter now excluded target s a =
     (case acquire_udp s now excluded target of
        (choice, lease, s1) \<Rightarrow>
          (choice, lease, a\<lparr>as_sched := Some s1, as_leases := as_leases a \<union> set_option lease\<rparr>))"

text \<open>One attempt with the adapter that \<open>acquireUDP\<close> chose: an error, or the flow.\<close>

definition attempt_way :: "flow_env \<Rightarrow> bytes \<Rightarrow> adapter \<Rightarrow> dial_error + string \<times> bytes" where
  "attempt_way env ip ad =
     (if to4 ip \<noteq> None \<and> source_ip ad = ''''
      then (case fe_translate env ad ip of Inl e \<Rightarrow> Inl e | Inr t \<Rightarrow> Inr (''udp6'', t))
      else Inr (network_for_ip ''udp'' (Some ip), ip))"

definition attempt_lost ::
  "time \<Rightarrow> adapter \<Rightarrow> string \<Rightarrow> dial_error \<Rightarrow> nat option \<Rightarrow> association \<Rightarrow> association" where
  "attempt_lost now ad network e lease a =
     (let a1 = lease_finish now lease a
      in if is_local_connect_failure e then on_sched (record_udp_failure now ad network) a1 else a1)"

definition attempt_won :: "time \<Rightarrow> adapter \<Rightarrow> string \<Rightarrow> nat option \<Rightarrow> association \<Rightarrow> association" where
  "attempt_won now ad network lease a =
     (let a1 = on_sched (\<lambda>s. on_health (\<lambda>h. record_family h now ad network True) (mark_success s now (name ad) None)) a
      in case lease of None \<Rightarrow> a1 | Some l \<Rightarrow> on_udp_table (\<lambda>p. pf_attach p now l) a1)"

definition flow_attempt ::
  "flow_env \<Rightarrow> nat \<Rightarrow> addr_port \<Rightarrow> addr_port \<Rightarrow> bytes \<Rightarrow> bytes \<Rightarrow> adapter \<Rightarrow> nat option \<Rightarrow> association \<Rightarrow>
   association \<times> (dial_error + nat)" where
  "flow_attempt env i client addr ip payload ad lease a =
     (let now = fe_end env i in
      case attempt_way env ip ad of Inl e \<Rightarrow> (lease_finish now lease a, Inl e)
      | Inr (network, dialed) \<Rightarrow>
          (case bound_network_dialer ad network of
             None \<Rightarrow> (on_sched (record_udp_failure now ad network) (lease_finish now lease a), Inl plain_error)
           | Some _ \<Rightarrow>
               (case fe_dial env i of
                  Some e \<Rightarrow> (attempt_lost now ad network e lease a, Inl e)
                | None \<Rightarrow>
                    let (conn, a1) = open_socket a in
                    (case write_error payload (fe_write env i) of
                       Some e \<Rightarrow> (attempt_lost now ad network e lease (close_socket conn a1), Inl e)
                     | None \<Rightarrow>
                         let (f, a2) = flow_connected now client addr payload (Some ad) dialed
                               (join_host_port (ip_string dialed) (itoa_nat (unat (snd addr)))) conn lease
                               (attempt_won now ad network lease a1)
                         in (a2, Inr f)))))"

fun flow_attempts ::
  "nat \<Rightarrow> nat \<Rightarrow> flow_env \<Rightarrow> addr_port \<Rightarrow> addr_port \<Rightarrow> bytes \<Rightarrow> bytes \<Rightarrow> string set \<Rightarrow> association \<Rightarrow>
   association \<times> nat option" where
  "flow_attempts 0 i env client addr ip payload excluded a = (a, None)"
| "flow_attempts (Suc n) i env client addr ip payload excluded a =
     (case as_sched a of None \<Rightarrow> (a, None)
      | Some s \<Rightarrow>
          (case take_adapter (fe_begin env i) excluded (addr_port_string addr) s a of
             (None, lease, a1) \<Rightarrow> (a1, None)
           | (Some ad, lease, a1) \<Rightarrow>
               (case flow_attempt env i client addr ip payload ad lease a1 of
                  (a2, Inr f) \<Rightarrow> (a2, Some f)
                | (a2, Inl e) \<Rightarrow>
                    flow_attempts n (i + 1) env client addr ip payload (insert (name ad) excluded) a2)))"

text \<open>The adapters ruled out before the first attempt: the skipped one, wrong and cooling families.\<close>

definition flow_excluded :: "scheduler \<Rightarrow> time \<Rightarrow> string \<Rightarrow> bytes \<Rightarrow> string set" where
  "flow_excluded s now skip ip =
     (let adapters = sc_adapters s; network = network_for_ip ''udp'' (Some ip);
          skipped = set (filter (\<lambda>n. n = skip) (map name adapters));
          wrong = set (map name (filter (\<lambda>ad. \<not> adapter_supports_network ad network \<and>
                                             \<not> (to4 ip \<noteq> None \<and> source_ipv6 ad \<noteq> '''')) adapters))
      in exclude_cooling_families adapters (skipped \<union> wrong) (sc_health s) now network)"

definition create_direct_flow ::
  "flow_env \<Rightarrow> addr_port \<Rightarrow> addr_port \<Rightarrow> bytes \<Rightarrow> bytes \<Rightarrow> association \<Rightarrow> association \<times> nat option" where
  "create_direct_flow env client addr ip payload a =
     (case fe_dial env 0 of Some e \<Rightarrow> (a, None)
      | None \<Rightarrow>
          let (conn, a1) = open_socket a in
          (case write_error payload (fe_write env 0) of
             Some e \<Rightarrow> (close_socket conn a1, None)
           | None \<Rightarrow>
               let (f, a2) = flow_connected (fe_end env 0) client addr payload None ip (addr_port_string addr) conn None a1
               in (a2, Some f)))"

definition create_flow ::
  "flow_env \<Rightarrow> addr_port \<Rightarrow> addr_port \<Rightarrow> bytes \<Rightarrow> string \<Rightarrow> association \<Rightarrow> association \<times> nat option" where
  "create_flow env client addr payload skip a =
     (case split_host_port (addr_port_string addr) of None \<Rightarrow> (a, None)
      | Some (host, port) \<Rightarrow>
          (case parse_ip host of None \<Rightarrow> (a, None)
           | Some ip \<Rightarrow>
               if as_channel a = channel_direct then create_direct_flow env client addr ip payload a
               else case as_sched a of None \<Rightarrow> (a, None)
               | Some s \<Rightarrow>
                   let excluded = flow_excluded s (fe_begin env 0) skip ip;
                       attempts = min 2 (length (sc_adapters s) - card excluded)
                   in flow_attempts attempts 0 env client addr ip payload excluded a))"

section \<open>Forwarding a datagram\<close>

text \<open>
  \<open>forward\<close> holds the association's lock three times, and between them flows may be closed by
  their own goroutines. So it has three parts: the look at the flow map, with the datagram
  sent on an existing flow; the creation of a flow; and its installation.
\<close>

datatype forward_stage =
    Idle
  | Creating addr_port addr_port bytes string
  | Installing addr_port bytes nat
  | Ended

definition at_limit :: "association \<Rightarrow> bool" where
  "at_limit a = (as_limit a \<le> length (as_flows a))"

definition silent_flow :: "time \<Rightarrow> nat \<Rightarrow> association \<Rightarrow> bool \<times> association" where
  "silent_flow now f a =
     (let fl = as_store a f in
      case as_sched a of None \<Rightarrow> (False, a)
      | Some s \<Rightarrow>
          if 3 * second \<le> now - uf_reply fl
          then (case latency_failover s now (uf_adapter fl) (uf_target fl) of
                  (b, s1) \<Rightarrow> (b, a\<lparr>as_sched := Some s1\<rparr>))
          else (False, a))"

definition forward_lookup ::
  "time \<Rightarrow> addr_port \<Rightarrow> addr_port \<Rightarrow> bytes \<Rightarrow> nat \<times> dial_error option \<Rightarrow> association \<Rightarrow> association \<times> forward_stage" where
  "forward_lookup now client addr payload outcome a0 =
     (let a = on_sched (\<lambda>s. watch_latency_addr s now (case fst addr of Some x \<Rightarrow> addr_bytes x | None \<Rightarrow> [])) a0 in
      if as_closed a then (a, Idle)
      else case map_of (as_flows a) addr of
        None \<Rightarrow> if at_limit a then (a, Idle) else (a, Creating client addr payload '''')
      | Some f \<Rightarrow>
          (case silent_flow now f a of
             (True, a1) \<Rightarrow>
               let a2 = flow_close now f a1 in
               if as_closed a2 \<or> at_limit a2 then (a2, Idle)
               else (a2, Creating client addr payload (name (uf_adapter (as_store a f))))
           | (False, a1) \<Rightarrow>
               (case flow_send now f payload outcome a1 of
                  (a2, None) \<Rightarrow> (a2, Idle)
                | (a2, Some e) \<Rightarrow> (flow_close now f (flow_record_failure now f e a2), Idle))))"

definition forward_install ::
  "time \<Rightarrow> addr_port \<Rightarrow> bytes \<Rightarrow> nat \<Rightarrow> nat \<times> dial_error option \<Rightarrow> association \<Rightarrow> association" where
  "forward_install now addr payload f outcome a =
     (if as_closed a then flow_close now f a
      else case map_of (as_flows a) addr of
        Some g \<Rightarrow> fst (flow_send now g payload outcome (flow_close now f a))
      | None \<Rightarrow> a\<lparr>as_flows := AList.update addr f (as_flows a)\<rparr>)"

text \<open>One datagram read by \<open>serve\<close>; the port of the first accepted one is locked.\<close>

definition serve_datagram ::
  "time \<Rightarrow> addr \<times> u16 \<Rightarrow> bytes \<Rightarrow> nat \<times> dial_error option \<Rightarrow> association \<Rightarrow> association \<times> forward_stage" where
  "serve_datagram now client data outcome a =
     (if addr_unmap (fst client) \<noteq> as_allowed a then (a, Idle)
      else case parse_socks_udp_packet data of
        Some (Some (addr, payload)) \<Rightarrow>
          if as_locked a \<noteq> 0 \<and> unat (snd client) \<noteq> as_locked a then (a, Idle)
          else forward_lookup now (Some (fst client), snd client) addr payload outcome
                 (if as_locked a = 0 then a\<lparr>as_locked := unat (snd client)\<rparr> else a)
      | _ \<Rightarrow> (a, Idle))"

section \<open>Closing\<close>

fun close_flows :: "time \<Rightarrow> nat list \<Rightarrow> association \<Rightarrow> association" where
  "close_flows now [] a = a"
| "close_flows now (f # fs) a = close_flows now fs (flow_close now f a)"

definition association_close :: "time \<Rightarrow> association \<Rightarrow> association" where
  "association_close now a =
     (if as_closed a then a
      else close_flows now (map snd (as_flows a)) (a\<lparr>as_closed := True\<rparr>))"

section \<open>Runs\<close>

text \<open>
  The goroutine that serves the association goes through the stages; the receiving
  goroutines of the flows run at any time once the flow is installed, and so do the other
  users of the scheduler and the registry, who leave the association's own leases and
  sessions alone.
\<close>

definition same_leases :: "nat set \<Rightarrow> scheduler option \<Rightarrow> scheduler option \<Rightarrow> bool" where
  "same_leases mine s s' \<longleftrightarrow>
     (case (s, s') of
        (Some x, Some y) \<Rightarrow>
          (case (sc_udp_performance x, sc_udp_performance y) of
             (Some p, Some q) \<Rightarrow> pf_next_lease p \<le> pf_next_lease q \<and>
               (\<forall>l\<in>mine. ls_finished (pf_lease_store q l) = ls_finished (pf_lease_store p l))
           | (None, None) \<Rightarrow> True
           | _ \<Rightarrow> False)
      | (None, None) \<Rightarrow> True
      | _ \<Rightarrow> False)"

definition same_sessions :: "nat set \<Rightarrow> registry \<Rightarrow> registry \<Rightarrow> bool" where
  "same_sessions mine r r' \<longleftrightarrow> rg_next_session r \<le> rg_next_session r' \<and>
     (\<forall>s\<in>mine. se_finished (rg_sessions r' s) = se_finished (rg_sessions r s))"

definition installing :: "forward_stage \<Rightarrow> nat \<Rightarrow> bool" where
  "installing st f = (\<exists>addr payload. st = Installing addr payload f)"

inductive udp_step :: "association \<times> forward_stage \<Rightarrow> association \<times> forward_stage \<Rightarrow> bool" where
  Datagram: "serve_datagram now client data outcome a = r \<Longrightarrow> udp_step (a, Idle) r"
| Create: "create_flow env client addr payload skip a = (a', Some f) \<Longrightarrow>
     udp_step (a, Creating client addr payload skip) (a', Installing addr payload f)"
| NoFlow: "create_flow env client addr payload skip a = (a', None) \<Longrightarrow>
     udp_step (a, Creating client addr payload skip) (a', Idle)"
| Install: "udp_step (a, Installing addr payload f) (forward_install now addr payload f outcome a, Idle)"
| Receive: "f < as_next a \<Longrightarrow> \<not> installing st f \<Longrightarrow> udp_step (a, st) (flow_receive now f ev a, st)"
| Others: "same_leases (as_leases a) (as_sched a) s \<Longrightarrow> same_sessions (as_sessions a) (as_registry a) r \<Longrightarrow>
     udp_step (a, st) (a\<lparr>as_sched := s, as_registry := r\<rparr>, st)"
| Close: "udp_step (a, Idle) (association_close now a, Ended)"

inductive udp_run :: "association \<Rightarrow> association \<times> forward_stage \<Rightarrow> bool" for a0 where
  Start: "udp_run a0 (a0, Idle)"
| Step: "udp_run a0 x \<Longrightarrow> udp_step x y \<Longrightarrow> udp_run a0 y"

inductive_cases udp_stepE: "udp_step x y"

end
