(* ===== verification/UdpFacts.thy ===== *)
theory UdpFacts
  imports UdpAssoc DialFacts
begin

text \<open>
  UDP associations keep account of what they hold. A flow owns a socket, a session and
  perhaps a lease; \<open>tracks\<close> is the contract the three have in common, and the lemmas after it
  say how taking, losing, handing over and closing keep it. The invariant \<open>udp_ok\<close> has it
  for every kind, with the flow map; it holds in every state a run can reach.
\<close>

section \<open>Owned resources\<close>

text \<open>
  \<open>open_flows\<close> are the flows that are not closed, \<open>owner\<close> what each of them holds, \<open>mine\<close> what was ever
  taken, all below \<open>bound\<close>; \<open>active\<close> what is not yet released. \<open>pending\<close> is taken and not
  owned yet.
\<close>

definition tracks ::
  "nat set \<Rightarrow> (nat \<Rightarrow> nat option) \<Rightarrow> nat set \<Rightarrow> (nat \<Rightarrow> bool) \<Rightarrow> nat \<Rightarrow> nat set \<Rightarrow> bool" where
  "tracks open_flows owner mine active bound pending \<longleftrightarrow>
     (\<forall>f\<in>open_flows. \<forall>x. owner f = Some x \<longrightarrow> x \<in> mine \<and> active x \<and> x \<notin> pending) \<and>
     (\<forall>f\<in>open_flows. \<forall>g\<in>open_flows. \<forall>x. owner f = Some x \<longrightarrow> owner g = Some x \<longrightarrow> f = g) \<and>
     pending \<subseteq> mine \<and> (\<forall>x\<in>pending. active x) \<and> (\<forall>x\<in>mine. x < bound) \<and>
     (\<forall>x\<in>mine. active x \<longrightarrow> x \<in> pending \<or> (\<exists>f\<in>open_flows. owner f = Some x))"

lemma tracksD:
  assumes "tracks open_flows owner mine active bound pending"
  shows "f \<in> open_flows \<Longrightarrow> owner f = Some x \<Longrightarrow> x \<in> mine" "f \<in> open_flows \<Longrightarrow> owner f = Some x \<Longrightarrow> active x"
    "f \<in> open_flows \<Longrightarrow> owner f = Some x \<Longrightarrow> x \<notin> pending"
    "f \<in> open_flows \<Longrightarrow> g \<in> open_flows \<Longrightarrow> owner f = Some x \<Longrightarrow> owner g = Some x \<Longrightarrow> f = g"
    "x \<in> pending \<Longrightarrow> x \<in> mine" "x \<in> pending \<Longrightarrow> active x" "x \<in> mine \<Longrightarrow> x < bound"
    "x \<in> mine \<Longrightarrow> active x \<Longrightarrow> x \<in> pending \<or> (\<exists>f\<in>open_flows. owner f = Some x)"
  using assms unfolding tracks_def by (simp_all add: subset_iff)

lemma tracksI:
  assumes "\<And>f x. f \<in> open_flows \<Longrightarrow> owner f = Some x \<Longrightarrow> x \<in> mine \<and> active x \<and> x \<notin> pending"
    "\<And>f g x. f \<in> open_flows \<Longrightarrow> g \<in> open_flows \<Longrightarrow> owner f = Some x \<Longrightarrow> owner g = Some x \<Longrightarrow> f = g"
    "\<And>x. x \<in> pending \<Longrightarrow> x \<in> mine \<and> active x" "\<And>x. x \<in> mine \<Longrightarrow> x < bound"
    "\<And>x. x \<in> mine \<Longrightarrow> active x \<Longrightarrow> x \<in> pending \<or> (\<exists>f\<in>open_flows. owner f = Some x)"
  shows "tracks open_flows owner mine active bound pending"
  unfolding tracks_def subset_iff by (intro conjI ballI allI impI) (use assms in simp_all)

lemma tracks_cong:
  assumes t: "tracks open_flows owner mine active bound pending" and "\<And>x. x \<in> mine \<Longrightarrow> active' x = active x"
    "\<And>f. f \<in> open_flows \<Longrightarrow> owner' f = owner f" "bound \<le> bound'"
  shows "tracks open_flows owner' mine active' bound' pending"
proof (rule tracksI, goal_cases)
  case (1 f x)
  then show ?case using tracksD(1-3)[OF t, of f x] assms(2,3) by simp
next
  case (2 f g x)
  then show ?case using tracksD(4)[OF t, of f g x] assms(3) by simp
next
  case (3 x)
  then show ?case using tracksD(5,6)[OF t, of x] assms(2) by simp
next
  case (4 x)
  then show ?case using tracksD(7)[OF t, of x] assms(4) by simp
next
  case (5 x)
  then show ?case using tracksD(8)[OF t, of x] assms(2,3) by fastforce
qed

lemma tracks_take:
  assumes t: "tracks open_flows owner mine active bound {}" and x: "bound \<le> x" "x < bound'"
    "active' x" "\<And>y. y \<in> mine \<Longrightarrow> active' y = active y"
  shows "tracks open_flows owner (insert x mine) active' bound' {x}"
proof -
  have n: "x \<notin> mine" using tracksD(7)[OF t, of x] x(1) by auto
  show ?thesis
  proof (rule tracksI, goal_cases)
    case (1 f y)
    then show ?case using tracksD(1,2)[OF t, of f y] x(4) n by auto
  next
    case (2 f g y)
    then show ?case using tracksD(4)[OF t, of f g y] by simp
  next
    case (4 y)
    then show ?case using tracksD(7)[OF t, of y] x by auto
  next
    case (5 y)
    then show ?case using tracksD(8)[OF t, of y] x(4) by auto
  qed (use x in simp)
qed

lemma tracks_lose:
  assumes t: "tracks open_flows owner mine active bound {x}" and "\<And>y. y \<in> mine \<Longrightarrow> active' y = (active y \<and> y \<noteq> x)"
  shows "tracks open_flows owner mine active' bound {}"
proof (rule tracksI, goal_cases)
  case (1 f y)
  then show ?case using tracksD(1-3)[OF t, of f y] assms(2) by simp
next
  case (2 f g y)
  then show ?case using tracksD(4)[OF t, of f g y] by simp
next
  case (4 y)
  then show ?case using tracksD(7)[OF t, of y] by simp
next
  case (5 y)
  then show ?case using tracksD(8)[OF t, of y] assms(2) by simp
qed simp

lemma tracks_adopt:
  assumes t: "tracks open_flows owner mine active bound (set_option r)" and "f \<notin> open_flows" "owner' f = r"
    "\<And>g. g \<in> open_flows \<Longrightarrow> owner' g = owner g"
  shows "tracks (insert f open_flows) owner' mine active bound {}"
proof (rule tracksI, goal_cases)
  case (1 g x)
  then show ?case using tracksD(1,2)[OF t, of g x] tracksD(5,6)[OF t, of x] assms(3,4) by (auto simp: elem_set)
next
  case (2 g h x)
  have "x \<in> set_option r \<Longrightarrow> g \<in> open_flows \<Longrightarrow> owner' g \<noteq> Some x" for g
    using tracksD(3)[OF t, of g x] assms(4) by auto
  then show ?case using tracksD(4)[OF t, of g h x] assms(3,4) 2 by auto
next
  case (4 x)
  then show ?case using tracksD(7)[OF t, of x] by simp
next
  case (5 x)
  then show ?case using tracksD(8)[OF t, of x] assms(3,4) by (auto simp: elem_set)
qed simp

lemma tracks_close:
  assumes t: "tracks open_flows owner mine active bound pending" and f: "f \<in> open_flows"
    "\<And>y. y \<in> mine \<Longrightarrow> active' y = (active y \<and> owner f \<noteq> Some y)" "\<And>g. g \<in> open_flows \<Longrightarrow> owner' g = owner g"
  shows "tracks (open_flows - {f}) owner' mine active' bound pending"
proof (rule tracksI, goal_cases)
  case (1 g x)
  then show ?case using tracksD(1-3)[OF t, of g x] tracksD(4)[OF t, of f g x] f by auto
next
  case (2 g h x)
  then show ?case using tracksD(4)[OF t, of g h x] f(3) by simp
next
  case (3 x)
  then show ?case using tracksD(5,6)[OF t, of x] tracksD(3)[OF t, of f x] f(1,2) by auto
next
  case (4 x)
  then show ?case using tracksD(7)[OF t, of x] by simp
next
  case (5 x)
  then show ?case using tracksD(8)[OF t, of x] f(2,3) by auto
qed

lemma tracks_all_released:
  "tracks {} owner mine active bound {} \<Longrightarrow> x \<in> mine \<Longrightarrow> \<not> active x"
  by (auto simp: tracks_def)

section \<open>Views\<close>

definition udp_table :: "association \<Rightarrow> perf_table option" where
  "udp_table a = Option.bind (as_sched a) sc_udp_performance"

definition lease_active :: "perf_table option \<Rightarrow> nat \<Rightarrow> bool" where
  "lease_active p l = (case p of None \<Rightarrow> False | Some q \<Rightarrow> \<not> ls_finished (pf_lease_store q l))"

definition next_lease :: "perf_table option \<Rightarrow> nat" where
  "next_lease p = (case p of None \<Rightarrow> 0 | Some q \<Rightarrow> pf_next_lease q)"

definition session_active :: "registry \<Rightarrow> nat \<Rightarrow> bool" where
  "session_active r s = (\<not> se_finished (rg_sessions r s))"

definition lives :: "association \<Rightarrow> nat set" where
  "lives a = {f. f < as_next a \<and> \<not> uf_closed (as_store a f)}"

definition leases_ok :: "association \<Rightarrow> nat set \<Rightarrow> bool" where
  "leases_ok a = tracks (lives a) (\<lambda>f. uf_lease (as_store a f)) (as_leases a) (lease_active (udp_table a)) (next_lease (udp_table a))"

definition sessions_ok :: "association \<Rightarrow> nat set \<Rightarrow> bool" where
  "sessions_ok a = tracks (lives a) (\<lambda>f. Some (uf_session (as_store a f))) (as_sessions a)
     (session_active (as_registry a)) (rg_next_session (as_registry a))"

definition sockets_ok :: "association \<Rightarrow> nat set \<Rightarrow> bool" where
  "sockets_ok a = tracks (lives a) (\<lambda>f. Some (uf_conn (as_store a f))) {..<as_next_conn a} (\<lambda>c. c \<in> as_open a) (as_next_conn a)"

text \<open>What the operations on one part leave alone.\<close>

lemma on_sched_views [simp]:
  "as_registry (on_sched g a) = as_registry a" "as_flows (on_sched g a) = as_flows a"
  "as_store (on_sched g a) = as_store a" "as_next (on_sched g a) = as_next a" "as_open (on_sched g a) = as_open a"
  "as_next_conn (on_sched g a) = as_next_conn a" "as_closed (on_sched g a) = as_closed a"
  "as_leases (on_sched g a) = as_leases a" "as_sessions (on_sched g a) = as_sessions a"
  "as_limit (on_sched g a) = as_limit a" "lives (on_sched g a) = lives a"
  "as_channel (on_sched g a) = as_channel a"
  by (simp_all add: on_sched_def lives_def)

lemma on_udp_table_views [simp]:
  "as_registry (on_udp_table g a) = as_registry a" "as_flows (on_udp_table g a) = as_flows a"
  "as_store (on_udp_table g a) = as_store a" "as_next (on_udp_table g a) = as_next a"
  "as_open (on_udp_table g a) = as_open a" "as_next_conn (on_udp_table g a) = as_next_conn a"
  "as_closed (on_udp_table g a) = as_closed a" "as_leases (on_udp_table g a) = as_leases a"
  "as_sessions (on_udp_table g a) = as_sessions a" "as_limit (on_udp_table g a) = as_limit a"
  "lives (on_udp_table g a) = lives a" "udp_table (on_udp_table g a) = map_option g (udp_table a)"
  "as_channel (on_udp_table g a) = as_channel a"
  by (simp_all add: on_udp_table_def udp_table_def on_sched_def lives_def split: option.split bind_split)

lemma on_registry_views [simp]:
  "as_registry (on_registry h a) = h (as_registry a)" "as_flows (on_registry h a) = as_flows a"
  "as_store (on_registry h a) = as_store a" "as_next (on_registry h a) = as_next a"
  "as_open (on_registry h a) = as_open a" "as_next_conn (on_registry h a) = as_next_conn a"
  "as_closed (on_registry h a) = as_closed a" "as_leases (on_registry h a) = as_leases a"
  "as_sessions (on_registry h a) = as_sessions a" "as_limit (on_registry h a) = as_limit a"
  "lives (on_registry h a) = lives a" "udp_table (on_registry h a) = udp_table a"
  "as_sched (on_registry h a) = as_sched a" "as_channel (on_registry h a) = as_channel a"
  by (simp_all add: on_registry_def lives_def udp_table_def)

lemma on_flow_views [simp]:
  "as_registry (on_flow f h a) = as_registry a" "as_flows (on_flow f h a) = as_flows a"
  "as_next (on_flow f h a) = as_next a" "as_open (on_flow f h a) = as_open a"
  "as_next_conn (on_flow f h a) = as_next_conn a" "as_closed (on_flow f h a) = as_closed a"
  "as_leases (on_flow f h a) = as_leases a" "as_sessions (on_flow f h a) = as_sessions a"
  "as_limit (on_flow f h a) = as_limit a" "udp_table (on_flow f h a) = udp_table a"
  "as_sched (on_flow f h a) = as_sched a" "as_channel (on_flow f h a) = as_channel a"
  "as_store (on_flow f h a) = (as_store a)(f := h (as_store a f))"
  by (simp_all add: on_flow_def udp_table_def)

lemma udp_table_on_sched:
  "(\<And>s. as_sched a = Some s \<Longrightarrow> sc_udp_performance (g s) = sc_udp_performance s) \<Longrightarrow> udp_table (on_sched g a) = udp_table a"
  by (cases "as_sched a") (simp_all add: udp_table_def on_sched_def)

section \<open>Effects on the tables\<close>

lemma lease_active_finish [simp]:
  "lease_active (map_option (\<lambda>p. pf_finish p now lease) t) l = (lease_active t l \<and> lease \<noteq> Some l)"
  "next_lease (map_option (\<lambda>p. pf_finish p now lease) t) = next_lease t"
  by (cases t; cases lease; auto simp: lease_active_def next_lease_def pf_finish_effect; simp add: pf_finish_def)+

lemma lease_active_attach [simp]:
  "lease_active (map_option (\<lambda>p. pf_attach p now x) t) l = lease_active t l"
  "next_lease (map_option (\<lambda>p. pf_attach p now x) t) = next_lease t"
  by (cases t; simp add: lease_active_def next_lease_def pf_attach_effect)+

lemma pf_write_effect:
  "pf_next_lease (pf_write p x n took) = pf_next_lease p"
  "ls_finished (pf_lease_store (pf_write p x n took) l) = ls_finished (pf_lease_store p l)"
  by (simp_all add: pf_write_def Let_def)

lemma lease_active_write [simp]:
  "lease_active (map_option (\<lambda>p. pf_write p x n took) t) l = lease_active t l"
  "next_lease (map_option (\<lambda>p. pf_write p x n took) t) = next_lease t"
  by (cases t; simp add: lease_active_def next_lease_def pf_write_effect)+

lemma pf_acquire_fresh:
  "lease_active (Some (snd (snd (pf_acquire p now cs adaptive fb pools)))) (fst (snd (pf_acquire p now cs adaptive fb pools)))"
  by (simp add: lease_active_def pf_acquire_def no_lease_def Let_def case_prod_unfold)

lemma acquire_udp_lease:
  assumes "acquire_udp s now excluded target = (choice, lease, s')"
  shows "lease_effect (sc_udp_performance s) lease (sc_udp_performance s') \<and> (choice = None \<longrightarrow> lease = None) \<and>
    (\<forall>l. lease = Some l \<longrightarrow> lease_active (sc_udp_performance s') l)"
proof -
  obtain cs h where c: "candidates (sc_health s) now (sc_adapters s) excluded '''' = (cs, h)" by fastforce
  let ?s = "s\<lparr>sc_health := h\<rparr>"
  obtain fb s1 where p: "(if uses_latency ?s then (let (a, s') = latency_pick ?s now cs target in (Some a, s'))
      else select_locked ?s now excluded '''') = (fb, s1)" by fastforce
  have "sc_udp_performance (snd (latency_pick ?s now cs target)) = sc_udp_performance s"
    by (simp add: latency_pick_def Let_def case_prod_unfold)
  moreover have "sc_udp_performance (snd (select_locked ?s now excluded '''')) = sc_udp_performance s"
    by (simp add: select_locked_def latency_pick_def Let_def case_prod_unfold)
  ultimately have s1: "sc_udp_performance s1 = sc_udp_performance s"
    using p by (auto simp: case_prod_unfold Let_def split: if_splits)
  have "(if cs = [] then (None, None, ?s) else
      case fb of None \<Rightarrow> (None, None, s1)
      | Some fb \<Rightarrow> (case sc_udp_performance s1 of None \<Rightarrow> (Some fb, None, s1)
          | Some p \<Rightarrow> (case pf_acquire p now cs (sc_strategy s1 = strategy_adaptive) fb (Some (sc_adapters s1)) of
               (a, lease, p') \<Rightarrow> (Some a, Some lease, s1\<lparr>sc_udp_performance := Some p'\<rparr>)))) = (choice, lease, s')"
    using assms by (simp only: acquire_udp_def c Let_def prod.case p[unfolded Let_def])
  then show ?thesis
    using s1 pf_acquire_effect by (auto simp: case_prod_unfold pf_acquire_fresh split: if_splits option.splits)
qed

lemma lease_effect_views:
  assumes "lease_effect t lease t'"
  shows "lease = None \<Longrightarrow> t' = t"
    "lease = Some l \<Longrightarrow> next_lease t \<le> l \<and> l < next_lease t'"
    "lease = Some l \<Longrightarrow> y < next_lease t \<Longrightarrow> lease_active t' y = lease_active t y"
  using assms by (auto simp: lease_effect_def next_lease_def lease_active_def split: option.splits)

lemma reg_keeps_sessions [simp]:
  "session_active (reg_add_up r s n) x = session_active r x" "session_active (reg_add_down r s n) x = session_active r x"
  "rg_next_session (reg_add_up r s n) = rg_next_session r" "rg_next_session (reg_add_down r s n) = rg_next_session r"
  "session_active (reg_attach r s u rem t ad) x = session_active r x"
  "rg_next_session (reg_attach r s u rem t ad) = rg_next_session r"
  "session_active (reg_attach_direct r s u rem t) x = session_active r x"
  "rg_next_session (reg_attach_direct r s u rem t) = rg_next_session r"
  by (simp_all add: session_active_def reg_add_up_def reg_add_down_def reg_attach_def reg_attach_direct_def add_counters_def
      Let_def split: option.split)

lemma reg_finish_sessions [simp]:
  "session_active (reg_finish r s) x = (session_active r x \<and> x \<noteq> s)" "rg_next_session (reg_finish r s) = rg_next_session r"
  by (auto simp: session_active_def reg_finish_def Let_def split: option.split)

lemma begin_address_sessions:
  "begin_address r now p c cl li k = (s, r') \<Longrightarrow>
   s = rg_next_session r \<and> rg_next_session r' = s + 1 \<and> session_active r' s \<and>
   (\<forall>x. x < s \<longrightarrow> session_active r' x = session_active r x)"
  by (auto simp: begin_address_def Let_def session_active_def no_session_def)

lemma record_udp_failure_table [simp]: "sc_udp_performance (record_udp_failure now ad n s) = sc_udp_performance s"
  by (simp add: record_udp_failure_def on_health_def mark_failure_def Let_def)

lemma leases_ok_eq:
  "lives b = lives a \<Longrightarrow> (\<And>f. f \<in> lives a \<Longrightarrow> uf_lease (as_store b f) = uf_lease (as_store a f)) \<Longrightarrow> as_leases b = as_leases a \<Longrightarrow>
   (\<And>l. l \<in> as_leases a \<Longrightarrow> lease_active (udp_table b) l = lease_active (udp_table a) l) \<Longrightarrow>
   next_lease (udp_table a) \<le> next_lease (udp_table b) \<Longrightarrow> leases_ok a P \<Longrightarrow> leases_ok b P"
  unfolding leases_ok_def by (simp only:) (erule tracks_cong; simp)

lemma sockets_ok_eq:
  "lives b = lives a \<Longrightarrow> (\<And>f. f \<in> lives a \<Longrightarrow> uf_conn (as_store b f) = uf_conn (as_store a f)) \<Longrightarrow>
   as_next_conn b = as_next_conn a \<Longrightarrow> as_open b = as_open a \<Longrightarrow> sockets_ok a P \<Longrightarrow> sockets_ok b P"
  unfolding sockets_ok_def by (simp only:) (erule tracks_cong; simp)

lemma sessions_ok_eq:
  "lives b = lives a \<Longrightarrow> (\<And>f. f \<in> lives a \<Longrightarrow> uf_session (as_store b f) = uf_session (as_store a f)) \<Longrightarrow> as_sessions b = as_sessions a \<Longrightarrow>
   (\<And>l. l \<in> as_sessions a \<Longrightarrow> session_active (as_registry b) l = session_active (as_registry a) l) \<Longrightarrow>
   rg_next_session (as_registry a) \<le> rg_next_session (as_registry b) \<Longrightarrow> sessions_ok a P \<Longrightarrow> sessions_ok b P"
  unfolding sessions_ok_def by (simp only:) (erule tracks_cong; simp)

section \<open>Closing a flow\<close>

definition holds_ok :: "association \<Rightarrow> bool" where
  "holds_ok a \<longleftrightarrow> leases_ok a {} \<and> sockets_ok a {} \<and> sessions_ok a {}"

lemma lives_close: "lives (on_flow f (\<lambda>x. x\<lparr>uf_closed := True\<rparr>) a) = lives a - {f}"
  by (auto simp: lives_def)

lemma flow_close_dead: "f < as_next a \<Longrightarrow> f \<notin> lives a \<Longrightarrow> flow_close now f a = a"
  by (simp add: flow_close_def Let_def lives_def)

lemma flow_close_views:
  assumes "f \<in> lives a"
  shows "lives (flow_close now f a) = lives a - {f}"
    "udp_table (flow_close now f a) = map_option (\<lambda>p. pf_finish p now (uf_lease (as_store a f))) (udp_table a)"
    "as_registry (flow_close now f a) = reg_finish (as_registry a) (uf_session (as_store a f))"
    "as_open (flow_close now f a) = as_open a - {uf_conn (as_store a f)}"
    "as_flows (flow_close now f a) =
       (if map_of (as_flows a) (uf_addr (as_store a f)) = Some f then AList.delete (uf_addr (as_store a f)) (as_flows a)
        else as_flows a)"
    "as_store (flow_close now f a) = (as_store a)(f := (as_store a f)\<lparr>uf_closed := True\<rparr>)"
  using assms lives_close[of f a]
  by (simp_all add: flow_close_def Let_def lives_def lease_finish_def udp_table_def on_registry_def on_udp_table_def
      on_sched_def on_flow_def split: option.split bind_split)

lemma flow_close_same [simp]:
  "as_next (flow_close now f a) = as_next a" "as_next_conn (flow_close now f a) = as_next_conn a"
  "as_leases (flow_close now f a) = as_leases a" "as_sessions (flow_close now f a) = as_sessions a"
  "as_limit (flow_close now f a) = as_limit a" "as_closed (flow_close now f a) = as_closed a"
  "as_channel (flow_close now f a) = as_channel a"
  by (simp_all add: flow_close_def Let_def lease_finish_def)

lemma flow_close_holds:
  assumes ok: "holds_ok a" and f: "f \<in> lives a"
  shows "holds_ok (flow_close now f a)"
proof -
  have 1: "leases_ok a {}" "sockets_ok a {}" "sessions_ok a {}" using ok by (simp_all add: holds_ok_def)
  have "leases_ok (flow_close now f a) {}"
    unfolding leases_ok_def flow_close_views[OF f] flow_close_same lease_active_finish
    by (rule tracks_close[OF 1(1)[unfolded leases_ok_def] f]) auto
  moreover have "sockets_ok (flow_close now f a) {}"
    unfolding sockets_ok_def flow_close_views[OF f] flow_close_same
    by (rule tracks_close[OF 1(2)[unfolded sockets_ok_def] f]) auto
  moreover have "sessions_ok (flow_close now f a) {}"
    unfolding sessions_ok_def flow_close_views[OF f] flow_close_same reg_finish_sessions
    by (rule tracks_close[OF 1(3)[unfolded sessions_ok_def] f]) auto
  ultimately show ?thesis by (simp add: holds_ok_def)
qed

section \<open>Creating a flow\<close>

definition shell :: "association \<Rightarrow> association \<Rightarrow> bool" where
  "shell a b \<longleftrightarrow> as_flows b = as_flows a \<and> as_closed b = as_closed a \<and> as_limit b = as_limit a \<and>
     as_store b = as_store a \<and> as_next b = as_next a"

definition created :: "association \<Rightarrow> association \<Rightarrow> nat \<Rightarrow> bool" where
  "created a b f \<longleftrightarrow> as_flows b = as_flows a \<and> as_closed b = as_closed a \<and> as_limit b = as_limit a \<and>
     f = as_next a \<and> as_next b = Suc f \<and> (\<exists>fl. as_store b = (as_store a)(f := fl) \<and> \<not> uf_closed fl)"

lemma shell_refl [simp]: "shell a a"
  by (simp add: shell_def)

lemma shell_trans: "shell a b \<Longrightarrow> shell b c \<Longrightarrow> shell a c"
  by (simp add: shell_def)

lemma shell_created: "shell a b \<Longrightarrow> created b c f \<Longrightarrow> created a c f"
  by (auto simp: shell_def created_def)

lemma shell_lives: "shell a b \<Longrightarrow> lives b = lives a"
  by (simp add: shell_def lives_def)

text \<open>The three accounts between the attempts: what is pending besides what the flows hold.\<close>

definition pending_ok :: "association \<Rightarrow> nat set \<Rightarrow> nat set \<Rightarrow> bool" where
  "pending_ok a ls cs \<longleftrightarrow> leases_ok a ls \<and> sockets_ok a cs \<and> sessions_ok a {}"

lemma pending_ok_empty: "pending_ok a {} {} = holds_ok a"
  by (simp add: pending_ok_def holds_ok_def)

lemma pending_ok_eq:
  assumes "pending_ok a ls cs" "shell a b" "as_leases b = as_leases a" "as_sessions b = as_sessions a"
    "as_next_conn b = as_next_conn a" "as_open b = as_open a" "as_registry b = as_registry a"
    "\<And>l. lease_active (udp_table b) l = lease_active (udp_table a) l" "next_lease (udp_table b) = next_lease (udp_table a)"
  shows "pending_ok b ls cs"
proof -
  have v: "lives b = lives a" "as_store b = as_store a" using assms(2) shell_lives[OF assms(2)] by (simp_all add: shell_def)
  have "leases_ok b ls" by (rule leases_ok_eq[of b a]) (use assms(1,3,8,9) v in \<open>simp_all add: pending_ok_def\<close>)
  moreover have "sockets_ok b cs" by (rule sockets_ok_eq[of b a]) (use assms(1,5,6) v in \<open>simp_all add: pending_ok_def\<close>)
  moreover have "sessions_ok b {}" by (rule sessions_ok_eq[of b a]) (use assms(1,4,7) v in \<open>simp_all add: pending_ok_def\<close>)
  ultimately show ?thesis by (simp add: pending_ok_def)
qed

lemma pending_on_sched:
  assumes "pending_ok a ls cs" "\<And>s. sc_udp_performance (g s) = sc_udp_performance s"
  shows "pending_ok (on_sched g a) ls cs"
  by (rule pending_ok_eq[OF assms(1)]) (simp_all add: shell_def udp_table_on_sched assms(2))

lemma shell_on_sched [simp]: "shell a (on_sched g a)" "shell a (on_udp_table h a)"
  by (simp_all add: shell_def)

lemma take_adapter_ok:
  assumes ok: "pending_ok a {} cs" and s: "as_sched a = Some s"
    and t: "take_adapter now excluded target s a = (choice, lease, b)"
  shows "pending_ok b (set_option lease) cs \<and> shell a b \<and> (choice = None \<longrightarrow> lease = None)"
proof -
  obtain s1 where q: "acquire_udp s now excluded target = (choice, lease, s1)"
    and b: "b = a\<lparr>as_sched := Some s1, as_leases := as_leases a \<union> set_option lease\<rparr>"
    using t by (auto simp: take_adapter_def split: prod.splits)
  have ta: "udp_table a = sc_udp_performance s" "udp_table b = sc_udp_performance s1" using s b by (simp_all add: udp_table_def)
  note e = acquire_udp_lease[OF q, THEN conjunct1]
  have sh: "shell a b" "lives b = lives a" using b by (simp_all add: shell_def lives_def)
  have other: "sockets_ok b cs" "sessions_ok b {}"
    using ok b by (auto simp: pending_ok_def sockets_ok_def sessions_ok_def lives_def)
  have "leases_ok b (set_option lease)"
  proof (cases lease)
    case None
    then have "udp_table b = udp_table a" "as_leases b = as_leases a" using lease_effect_views(1)[OF e] ta b by simp_all
    then show ?thesis using ok None sh b by (simp add: pending_ok_def leases_ok_def)
  next
    case (Some l)
    have t0: "tracks (lives a) (\<lambda>f. uf_lease (as_store a f)) (as_leases a) (lease_active (udp_table a)) (next_lease (udp_table a)) {}"
      using ok by (simp add: pending_ok_def leases_ok_def)
    note v = lease_effect_views(2,3)[OF e Some]
    have act: "lease_active (udp_table b) l" using acquire_udp_lease[OF q] Some ta by simp
    have "tracks (lives a) (\<lambda>f. uf_lease (as_store a f)) (insert l (as_leases a)) (lease_active (udp_table b)) (next_lease (udp_table b)) {l}"
      by (rule tracks_take[OF t0]) (use v ta act tracksD(7)[OF t0] in auto)
    then show ?thesis using Some sh b by (simp add: leases_ok_def)
  qed
  then show ?thesis using other sh acquire_udp_lease[OF q] by (simp add: pending_ok_def)
qed

lemma lease_finish_ok:
  assumes "pending_ok a (set_option lease) cs"
  shows "pending_ok (lease_finish now lease a) {} cs \<and> shell a (lease_finish now lease a)"
proof -
  let ?b = "lease_finish now lease a"
  have v: "udp_table ?b = map_option (\<lambda>p. pf_finish p now lease) (udp_table a)" "lives ?b = lives a"
    "as_leases ?b = as_leases a" "as_store ?b = as_store a" "shell a ?b"
    by (simp_all add: lease_finish_def shell_def)
  have "sockets_ok ?b cs" "sessions_ok ?b {}"
    using assms v by (auto simp: pending_ok_def sockets_ok_def sessions_ok_def lease_finish_def)
  moreover have "leases_ok ?b {}"
  proof (cases lease)
    case None
    then show ?thesis using assms v leases_ok_eq[of ?b a "{}"] by (simp add: pending_ok_def)
  next
    case (Some l)
    show ?thesis unfolding leases_ok_def v lease_active_finish
      by (rule tracks_lose[where x = l]) (use assms Some in \<open>auto simp: pending_ok_def leases_ok_def\<close>)
  qed
  ultimately show ?thesis using v by (simp add: pending_ok_def)
qed

lemma attempt_lost_ok:
  assumes "pending_ok a (set_option lease) cs"
  shows "pending_ok (attempt_lost now ad n e lease a) {} cs \<and> shell a (attempt_lost now ad n e lease a)"
  using lease_finish_ok[OF assms, of now] shell_trans[OF _ shell_on_sched(1)]
    pending_on_sched[of "lease_finish now lease a" "{}" cs "record_udp_failure now ad n"]
  by (simp add: attempt_lost_def Let_def)

lemma attempt_won_ok:
  assumes "pending_ok a ls cs"
  shows "pending_ok (attempt_won now ad n lease a) ls cs \<and> shell a (attempt_won now ad n lease a)"
proof -
  let ?g = "\<lambda>s. on_health (\<lambda>h. record_family h now ad n True) (mark_success s now (name ad) None)"
  have 1: "pending_ok (on_sched ?g a) ls cs"
    by (rule pending_on_sched[OF assms]) (simp add: on_health_def mark_success_def)
  have "pending_ok (on_udp_table (\<lambda>p. pf_attach p now l) (on_sched ?g a)) ls cs" for l
    by (rule pending_ok_eq[OF 1]) simp_all
  then show ?thesis using 1 shell_trans[OF shell_on_sched(1) shell_on_sched(2)]
    by (simp add: attempt_won_def Let_def split: option.split)
qed

lemma open_socket_ok:
  assumes "pending_ok a ls {}" "open_socket a = (c, b)"
  shows "pending_ok b ls {c} \<and> shell a b"
proof -
  have b: "b = a\<lparr>as_open := insert c (as_open a), as_next_conn := c + 1\<rparr>" "c = as_next_conn a"
    using assms(2) by (auto simp: open_socket_def)
  have "tracks (lives a) (\<lambda>f. Some (uf_conn (as_store a f))) (insert c {..<c}) (\<lambda>x. x \<in> insert c (as_open a)) (c + 1) {c}"
    by (rule tracks_take[where bound = c]) (use assms(1) b in \<open>auto simp: pending_ok_def sockets_ok_def\<close>)
  then have "sockets_ok b {c}" using b by (simp add: sockets_ok_def lives_def lessThan_Suc)
  then show ?thesis using assms(1) b
    by (simp add: pending_ok_def shell_def leases_ok_def sessions_ok_def lives_def udp_table_def)
qed

lemma close_socket_ok:
  assumes "pending_ok a ls {c}"
  shows "pending_ok (close_socket c a) ls {} \<and> shell a (close_socket c a)"
proof -
  have "sockets_ok (close_socket c a) {}"
    unfolding sockets_ok_def
    by (rule tracks_lose[where x = c and active = "\<lambda>x. x \<in> as_open a"])
      (use assms in \<open>auto simp: pending_ok_def sockets_ok_def close_socket_def lives_def\<close>)
  then show ?thesis using assms
    by (simp add: pending_ok_def shell_def leases_ok_def sessions_ok_def lives_def udp_table_def close_socket_def)
qed

lemma begin_session_ok:
  assumes "pending_ok a ls cs" "begin_session now client a = (se, b)"
  shows "leases_ok b ls \<and> sockets_ok b cs \<and> sessions_ok b {se} \<and> shell a b"
proof -
  obtain r where r: "begin_address (as_registry a) now ''socks5_udp'' (as_channel a) (addr_port_string client) '''' (as_relay a) = (se, r)"
    and b: "b = a\<lparr>as_registry := r, as_sessions := insert se (as_sessions a)\<rparr>"
    using assms(2) by (auto simp: begin_session_def split: prod.splits)
  note v = begin_address_sessions[OF r]
  have t0: "tracks (lives a) (\<lambda>f. Some (uf_session (as_store a f))) (as_sessions a) (session_active (as_registry a)) (rg_next_session (as_registry a)) {}"
    using assms(1) by (simp add: pending_ok_def sessions_ok_def)
  have "tracks (lives a) (\<lambda>f. Some (uf_session (as_store a f))) (insert se (as_sessions a)) (session_active r) (rg_next_session r) {se}"
    by (rule tracks_take[OF t0]) (use v tracksD(7)[OF t0] in auto)
  then have "sessions_ok b {se}" using b by (simp add: sessions_ok_def lives_def)
  then show ?thesis using assms(1) b
    by (simp add: pending_ok_def shell_def leases_ok_def sockets_ok_def lives_def udp_table_def)
qed

lemma lives_add_flow:
  "\<not> uf_closed fl \<Longrightarrow> lives (snd (add_flow fl a)) = insert (as_next a) (lives a)"
  by (auto simp: add_flow_def lives_def)

lemma add_flow_ok:
  assumes "leases_ok a (set_option (uf_lease fl))" "sockets_ok a {uf_conn fl}" "sessions_ok a {uf_session fl}"
    "\<not> uf_closed fl" "add_flow fl a = (f, b)"
  shows "holds_ok b \<and> created a b f"
proof -
  have b: "b = a\<lparr>as_store := (as_store a)(f := fl), as_next := f + 1\<rparr>" "f = as_next a"
    using assms(5) by (auto simp: add_flow_def)
  have l: "lives b = insert f (lives a)" "f \<notin> lives a" using lives_add_flow[OF assms(4), of a] assms(5) b(2) by (simp_all add: lives_def)
  have t: "udp_table b = udp_table a" using b by (simp add: udp_table_def)
  have st: "g \<in> lives a \<Longrightarrow> as_store b g = as_store a g" "as_store b f = fl" for g using b l(2) by auto
  have same: "as_leases b = as_leases a" "as_sessions b = as_sessions a" "as_registry b = as_registry a"
    "as_open b = as_open a" "as_next_conn b = as_next_conn a" using b by simp_all
  have "leases_ok b {}" unfolding leases_ok_def l(1) t same
    by (rule tracks_adopt[OF assms(1)[unfolded leases_ok_def] l(2)]) (simp_all add: st)
  moreover have "tracks (lives a) (\<lambda>f. Some (uf_conn (as_store a f))) {..<as_next_conn a} (\<lambda>c. c \<in> as_open a) (as_next_conn a)
      (set_option (Some (uf_conn fl)))" using assms(2) by (simp add: sockets_ok_def)
  then have "sockets_ok b {}" unfolding sockets_ok_def l(1) same
    by (rule tracks_adopt[OF _ l(2)]) (simp_all add: st)
  moreover have "tracks (lives a) (\<lambda>f. Some (uf_session (as_store a f))) (as_sessions a) (session_active (as_registry a))
      (rg_next_session (as_registry a)) (set_option (Some (uf_session fl)))" using assms(3) by (simp add: sessions_ok_def)
  then have "sessions_ok b {}" unfolding sessions_ok_def l(1) same
    by (rule tracks_adopt[OF _ l(2)]) (simp_all add: st)
  ultimately show ?thesis using assms(4) b by (auto simp: holds_ok_def created_def)
qed

lemma flow_connected_ok:
  assumes "pending_ok a (set_option lease) {conn}"
    "flow_connected now client addr payload ad remote dialed conn lease a = (f, b)"
  shows "holds_ok b \<and> created a b f \<and> uf_addr (as_store b f) = addr"
proof -
  obtain se a1 where s: "begin_session now client a = (se, a1)" by fastforce
  let ?fl = "\<lparr>uf_addr = addr, uf_target = addr_port_string addr, uf_adapter = (case ad of Some x \<Rightarrow> x | None \<Rightarrow> no_adapter),
    uf_remote = remote, uf_conn = conn, uf_session = se, uf_lease = lease, uf_active = now,
    uf_reply = (if ad = None then unix_epoch else now), uf_closed = False\<rparr>"
  let ?r2 = "\<lambda>r. case ad of Some x \<Rightarrow> reg_attach r se conn (Some dialed) (addr_port_string addr) x
      | None \<Rightarrow> reg_attach_direct r se conn (Some dialed) (addr_port_string addr)"
  let ?a3 = "on_registry (\<lambda>r. reg_add_up r se (of_nat (length payload))) (on_registry ?r2 a1)"
  have b: "add_flow ?fl ?a3 = (f, b)" using assms(2) s by (simp add: flow_connected_def Let_def)
  have r: "session_active (as_registry ?a3) x = session_active (as_registry a1) x"
    "rg_next_session (as_registry ?a3) = rg_next_session (as_registry a1)" for x
    by (simp_all split: option.split)
  have a1: "leases_ok a1 (set_option lease)" "sockets_ok a1 {conn}" "sessions_ok a1 {se}" "shell a a1"
    using begin_session_ok[OF assms(1) s] by simp_all
  have 3: "leases_ok ?a3 (set_option lease)" "sockets_ok ?a3 {conn}" "sessions_ok ?a3 {se}"
    using leases_ok_eq[of ?a3 a1] sockets_ok_eq[of ?a3 a1] sessions_ok_eq[of ?a3 a1] a1 r by simp_all
  have "shell a ?a3" using a1(4) by (simp add: shell_def)
  moreover have "holds_ok b \<and> created ?a3 b f" by (rule add_flow_ok[OF _ _ _ _ b]) (use 3 in simp_all)
  moreover have "as_store b f = ?fl" using b by (auto simp: add_flow_def)
  ultimately show ?thesis using shell_created by simp
qed

definition create_result :: "association \<Rightarrow> association \<Rightarrow> addr_port \<Rightarrow> nat option \<Rightarrow> bool" where
  "create_result a b addr r \<longleftrightarrow> holds_ok b \<and>
     (case r of None \<Rightarrow> shell a b | Some f \<Rightarrow> created a b f \<and> uf_addr (as_store b f) = addr)"

lemma create_result_none: "holds_ok a \<Longrightarrow> create_result a a addr None"
  by (simp add: create_result_def)

lemma create_result_shell: "shell a b \<Longrightarrow> create_result b c addr r \<Longrightarrow> create_result a c addr r"
  using shell_trans shell_created by (auto simp: create_result_def split: option.splits)

lemma flow_attempt_ok:
  assumes ok: "pending_ok a (set_option lease) {}" and at: "flow_attempt env i client addr ip payload ad lease a = (b, r)"
  shows "create_result a b addr (case r of Inl e \<Rightarrow> None | Inr f \<Rightarrow> Some f)"
proof -
  let ?now = "fe_end env i"
  have fin: "create_result a (lease_finish ?now lease a) addr None"
    using lease_finish_ok[OF ok] by (simp add: create_result_def pending_ok_empty)
  show ?thesis
  proof (cases "attempt_way env ip ad")
    case (Inl e)
    then show ?thesis using at fin by (auto simp: flow_attempt_def)
  next
    case (Inr way)
    obtain network dialed where w: "way = (network, dialed)" by fastforce
    show ?thesis
    proof (cases "bound_network_dialer ad network")
      case None
      have "pending_ok (on_sched (record_udp_failure ?now ad network) (lease_finish ?now lease a)) {} {}"
        by (rule pending_on_sched) (use lease_finish_ok[OF ok] in simp_all)
      then have "create_result a (on_sched (record_udp_failure ?now ad network) (lease_finish ?now lease a)) addr None"
        using lease_finish_ok[OF ok] shell_trans[OF _ shell_on_sched(1)] by (simp add: create_result_def pending_ok_empty)
      then show ?thesis using at None Inr w by (auto simp: flow_attempt_def Let_def)
    next
      case (Some d)
      have lost: "create_result a (attempt_lost ?now ad network e lease a) addr None" for e
        using attempt_lost_ok[OF ok] by (simp add: create_result_def pending_ok_empty)
      show ?thesis
      proof (cases "fe_dial env i")
        case (Some e)
        then show ?thesis using at lost Inr w \<open>bound_network_dialer ad network = Some d\<close> by (auto simp: flow_attempt_def)
      next
        case None
        obtain conn a1 where o1: "open_socket a = (conn, a1)" by fastforce
        note open1 = open_socket_ok[OF ok o1]
        show ?thesis
        proof (cases "write_error payload (fe_write env i)")
          case (Some e)
          have "create_result a (attempt_lost ?now ad network e lease (close_socket conn a1)) addr None"
            using attempt_lost_ok[of "close_socket conn a1" lease "{}"] close_socket_ok[of a1 "set_option lease" conn] open1 shell_trans
            unfolding create_result_def pending_ok_empty[symmetric] by (metis option.simps(4))
          then show ?thesis using at Inr w None \<open>bound_network_dialer ad network = Some d\<close> o1 Some
            by (auto simp: flow_attempt_def)
        next
          case 2: None
          let ?a2 = "attempt_won ?now ad network lease a1"
          let ?dialed = "join_host_port (ip_string dialed) (itoa_nat (unat (snd addr)))"
          have won: "pending_ok ?a2 (set_option lease) {conn}" "shell a ?a2"
            using attempt_won_ok[of a1 "set_option lease" "{conn}"] open1 shell_trans by blast+
          obtain f a3 where c: "flow_connected ?now client addr payload (Some ad) dialed ?dialed conn lease ?a2 = (f, a3)" by fastforce
          have "create_result ?a2 a3 addr (Some f)" using flow_connected_ok[OF won(1) c] by (simp add: create_result_def)
          then have "create_result a a3 addr (Some f)" by (rule create_result_shell[OF won(2)])
          moreover have "b = a3" "r = Inr f"
            using at Inr w None 2 \<open>bound_network_dialer ad network = Some d\<close> o1 c by (simp_all add: flow_attempt_def)
          ultimately show ?thesis by simp
        qed
      qed
    qed
  qed
qed

lemma flow_attempts_ok:
  "holds_ok a \<Longrightarrow> flow_attempts n i env client addr ip payload excluded a = (b, r) \<Longrightarrow> create_result a b addr r"
proof (induction n arbitrary: i excluded a)
  case 0
  then show ?case by (simp add: create_result_def)
next
  case (Suc n)
  show ?case
  proof (cases "as_sched a")
    case None
    then show ?thesis using Suc(2,3) by (simp add: create_result_def)
  next
    case (Some s)
    obtain choice lease a1 where t: "take_adapter (fe_begin env i) excluded (addr_port_string addr) s a = (choice, lease, a1)"
      using prod_cases3 by blast
    have 1: "pending_ok a1 (set_option lease) {}" "shell a a1" "choice = None \<Longrightarrow> lease = None"
      using take_adapter_ok[OF _ Some t, of "{}"] Suc(2) by (simp_all add: pending_ok_empty)
    show ?thesis
    proof (cases choice)
      case None
      then show ?thesis using Suc(3) Some t 1 by (simp add: create_result_def pending_ok_empty)
    next
      case 2: (Some ad)
      obtain a2 q where at: "flow_attempt env i client addr ip payload ad lease a1 = (a2, q)" by fastforce
      have c: "create_result a a2 addr (case q of Inl e \<Rightarrow> None | Inr f \<Rightarrow> Some f)"
        by (rule create_result_shell[OF 1(2) flow_attempt_ok[OF 1(1) at]])
      show ?thesis
      proof (cases q)
        case (Inl e)
        then have "create_result a2 b addr r" "shell a a2"
          using Suc(1)[of a2 "i + 1" "insert (name ad) excluded"] Suc(3) Some t 2 at c by (simp_all add: create_result_def)
        then show ?thesis using create_result_shell by blast
      next
        case (Inr f)
        then show ?thesis using Suc(3) Some t 2 at c by simp
      qed
    qed
  qed
qed

lemma create_direct_flow_ok:
  assumes ok: "holds_ok a" and d: "create_direct_flow env client addr ip payload a = (b, r)"
  shows "create_result a b addr r"
proof (cases "fe_dial env 0")
  case (Some e)
  then show ?thesis using assms by (simp add: create_direct_flow_def create_result_def)
next
  case None
  obtain conn a1 where o1: "open_socket a = (conn, a1)" by fastforce
  have open1: "pending_ok a1 {} {conn}" "shell a a1"
    using open_socket_ok[OF _ o1, of "{}"] ok by (simp_all add: pending_ok_empty)
  show ?thesis
  proof (cases "write_error payload (fe_write env 0)")
    case (Some e)
    then have "b = close_socket conn a1" "r = None" using d None o1 by (simp_all add: create_direct_flow_def)
    then show ?thesis using close_socket_ok[OF open1(1)] shell_trans[OF open1(2)]
      by (simp add: create_result_def pending_ok_empty)
  next
    case 2: None
    obtain f a2 where c: "flow_connected (fe_end env 0) client addr payload None ip (addr_port_string addr) conn None a1 = (f, a2)" by fastforce
    have "create_result a1 a2 addr (Some f)" using flow_connected_ok[of a1 None, OF _ c] open1(1) by (simp add: create_result_def)
    then show ?thesis using create_result_shell[OF open1(2)] d None o1 2 c by (simp add: create_direct_flow_def)
  qed
qed

lemma create_flow_ok:
  assumes "holds_ok a" "create_flow env client addr payload skip a = (b, r)"
  shows "create_result a b addr r"
  using assms flow_attempts_ok[where client = client and addr = addr, OF assms(1)]
    create_direct_flow_ok[where client = client and addr = addr, OF assms(1)]
  by (auto simp: create_flow_def Let_def create_result_none split: option.splits if_splits)

section \<open>The invariant\<close>

definition extra :: "forward_stage \<Rightarrow> nat option" where
  "extra st = (case st of Installing _ _ f \<Rightarrow> Some f | _ \<Rightarrow> None)"

definition flows_ok :: "association \<Rightarrow> nat option \<Rightarrow> bool" where
  "flows_ok a x \<longleftrightarrow> distinct (map fst (as_flows a)) \<and>
     (\<forall>k f. map_of (as_flows a) k = Some f \<longrightarrow> f \<in> lives a \<and> uf_addr (as_store a f) = k \<and> x \<noteq> Some f) \<and>
     (\<forall>f\<in>lives a. map_of (as_flows a) (uf_addr (as_store a f)) = Some f \<or> x = Some f) \<and>
     (\<forall>f. x = Some f \<longrightarrow> f \<in> lives a)"

definition stage_ok :: "association \<Rightarrow> forward_stage \<Rightarrow> bool" where
  "stage_ok a st \<longleftrightarrow> length (as_flows a) \<le> as_limit a \<and> (as_closed a \<longleftrightarrow> st = Ended) \<and> (as_closed a \<longrightarrow> as_flows a = []) \<and>
     (case st of
        Creating _ _ _ _ \<Rightarrow> length (as_flows a) < as_limit a
      | Installing addr _ f \<Rightarrow> length (as_flows a) < as_limit a \<and> uf_addr (as_store a f) = addr
      | _ \<Rightarrow> True)"

definition udp_ok :: "association \<Rightarrow> forward_stage \<Rightarrow> bool" where
  "udp_ok a st \<longleftrightarrow> holds_ok a \<and> flows_ok a (extra st) \<and> stage_ok a st"

text \<open>Operations that neither take nor release anything.\<close>

definition same_flow :: "udp_flow \<Rightarrow> udp_flow \<Rightarrow> bool" where
  "same_flow x y \<longleftrightarrow> uf_addr y = uf_addr x \<and> uf_conn y = uf_conn x \<and> uf_session y = uf_session x \<and>
     uf_lease y = uf_lease x \<and> uf_closed y = uf_closed x"

definition calm :: "association \<Rightarrow> association \<Rightarrow> bool" where
  "calm a b \<longleftrightarrow> as_flows b = as_flows a \<and> as_closed b = as_closed a \<and> as_limit b = as_limit a \<and> as_next b = as_next a \<and>
     (\<forall>f. same_flow (as_store a f) (as_store b f)) \<and> as_open b = as_open a \<and> as_next_conn b = as_next_conn a \<and>
     as_leases b = as_leases a \<and> as_sessions b = as_sessions a \<and>
     (\<forall>l\<in>as_leases a. lease_active (udp_table b) l = lease_active (udp_table a) l) \<and>
     next_lease (udp_table a) \<le> next_lease (udp_table b) \<and>
     (\<forall>s\<in>as_sessions a. session_active (as_registry b) s = session_active (as_registry a) s) \<and>
     rg_next_session (as_registry a) \<le> rg_next_session (as_registry b)"

lemma same_flow_refl [simp]: "same_flow x x"
  by (simp add: same_flow_def)

lemma calm_refl [simp]: "calm a a"
  by (simp add: calm_def)

lemma calm_trans: "calm a b \<Longrightarrow> calm b c \<Longrightarrow> calm a c"
  unfolding calm_def same_flow_def by (simp add: order_trans[of "next_lease _"] order_trans[of "rg_next_session _"])

lemma calm_lives: "calm a b \<Longrightarrow> lives b = lives a"
  by (simp add: calm_def lives_def same_flow_def)

lemma calm_ok:
  assumes "calm a b" "udp_ok a st"
  shows "udp_ok b st"
proof -
  have l: "lives b = lives a" by (rule calm_lives[OF assms(1)])
  have f: "same_flow (as_store a f) (as_store b f)" for f using assms(1) by (simp add: calm_def)
  have h: "leases_ok a {}" "sockets_ok a {}" "sessions_ok a {}" using assms(2) by (simp_all add: udp_ok_def holds_ok_def)
  have "leases_ok b {}"
    by (rule leases_ok_eq[OF l _ _ _ _ h(1)]) (use assms(1) f in \<open>simp_all add: calm_def same_flow_def\<close>)
  moreover have "sockets_ok b {}"
    by (rule sockets_ok_eq[OF l _ _ _ h(2)]) (use assms(1) f in \<open>simp_all add: calm_def same_flow_def\<close>)
  moreover have "sessions_ok b {}"
    by (rule sessions_ok_eq[OF l _ _ _ _ h(3)]) (use assms(1) f in \<open>simp_all add: calm_def same_flow_def\<close>)
  moreover have same: "as_flows b = as_flows a" "as_limit b = as_limit a" "as_closed b = as_closed a"
    "uf_addr (as_store b f) = uf_addr (as_store a f)" for f using assms(1) f by (simp_all add: calm_def same_flow_def)
  then have "flows_ok b (extra st)" using assms(2) unfolding udp_ok_def flows_ok_def l same by blast
  moreover have "stage_ok b st" using assms(2) unfolding udp_ok_def stage_ok_def same by (simp split: forward_stage.splits)
  ultimately show ?thesis by (simp add: udp_ok_def holds_ok_def)
qed

lemma calm_on_sched: "(\<And>s. as_sched a = Some s \<Longrightarrow> sc_udp_performance (g s) = sc_udp_performance s) \<Longrightarrow> calm a (on_sched g a)"
  using udp_table_on_sched[of a g] by (simp add: calm_def)

lemma calm_registry:
  "calm a (on_registry (\<lambda>r. reg_add_up r s n) a)" "calm a (on_registry (\<lambda>r. reg_add_down r s n) a)"
  by (simp_all add: calm_def)

lemma calm_flow: "(\<And>x. same_flow x (g x)) \<Longrightarrow> calm a (on_flow f g a)"
  by (simp add: calm_def)

lemma calm_write: "calm a (on_udp_table (\<lambda>p. pf_write p l n took) a)"
  by (simp add: calm_def)

lemma calm_touch: "calm a (on_flow f (flow_touch now) a)"
  by (rule calm_flow) (simp add: flow_touch_def same_flow_def)

lemma calm_send: "flow_send now f payload outcome a = (b, e) \<Longrightarrow> calm a b"
  using calm_trans[OF calm_registry(1) calm_touch] by (auto simp: flow_send_def Let_def split: prod.splits if_splits)

lemma calm_record_failure: "calm a (flow_record_failure now f e a)"
  unfolding flow_record_failure_def by (rule calm_on_sched) simp

lemma calm_silent:
  assumes "silent_flow now f a = (q, b)"
  shows "calm a b"
proof -
  have "calm a (a\<lparr>as_sched := Some s1\<rparr>)"
    if "as_sched a = Some s" "latency_failover s now ad t = (q, s1)" for s s1 ad t
    using calm_on_sched[of a "\<lambda>_. s1"] that
    by (auto simp: on_sched_def latency_failover_def Let_def case_prod_unfold split: if_splits option.splits)
  then show ?thesis using assms
    by (auto simp: silent_flow_def Let_def split: option.splits if_splits prod.splits)
qed

lemma calm_watch: "calm a (on_sched (\<lambda>s. watch_latency_addr s now ip) a)"
  by (rule calm_on_sched) (simp add: watch_latency_addr_def)

section \<open>Closing and installing\<close>

lemma flow_close_flows:
  assumes "flows_ok a x" "f \<in> lives a"
  shows "flows_ok (flow_close now f a) (if x = Some f then None else x)"
proof -
  note v = flow_close_views[OF assms(2)]
  let ?k = "uf_addr (as_store a f)"
  have m: "map_of (as_flows (flow_close now f a)) k =
      (if k = ?k \<and> map_of (as_flows a) ?k = Some f then None else map_of (as_flows a) k)" for k
    by (simp add: v(5) AList.delete_conv')
  have "distinct (map fst (as_flows (flow_close now f a)))"
    using assms(1) by (simp add: v(5) flows_ok_def AList.distinct_delete)
  then show ?thesis
    using assms unfolding flows_ok_def m v(1,6) by (auto split: if_splits)
qed

lemma flow_close_shorter: "f \<in> lives a \<Longrightarrow> length (as_flows (flow_close now f a)) \<le> length (as_flows a)"
  by (simp add: flow_close_views AList.length_delete_le)

lemma flow_close_addr: "uf_addr (as_store (flow_close now f a) g) = uf_addr (as_store a g)"
  by (simp add: flow_close_def Let_def lease_finish_def)

lemma flow_close_ok:
  assumes "udp_ok a st" "f < as_next a" "extra st \<noteq> Some f"
  shows "udp_ok (flow_close now f a) st"
proof (cases "f \<in> lives a")
  case True
  have "as_closed a \<longrightarrow> as_flows (flow_close now f a) = []"
    using flow_close_shorter[OF True, of now] assms(1) by (auto simp: udp_ok_def stage_ok_def)
  then have "stage_ok (flow_close now f a) st"
    using flow_close_shorter[OF True, of now] assms(1)
    by (auto simp: udp_ok_def stage_ok_def flow_close_addr split: forward_stage.splits)
  then show ?thesis
    using assms flow_close_holds[OF _ True] flow_close_flows[OF _ True, of "extra st"] by (simp add: udp_ok_def)
qed (use assms flow_close_dead in simp)

lemma flow_close_installing:
  assumes "udp_ok a (Installing addr payload f)"
  shows "udp_ok (flow_close now f a) Idle"
proof -
  have f: "f \<in> lives a" "flows_ok a (Some f)" "holds_ok a" "stage_ok a (Installing addr payload f)"
    using assms by (auto simp: udp_ok_def extra_def flows_ok_def)
  then have "stage_ok (flow_close now f a) Idle"
    using flow_close_shorter[OF f(1), of now] by (auto simp: stage_ok_def)
  then show ?thesis using flow_close_holds[OF f(3,1)] flow_close_flows[OF f(2,1)] by (simp add: udp_ok_def extra_def)
qed

lemma update_new: "map_of xs k = None \<Longrightarrow> AList.update k v xs = xs @ [(k, v)]"
  by (induction xs) auto

lemma install_ok:
  assumes ok: "udp_ok a (Installing addr payload f)" and n: "map_of (as_flows a) addr = None"
  shows "udp_ok (a\<lparr>as_flows := AList.update addr f (as_flows a)\<rparr>) Idle"
proof -
  let ?b = "a\<lparr>as_flows := AList.update addr f (as_flows a)\<rparr>"
  have l: "lives ?b = lives a" by (simp add: lives_def)
  have f: "f \<in> lives a" "flows_ok a (Some f)" "holds_ok a" "stage_ok a (Installing addr payload f)"
    using ok by (auto simp: udp_ok_def extra_def flows_ok_def)
  have addr: "uf_addr (as_store a f) = addr" using f(4) by (simp add: stage_ok_def)
  have "holds_ok ?b" using f(3) by (simp add: holds_ok_def leases_ok_def sockets_ok_def sessions_ok_def l udp_table_def)
  moreover have "map_of (as_flows ?b) k = (if k = addr then Some f else map_of (as_flows a) k)" for k
    by (simp add: AList.update_conv')
  then have "flows_ok ?b None"
    using f(1,2) addr n unfolding flows_ok_def l by (auto simp: AList.distinct_update)
  moreover have "stage_ok ?b Idle" using f(4) by (auto simp: stage_ok_def update_new[OF n])
  ultimately show ?thesis by (simp add: udp_ok_def extra_def)
qed

section \<open>Every step keeps the invariant\<close>

lemma mapped_flow:
  assumes "udp_ok a st" "map_of (as_flows a) k = Some f"
  shows "f \<in> lives a" "f < as_next a" "uf_addr (as_store a f) = k"
proof -
  show "f \<in> lives a" "uf_addr (as_store a f) = k" using assms unfolding udp_ok_def flows_ok_def by blast+
  then show "f < as_next a" by (simp add: lives_def)
qed

lemma forward_lookup_ok:
  assumes ok: "udp_ok a0 Idle" and r: "forward_lookup now client addr payload outcome a0 = (b, st)"
  shows "udp_ok b st \<and> extra st = None \<and> as_limit b = as_limit a0"
proof -
  let ?a = "on_sched (\<lambda>s. watch_latency_addr s now (case fst addr of Some x \<Rightarrow> addr_bytes x | None \<Rightarrow> [])) a0"
  have a: "udp_ok ?a Idle" "as_limit ?a = as_limit a0" using calm_ok[OF calm_watch ok] by simp_all
  have creating: "udp_ok c (Creating client addr payload skip)" if "udp_ok c Idle" "\<not> at_limit c" for c skip
    using that by (simp add: udp_ok_def extra_def stage_ok_def at_limit_def)
  show ?thesis
  proof (cases "map_of (as_flows ?a) addr")
    case None
    then show ?thesis using r a creating by (auto simp: forward_lookup_def Let_def extra_def split: if_splits)
  next
    case (Some f)
    obtain q a1 where s: "silent_flow now f ?a = (q, a1)" by fastforce
    have a1: "udp_ok a1 Idle" "calm ?a a1" using calm_ok[OF calm_silent[OF s] a(1)] calm_silent[OF s] by simp_all
    have "as_next a1 = as_next ?a" using a1(2) by (simp add: calm_def)
    then have f: "f < as_next a1" using mapped_flow[OF a(1) Some] by simp
    have lim: "as_limit c = as_limit a0" if "calm a1 c" for c using that a1(2) a(2) by (simp add: calm_def)
    have close: "udp_ok (flow_close now f c) Idle" if "calm a1 c" for c
      by (rule flow_close_ok) (use calm_ok[OF that a1(1)] f that in \<open>simp_all add: calm_def extra_def\<close>)
    show ?thesis
    proof (cases q)
      case True
      then show ?thesis using r Some s a close[OF calm_refl] creating lim[OF calm_refl]
        by (auto simp: forward_lookup_def Let_def extra_def split: if_splits)
    next
      case False
      obtain a2 e where s2: "flow_send now f payload outcome a1 = (a2, e)" by fastforce
      have "calm a1 a2" "calm a1 (flow_record_failure now f x a2)" for x
        using calm_send[OF s2] calm_trans[OF _ calm_record_failure] by blast+
      then show ?thesis using r Some s s2 False a(1) close lim calm_ok[OF _ a1(1)] a(2)
        by (auto simp: forward_lookup_def Let_def extra_def split: if_splits option.splits)
    qed
  qed
qed

lemma serve_datagram_ok:
  assumes ok: "udp_ok a Idle" and r: "serve_datagram now client data outcome a = (b, st)"
  shows "udp_ok b st \<and> as_limit b = as_limit a"
proof -
  have l: "udp_ok (a\<lparr>as_locked := n\<rparr>) Idle" for n
    by (rule calm_ok[OF _ ok]) (simp add: calm_def udp_table_def)
  let ?a = "if as_locked a = 0 then a\<lparr>as_locked := unat (snd client)\<rparr> else a"
  have a: "udp_ok ?a Idle" "as_limit ?a = as_limit a" using l ok by simp_all
  have "serve_datagram now client data outcome a = (a, Idle) \<or>
    (\<exists>addr payload. serve_datagram now client data outcome a =
       forward_lookup now (Some (fst client), snd client) addr payload outcome ?a)"
  proof (cases "\<exists>addr payload. parse_socks_udp_packet data = Some (Some (addr, payload))")
    case True
    then obtain addr payload where q: "parse_socks_udp_packet data = Some (Some (addr, payload))" by blast
    have "serve_datagram now client data outcome a =
        (if addr_unmap (fst client) \<noteq> as_allowed a \<or> as_locked a \<noteq> 0 \<and> unat (snd client) \<noteq> as_locked a then (a, Idle)
         else forward_lookup now (Some (fst client), snd client) addr payload outcome ?a)"
      unfolding serve_datagram_def q by (cases "addr_unmap (fst client) = as_allowed a") simp_all
    then show ?thesis
      by (cases "addr_unmap (fst client) \<noteq> as_allowed a \<or> as_locked a \<noteq> 0 \<and> unat (snd client) \<noteq> as_locked a")
        (simp only: if_True simp_thms, simp only: if_False, blast)
  next
    case False
    then have "parse_socks_udp_packet data = None \<or> parse_socks_udp_packet data = Some None"
      by (metis not_None_eq surj_pair)
    then show ?thesis by (auto simp: serve_datagram_def)
  qed
  then show ?thesis
  proof (elim disjE exE)
    assume "serve_datagram now client data outcome a = (a, Idle)"
    then show ?thesis using r ok by simp
  next
    fix addr payload
    assume "serve_datagram now client data outcome a =
      forward_lookup now (Some (fst client), snd client) addr payload outcome ?a"
    then have "forward_lookup now (Some (fst client), snd client) addr payload outcome ?a = (b, st)" using r by simp
    then show ?thesis using forward_lookup_ok[OF a(1)] a(2) by metis
  qed
qed

lemma flow_receive_ok:
  assumes ok: "udp_ok a st" and f: "f < as_next a" "extra st \<noteq> Some f"
  shows "udp_ok (flow_receive now f ev a) st"
proof -
  have close: "udp_ok (flow_close now f c) st" if "calm a c" for c
    by (rule flow_close_ok) (use calm_ok[OF that ok] f that in \<open>simp_all add: calm_def\<close>)
  show ?thesis
  proof (cases ev)
    case (ReadFailed e)
    then show ?thesis using ok close[OF calm_record_failure] by (simp add: flow_receive_def)
  next
    case (ReadData count written took)
    let ?a1 = "on_flow f (\<lambda>x. x\<lparr>uf_reply := now\<rparr>) a"
    let ?a2 = "\<lambda>n. case uf_lease (as_store a f) of None \<Rightarrow> ?a1 | Some l \<Rightarrow> on_udp_table (\<lambda>p. pf_write p l n took) ?a1"
    have 1: "calm a ?a1" by (rule calm_flow) (simp add: same_flow_def)
    have 2: "calm a (?a2 n)" for n using 1 calm_trans[OF 1 calm_write] by (simp split: option.split)
    have 3: "calm a (on_flow f (flow_touch now) (on_registry (\<lambda>r. reg_add_down r s m) (?a2 n)))" for n m s
      by (rule calm_trans[OF 2 calm_trans[OF calm_registry(2) calm_touch]])
    show ?thesis
      using close[OF 2] calm_ok[OF 3 ok] calm_ok[OF 1 ok] by (simp add: flow_receive_def ReadData Let_def)
  qed
qed

lemma create_step_ok:
  assumes ok: "udp_ok a (Creating client addr payload skip)" and c: "create_flow env client addr payload skip a = (b, r)"
  shows "udp_ok b (case r of None \<Rightarrow> Idle | Some f \<Rightarrow> Installing addr payload f) \<and> as_limit b = as_limit a"
proof -
  have h: "holds_ok a" "flows_ok a None" "stage_ok a (Creating client addr payload skip)"
    using ok by (simp_all add: udp_ok_def extra_def)
  note res = create_flow_ok[OF h(1) c]
  show ?thesis
  proof (cases r)
    case None
    then have "shell a b" "holds_ok b" using res by (simp_all add: create_result_def)
    then show ?thesis using None h shell_lives[of a b]
      by (auto simp: udp_ok_def extra_def flows_ok_def stage_ok_def shell_def)
  next
    case (Some f)
    then have b: "created a b f" "holds_ok b" "uf_addr (as_store b f) = addr" using res by (simp_all add: create_result_def)
    then obtain fl where fl: "as_store b = (as_store a)(f := fl)" "\<not> uf_closed fl" "f = as_next a" "as_next b = Suc f"
      and same: "as_flows b = as_flows a" "as_closed b = as_closed a" "as_limit b = as_limit a"
      by (auto simp: created_def)
    have l: "lives b = insert f (lives a)" "f \<notin> lives a" using fl by (auto simp: lives_def)
    have "flows_ok b (Some f)"
      using h(2) l fl(1) unfolding flows_ok_def same l(1) by auto
    moreover have "stage_ok b (Installing addr payload f)" using h(3) b(3) by (simp add: stage_ok_def same)
    ultimately show ?thesis using Some b(2) same by (simp add: udp_ok_def extra_def)
  qed
qed

lemma install_step_ok:
  assumes ok: "udp_ok a (Installing addr payload f)"
  shows "udp_ok (forward_install now addr payload f outcome a) Idle \<and>
    as_limit (forward_install now addr payload f outcome a) = as_limit a"
proof (cases "as_closed a")
  case True
  then show ?thesis using flow_close_installing[OF ok] by (simp add: forward_install_def)
next
  case False
  show ?thesis
  proof (cases "map_of (as_flows a) addr")
    case None
    then show ?thesis using install_ok[OF ok] False by (simp add: forward_install_def)
  next
    case (Some g)
    obtain b e where s: "flow_send now g payload outcome (flow_close now f a) = (b, e)" by fastforce
    then show ?thesis
      using calm_ok[OF calm_send[OF s] flow_close_installing[OF ok]] calm_send[OF s] Some False
      by (simp add: forward_install_def calm_def)
  qed
qed

text \<open>When the association ends, the loop closes every flow of the map.\<close>

lemma close_flows_ok:
  "holds_ok a \<Longrightarrow> flows_ok a None \<Longrightarrow> snd ` set (as_flows a) \<subseteq> set fs \<Longrightarrow> set fs \<subseteq> {..<as_next a} \<Longrightarrow>
   holds_ok (close_flows now fs a) \<and> flows_ok (close_flows now fs a) None \<and> as_flows (close_flows now fs a) = [] \<and>
   as_closed (close_flows now fs a) = as_closed a \<and> as_limit (close_flows now fs a) = as_limit a"
proof (induction fs arbitrary: a)
  case (Cons f fs)
  show ?case
  proof (cases "f \<in> lives a")
    case True
    have "snd ` set (as_flows (flow_close now f a)) \<subseteq> set fs"
    proof -
      have "map_of (as_flows a) (uf_addr (as_store a f)) = Some f" using Cons(3) True by (simp add: flows_ok_def)
      then have d: "as_flows (flow_close now f a) = AList.delete (uf_addr (as_store a f)) (as_flows a)"
        by (simp add: flow_close_views[OF True])
      have "g \<noteq> f" if "(k, g) \<in> set (AList.delete (uf_addr (as_store a f)) (as_flows a))" for k g
      proof
        assume g: "g = f"
        have k: "(k, g) \<in> set (as_flows a)" "k \<noteq> uf_addr (as_store a f)" using that by (auto simp: AList.delete_eq)
        then have "map_of (as_flows a) k = Some g" using Cons(3) by (simp add: flows_ok_def)
        then have "uf_addr (as_store a g) = k" using Cons(3) unfolding flows_ok_def by blast
        then show False using k(2) g by simp
      qed
      moreover have "set (AList.delete (uf_addr (as_store a f)) (as_flows a)) \<subseteq> set (as_flows a)"
        by (auto simp: AList.delete_eq)
      ultimately show ?thesis using Cons(4) unfolding d by fastforce
    qed
    then show ?thesis
      using Cons(1)[of "flow_close now f a"] flow_close_holds[OF Cons(2) True] flow_close_flows[OF Cons(3) True] Cons(5) by simp
  next
    case False
    have "f \<notin> snd ` set (as_flows a)"
    proof
      assume "f \<in> snd ` set (as_flows a)"
      then obtain k where "(k, f) \<in> set (as_flows a)" by auto
      then have "map_of (as_flows a) k = Some f" using Cons(3) by (simp add: flows_ok_def)
      then show False using Cons(3) False unfolding flows_ok_def by blast
    qed
    then have "snd ` set (as_flows a) \<subseteq> set fs" using Cons(4) by auto
    moreover have "flow_close now f a = a" by (rule flow_close_dead) (use Cons(5) False in auto)
    ultimately show ?thesis using Cons(1)[of a] Cons(2,3,5) by simp
  qed
qed simp

lemma association_close_ok:
  assumes ok: "udp_ok a Idle"
  shows "udp_ok (association_close now a) Ended \<and> as_limit (association_close now a) = as_limit a"
proof -
  let ?a = "a\<lparr>as_closed := True\<rparr>"
  have l: "lives ?a = lives a" by (simp add: lives_def)
  have a: "\<not> as_closed a" "holds_ok ?a" "flows_ok ?a None"
    using ok by (simp_all add: udp_ok_def stage_ok_def extra_def holds_ok_def leases_ok_def sockets_ok_def sessions_ok_def
        l udp_table_def flows_ok_def)
  have "f < as_next a" if "(k, f) \<in> set (as_flows a)" for k f
  proof -
    have "map_of (as_flows a) k = Some f" using that ok by (simp add: udp_ok_def flows_ok_def)
    then show ?thesis by (rule mapped_flow(2)[OF ok])
  qed
  then have "set (map snd (as_flows a)) \<subseteq> {..<as_next ?a}" by auto
  then show ?thesis
    using close_flows_ok[OF a(2,3), of "map snd (as_flows a)" now] a(1)
    by (simp add: association_close_def udp_ok_def extra_def stage_ok_def)
qed

lemma calm_others:
  assumes "same_leases (as_leases a) (as_sched a) s" "same_sessions (as_sessions a) (as_registry a) r"
  shows "calm a (a\<lparr>as_sched := s, as_registry := r\<rparr>)"
  using assms
  by (auto simp: calm_def same_leases_def same_sessions_def udp_table_def lease_active_def next_lease_def session_active_def
      split: option.splits)

lemma udp_step_ok: "udp_step (a, st) (b, st') \<Longrightarrow> udp_ok a st \<Longrightarrow> udp_ok b st' \<and> as_limit b = as_limit a"
proof (induction "(a, st)" "(b, st')" rule: udp_step.induct)
  case (Datagram now client data outcome)
  then show ?case using serve_datagram_ok by blast
next
  case (Create env client addr payload skip f)
  then show ?case using create_step_ok by fastforce
next
  case (NoFlow env client addr payload skip)
  then show ?case using create_step_ok by fastforce
next
  case (Install addr payload f now outcome)
  then show ?case using install_step_ok by blast
next
  case (Receive f now ev)
  have "extra st \<noteq> Some f" using Receive(2) by (auto simp: extra_def installing_def split: forward_stage.splits)
  then have "udp_ok (flow_receive now f ev a) st" by (rule flow_receive_ok[OF Receive(5,1)])
  moreover have "as_limit (flow_receive now f ev a) = as_limit a"
    by (simp add: flow_receive_def flow_record_failure_def Let_def split: flow_event.split option.split)
  ultimately show ?case using Receive(3,4) by simp
next
  case (Others s r)
  then show ?case using calm_ok[OF calm_others] by auto
next
  case (Close now)
  then show ?case using association_close_ok by blast
qed

lemma new_association_ok:
  assumes "new_association s r ch allowed port limit idle relay = Some a"
  shows "udp_ok a Idle \<and> as_limit a = limit"
proof -
  have "as_open a = {}" "as_leases a = {}" "as_sessions a = {}" "as_next a = 0" "as_flows a = []" "\<not> as_closed a" "as_limit a = limit"
    using assms by (auto simp: new_association_def split: if_splits)
  moreover then have "lives a = {}" by (simp add: lives_def)
  ultimately show ?thesis
    by (simp add: udp_ok_def holds_ok_def leases_ok_def sockets_ok_def sessions_ok_def tracks_def flows_ok_def stage_ok_def extra_def)
qed

lemma udp_run_ok:
  assumes "new_association s r ch allowed port limit idle relay = Some a0"
  shows "udp_run a0 x \<Longrightarrow> udp_ok (fst x) (snd x) \<and> as_limit (fst x) = limit"
proof (induction rule: udp_run.induct)
  case Start
  then show ?case using new_association_ok[OF assms] by simp
next
  case (Step x y)
  then show ?case using udp_step_ok[of "fst x" "snd x" "fst y" "snd y"] by simp
qed

section \<open>Properties\<close>



text \<open>
  C15. When a UDP association ends, nothing it ever took is left: whatever happened before, and
  whatever its receiving goroutines and others do afterwards, every socket it opened is
  closed, every lease it acquired in the scheduler's UDP table is finished, also those of
  failed attempts, and every session it began in the registry is finished.
\<close>
theorem udp_association_leaks_nothing:
  assumes "new_association s r ch allowed port limit idle relay = Some a0" "udp_run a0 (a, Ended)"
  shows "as_flows a = [] \<and> as_open a \<inter> {..<as_next_conn a} = {} \<and>
    (\<forall>l\<in>as_leases a. \<not> lease_active (udp_table a) l) \<and>
    (\<forall>x\<in>as_sessions a. \<not> session_active (as_registry a) x)"
proof -
  have ok: "udp_ok a Ended" using udp_run_ok[OF assms] by simp
  then have e: "as_flows a = []" "lives a = {}"
    unfolding udp_ok_def flows_ok_def stage_ok_def extra_def by auto
  have h: "leases_ok a {}" "sockets_ok a {}" "sessions_ok a {}" using ok by (simp_all add: udp_ok_def holds_ok_def)
  show ?thesis
    using e(1) tracks_all_released[OF h(1)[unfolded leases_ok_def e(2)]] tracks_all_released[OF h(2)[unfolded sockets_ok_def e(2)]]
      tracks_all_released[OF h(3)[unfolded sessions_ok_def e(2)]] by auto
qed

text \<open>A run: a datagram on a direct association makes a flow, it is installed, and the association ends.\<close>

definition demo_start :: association where
  "demo_start = the (new_association None (new_registry 0 []) ''direct'' (A4 [127, 0, 0, 1]) 0 4 second 0)"

definition demo_env :: flow_env where
  "demo_env = \<lparr>fe_begin = (\<lambda>_. 0), fe_end = (\<lambda>_. 0), fe_translate = (\<lambda>_ _. Inl plain_error), fe_dial = (\<lambda>_. None),
               fe_write = (\<lambda>_. (1, None))\<rparr>"

definition demo_client :: "addr \<times> u16" where
  "demo_client = (A4 [127, 0, 0, 1], 5000)"

definition demo_target :: addr_port where
  "demo_target = (Some (A4 [10, 0, 0, 1]), 53)"

definition demo_seen :: association where
  "demo_seen = fst (serve_datagram 1 demo_client [0, 0, 0, 1, 10, 0, 0, 1, 0, 53, 99] (0, None) demo_start)"

definition demo_created :: association where
  "demo_created = fst (create_flow demo_env (Some (fst demo_client), snd demo_client) demo_target [99] '''' demo_seen)"

definition demo_running :: association where
  "demo_running = forward_install 2 demo_target [99] 0 (0, None) demo_created"

lemma demo_new: "new_association None (new_registry 0 []) ''direct'' (A4 [127, 0, 0, 1]) 0 4 second 0 = Some demo_start"
  by (simp add: demo_start_def new_association_def)

lemma demo_seen:
  "snd (serve_datagram 1 demo_client [0, 0, 0, 1, 10, 0, 0, 1, 0, 53, 99] (0, None) demo_start) =
     Creating (Some (fst demo_client), snd demo_client) demo_target [99] ''''"
  "as_flows demo_seen = []" "as_closed demo_seen = False" "as_channel demo_seen = ''direct''" "as_next demo_seen = 0"
  by code_simp+

lemma demo_target_text: "split_host_port (addr_port_string demo_target) = Some (''10.0.0.1'', ''53'')"
  "parse_ip ''10.0.0.1'' = Some (v4_prefix @ [10, 0, 0, 1])"
  by code_simp+

lemma demo_created:
  "snd (create_flow demo_env (Some (fst demo_client), snd demo_client) demo_target [99] '''' demo_seen) = Some 0"
  by (simp add: create_flow_def demo_target_text demo_seen create_direct_flow_def demo_env_def write_error_def open_socket_def
      flow_connected_def begin_session_def add_flow_def Let_def split: prod.split)

lemma demo_seen_run:
  "udp_run demo_start (demo_seen, Creating (Some (fst demo_client), snd demo_client) demo_target [99] '''')"
proof -
  have "udp_step (demo_start, Idle) (demo_seen, Creating (Some (fst demo_client), snd demo_client) demo_target [99] '''')"
    by (rule Datagram[of 1 demo_client "[0, 0, 0, 1, 10, 0, 0, 1, 0, 53, 99]" "(0, None)"])
      (rule prod_eqI, simp_all only: demo_seen_def demo_seen(1) fst_conv snd_conv)
  then show ?thesis by (rule Step[OF Start])
qed

lemma demo_run: "udp_run demo_start (demo_running, Idle)" "map_of (as_flows demo_running) demo_target = Some 0"
proof -
  have c: "create_flow demo_env (Some (fst demo_client), snd demo_client) demo_target [99] '''' demo_seen = (demo_created, Some 0)"
    by (rule prod_eqI) (simp_all only: demo_created_def demo_created fst_conv snd_conv)
  show "udp_run demo_start (demo_running, Idle)"
    unfolding demo_running_def by (rule Step[OF Step[OF demo_seen_run Create[OF c]] Install])
  have "holds_ok demo_seen" using udp_run_ok[OF demo_new demo_seen_run] by (simp add: udp_ok_def)
  then have "created demo_seen demo_created 0" using create_flow_ok[OF _ c] by (simp add: create_result_def)
  then have "as_flows demo_created = []" "\<not> as_closed demo_created" by (simp_all add: created_def demo_seen)
  then show "map_of (as_flows demo_running) demo_target = Some 0" by (simp add: demo_running_def forward_install_def)
qed


theorem udp_association_leaks_nothing_witness:
  "as_flows (association_close 9 demo_running) = [] \<and>
   as_open (association_close 9 demo_running) \<inter> {..<as_next_conn (association_close 9 demo_running)} = {}"
  using udp_association_leaks_nothing[OF demo_new Step[OF demo_run(1) Close[of demo_running 9]]] by blast

end
