(* ===== verification/ReleaseVersion.thy ===== *)
theory ReleaseVersion
  imports GoNet "HOL-Library.Product_Lexorder"
begin

text \<open>
  Release versions: \<open>desktop/internal/releaseversion/version.go\<close>, and the comparisons the
  updater makes with its keys (\<open>versionKey\<close>, \<open>isNewerVersion\<close>, \<open>sameVersion\<close> of
  \<open>desktop/internal/services/updater.go\<close>). The two regular expressions are written out on the
  parts between the dots. \<open>strconv.Atoi\<close> fails beyond 63 bits.
\<close>

section \<open>Versions\<close>

datatype stage = Stable | Beta | Rc

datatype version = Version (major: nat) (minor: nat) (patch: nat) (stage: stage) (sequence: nat)

fun stage_rank :: "stage \<Rightarrow> nat" where
  "stage_rank Beta = 0"
| "stage_rank Rc = 1"
| "stage_rank Stable = 2"

definition version_rank :: "version \<Rightarrow> nat \<times> nat \<times> nat \<times> nat \<times> nat" where
  "version_rank v = (major v, minor v, patch v, stage_rank (stage v), sequence v)"

lemma stage_rank_inj: "stage_rank a = stage_rank b \<Longrightarrow> a = b"
  by (cases a; cases b) auto

lemma version_rank_inj: "version_rank v = version_rank w \<longleftrightarrow> v = w"
  by (cases v; cases w) (auto simp: version_rank_def stage_rank_inj)

instantiation version :: linorder
begin

definition less_eq_version :: "version \<Rightarrow> version \<Rightarrow> bool" where
  "less_eq_version v w \<longleftrightarrow> version_rank v \<le> version_rank w"

definition less_version :: "version \<Rightarrow> version \<Rightarrow> bool" where
  "less_version v w \<longleftrightarrow> version_rank v < version_rank w"

instance
  by standard (auto simp: less_eq_version_def less_version_def simp flip: version_rank_inj)

end

section \<open>Parsing\<close>

definition digit_text :: "string \<Rightarrow> bool" where
  "digit_text s = (s \<noteq> [] \<and> list_all (\<lambda>c. digit_val c \<noteq> None) s)"

definition numeral_text :: "string \<Rightarrow> bool" where
  "numeral_text s = (s = ''0'' \<or> digit_text s \<and> hd s \<noteq> CHR ''0'')"

definition atoi :: "string \<Rightarrow> nat option" where
  "atoi s = (case parse_nat s of None \<Rightarrow> None | Some n \<Rightarrow> if n < 2 ^ 63 then Some n else None)"

definition parse_stage :: "string \<Rightarrow> stage option" where
  "parse_stage s = (if s = ''beta'' then Some Beta else if s = ''rc'' then Some Rc else None)"

text \<open>\<open>releasePattern\<close>: three numerals, and a stage with its sequence (of none, the stage is Stable).\<close>

definition match_release :: "string \<Rightarrow> (string \<times> string \<times> string \<times> stage \<times> string) option" where
  "match_release value =
     (let numbers = takeWhile (\<lambda>c. c \<noteq> CHR ''-'') value; rest = dropWhile (\<lambda>c. c \<noteq> CHR ''-'') value
      in case split_on CHR ''.'' numbers of
           [a, b, c] \<Rightarrow>
             if numeral_text a \<and> numeral_text b \<and> numeral_text c
             then (if rest = [] then Some (a, b, c, Stable, '''')
                   else case split_on CHR ''.'' (tl rest) of
                     [st, n] \<Rightarrow>
                       (case parse_stage st of None \<Rightarrow> None
                        | Some g \<Rightarrow> if numeral_text n \<and> n \<noteq> ''0'' then Some (a, b, c, g, n) else None)
                   | _ \<Rightarrow> None)
             else None
         | _ \<Rightarrow> None)"

definition parse_component :: "nat \<Rightarrow> string \<Rightarrow> nat option" where
  "parse_component limit s = (case atoi s of None \<Rightarrow> None | Some n \<Rightarrow> if n > limit then None else Some n)"

definition parse_version :: "string \<Rightarrow> version option" where
  "parse_version value =
     (case match_release value of None \<Rightarrow> None
      | Some (a, b, c, g, n) \<Rightarrow>
          (case (parse_component 65535 a, parse_component 65535 b, parse_component 65535 c) of
             (Some x, Some y, Some z) \<Rightarrow>
               if g = Stable then Some (Version x y z g 0)
               else (case parse_component 29999 n of None \<Rightarrow> None | Some k \<Rightarrow> Some (Version x y z g k))
           | _ \<Rightarrow> None))"

section \<open>Printing\<close>

fun stage_text :: "stage \<Rightarrow> string" where
  "stage_text Stable = ''''"
| "stage_text Beta = ''beta''"
| "stage_text Rc = ''rc''"

definition version_string :: "version \<Rightarrow> string" where
  "version_string v =
     (let numbers = itoa_nat (major v) @ ''.'' @ itoa_nat (minor v) @ ''.'' @ itoa_nat (patch v)
      in if stage v \<noteq> Stable then numbers @ ''-'' @ stage_text (stage v) @ ''.'' @ itoa_nat (sequence v) else numbers)"

definition prerelease :: "version \<Rightarrow> bool" where
  "prerelease v = (stage v \<noteq> Stable)"

definition version_channel :: "version \<Rightarrow> string" where
  "version_channel v = (if prerelease v then ''update-channel-preview'' else ''update-channel'')"

text \<open>\<open>Windows\<close>: the four numbers, and their text.\<close>

definition windows_revision :: "version \<Rightarrow> nat" where
  "windows_revision v =
     (if stage v = Rc then 30000 + sequence v else if stage v = Beta then sequence v else 65535)"

definition windows_numbers :: "version \<Rightarrow> nat \<times> nat \<times> nat \<times> nat" where
  "windows_numbers v = (major v, minor v, patch v, windows_revision v)"

definition windows_version :: "version \<Rightarrow> string" where
  "windows_version v =
     (case windows_numbers v of
        (a, b, c, d) \<Rightarrow> itoa_nat a @ ''.'' @ itoa_nat b @ ''.'' @ itoa_nat c @ ''.'' @ itoa_nat d)"

section \<open>Keys\<close>

text \<open>The numbers of a legacy version, of which the first ones of the key are filled.\<close>

definition legacy_key :: "string \<Rightarrow> nat list option" where
  "legacy_key value =
     (let parts = split_on CHR ''.'' value in
      if 2 \<le> length parts \<and> length parts \<le> 4 \<and> list_all digit_text parts
      then (if list_all (\<lambda>p. atoi p \<noteq> None) parts
            then Some (map (\<lambda>p. the (atoi p)) parts @ drop (length parts) [0, 0, 0, 0, 2, 0]) else None)
      else None)"

definition strip_v :: "string \<Rightarrow> string" where
  "strip_v s = (if s \<noteq> [] \<and> (hd s = CHR ''v'' \<or> hd s = CHR ''V'') then tl s else s)"

definition version_key :: "string \<Rightarrow> nat list option" where
  "version_key value =
     (let s = strip_v (trim_space value) in
      case parse_version s of
        Some v \<Rightarrow> Some [major v, minor v, patch v, 0, stage_rank (stage v), sequence v]
      | None \<Rightarrow> legacy_key s)"

definition is_prerelease :: "string \<Rightarrow> bool" where
  "is_prerelease value = (case version_key value of None \<Rightarrow> False | Some k \<Rightarrow> k ! 4 < 2)"

text \<open>The loops of \<open>isNewerVersion\<close> and \<open>sameVersion\<close> over the two keys.\<close>

fun newer_key :: "nat list \<Rightarrow> nat list \<Rightarrow> bool" where
  "newer_key (x # xs) (y # ys) = (if x \<noteq> y then y < x else newer_key xs ys)"
| "newer_key _ _ = False"

definition is_newer_version :: "string \<Rightarrow> string \<Rightarrow> bool" where
  "is_newer_version candidate current =
     (case (version_key candidate, version_key current) of (Some l, Some r) \<Rightarrow> newer_key l r | _ \<Rightarrow> False)"

definition same_version :: "string \<Rightarrow> string \<Rightarrow> bool" where
  "same_version left right =
     (case (version_key left, version_key right) of
        (Some l, Some r) \<Rightarrow> list_all (\<lambda>i. l ! i = r ! i) [0..<length l] | _ \<Rightarrow> False)"

end
