(* ===== verification/Updater.thy ===== *)
theory Updater
  imports ReleaseVersion DnsConfig
begin

text \<open>
  The updater of the desktop application, \<open>desktop/internal/services/updater.go\<close>: reading the
  signed manifests of the update channels, choosing a release, downloading its installer and
  starting it.

  Parameters: \<open>url_parse\<close> is \<open>url.Parse\<close> with the \<open>RawPath\<close> of its result, \<open>verify\<close> is
  \<open>ed25519.Verify\<close>, \<open>decode\<close> the strict JSON decoding of a manifest with nothing after it,
  \<open>sha256\<close> the hash, and \<open>authentic\<close> the Authenticode check of an installer's contents.
  What the network returns is an argument too: a reply for every address asked. Messages of
  errors are left out; an error is the check that failed.
\<close>

section \<open>Releases\<close>

record release_info =
  ri_tag :: string
  ri_name :: string
  ri_notes :: string
  ri_page :: string
  ri_urls :: "string list"
  ri_installer :: string
  ri_size :: int
  ri_digest :: string

record update_manifest =
  um_schema :: int
  um_version :: string
  um_name :: string
  um_notes :: string
  um_installer :: string
  um_size :: int
  um_sha256 :: string
  um_urls :: "string list"

datatype update_error =
    MetadataUrl | Unreachable | HttpStatus int | ManifestTooLarge | SignatureTooLarge | SignatureInvalid | ManifestJson
  | SchemaVersion | VersionInvalid | InstallerName | InstallerSize | InstallerDigest | MirrorCount | MirrorInvalid
  | MirrorDuplicate | PageUrl | StableHasPrerelease | NoMetadata "update_error list" | InconsistentMetadata

definition github_repository_url :: string where
  "github_repository_url = ''https://github.com/Hypostasis-Cat/HypoMux''"

definition release_download_url :: string where
  "release_download_url = github_repository_url @ ''/releases/download/''"

definition github_latest_manifest_url :: string where
  "github_latest_manifest_url = ''https://raw.githubusercontent.com/Hypostasis-Cat/HypoMux/update-channel/latest.json''"

definition cnb_repository_url :: string where
  "cnb_repository_url = ''https://cnb.cool/Hypostasis-Cat/HypoMux''"

definition cnb_download_url :: string where
  "cnb_download_url = cnb_repository_url @ ''/-/releases/download/''"

definition cnb_latest_manifest_url :: string where
  "cnb_latest_manifest_url = cnb_repository_url @ ''/-/git/raw/update-channel/latest.json''"

definition github_preview_manifest_url :: string where
  "github_preview_manifest_url = ''https://raw.githubusercontent.com/Hypostasis-Cat/HypoMux/update-channel-preview/latest.json''"

definition cnb_preview_manifest_url :: string where
  "cnb_preview_manifest_url = cnb_repository_url @ ''/-/git/raw/update-channel-preview/latest.json''"

definition max_update_manifest_size :: nat where
  "max_update_manifest_size = 2 * 1024 * 1024"

definition max_manifest_signature_size :: nat where
  "max_manifest_signature_size = 1024"

definition max_installer_mirror_count :: nat where
  "max_installer_mirror_count = 4"

section \<open>Checks\<close>

definition normalize_tag_name :: "string \<Rightarrow> string" where
  "normalize_tag_name value =
     (let s = trim_space value in
      if s = '''' then ''''
      else if hd s = CHR ''v'' \<or> hd s = CHR ''V'' then CHR ''v'' # tl s else CHR ''v'' # s)"

definition has_prefix :: "string \<Rightarrow> string \<Rightarrow> bool" where
  "has_prefix s p = (take (length p) s = p)"

definition trim_prefix :: "string \<Rightarrow> string \<Rightarrow> string" where
  "trim_prefix s p = (if has_prefix s p then drop (length p) s else s)"

definition alnum :: "char \<Rightarrow> bool" where
  "alnum c = (digit_val c \<noteq> None \<or> (let n = of_char (lower_char c) :: nat in 97 \<le> n \<and> n \<le> 122))"

text \<open>\<open>installerNamePattern\<close>, without regard to case.\<close>

definition installer_name_ok :: "string \<Rightarrow> bool" where
  "installer_name_ok s =
     (let middle = take (length s - 18) (drop 14 s)
      in 18 < length s \<and> to_lower (take 14 s) = ''hypomux_setup_'' \<and> to_lower (drop (length s - 4) s) = ''.exe'' \<and>
         alnum (hd middle) \<and> list_all (\<lambda>c. alnum c \<or> c \<in> {CHR ''.'', CHR ''_'', CHR ''+'', CHR ''-''}) middle)"

definition normalize_sha256 :: "string \<Rightarrow> string option" where
  "normalize_sha256 value =
     (let s = trim_space value;
          t = (if 7 \<le> length s \<and> to_lower (take 7 s) = ''sha256:'' then drop 7 s else s)
      in if length t = 64 \<and> list_all is_hex t then Some (to_lower t) else None)"

definition validate_update_metadata_url :: "string \<Rightarrow> bool" where
  "validate_update_metadata_url value =
     list_ex (\<lambda>allowed. value = allowed \<or> value = allowed @ ''.sig'')
       [github_latest_manifest_url, cnb_latest_manifest_url, github_preview_manifest_url, cnb_preview_manifest_url]"

definition validate_installer_mirror_url :: "(string \<Rightarrow> (url \<times> string) option) \<Rightarrow> string \<Rightarrow> string \<Rightarrow> string \<Rightarrow> bool" where
  "validate_installer_mirror_url url_parse value tag installer =
     (case url_parse value of None \<Rightarrow> False
      | Some (u, raw_path) \<Rightarrow>
          if u_scheme u \<noteq> ''https'' \<or> u_user u \<or> u_opaque u \<noteq> '''' \<or> u_query u \<noteq> '''' \<or> u_fragment u \<noteq> '''' \<or>
             raw_path \<noteq> '''' \<or> u_force_query u \<or> u_path u = '''' then False
          else
            let canonical = normalize_tag_name tag in
            if version_key canonical = None \<or> installer = '''' then False
            else value = release_download_url @ canonical @ ''/'' @ installer \<or>
                 value = cnb_download_url @ canonical @ ''/'' @ installer)"

definition expected_installer :: "string \<Rightarrow> string" where
  "expected_installer tag = ''HypoMux_Setup_'' @ trim_prefix tag ''v'' @ ''.exe''"

definition prefer_cnb_mirror :: "string list \<Rightarrow> string list" where
  "prefer_cnb_mirror values =
     filter (\<lambda>v. has_prefix v cnb_download_url) values @ filter (\<lambda>v. \<not> has_prefix v cnb_download_url) values"

text \<open>The loop over the mirrors of a manifest: every one is checked, repeated ones are dropped.\<close>

fun manifest_urls :: "(string \<Rightarrow> (url \<times> string) option) \<Rightarrow> string \<Rightarrow> string \<Rightarrow> string list \<Rightarrow> string list \<Rightarrow> string list option" where
  "manifest_urls url_parse tag installer [] urls = Some urls"
| "manifest_urls url_parse tag installer (m # ms) urls =
     (if \<not> validate_installer_mirror_url url_parse m tag installer then None
      else manifest_urls url_parse tag installer ms (if m \<in> set urls then urls else urls @ [m]))"

definition release_from_manifest ::
  "(string \<Rightarrow> (url \<times> string) option) \<Rightarrow> update_manifest \<Rightarrow> update_error + release_info" where
  "release_from_manifest url_parse m =
     (let tag = normalize_tag_name (um_version m) in
      if um_schema m \<noteq> 1 then Inl SchemaVersion
      else if version_key tag = None then Inl VersionInvalid
      else if um_installer m \<noteq> expected_installer tag \<or> \<not> installer_name_ok (um_installer m) then Inl InstallerName
      else if um_size m \<le> 0 then Inl InstallerSize
      else case normalize_sha256 (um_sha256 m) of None \<Rightarrow> Inl InstallerDigest
      | Some digest \<Rightarrow>
          if um_urls m = [] \<or> max_installer_mirror_count < length (um_urls m) then Inl MirrorCount
          else case manifest_urls url_parse tag (um_installer m) (um_urls m) [] of None \<Rightarrow> Inl MirrorInvalid
          | Some urls \<Rightarrow>
              Inr \<lparr>ri_tag = tag, ri_name = trim_space (um_name m), ri_notes = trim_space (um_notes m),
                   ri_page = github_repository_url @ ''/releases/tag/'' @ tag, ri_urls = prefer_cnb_mirror urls,
                   ri_installer = um_installer m, ri_size = um_size m, ri_digest = ''sha256:'' @ digest\<rparr>)"

text \<open>\<open>validateReleaseInfo\<close>; its loop over the mirrors is \<open>release_urls_error\<close>.\<close>

fun release_urls_error ::
  "(string \<Rightarrow> (url \<times> string) option) \<Rightarrow> string \<Rightarrow> string \<Rightarrow> string list \<Rightarrow> string set \<Rightarrow> update_error option" where
  "release_urls_error url_parse tag installer [] seen = None"
| "release_urls_error url_parse tag installer (m # ms) seen =
     (if \<not> validate_installer_mirror_url url_parse m tag installer then Some MirrorInvalid
      else if m \<in> seen then Some MirrorDuplicate
      else release_urls_error url_parse tag installer ms (insert m seen))"

definition validate_release_info :: "(string \<Rightarrow> (url \<times> string) option) \<Rightarrow> release_info \<Rightarrow> update_error option" where
  "validate_release_info url_parse r =
     (let tag = normalize_tag_name (ri_tag r) in
      if version_key tag = None \<or> ri_tag r \<noteq> tag then Some VersionInvalid
      else if ri_installer r \<noteq> expected_installer tag \<or> \<not> installer_name_ok (ri_installer r) then Some InstallerName
      else if ri_size r \<le> 0 then Some InstallerSize
      else if normalize_sha256 (ri_digest r) = None then Some InstallerDigest
      else if ri_urls r = [] \<or> max_installer_mirror_count < length (ri_urls r) then Some MirrorCount
      else case release_urls_error url_parse tag (ri_installer r) (ri_urls r) {} of Some e \<Rightarrow> Some e
      | None \<Rightarrow>
          if ri_page r \<noteq> '''' \<and> ri_page r \<noteq> github_repository_url @ ''/releases/tag/'' @ tag then Some PageUrl else None)"

section \<open>Choosing a release\<close>

definition same_release_metadata :: "release_info \<Rightarrow> release_info \<Rightarrow> bool" where
  "same_release_metadata l r =
     (ri_tag l = ri_tag r \<and> ri_name l = ri_name r \<and> ri_notes l = ri_notes r \<and> ri_page l = ri_page r \<and>
      ri_installer l = ri_installer r \<and> ri_size l = ri_size r \<and> ri_digest l = ri_digest r \<and>
      length (ri_urls l) = length (ri_urls r) \<and> list_all2 (=) (ri_urls l) (ri_urls r))"

fun latest_release :: "release_info \<Rightarrow> release_info list \<Rightarrow> release_info" where
  "latest_release latest [] = latest"
| "latest_release latest (c # cs) = latest_release (if is_newer_version (ri_tag c) (ri_tag latest) then c else latest) cs"

definition select_latest_release ::
  "(string \<Rightarrow> (url \<times> string) option) \<Rightarrow> release_info list \<Rightarrow> update_error + release_info" where
  "select_latest_release url_parse cs =
     (case cs of [] \<Rightarrow> Inl (NoMetadata [])
      | first # rest \<Rightarrow>
          let latest = latest_release first rest in
          if \<not> list_all (\<lambda>c. same_version (ri_tag c) (ri_tag latest) \<longrightarrow> same_release_metadata c latest) cs
          then Inl InconsistentMetadata
          else case validate_release_info url_parse latest of Some e \<Rightarrow> Inl e | None \<Rightarrow> Inr latest)"

section \<open>Reading the channels\<close>

record http_reply =
  hr_status :: int
  hr_body :: "bytes option"

record update_env =
  ue_key :: bytes
  ue_verify :: "bytes \<Rightarrow> bytes \<Rightarrow> bytes \<Rightarrow> bool"
  ue_decode :: "bytes \<Rightarrow> update_manifest option"
  ue_url_parse :: "string \<Rightarrow> (url \<times> string) option"
  ue_get :: "string \<Rightarrow> http_reply option"

text \<open>
  The first half of \<open>checkUpdateManifest\<close> and its repetition for the signature: an address
  that must be an official one is read up to a limit. The body of a reply is what could be
  read of it, None when reading failed.
\<close>

definition read_metadata :: "update_env \<Rightarrow> string \<Rightarrow> nat \<Rightarrow> update_error \<Rightarrow> update_error + bytes" where
  "read_metadata env address limit too_large =
     (if \<not> validate_update_metadata_url address then Inl MetadataUrl
      else case ue_get env address of None \<Rightarrow> Inl Unreachable
      | Some r \<Rightarrow>
          if hr_status r \<noteq> 200 then Inl (HttpStatus (hr_status r))
          else case hr_body r of None \<Rightarrow> Inl Unreachable
          | Some body \<Rightarrow> if limit < length body then Inl too_large else Inr body)"

definition check_update_manifest :: "update_env \<Rightarrow> string \<Rightarrow> update_error + release_info" where
  "check_update_manifest env address =
     (case read_metadata env address max_update_manifest_size ManifestTooLarge of Inl e \<Rightarrow> Inl e
      | Inr body \<Rightarrow>
          (case read_metadata env (address @ ''.sig'') max_manifest_signature_size SignatureTooLarge of Inl e \<Rightarrow> Inl e
           | Inr signature \<Rightarrow>
               if length (ue_key env) \<noteq> 32 \<or> length signature \<noteq> 64 \<or> \<not> ue_verify env (ue_key env) body signature
               then Inl SignatureInvalid
               else case ue_decode env body of None \<Rightarrow> Inl ManifestJson
               | Some m \<Rightarrow> release_from_manifest (ue_url_parse env) m))"

text \<open>A source of \<open>checkVersion\<close>: the stable channels must not carry prereleases.\<close>

definition check_source :: "update_env \<Rightarrow> string \<Rightarrow> update_error + release_info" where
  "check_source env address =
     (case check_update_manifest env address of Inl e \<Rightarrow> Inl e
      | Inr r \<Rightarrow>
          if is_prerelease (ri_tag r) \<and> (address = cnb_latest_manifest_url \<or> address = github_latest_manifest_url)
          then Inl StableHasPrerelease else Inr r)"

definition update_sources :: "string \<Rightarrow> string list" where
  "update_sources ch =
     [cnb_latest_manifest_url, github_latest_manifest_url] @
     (if ch = ''preview'' then [cnb_preview_manifest_url, github_preview_manifest_url] else [])"

record update_check =
  uc_current :: string
  uc_available :: bool
  uc_release :: release_info

text \<open>The sources are asked at the same time; their results are put back in order.\<close>

definition check_version :: "update_env \<Rightarrow> string \<Rightarrow> string \<Rightarrow> update_error + update_check" where
  "check_version env current ch =
     (let results = map (check_source env) (update_sources ch);
          candidates = List.map_filter (\<lambda>r. case r of Inr x \<Rightarrow> Some x | Inl e \<Rightarrow> None) results;
          errors = List.map_filter (\<lambda>r. case r of Inl e \<Rightarrow> Some e | Inr x \<Rightarrow> None) results
      in if candidates = [] then Inl (NoMetadata errors)
         else case select_latest_release (ue_url_parse env) candidates of Inl e \<Rightarrow> Inl e
         | Inr r \<Rightarrow> Inr \<lparr>uc_current = current, uc_available = is_newer_version (ri_tag r) current, uc_release = r\<rparr>)"

section \<open>Downloading\<close>

text \<open>
  The files of the temporary directory, the progress shown, whether an operation is active,
  and whether the application was asked to quit.
\<close>

record updater =
  up_active :: bool
  up_state :: string
  up_partial :: "bytes option"
  up_target :: "bytes option"
  up_quit :: bool

text \<open>
  The reply of a mirror: whether the request got an answer, its status and announced length,
  whether the partial file could be opened, the bytes the body delivered, and whether
  copying or closing the file failed.
\<close>

record mirror_reply =
  mr_status :: "int option"
  mr_length :: int
  mr_opened :: bool
  mr_body :: bytes
  mr_copy_failed :: bool
  mr_close_failed :: bool

datatype download_error =
    NoAnswer | MirrorStatus int | WrongLength | NoFile | Interrupted | NotSaved | WrongSize | WrongDigest | NotAuthentic

record download_env =
  de_reply :: "string \<Rightarrow> mirror_reply"
  de_sha256 :: "bytes \<Rightarrow> string"
  de_authentic :: "bytes \<Rightarrow> bool"
  de_directory :: bool
  de_rename :: bool

text \<open>The result: an error with the mark of an integrity failure, or success; a failure after
  the file was written removes it.\<close>

definition download_installer_mirror ::
  "download_env \<Rightarrow> string \<Rightarrow> int \<Rightarrow> string \<Rightarrow> updater \<Rightarrow> updater \<times> (download_error \<times> bool) option" where
  "download_installer_mirror env address wanted digest u =
     (let r = de_reply env address in
      case mr_status r of None \<Rightarrow> (u, Some (NoAnswer, False))
      | Some status \<Rightarrow>
          if status \<noteq> 200 then (u, Some (MirrorStatus status, False))
          else if 0 < mr_length r \<and> mr_length r \<noteq> wanted then (u, Some (WrongLength, False))
          else if \<not> mr_opened r then (u, Some (NoFile, False))
          else
            let data = take (nat (wanted + 1)) (mr_body r);
                gone = u\<lparr>up_partial := None\<rparr>
            in if mr_copy_failed r then (gone, Some (Interrupted, False))
               else if mr_close_failed r then (gone, Some (NotSaved, False))
               else if int (length data) \<noteq> wanted then (gone, Some (WrongSize, False))
               else if de_sha256 env data \<noteq> digest then (gone, Some (WrongDigest, True))
               else if \<not> de_authentic env data then (gone\<lparr>up_state := ''verifying''\<rparr>, Some (NotAuthentic, True))
               else (u\<lparr>up_partial := Some data, up_state := ''verifying''\<rparr>, None))"

datatype download_failure = Busy | Refused update_error | NoDirectory | Tampered | NotCommitted | AllMirrorsFailed bool

text \<open>The loop over the mirrors; \<open>suspect\<close> says whether a mirror failed the integrity checks.\<close>

fun download_loop ::
  "download_env \<Rightarrow> int \<Rightarrow> string \<Rightarrow> string list \<Rightarrow> bool \<Rightarrow> updater \<Rightarrow> updater \<times> download_failure option" where
  "download_loop env wanted digest [] suspect u = (u\<lparr>up_state := ''failed''\<rparr>, Some (AllMirrorsFailed suspect))"
| "download_loop env wanted digest (m # ms) suspect u =
     (case download_installer_mirror env m wanted digest (u\<lparr>up_partial := None, up_state := ''downloading''\<rparr>) of
        (u1, Some (e, integrity)) \<Rightarrow> download_loop env wanted digest ms (suspect \<or> integrity) u1
      | (u1, None) \<Rightarrow>
          if suspect then (u1\<lparr>up_partial := None, up_state := ''failed''\<rparr>, Some Tampered)
          else if \<not> de_rename env then (u1\<lparr>up_partial := None, up_state := ''failed''\<rparr>, Some NotCommitted)
          else (u1\<lparr>up_target := up_partial u1, up_partial := None, up_state := ''ready''\<rparr>, None))"

text \<open>A failed download leaves no directory behind.\<close>

definition download ::
  "download_env \<Rightarrow> (string \<Rightarrow> (url \<times> string) option) \<Rightarrow> release_info \<Rightarrow> updater \<Rightarrow> updater \<times> download_failure option" where
  "download env url_parse r u0 =
     (if up_active u0 then (u0, Some Busy)
      else
        let u = u0\<lparr>up_active := True, up_state := ''starting'', up_partial := None, up_target := None\<rparr>;
            (u1, failure) =
              (case validate_release_info url_parse r of Some e \<Rightarrow> (u\<lparr>up_state := ''failed''\<rparr>, Some (Refused e))
               | None \<Rightarrow>
                   let digest = (case normalize_sha256 (ri_digest r) of Some d \<Rightarrow> d | None \<Rightarrow> '''') in
                   if \<not> de_directory env then (u\<lparr>up_state := ''failed''\<rparr>, Some NoDirectory)
                   else case download_loop env (ri_size r) digest (ri_urls r) False u of
                     (u2, None) \<Rightarrow> (u2, None)
                   | (u2, Some f) \<Rightarrow> (u2\<lparr>up_partial := None, up_target := None\<rparr>, Some f))
        in (u1\<lparr>up_active := False\<rparr>, failure))"

text \<open>\<open>InstallAndQuit\<close>: the operation stays active when the application is asked to quit.\<close>

definition install_and_quit :: "bool \<Rightarrow> bool \<Rightarrow> updater \<Rightarrow> updater \<times> bool" where
  "install_and_quit has_quit launched u =
     (if up_active u then (u, False)
      else if \<not> has_quit then (u, False)
      else if \<not> launched then (u\<lparr>up_state := ''failed''\<rparr>, False)
      else (u\<lparr>up_active := True, up_state := ''installing'', up_quit := True\<rparr>, True))"

end
