(* ===== verification/VersionFacts.thy ===== *)
theory VersionFacts
  imports ReleaseVersion
begin

text \<open>
  Release versions: the text of a version and its parts determine each other, and the three
  orders in use (of the updater's keys, of the numbers Windows compares, and the order of
  \<open>version\<close>) agree.
\<close>

section \<open>Numerals\<close>

lemma digit_text_snoc: "digit_text (s @ [c]) \<longleftrightarrow> (s = [] \<or> digit_text s) \<and> digit_val c \<noteq> None"
  by (auto simp: digit_text_def)

lemma digit_val_cases: "digit_val c = Some d \<Longrightarrow> d < 10 \<and> c = char_of (48 + d)"
  by (auto simp: digit_val_def Let_def split: if_splits)

lemma zero_char [simp]: "char_of (48 :: nat) = CHR ''0''"
  by code_simp

lemma digit_zero: "d < 10 \<Longrightarrow> char_of (48 + d) = CHR ''0'' \<longleftrightarrow> d = (0 :: nat)"
  using digit_val_char[of d] digit_val_char[of 0] by (auto dest: arg_cong[of _ _ digit_val])

lemma parse_digits_snoc:
  "parse_digits (s @ [c]) acc = Option.bind (parse_digits s acc) (\<lambda>m. map_option (\<lambda>d. m * 10 + d) (digit_val c))"
  by (induction s acc rule: parse_digits.induct) (auto split: option.split)

lemma parse_digits_total: "list_all (\<lambda>c. digit_val c \<noteq> None) s \<Longrightarrow> \<exists>n. parse_digits s acc = Some n \<and> acc \<le> n"
proof (induction s acc rule: parse_digits.induct)
  case (2 c cs acc)
  then obtain d where "digit_val c = Some d" by auto
  then show ?case using 2 by fastforce
qed simp

lemma parse_digits_pos:
  assumes "s \<noteq> []" "list_all (\<lambda>c. digit_val c \<noteq> None) s" "hd s \<noteq> CHR ''0''" "parse_digits s 0 = Some n"
  shows "0 < n"
proof -
  obtain c cs d where s: "s = c # cs" "digit_val c = Some d" using assms(1,2) by (cases s) auto
  have "d \<noteq> 0" using digit_val_cases[OF s(2)] digit_zero[of d] assms(3) s(1) by auto
  moreover have "d \<le> n" using parse_digits_total[of cs d] assms(2,4) s by auto
  ultimately show ?thesis by simp
qed

text \<open>A numeral is the text of its value.\<close>

lemma itoa_parse:
  "digit_text s \<Longrightarrow> hd s \<noteq> CHR ''0'' \<or> length s = 1 \<Longrightarrow> parse_digits s 0 = Some n \<Longrightarrow> itoa_nat n = s"
proof (induction s arbitrary: n rule: rev_induct)
  case (snoc c s)
  then obtain d where d: "digit_val c = Some d" by (auto simp: digit_text_snoc)
  note c = digit_val_cases[OF d]
  show ?case
  proof (cases "s = []")
    case True
    then have "n = d" using snoc(4) d by simp
    then show ?thesis using True c by (subst itoa_nat.simps) simp
  next
    case False
    then have s: "digit_text s" "hd s \<noteq> CHR ''0''" using snoc(2,3) by (auto simp: digit_text_snoc)
    then obtain m where m: "parse_digits s 0 = Some m" using parse_digits_total[of s 0] by (auto simp: digit_text_def)
    have n: "n = m * 10 + d" using snoc(4) d m by (simp add: parse_digits_snoc)
    have "0 < m" using parse_digits_pos[OF False _ s(2) m] s(1) by (simp add: digit_text_def)
    then have "itoa_nat n = itoa_nat m @ [char_of (48 + d)]" using c n by (subst itoa_nat.simps) simp
    then show ?thesis using snoc(1)[OF s(1) _ m] s(2) c by simp
  qed
qed (simp add: digit_text_def)

lemma numeral_itoa: "numeral_text s \<Longrightarrow> parse_nat s = Some n \<Longrightarrow> itoa_nat n = s"
  using itoa_parse[of s n] by (auto simp: numeral_text_def parse_nat_def digit_text_def digit_val_def split: if_splits)

lemma digit_text_itoa: "digit_text (itoa_nat n)"
  using itoa_digits by (auto simp: digit_text_def list_all_iff)

lemma numeral_text_itoa: "numeral_text (itoa_nat n)"
proof (cases "n < 10")
  case True
  then have "itoa_nat n = [char_of (48 + n)]" by (subst itoa_nat.simps) simp
  then show ?thesis using digit_text_itoa[of n] digit_zero[OF True] by (cases "n = 0") (simp_all add: numeral_text_def)
next
  case False
  then show ?thesis using itoa_hd[of n] digit_text_itoa[of n] by (simp add: numeral_text_def)
qed

lemma itoa_zero_text: "itoa_nat n = ''0'' \<longleftrightarrow> n = 0"
proof
  assume "itoa_nat n = ''0''"
  then have "parse_nat ''0'' = Some n" using parse_nat_itoa[of n] by simp
  moreover have "parse_nat ''0'' = Some 0" by code_simp
  ultimately show "n = 0" by simp
qed (simp add: itoa_nat.simps)

lemma atoi_itoa: "n < 2 ^ 63 \<Longrightarrow> atoi (itoa_nat n) = Some n"
  by (simp add: atoi_def)

section \<open>Round trip\<close>

definition version_ok :: "version \<Rightarrow> bool" where
  "version_ok v \<longleftrightarrow> major v \<le> 65535 \<and> minor v \<le> 65535 \<and> patch v \<le> 65535 \<and>
     (if stage v = Stable then sequence v = 0 else 1 \<le> sequence v \<and> sequence v \<le> 29999)"

lemma itoa_chars: "c \<in> set (itoa_nat n) \<Longrightarrow> c \<noteq> CHR ''.'' \<and> c \<noteq> CHR ''-''"
  using itoa_digits[of c n] by (auto simp: digit_val_def)

definition numbers_text :: "nat \<Rightarrow> nat \<Rightarrow> nat \<Rightarrow> string" where
  "numbers_text a b c = itoa_nat a @ ''.'' @ itoa_nat b @ ''.'' @ itoa_nat c"

lemma numbers_no_dash: "CHR ''-'' \<notin> set (numbers_text a b c)"
  using itoa_chars by (auto simp: numbers_text_def)

lemma dash_split:
  assumes "CHR ''-'' \<notin> set s"
  shows "takeWhile (\<lambda>c. c \<noteq> CHR ''-'') s = s" "dropWhile (\<lambda>c. c \<noteq> CHR ''-'') s = []"
    "takeWhile (\<lambda>c. c \<noteq> CHR ''-'') (s @ CHR ''-'' # t) = s" "dropWhile (\<lambda>c. c \<noteq> CHR ''-'') (s @ CHR ''-'' # t) = CHR ''-'' # t"
proof -
  have "\<forall>c\<in>set s. c \<noteq> CHR ''-''" using assms by auto
  then show "takeWhile (\<lambda>c. c \<noteq> CHR ''-'') s = s" "dropWhile (\<lambda>c. c \<noteq> CHR ''-'') s = []"
    "takeWhile (\<lambda>c. c \<noteq> CHR ''-'') (s @ CHR ''-'' # t) = s" "dropWhile (\<lambda>c. c \<noteq> CHR ''-'') (s @ CHR ''-'' # t) = CHR ''-'' # t"
    by (simp_all add: takeWhile_append2 dropWhile_append2 takeWhile_eq_all_conv dropWhile_eq_Nil_conv)
qed

lemma split_numbers: "split_on CHR ''.'' (numbers_text a b c) = [itoa_nat a, itoa_nat b, itoa_nat c]"
proof -
  have "CHR ''.'' \<notin> set (itoa_nat n)" for n using itoa_chars[of "CHR ''.''"] by blast
  then show ?thesis by (simp add: numbers_text_def split_on_append split_on_none)
qed

lemma version_string_numbers:
  "version_string v = (if stage v = Stable then numbers_text (major v) (minor v) (patch v)
     else numbers_text (major v) (minor v) (patch v) @ CHR ''-'' # stage_text (stage v) @ ''.'' @ itoa_nat (sequence v))"
  by (simp add: version_string_def numbers_text_def)

lemma parse_stage_text: "g \<noteq> Stable \<Longrightarrow> parse_stage (stage_text g) = Some g"
  by (cases g) (simp_all add: parse_stage_def)

lemma parse_stage_known: "parse_stage s = Some g \<Longrightarrow> g \<noteq> Stable \<and> stage_text g = s"
  by (auto simp: parse_stage_def split: if_split_asm)

lemma match_version_string:
  assumes "version_ok v"
  shows "match_release (version_string v) =
    Some (itoa_nat (major v), itoa_nat (minor v), itoa_nat (patch v), stage v,
          if stage v = Stable then '''' else itoa_nat (sequence v))"
proof (cases "stage v = Stable")
  case True
  then show ?thesis
    by (simp add: match_release_def version_string_numbers dash_split[OF numbers_no_dash] split_numbers numeral_text_itoa)
next
  case False
  have dot: "CHR ''.'' \<notin> set (stage_text (stage v))" "CHR ''.'' \<notin> set (itoa_nat (sequence v))"
    using itoa_chars[of "CHR ''.''"] by (cases "stage v") auto
  have "split_on CHR ''.'' (stage_text (stage v) @ CHR ''.'' # itoa_nat (sequence v)) =
      [stage_text (stage v), itoa_nat (sequence v)]"
    using dot by (simp add: split_on_append split_on_none)
  moreover have "itoa_nat (sequence v) \<noteq> ''0''" using assms False by (simp add: itoa_zero_text version_ok_def)
  ultimately show ?thesis
    using False
    by (simp add: match_release_def version_string_numbers dash_split[OF numbers_no_dash] split_numbers numeral_text_itoa
        parse_stage_text)
qed

lemma parse_component_itoa: "n \<le> limit \<Longrightarrow> limit \<le> 65535 \<Longrightarrow> parse_component limit (itoa_nat n) = Some n"
  using atoi_itoa[of n] by (simp add: parse_component_def)

lemma parse_component_text: "numeral_text s \<Longrightarrow> parse_component limit s = Some n \<Longrightarrow> itoa_nat n = s \<and> n \<le> limit"
  using numeral_itoa by (auto simp: parse_component_def atoi_def split: option.splits if_splits)

lemma join_split: "join_with [sep] (split_on sep s) = s"
proof (induction sep s rule: split_on.induct)
  case (2 sep c cs)
  have "split_on sep cs \<noteq> []" by (cases cs) (auto split: list.splits)
  then obtain f fs where "split_on sep cs = f # fs" by (cases "split_on sep cs") auto
  then show ?case using 2 by (cases fs) auto
qed simp

lemma match_release_text:
  assumes "match_release value = Some (a, b, c, g, n)"
  shows "value = a @ ''.'' @ b @ ''.'' @ c @ (if g = Stable then '''' else ''-'' @ stage_text g @ ''.'' @ n)"
    "numeral_text a" "numeral_text b" "numeral_text c" "g \<noteq> Stable \<Longrightarrow> numeral_text n \<and> n \<noteq> ''0''"
proof -
  let ?h = "takeWhile (\<lambda>c. c \<noteq> CHR ''-'') value" and ?t = "dropWhile (\<lambda>c. c \<noteq> CHR ''-'') value"
  have v: "value = ?h @ ?t" by simp
  have h: "split_on CHR ''.'' ?h = [a, b, c]" and abc: "numeral_text a" "numeral_text b" "numeral_text c"
    and t: "?t = [] \<and> g = Stable \<or> ?t \<noteq> [] \<and> (\<exists>st. split_on CHR ''.'' (tl ?t) = [st, n] \<and> parse_stage st = Some g \<and>
         numeral_text n \<and> n \<noteq> ''0'')"
    using assms by (auto simp: match_release_def Let_def split: list.splits if_splits option.splits)
  have 1: "?h = a @ ''.'' @ b @ ''.'' @ c" using join_split[of "CHR ''.''" ?h] h by simp
  show "numeral_text a" "numeral_text b" "numeral_text c" by (fact abc)+
  show "g \<noteq> Stable \<Longrightarrow> numeral_text n \<and> n \<noteq> ''0''" using t by auto
  show "value = a @ ''.'' @ b @ ''.'' @ c @ (if g = Stable then '''' else ''-'' @ stage_text g @ ''.'' @ n)"
  proof (cases "?t = []")
    case True
    have "g = Stable" using t True by blast
    moreover have "value = ?h" using arg_cong[OF True, of "\<lambda>x. ?h @ x"] by (simp only: takeWhile_dropWhile_id append_Nil2)
    ultimately show ?thesis using 1 by simp
  next
    case False
    then obtain st where st: "split_on CHR ''.'' (tl ?t) = [st, n]" "parse_stage st = Some g" using t by auto
    have "hd ?t = CHR ''-''" using hd_dropWhile[OF False] by simp
    then have "?t = CHR ''-'' # st @ ''.'' @ n" using join_split[of "CHR ''.''" "tl ?t"] st(1) False by (cases ?t) auto
    then show ?thesis using v 1 parse_stage_known[OF st(2)] by simp
  qed
qed

lemma version_round_trip_iff: "parse_version s = Some v \<longleftrightarrow> version_ok v \<and> s = version_string v"
proof
  assume p: "parse_version s = Some v"
  then obtain a b c g n where m: "match_release s = Some (a, b, c, g, n)" by (auto simp: parse_version_def split: option.splits)
  note mt = match_release_text[OF m]
  obtain x y z where xyz: "parse_component 65535 a = Some x" "parse_component 65535 b = Some y" "parse_component 65535 c = Some z"
    using p m by (auto simp: parse_version_def split: option.splits)
  note itoa = parse_component_text[OF mt(2) xyz(1)] parse_component_text[OF mt(3) xyz(2)] parse_component_text[OF mt(4) xyz(3)]
  show "version_ok v \<and> s = version_string v"
  proof (cases "g = Stable")
    case True
    then have "v = Version x y z Stable 0" using p m xyz by (simp add: parse_version_def)
    then show ?thesis using mt(1) itoa True by (simp add: version_ok_def version_string_def)
  next
    case False
    then obtain k where k: "parse_component 29999 n = Some k" "v = Version x y z g k"
      using p m xyz by (auto simp: parse_version_def split: option.splits)
    note n = parse_component_text[of n 29999 k] mt(5)[OF False]
    then have "k \<noteq> 0" using k(1) itoa_zero_text[of k] by auto
    then show ?thesis using mt(1) itoa False k n by (simp add: version_ok_def version_string_def)
  qed
next
  assume "version_ok v \<and> s = version_string v"
  then show "parse_version s = Some v"
    using match_version_string[of v] by (cases v) (auto simp: parse_version_def version_ok_def parse_component_itoa)
qed

text \<open>A string parses as a release version exactly when it is the text of a valid version, and
  then of that one: \<open>Parse\<close> and \<open>String\<close> are inverse to each other on the versions whose
  components fit into 16 bits, with a sequence from 1 to 29999 on beta and rc versions.
\<close>
theorem version_round_trip: "parse_version s = Some v \<longleftrightarrow> version_ok v \<and> s = version_string v"
  by (rule version_round_trip_iff)

section \<open>Orders\<close>

lemma trim_id:
  assumes "s \<noteq> []" "\<not> is_space (hd s)" "\<not> is_space (last s)"
  shows "trim_space s = s"
proof -
  have "dropWhile is_space s = s" using assms(1,2) by (cases s) auto
  moreover have "dropWhile is_space (rev s) = rev s" using assms(1,3) by (cases s rule: rev_cases) auto
  ultimately show ?thesis by (simp add: trim_space_def)
qed

lemma digit_char: "digit_val c \<noteq> None \<Longrightarrow> \<not> is_space c \<and> c \<noteq> CHR ''v'' \<and> c \<noteq> CHR ''V''"
  by (auto simp: digit_val_def is_space_def Let_def split: if_splits)

lemma version_string_ends:
  "version_string v \<noteq> []" "digit_val (hd (version_string v)) \<noteq> None" "digit_val (last (version_string v)) \<noteq> None"
  using itoa_digits[of "hd (itoa_nat (major v))" "major v"] itoa_digits[of "last (itoa_nat (patch v))" "patch v"]
    itoa_digits[of "last (itoa_nat (sequence v))" "sequence v"]
  by (auto simp: version_string_def Let_def hd_append last_append)

lemma version_key_string:
  assumes "version_ok v" "pre \<in> {'''', ''v'', ''V''}"
  shows "version_key (pre @ version_string v) = Some [major v, minor v, patch v, 0, stage_rank (stage v), sequence v]"
proof -
  note ends = version_string_ends[of v] digit_char[OF version_string_ends(2)[of v]] digit_char[OF version_string_ends(3)[of v]]
  have "hd (pre @ version_string v) \<in> {CHR ''v'', CHR ''V'', hd (version_string v)}" using assms(2) by auto
  then have "trim_space (pre @ version_string v) = pre @ version_string v"
    by (intro trim_id) (use ends in \<open>auto simp: last_append is_space_def\<close>)
  moreover have "strip_v (pre @ version_string v) = version_string v"
    using assms(2) ends by (auto simp: strip_v_def)
  moreover have "parse_version (version_string v) = Some v" using assms(1) version_round_trip_iff by blast
  ultimately show ?thesis by (simp add: version_key_def)
qed

lemma less_pair: "(a :: nat, b) < (c, d) \<longleftrightarrow> a < c \<or> a = c \<and> b < d"
  by (auto simp: less_prod_def)

lemma newer_key_Cons: "newer_key (x # xs) (y # ys) \<longleftrightarrow> y < x \<or> y = x \<and> newer_key xs ys"
  by auto

lemma newer_key_lt:
  "newer_key [a, b, c, 0, d, e] [a', b', c', 0, d', e'] \<longleftrightarrow> (a', b', c', d', e') < (a, b, c, d, e)"
  unfolding newer_key_Cons less_pair by simp

text \<open>
  C34. The three orders of release versions agree: the order of the versions themselves (beta before
  rc before the release), the updater's comparison of their tags, with or without a leading
  v, and the comparison of the four numbers that Windows sees.
\<close>
theorem version_orders_agree:
  assumes "version_ok v" "version_ok w" "pre \<in> {'''', ''v'', ''V''}"
  shows "(is_newer_version (pre @ version_string w) (version_string v) \<longleftrightarrow> v < w) \<and>
    (windows_numbers v < windows_numbers w \<longleftrightarrow> v < w) \<and>
    (same_version (pre @ version_string v) (version_string w) \<longleftrightarrow> v = w)"
proof (intro conjI)
  note keys = version_key_string[OF assms(1,3)] version_key_string[OF assms(2,3)]
    version_key_string[OF assms(1), of "''''", simplified] version_key_string[OF assms(2), of "''''", simplified]
  show "is_newer_version (pre @ version_string w) (version_string v) \<longleftrightarrow> v < w"
    unfolding is_newer_version_def keys option.case prod.case newer_key_lt less_version_def version_rank_def by (rule refl)
  show "windows_numbers v < windows_numbers w \<longleftrightarrow> v < w"
    using assms(1,2)
    by (cases "stage v"; cases "stage w")
      (auto simp: windows_numbers_def windows_revision_def less_version_def version_rank_def version_ok_def less_pair)
  have "same_version (pre @ version_string v) (version_string w) \<longleftrightarrow> version_rank v = version_rank w"
    unfolding same_version_def keys by (auto simp: version_rank_def upt_rec nth_Cons')
  then show "same_version (pre @ version_string v) (version_string w) \<longleftrightarrow> v = w" by (simp add: version_rank_inj)
qed

theorem version_orders_agree_witness:
  "is_newer_version ''v2.8.2'' ''2.8.2-rc.3'' \<and> windows_numbers (Version 2 8 2 Rc 3) < windows_numbers (Version 2 8 2 Stable 0)"
proof -
  have "''v'' @ version_string (Version 2 8 2 Stable 0) = ''v2.8.2''" "version_string (Version 2 8 2 Rc 3) = ''2.8.2-rc.3''"
    by code_simp+
  moreover have "version_ok (Version 2 8 2 Rc 3)" "version_ok (Version 2 8 2 Stable 0)" by (simp_all add: version_ok_def)
  moreover have "Version 2 8 2 Rc 3 < Version 2 8 2 Stable 0" by (simp add: less_version_def version_rank_def less_pair)
  ultimately show ?thesis using version_orders_agree[of "Version 2 8 2 Rc 3" "Version 2 8 2 Stable 0" "''v''"] by simp
qed

end
