(* ===== verification/UpdaterFacts.thy ===== *)
theory UpdaterFacts
  imports Updater VersionFacts
begin

text \<open>
  The lemmas of the updater: the order of release keys, what an accepted manifest contains,
  which release a check offers, and which bytes a download leaves behind.
\<close>

section \<open>Keys\<close>

lemma version_key_length: "version_key s = Some k \<Longrightarrow> length k = 6"
  by (auto simp: version_key_def legacy_key_def Let_def split: option.splits if_splits)

lemma not_newer_trans:
  "length xs = length ys \<Longrightarrow> length ys = length zs \<Longrightarrow> \<not> newer_key xs ys \<Longrightarrow> \<not> newer_key ys zs \<Longrightarrow> \<not> newer_key xs zs"
proof (induction xs ys arbitrary: zs rule: list_induct2')
  case (4 x xs y ys)
  then show ?case by (cases zs) (auto split: if_splits)
qed auto

lemma newer_key_asym: "newer_key xs ys \<Longrightarrow> \<not> newer_key ys xs"
  by (induction xs ys rule: newer_key.induct) (auto split: if_splits)

lemma newer_key_irrefl: "\<not> newer_key xs xs"
  using newer_key_asym by blast

lemma not_newer_version_trans:
  assumes "version_key a \<noteq> None" "version_key b \<noteq> None" "version_key c \<noteq> None"
    "\<not> is_newer_version a b" "\<not> is_newer_version b c"
  shows "\<not> is_newer_version a c"
proof -
  obtain k l m where keys: "version_key a = Some k" "version_key b = Some l" "version_key c = Some m" using assms(1-3) by blast
  have lens: "length k = length l" "length l = length m" using keys[THEN version_key_length] by simp_all
  have "\<not> newer_key k l" "\<not> newer_key l m" using assms(4,5) by (simp_all add: is_newer_version_def keys)
  from not_newer_trans[OF lens this] show ?thesis by (simp add: is_newer_version_def keys)
qed

lemma newer_version_asym: "is_newer_version a b \<Longrightarrow> \<not> is_newer_version b a"
  by (auto simp: is_newer_version_def dest: newer_key_asym split: option.splits)

lemma newer_version_irrefl: "\<not> is_newer_version a a"
  using newer_version_asym by blast

section \<open>The latest release\<close>

lemma latest_release_mem: "latest_release l cs \<in> set (l # cs)"
  by (induction l cs rule: latest_release.induct) auto

lemma latest_release_max:
  assumes "list_all (\<lambda>c. version_key (ri_tag c) \<noteq> None) (l # cs)" "c \<in> set (l # cs)"
  shows "\<not> is_newer_version (ri_tag c) (ri_tag (latest_release l cs))"
  using assms
proof (induction l cs arbitrary: c rule: latest_release.induct)
  case (1 l)
  then show ?case by (simp add: newer_version_irrefl)
next
  case (2 l d cs)
  define m where "m = (if is_newer_version (ri_tag d) (ri_tag l) then d else l)"
  define b where "b = latest_release m cs"
  have keys: "list_all (\<lambda>c. version_key (ri_tag c) \<noteq> None) (m # cs)" using "2.prems"(1) by (simp add: m_def)
  have best: "\<not> is_newer_version (ri_tag x) (ri_tag b)" if "x \<in> set (m # cs)" for x
    unfolding b_def using "2.IH"[folded m_def, OF keys that] .
  have "b \<in> set (m # cs)" unfolding b_def by (rule latest_release_mem)
  then have bkey: "version_key (ri_tag b) \<noteq> None" using keys by (auto simp: list_all_iff)
  have "\<not> is_newer_version (ri_tag c) (ri_tag m)" if "c \<in> {l, d}"
    using that newer_version_asym[of "ri_tag d" "ri_tag l"] newer_version_irrefl[of "ri_tag l"]
      newer_version_irrefl[of "ri_tag d"] by (cases "is_newer_version (ri_tag d) (ri_tag l)") (auto simp: m_def)
  moreover have "version_key (ri_tag c) \<noteq> None" using "2.prems" by (auto simp: list_all_iff)
  moreover have "version_key (ri_tag m) \<noteq> None" using keys by simp
  moreover have "\<not> is_newer_version (ri_tag m) (ri_tag b)" by (rule best) simp
  ultimately have "\<not> is_newer_version (ri_tag c) (ri_tag b)" if "c \<in> {l, d}"
    using that bkey not_newer_version_trans by blast
  moreover have "\<not> is_newer_version (ri_tag c) (ri_tag b)" if "c \<in> set cs" by (rule best) (simp add: that)
  moreover have "latest_release l (d # cs) = b" by (simp add: b_def m_def)
  ultimately show ?case using "2.prems"(2) by auto
qed

section \<open>Manifests\<close>

lemma manifest_urls_subset:
  "manifest_urls p tag inst ms urls = Some us \<Longrightarrow>
     set us = set urls \<union> set ms \<and> list_all (\<lambda>m. validate_installer_mirror_url p m tag inst) ms"
  by (induction p tag inst ms urls rule: manifest_urls.induct) (auto split: if_splits)

lemma prefer_cnb_mirror_set [simp]: "set (prefer_cnb_mirror us) = set us"
  by (auto simp: prefer_cnb_mirror_def)

lemma validate_installer_mirror_url_official:
  assumes "validate_installer_mirror_url p v tag inst"
  shows "v = release_download_url @ normalize_tag_name tag @ ''/'' @ inst \<or> v = cnb_download_url @ normalize_tag_name tag @ ''/'' @ inst"
  using assms by (auto simp: validate_installer_mirror_url_def Let_def split: option.splits if_splits prod.splits)

lemma release_from_manifest_spec:
  assumes "release_from_manifest p m = Inr r"
  shows "ri_tag r = normalize_tag_name (um_version m)" "version_key (ri_tag r) \<noteq> None"
    "ri_installer r = um_installer m" "ri_size r = um_size m" "set (ri_urls r) = set (um_urls m)"
    "\<exists>d. normalize_sha256 (um_sha256 m) = Some d \<and> ri_digest r = ''sha256:'' @ d"
  using assms by (auto simp: release_from_manifest_def Let_def dest: manifest_urls_subset split: if_splits option.splits)

lemma release_from_manifest_urls:
  assumes "release_from_manifest p m = Inr r" "v \<in> set (ri_urls r)"
  shows "validate_installer_mirror_url p v (ri_tag r) (um_installer m)"
  using assms by (auto simp: release_from_manifest_def Let_def list_all_iff dest!: manifest_urls_subset split: if_splits option.splits)

lemma check_source_spec:
  assumes "check_source env a = Inr r"
  shows "check_update_manifest env a = Inr r"
    "a \<in> {cnb_latest_manifest_url, github_latest_manifest_url} \<Longrightarrow> \<not> is_prerelease (ri_tag r)"
  using assms by (auto simp: check_source_def split: sum.splits if_splits)

lemma read_metadata_spec:
  "read_metadata env a limit e = Inr body \<Longrightarrow> ue_get env a = Some \<lparr>hr_status = 200, hr_body = Some body\<rparr>"
  by (auto simp: read_metadata_def split: if_splits option.splits)

definition signed_manifest :: "update_env \<Rightarrow> string \<Rightarrow> update_manifest \<Rightarrow> bool" where
  "signed_manifest env a m \<longleftrightarrow>
     (\<exists>body signature. ue_get env a = Some \<lparr>hr_status = 200, hr_body = Some body\<rparr> \<and>
        ue_get env (a @ ''.sig'') = Some \<lparr>hr_status = 200, hr_body = Some signature\<rparr> \<and>
        length (ue_key env) = 32 \<and> ue_verify env (ue_key env) body signature \<and> ue_decode env body = Some m)"

lemma check_update_manifest_signed:
  assumes "check_update_manifest env a = Inr r"
  shows "\<exists>m. signed_manifest env a m \<and> release_from_manifest (ue_url_parse env) m = Inr r"
  using assms unfolding check_update_manifest_def signed_manifest_def
  by (auto split: sum.splits if_splits option.splits dest!: read_metadata_spec)

section \<open>Digests\<close>

lemma lower_char_lower [simp]: "lower_char (lower_char c) = lower_char c"
  by (auto simp: lower_char_def Let_def of_char_of[where 'a=nat] simp del: One_nat_def)

lemma is_hex_lower: "is_hex c \<Longrightarrow> is_hex (lower_char c)"
  by (auto simp: is_hex_def hex_val_def lower_char_def Let_def of_char_of[where 'a=nat] split: if_splits)

lemma hex_not_space: "is_hex c \<Longrightarrow> \<not> is_space c"
  by (auto simp: is_hex_def hex_val_def is_space_def Let_def)

lemma normalize_sha256_spec:
  assumes "normalize_sha256 v = Some d"
  shows "length d = 64" "list_all is_hex d" "to_lower d = d"
  using assms by (auto simp: normalize_sha256_def Let_def to_lower_def list_all_iff is_hex_lower split: if_splits)

lemma normalize_sha256_prefix:
  assumes "normalize_sha256 v = Some d"
  shows "normalize_sha256 (''sha256:'' @ d) = Some d"
proof -
  note d = normalize_sha256_spec[OF assms]
  have "d \<noteq> []" using d(1) by auto
  then have "is_hex (last d)" using d(2) by (simp add: list_all_iff)
  then have "trim_space (''sha256:'' @ d) = ''sha256:'' @ d"
    using \<open>d \<noteq> []\<close> by (intro trim_id) (auto simp: is_space_def dest: hex_not_space)
  moreover have "to_lower ''sha256:'' = ''sha256:''" by code_simp
  ultimately show ?thesis using d by (simp add: normalize_sha256_def Let_def)
qed

section \<open>Downloads\<close>

text \<open>A mirror delivers the file when the reply is complete and has the announced size.\<close>

definition complete_reply :: "download_env \<Rightarrow> int \<Rightarrow> string \<Rightarrow> bool" where
  "complete_reply env wanted m =
     (let r = de_reply env m in
      mr_status r = Some 200 \<and> (mr_length r \<le> 0 \<or> mr_length r = wanted) \<and> mr_opened r \<and> \<not> mr_copy_failed r \<and>
      \<not> mr_close_failed r \<and> int (length (take (nat (wanted + 1)) (mr_body r))) = wanted)"

definition intact_reply :: "download_env \<Rightarrow> string \<Rightarrow> string \<Rightarrow> bool" where
  "intact_reply env digest m = (de_sha256 env (mr_body (de_reply env m)) = digest \<and> de_authentic env (mr_body (de_reply env m)))"

lemma complete_reply_body:
  assumes "complete_reply env wanted m"
  shows "take (nat (wanted + 1)) (mr_body (de_reply env m)) = mr_body (de_reply env m)"
    "int (length (mr_body (de_reply env m))) = wanted"
proof -
  have "int (length (take (nat (wanted + 1)) (mr_body (de_reply env m)))) = wanted"
    using assms by (simp add: complete_reply_def Let_def)
  then show "take (nat (wanted + 1)) (mr_body (de_reply env m)) = mr_body (de_reply env m)"
    "int (length (mr_body (de_reply env m))) = wanted" by (auto simp: min_def split: if_splits)
qed

lemma download_mirror_incomplete:
  assumes "\<not> complete_reply env wanted m" "up_partial u = None"
  shows "\<exists>u' e. download_installer_mirror env m wanted digest u = (u', Some (e, False)) \<and> up_partial u' = None \<and>
    up_target u' = up_target u \<and> up_active u' = up_active u"
  using assms by (auto simp: download_installer_mirror_def complete_reply_def Let_def split: option.splits)

lemma download_mirror_complete:
  assumes "complete_reply env wanted m"
  shows "\<exists>u' f. download_installer_mirror env m wanted digest u = (u', f) \<and> up_target u' = up_target u \<and> up_active u' = up_active u \<and>
    (if intact_reply env digest m then f = None \<and> up_partial u' = Some (mr_body (de_reply env m))
     else \<exists>e. f = Some (e, True) \<and> up_partial u' = None)"
proof -
  have "int (length (mr_body (de_reply env m))) = wanted" by (rule complete_reply_body(2)[OF assms])
  then show ?thesis using assms
    by (auto simp: download_installer_mirror_def complete_reply_def intact_reply_def Let_def)
qed

lemma download_loop_outcome:
  assumes "up_target u = None"
  shows "\<exists>u' f. download_loop env wanted digest ms suspect u = (u', f) \<and> up_active u' = up_active u \<and>
    (case find (complete_reply env wanted) ms of
       Some m \<Rightarrow>
         if \<not> suspect \<and> intact_reply env digest m \<and> de_rename env
         then f = None \<and> up_partial u' = None \<and> up_target u' = Some (mr_body (de_reply env m))
         else f \<noteq> None
     | None \<Rightarrow> f \<noteq> None)"
  using assms
proof (induction ms arbitrary: suspect u)
  case (Cons m ms)
  let ?u = "u\<lparr>up_partial := None, up_state := ''downloading''\<rparr>"
  have tgt: "up_target ?u = None" using Cons.prems by simp
  show ?case
  proof (cases "complete_reply env wanted m")
    case False
    obtain u' e where "download_installer_mirror env m wanted digest ?u = (u', Some (e, False))"
      "up_target u' = up_target ?u" "up_active u' = up_active ?u"
      using download_mirror_incomplete[OF False, of ?u digest] by auto
    then show ?thesis using Cons.IH[of u' suspect] False Cons.prems by (auto split: option.splits)
  next
    case True
    obtain u' f where d: "download_installer_mirror env m wanted digest ?u = (u', f)"
      "up_target u' = up_target ?u" "up_active u' = up_active ?u"
      "if intact_reply env digest m then f = None \<and> up_partial u' = Some (mr_body (de_reply env m))
       else \<exists>e. f = Some (e, True) \<and> up_partial u' = None"
      using download_mirror_complete[OF True, of digest ?u] by blast
    show ?thesis
    proof (cases "intact_reply env digest m")
      case True
      then show ?thesis using d \<open>complete_reply env wanted m\<close> by auto
    next
      case False
      then obtain e where f: "f = Some (e, True)" using d(4) by auto
      have "up_target u' = None" using d(2) tgt by simp
      from Cons.IH[OF this, of True] show ?thesis
        using d f False \<open>complete_reply env wanted m\<close> by (auto split: option.splits if_splits)
    qed
  qed
qed simp

lemma updater_idle:
  "up_target (u\<lparr>up_active := True, up_state := s, up_partial := None, up_target := None\<rparr>) = None"
  by simp

lemma first_complete_reply_decides_raw:
  assumes "\<not> up_active u" "validate_release_info p r = None" "normalize_sha256 (ri_digest r) = Some digest" "de_directory env"
  shows "\<exists>u' f. download env p r u = (u', f) \<and> \<not> up_active u' \<and> up_partial u' = None \<and>
    (case find (complete_reply env (ri_size r)) (ri_urls r) of
       Some m \<Rightarrow>
         if intact_reply env digest m \<and> de_rename env then f = None \<and> up_target u' = Some (mr_body (de_reply env m))
         else f \<noteq> None \<and> up_target u' = None
     | None \<Rightarrow> f \<noteq> None \<and> up_target u' = None)"
proof -
  let ?u = "u\<lparr>up_active := True, up_state := ''starting'', up_partial := None, up_target := None\<rparr>"
  obtain u' f where l: "download_loop env (ri_size r) digest (ri_urls r) False ?u = (u', f)"
    "case find (complete_reply env (ri_size r)) (ri_urls r) of
       Some m \<Rightarrow>
         if \<not> False \<and> intact_reply env digest m \<and> de_rename env
         then f = None \<and> up_partial u' = None \<and> up_target u' = Some (mr_body (de_reply env m)) else f \<noteq> None
     | None \<Rightarrow> f \<noteq> None"
    using download_loop_outcome[of ?u env "ri_size r" digest "ri_urls r" False, OF updater_idle] by fastforce
  then show ?thesis using assms
    by (cases f) (auto simp: download_def Let_def split: option.splits if_splits)
qed

text \<open>
  C33. The first complete reply decides a download: whatever the mirrors answer, an idle updater that
  downloads a valid release keeps a file exactly when the first mirror that delivers a
  complete file delivers the announced bytes with a genuine signature, and then it keeps
  those bytes; a mirror that serves something else is never covered up by a later one. In
  every other case nothing is left behind, and the operation always ends.
\<close>
theorem first_complete_reply_decides:
  assumes "\<not> up_active u" "validate_release_info p r = None" "normalize_sha256 (ri_digest r) = Some digest" "de_directory env"
  shows "\<exists>u' f. download env p r u = (u', f) \<and> \<not> up_active u' \<and> up_partial u' = None \<and>
    (case find (complete_reply env (ri_size r)) (ri_urls r) of
       Some m \<Rightarrow>
         if intact_reply env digest m \<and> de_rename env then f = None \<and> up_target u' = Some (mr_body (de_reply env m))
         else f \<noteq> None \<and> up_target u' = None
     | None \<Rightarrow> f \<noteq> None \<and> up_target u' = None)"
  using assms by (rule first_complete_reply_decides_raw)

section \<open>Checks\<close>

lemma same_release_metadata_eq: "same_release_metadata l r \<Longrightarrow> l = r"
  by (cases l; cases r) (auto simp: same_release_metadata_def list_all2_eq)

lemma mem_map_filter: "y \<in> set (List.map_filter f xs) \<longleftrightarrow> (\<exists>x\<in>set xs. f x = Some y)"
  by (auto simp: List.map_filter_def) force+

text \<open>What a successful check went through.\<close>

lemma check_version_spec:
  assumes "check_version env cur ch = Inr c"
  shows "validate_release_info (ue_url_parse env) (uc_release c) = None"
    "uc_available c = is_newer_version (ri_tag (uc_release c)) cur"
    "\<exists>a\<in>set (update_sources ch). check_source env a = Inr (uc_release c)"
    "\<And>a r. a \<in> set (update_sources ch) \<Longrightarrow> check_source env a = Inr r \<Longrightarrow>
       \<not> is_newer_version (ri_tag r) (ri_tag (uc_release c)) \<and>
       (same_version (ri_tag r) (ri_tag (uc_release c)) \<longrightarrow> r = uc_release c)"
proof -
  define cs where "cs = List.map_filter (\<lambda>r. case r of Inr x \<Rightarrow> Some x | Inl e \<Rightarrow> None) (map (check_source env) (update_sources ch))"
  have mem: "r \<in> set cs \<longleftrightarrow> (\<exists>a\<in>set (update_sources ch). check_source env a = Inr r)" for r
  proof -
    have "(case s of Inr x \<Rightarrow> Some x | Inl e \<Rightarrow> None) = Some r \<longleftrightarrow> s = Inr r" for s :: "update_error + release_info"
      by (cases s) auto
    then show ?thesis by (simp add: cs_def mem_map_filter image_iff eq_commute[of "Inr r"])
  qed
  have "cs \<noteq> []" using assms by (auto simp: check_version_def Let_def cs_def split: if_splits)
  then obtain first rest where cs: "cs = first # rest" by (cases cs) auto
  define latest where "latest = latest_release first rest"
  have sel: "select_latest_release (ue_url_parse env) cs = Inr (uc_release c)"
    and avail: "uc_available c = is_newer_version (ri_tag (uc_release c)) cur"
    using assms \<open>cs \<noteq> []\<close> by (auto simp: check_version_def Let_def simp flip: cs_def split: sum.splits)
  show "uc_available c = is_newer_version (ri_tag (uc_release c)) cur" by (rule avail)
  have release: "uc_release c = latest" and valid: "validate_release_info (ue_url_parse env) latest = None"
    and same: "list_all (\<lambda>x. same_version (ri_tag x) (ri_tag latest) \<longrightarrow> same_release_metadata x latest) cs"
    using sel unfolding select_latest_release_def cs list.case Let_def latest_def[symmetric]
    by (auto split: if_splits option.splits)
  show "validate_release_info (ue_url_parse env) (uc_release c) = None" using valid release by simp
  have "latest \<in> set cs" unfolding cs latest_def by (rule latest_release_mem)
  then show "\<exists>a\<in>set (update_sources ch). check_source env a = Inr (uc_release c)" using mem release by blast
  have keys: "list_all (\<lambda>x. version_key (ri_tag x) \<noteq> None) (first # rest)"
    unfolding list_all_iff cs[symmetric]
    using mem check_source_spec(1) check_update_manifest_signed release_from_manifest_spec(2) by blast
  show "\<not> is_newer_version (ri_tag r) (ri_tag (uc_release c)) \<and> (same_version (ri_tag r) (ri_tag (uc_release c)) \<longrightarrow> r = uc_release c)"
    if "a \<in> set (update_sources ch)" "check_source env a = Inr r" for a r
  proof -
    have "r \<in> set cs" using that mem by blast
    then show ?thesis
      using latest_release_max[OF keys, of r] same same_release_metadata_eq[of r latest]
      unfolding release by (auto simp: list_all_iff cs latest_def)
  qed
qed

text \<open>
  C32. An update check offers only what the channel signed: the release of a successful check is the
  one of a source whose manifest verifies under the embedded key; no accepted source carries
  a newer one, and those of the same version agree on everything; it is announced as
  available exactly when it is newer than the running version, so there is no downgrade;
  and outside the preview channel it is never a prerelease.
\<close>
theorem check_offers_latest_signed:
  assumes "check_version env current ch = Inr c"
  shows "(\<exists>a m. a \<in> set (update_sources ch) \<and> signed_manifest env a m \<and>
      release_from_manifest (ue_url_parse env) m = Inr (uc_release c)) \<and>
    (\<forall>a r. a \<in> set (update_sources ch) \<longrightarrow> check_source env a = Inr r \<longrightarrow>
       \<not> is_newer_version (ri_tag r) (ri_tag (uc_release c)) \<and>
       (same_version (ri_tag r) (ri_tag (uc_release c)) \<longrightarrow> r = uc_release c)) \<and>
    (uc_available c \<longleftrightarrow> is_newer_version (ri_tag (uc_release c)) current) \<and>
    (ch \<noteq> ''preview'' \<longrightarrow> \<not> is_prerelease (ri_tag (uc_release c)))"
proof (intro conjI allI impI)
  note spec = check_version_spec[OF assms]
  obtain a where a: "a \<in> set (update_sources ch)" "check_source env a = Inr (uc_release c)" using spec(3) by blast
  then show "\<exists>a m. a \<in> set (update_sources ch) \<and> signed_manifest env a m \<and>
      release_from_manifest (ue_url_parse env) m = Inr (uc_release c)"
    using check_update_manifest_signed[OF check_source_spec(1)] by blast
  show "uc_available c \<longleftrightarrow> is_newer_version (ri_tag (uc_release c)) current" by (rule arg_cong[OF spec(2)])
  show "\<not> is_prerelease (ri_tag (uc_release c))" if "ch \<noteq> ''preview''"
    using check_source_spec(2)[OF a(2)] a(1) that by (auto simp: update_sources_def)
qed (use check_version_spec(4)[OF assms] in blast)+

text \<open>
  C31. The installer that reaches the disk is the one the publisher signed for: when a check and the
  download of its release both succeed, the file kept is the body that an official mirror
  named in a signed manifest delivered, its size and SHA-256 are those of the manifest, and
  its Authenticode signature is genuine.
\<close>
theorem installed_file_is_signed:
  assumes "check_version env current ch = Inr c" "download denv (ue_url_parse env) (uc_release c) u = (u', None)"
  shows "\<exists>a m mirror. a \<in> set (update_sources ch) \<and> signed_manifest env a m \<and> mirror \<in> set (um_urls m) \<and>
    mirror \<in> {release_download_url @ ri_tag (uc_release c) @ ''/'' @ um_installer m,
              cnb_download_url @ ri_tag (uc_release c) @ ''/'' @ um_installer m} \<and>
    up_target u' = Some (mr_body (de_reply denv mirror)) \<and>
    int (length (mr_body (de_reply denv mirror))) = um_size m \<and>
    normalize_sha256 (um_sha256 m) = Some (de_sha256 denv (mr_body (de_reply denv mirror))) \<and>
    de_authentic denv (mr_body (de_reply denv mirror))"
proof -
  let ?p = "ue_url_parse env" and ?r = "uc_release c"
  note spec = check_version_spec[OF assms(1)]
  obtain a m where a: "a \<in> set (update_sources ch)" "signed_manifest env a m" "release_from_manifest ?p m = Inr ?r"
    using spec(3) check_update_manifest_signed[OF check_source_spec(1)] by blast
  note rel = release_from_manifest_spec[OF a(3)]
  obtain d where d: "normalize_sha256 (um_sha256 m) = Some d" "ri_digest ?r = ''sha256:'' @ d" using rel(6) by blast
  have digest: "normalize_sha256 (ri_digest ?r) = Some d" using normalize_sha256_prefix[OF d(1)] d(2) by simp
  have idle: "\<not> up_active u" and dir: "de_directory denv"
    using assms(2) spec(1) by (auto simp: download_def Let_def split: if_splits)
  obtain mirror where mirror: "find (complete_reply denv (ri_size ?r)) (ri_urls ?r) = Some mirror"
    "intact_reply denv d mirror" "up_target u' = Some (mr_body (de_reply denv mirror))"
    using first_complete_reply_decides_raw[OF idle spec(1) digest dir] assms(2)
    by (auto split: option.splits if_splits)
  have mem: "mirror \<in> set (ri_urls ?r)" and complete: "complete_reply denv (ri_size ?r) mirror"
    using mirror(1) by (auto simp: find_Some_iff)
  have "normalize_tag_name (ri_tag ?r) = ri_tag ?r" using spec(1) by (auto simp: validate_release_info_def Let_def split: if_splits)
  then have "validate_installer_mirror_url ?p mirror (ri_tag ?r) (um_installer m)"
    using mem rel a(3) release_from_manifest_urls by metis
  then have "mirror \<in> {release_download_url @ ri_tag ?r @ ''/'' @ um_installer m, cnb_download_url @ ri_tag ?r @ ''/'' @ um_installer m}"
    using validate_installer_mirror_url_official \<open>normalize_tag_name (ri_tag ?r) = ri_tag ?r\<close> by fastforce
  moreover have "mirror \<in> set (um_urls m)" using mem rel(5) by simp
  moreover have "int (length (mr_body (de_reply denv mirror))) = um_size m"
    using complete_reply_body(2)[OF complete] rel(4) by simp
  moreover have "normalize_sha256 (um_sha256 m) = Some (de_sha256 denv (mr_body (de_reply denv mirror)))"
    "de_authentic denv (mr_body (de_reply denv mirror))"
    using d(1) mirror(2) by (simp_all add: intact_reply_def)
  ultimately show ?thesis using a(1,2) mirror(3) by blast
qed

section \<open>A release\<close>

definition sample_digest :: string where
  "sample_digest = replicate 64 CHR ''a''"

definition sample_manifest :: update_manifest where
  "sample_manifest = \<lparr>um_schema = 1, um_version = ''2.9.0'', um_name = ''HypoMux'', um_notes = '''',
     um_installer = ''HypoMux_Setup_2.9.0.exe'', um_size = 3, um_sha256 = sample_digest,
     um_urls = [release_download_url @ ''v2.9.0/HypoMux_Setup_2.9.0.exe'', cnb_download_url @ ''v2.9.0/HypoMux_Setup_2.9.0.exe'']\<rparr>"

definition sample_url_parse :: "string \<Rightarrow> (url \<times> string) option" where
  "sample_url_parse v = Some (\<lparr>u_scheme = ''https'', u_opaque = '''', u_user = False, u_host = ''host'', u_path = ''/p'',
     u_query = '''', u_force_query = False, u_fragment = ''''\<rparr>, '''')"

definition sample_update_env :: update_env where
  "sample_update_env = \<lparr>ue_key = replicate 32 1, ue_verify = (\<lambda>k b s. b = [7] \<and> s = replicate 64 9),
     ue_decode = (\<lambda>b. if b = [7] then Some sample_manifest else None), ue_url_parse = sample_url_parse,
     ue_get = (\<lambda>a. if a = cnb_latest_manifest_url then Some \<lparr>hr_status = 200, hr_body = Some [7]\<rparr>
                   else if a = cnb_latest_manifest_url @ ''.sig'' then Some \<lparr>hr_status = 200, hr_body = Some (replicate 64 9)\<rparr>
                   else if a = github_latest_manifest_url then Some \<lparr>hr_status = 200, hr_body = Some [8]\<rparr> else None)\<rparr>"

definition sample_release :: release_info where
  "sample_release = \<lparr>ri_tag = ''v2.9.0'', ri_name = ''HypoMux'', ri_notes = '''',
     ri_page = github_repository_url @ ''/releases/tag/v2.9.0'',
     ri_urls = [cnb_download_url @ ''v2.9.0/HypoMux_Setup_2.9.0.exe'', release_download_url @ ''v2.9.0/HypoMux_Setup_2.9.0.exe''],
     ri_installer = ''HypoMux_Setup_2.9.0.exe'', ri_size = 3, ri_digest = ''sha256:'' @ sample_digest\<rparr>"

definition sample_updater :: updater where
  "sample_updater = \<lparr>up_active = False, up_state = ''idle'', up_partial = None, up_target = None, up_quit = False\<rparr>"

definition sample_mirrors :: "bytes \<Rightarrow> download_env" where
  "sample_mirrors first = \<lparr>de_reply = (\<lambda>m. \<lparr>mr_status = Some 200, mr_length = 3, mr_opened = True,
       mr_body = (if has_prefix m cnb_download_url then first else [1, 2, 3]), mr_copy_failed = False, mr_close_failed = False\<rparr>),
     de_sha256 = (\<lambda>b. if b = [1, 2, 3] then sample_digest else ''x''), de_authentic = (\<lambda>b. True), de_directory = True,
     de_rename = True\<rparr>"

lemma sample_key: "version_key ''v2.9.0'' = Some [2, 9, 0, 0, 2, 0]"
proof -
  have "version_ok (Version 2 9 0 Stable 0)" by (simp add: version_ok_def)
  moreover have "''v'' @ version_string (Version 2 9 0 Stable 0) = ''v2.9.0''" by code_simp
  ultimately show ?thesis using version_key_string[of "Version 2 9 0 Stable 0" "''v''"] by simp
qed

lemma sample_texts:
  "normalize_tag_name ''2.9.0'' = ''v2.9.0''" "normalize_tag_name ''v2.9.0'' = ''v2.9.0''"
  "expected_installer ''v2.9.0'' = ''HypoMux_Setup_2.9.0.exe''" "installer_name_ok ''HypoMux_Setup_2.9.0.exe''"
  "trim_space ''HypoMux'' = ''HypoMux''" "trim_space [] = []"
  by code_simp+

lemma sample_sha256: "normalize_sha256 sample_digest = Some sample_digest"
  by code_simp

lemma sample_mirror_valid:
  "validate_installer_mirror_url sample_url_parse v ''v2.9.0'' ''HypoMux_Setup_2.9.0.exe'' \<longleftrightarrow>
     v \<in> {release_download_url @ ''v2.9.0/HypoMux_Setup_2.9.0.exe'', cnb_download_url @ ''v2.9.0/HypoMux_Setup_2.9.0.exe''}"
  by (simp add: validate_installer_mirror_url_def sample_url_parse_def sample_texts sample_key)

lemma sample_mirrors_differ:
  "release_download_url @ s \<noteq> cnb_download_url @ s'" "has_prefix (cnb_download_url @ s) cnb_download_url"
  "\<not> has_prefix (release_download_url @ s) cnb_download_url" "release_download_url \<noteq> cnb_download_url"
  by (simp_all add: release_download_url_def github_repository_url_def cnb_download_url_def cnb_repository_url_def has_prefix_def)

lemma sample_from_manifest: "release_from_manifest sample_url_parse sample_manifest = Inr sample_release"
  by (simp add: release_from_manifest_def sample_manifest_def sample_release_def sample_texts sample_key sample_sha256
      sample_mirror_valid sample_mirrors_differ sample_mirrors_differ(1)[symmetric] sample_mirrors_differ(4)[symmetric] Let_def prefer_cnb_mirror_def max_installer_mirror_count_def)

lemma sample_valid:
  "validate_release_info sample_url_parse sample_release = None \<and> normalize_sha256 (ri_digest sample_release) = Some sample_digest"
  using normalize_sha256_prefix[OF sample_sha256]
  by (simp add: validate_release_info_def sample_release_def sample_texts sample_key
      sample_mirror_valid sample_mirrors_differ sample_mirrors_differ(1)[symmetric] sample_mirrors_differ(4)[symmetric] Let_def max_installer_mirror_count_def)

lemma sample_urls_differ:
  "distinct [cnb_latest_manifest_url, github_latest_manifest_url, cnb_latest_manifest_url @ ''.sig'', github_latest_manifest_url @ ''.sig'']"
  by code_simp

lemma sample_sources:
  "check_source sample_update_env cnb_latest_manifest_url = Inr sample_release"
  "\<exists>e. check_source sample_update_env github_latest_manifest_url = Inl e"
proof -
  note env = sample_update_env_def read_metadata_def validate_update_metadata_url_def max_update_manifest_size_def
    max_manifest_signature_size_def
  have "is_prerelease ''v2.9.0'' = False" by (simp add: is_prerelease_def sample_key)
  then show "check_source sample_update_env cnb_latest_manifest_url = Inr sample_release"
    using sample_urls_differ sample_from_manifest
    by (simp add: check_source_def check_update_manifest_def env sample_release_def)
  show "\<exists>e. check_source sample_update_env github_latest_manifest_url = Inl e"
    using sample_urls_differ by (auto simp: check_source_def check_update_manifest_def env)
qed

lemma sample_check:
  "\<exists>available. check_version sample_update_env ''2.8.2'' ''stable'' = Inr \<lparr>uc_current = ''2.8.2'', uc_available = available, uc_release = sample_release\<rparr>"
proof -
  obtain e where e: "check_source sample_update_env github_latest_manifest_url = Inl e" using sample_sources(2) by blast
  have parse: "ue_url_parse sample_update_env = sample_url_parse" by (simp add: sample_update_env_def)
  have "same_release_metadata sample_release sample_release" by (simp add: same_release_metadata_def list_all2_eq[symmetric])
  then have "select_latest_release sample_url_parse [sample_release] = Inr sample_release"
    by (simp add: select_latest_release_def sample_valid)
  then show ?thesis
    by (simp add: check_version_def update_sources_def sample_sources(1) e parse List.map_filter_simps)
qed

lemma sample_delivery:
  "find (complete_reply (sample_mirrors data) 3) (ri_urls sample_release) =
     (if length data = 3 then Some (cnb_download_url @ ''v2.9.0/HypoMux_Setup_2.9.0.exe'')
      else Some (release_download_url @ ''v2.9.0/HypoMux_Setup_2.9.0.exe''))"
  by (auto simp: complete_reply_def sample_mirrors_def sample_release_def sample_mirrors_differ Let_def)

lemma sample_idle: "\<not> up_active sample_updater \<and> de_directory (sample_mirrors data) \<and> ri_size sample_release = 3"
  by (simp add: sample_updater_def sample_mirrors_def sample_release_def)

theorem check_offers_latest_signed_witness:
  "\<exists>m. signed_manifest sample_update_env cnb_latest_manifest_url m \<or> signed_manifest sample_update_env github_latest_manifest_url m"
proof -
  obtain available where "check_version sample_update_env ''2.8.2'' ''stable'' =
      Inr \<lparr>uc_current = ''2.8.2'', uc_available = available, uc_release = sample_release\<rparr>" using sample_check by blast
  from check_offers_latest_signed[OF this] show ?thesis by (auto simp: update_sources_def)
qed

theorem first_complete_reply_decides_witness:
  "up_target (fst (download (sample_mirrors [1, 2, 4]) sample_url_parse sample_release sample_updater)) = None"
proof -
  have "\<not> intact_reply (sample_mirrors [1, 2, 4]) sample_digest (cnb_download_url @ ''v2.9.0/HypoMux_Setup_2.9.0.exe'')"
    by (simp add: intact_reply_def sample_mirrors_def sample_mirrors_differ sample_digest_def numeral_eq_Suc)
  then show ?thesis
    using first_complete_reply_decides[of sample_updater sample_url_parse sample_release sample_digest "sample_mirrors [1, 2, 4]"]
      sample_valid sample_idle[of "[1, 2, 4]"] sample_delivery[of "[1, 2, 4]"] by auto
qed

theorem installed_file_is_signed_witness:
  "\<exists>a m. signed_manifest sample_update_env a m \<and> um_size m = 3"
proof -
  obtain available where check: "check_version sample_update_env ''2.8.2'' ''stable'' =
      Inr \<lparr>uc_current = ''2.8.2'', uc_available = available, uc_release = sample_release\<rparr>" (is "_ = Inr ?c") using sample_check by blast
  have parse: "ue_url_parse sample_update_env = sample_url_parse" by (simp add: sample_update_env_def)
  have intact: "intact_reply (sample_mirrors [1]) sample_digest (release_download_url @ ''v2.9.0/HypoMux_Setup_2.9.0.exe'')"
    "de_rename (sample_mirrors [1])" by (simp_all add: intact_reply_def sample_mirrors_def sample_mirrors_differ)
  have "\<exists>u'. download (sample_mirrors [1]) sample_url_parse sample_release sample_updater = (u', None) \<and> up_target u' = Some [1, 2, 3]"
    using first_complete_reply_decides_raw[of sample_updater sample_url_parse sample_release sample_digest "sample_mirrors [1]"]
      sample_valid sample_idle[of "[1]"] sample_delivery[of "[1]"] intact
    by (auto simp: sample_mirrors_def sample_mirrors_differ)
  then obtain u' where u': "download (sample_mirrors [1]) (ue_url_parse sample_update_env) (uc_release ?c) sample_updater = (u', None)"
    "up_target u' = Some [1, 2, 3]" by (auto simp: parse)
  then show ?thesis using installed_file_is_signed[OF check u'(1)] by fastforce
qed

end
