(* ===== verification/SetupTransaction.thy ===== *)
theory SetupTransaction
  imports GoNet
begin

text \<open>
  The file transaction of the installer, \<open>desktop/internal/setup/transaction.go\<close>.

  The world holds the installed files and their access rights, the files of the protected
  directory of the transaction (backups and staged payloads), the journal, and the state of
  the system services. Every call of the operating system or of the \<open>Platform\<close> asks the next
  answer: \<open>Fine\<close>, or a fault, with what a half-done write left behind. When the answers are
  used up, calls succeed. A loss of power is a fault of the call it interrupts and of all later
  ones, since every operation returns at the first error. The journal is replaced by a rename,
  so a fault leaves the old one. Parameters: SHA-256, \<open>filepath.Clean\<close>, which targets the
  platform accepts, and what preparing a target and stopping the services change. The log, the
  creation time and the test hook \<open>AfterReplace\<close> are left out, and an \<open>Item\<close> is the pair of
  its target and its source (empty for none).
\<close>

section \<open>The world\<close>

record 'm setup_entry =
  en_target :: string
  en_existed :: bool
  en_backup :: string
  en_old_hash :: string
  en_staged :: string
  en_hash :: string
  en_metadata :: "'m option"

record ('m, 's) journal =
  jr_version :: int
  jr_phase :: string
  jr_items :: "'m setup_entry list"
  jr_system :: "'s option"

text \<open>A fault: whether it is a transient lock, and the contents, rights or system state it leaves.\<close>

datatype ('m, 's) answer = Fine | Fault bool "bytes option" "'m option" "'s option"

record ('m, 's) world =
  w_files :: "string \<Rightarrow> bytes option"
  w_special :: "string \<Rightarrow> bool"
  w_meta :: "string \<Rightarrow> 'm"
  w_root :: "string \<Rightarrow> bytes option"
  w_journal :: "('m, 's) journal option"
  w_system :: 's
  w_answers :: "('m, 's) answer list"

record ('m, 's) setup_env =
  se_sha :: "bytes \<Rightarrow> string"
  se_clean :: "string \<Rightarrow> string"
  se_valid :: "string \<Rightarrow> bool"
  se_prepare :: "'m \<Rightarrow> 'm"
  se_quiesce :: "'s \<Rightarrow> 's"

type_synonym ('m, 's, 'a) op = "('m, 's) world \<Rightarrow> ('m, 's) world \<times> 'a option"

definition andthen :: "('m, 's, 'a) op \<Rightarrow> ('a \<Rightarrow> ('m, 's, 'b) op) \<Rightarrow> ('m, 's, 'b) op" where
  "andthen m f w = (case m w of (w1, None) \<Rightarrow> (w1, None) | (w1, Some x) \<Rightarrow> f x w1)"

definition ensure :: "bool \<Rightarrow> ('m, 's, unit) op" where
  "ensure b w = (w, if b then Some () else None)"

definition give :: "'a \<Rightarrow> ('m, 's, 'a) op" where
  "give x w = (w, Some x)"

definition ask :: "('m, 's) world \<Rightarrow> ('m, 's) answer \<times> ('m, 's) world" where
  "ask w = (case w_answers w of [] \<Rightarrow> (Fine, w) | a # rest \<Rightarrow> (a, w\<lparr>w_answers := rest\<rparr>))"

text \<open>A call that only looks, and one that changes the world: what it does when it succeeds (or
  that it cannot), and what a fault leaves behind.\<close>

definition look :: "(('m, 's) world \<Rightarrow> 'a option) \<Rightarrow> ('m, 's, 'a) op" where
  "look f w = (case ask w of (Fine, w1) \<Rightarrow> (w1, f w1) | (Fault t b m s, w1) \<Rightarrow> (w1, None))"

definition change ::
  "(('m, 's) world \<Rightarrow> ('m, 's) world option) \<Rightarrow>
   (bytes option \<Rightarrow> 'm option \<Rightarrow> 's option \<Rightarrow> ('m, 's) world \<Rightarrow> ('m, 's) world) \<Rightarrow> ('m, 's, unit) op" where
  "change f g w =
     (case ask w of
        (Fine, w1) \<Rightarrow> (case f w1 of None \<Rightarrow> (w1, None) | Some w2 \<Rightarrow> (w2, Some ()))
      | (Fault t b m s, w1) \<Rightarrow> (g b m s w1, None))"

section \<open>Calls\<close>

definition hash_target :: "('m, 's) setup_env \<Rightarrow> string \<Rightarrow> ('m, 's, string) op" where
  "hash_target env p = look (\<lambda>w. map_option (se_sha env) (w_files w p))"

definition hash_root :: "('m, 's) setup_env \<Rightarrow> string \<Rightarrow> ('m, 's, string) op" where
  "hash_root env n = look (\<lambda>w. map_option (se_sha env) (w_root w n))"

definition left_file :: "bytes option \<Rightarrow> string \<Rightarrow> (string \<Rightarrow> bytes option) \<Rightarrow> string \<Rightarrow> bytes option" where
  "left_file b p files = (case b of None \<Rightarrow> files | Some x \<Rightarrow> files(p \<mapsto> x))"

text \<open>\<open>copyFile\<close>, out of the root into a target and into the root.\<close>

definition copy_to_target :: "string \<Rightarrow> string \<Rightarrow> ('m, 's, unit) op" where
  "copy_to_target n p =
     change (\<lambda>w. if w_special w p then None
                 else case w_root w n of None \<Rightarrow> None | Some b \<Rightarrow> Some (w\<lparr>w_files := (w_files w)(p \<mapsto> b)\<rparr>))
            (\<lambda>b m s w. w\<lparr>w_files := left_file b p (w_files w)\<rparr>)"

definition copy_to_root :: "string \<Rightarrow> string \<Rightarrow> ('m, 's, unit) op" where
  "copy_to_root p n =
     change (\<lambda>w. case w_files w p of None \<Rightarrow> None | Some b \<Rightarrow> Some (w\<lparr>w_root := (w_root w)(n \<mapsto> b)\<rparr>))
            (\<lambda>b m s w. w\<lparr>w_root := left_file b n (w_root w)\<rparr>)"

text \<open>\<open>retryTransientLock\<close> around the copy: as long as the next answer is a transient lock, the
  copy is tried again (an expired window shows as a fault that is not transient).\<close>

fun copy_retry :: "nat \<Rightarrow> string \<Rightarrow> string \<Rightarrow> ('m, 's, unit) op" where
  "copy_retry 0 n p w = copy_to_target n p w"
| "copy_retry (Suc k) n p w =
     (case w_answers w of
        Fault True b m s # rest \<Rightarrow> copy_retry k n p (fst (copy_to_target n p w))
      | _ \<Rightarrow> copy_to_target n p w)"

definition replace_target :: "string \<Rightarrow> string \<Rightarrow> ('m, 's, unit) op" where
  "replace_target n p w = copy_retry (length (w_answers w)) n p w"

definition remove_target :: "string \<Rightarrow> ('m, 's, unit) op" where
  "remove_target p = change (\<lambda>w. Some (w\<lparr>w_files := (w_files w)(p := None)\<rparr>)) (\<lambda>b m s w. w)"

definition validate_target :: "('m, 's) setup_env \<Rightarrow> string \<Rightarrow> ('m, 's, unit) op" where
  "validate_target env p = look (\<lambda>w. if se_valid env p then Some () else None)"

definition prepare_target :: "('m, 's) setup_env \<Rightarrow> string \<Rightarrow> ('m, 's, unit) op" where
  "prepare_target env p =
     change (\<lambda>w. Some (w\<lparr>w_meta := (w_meta w)(p := se_prepare env (w_meta w p))\<rparr>))
            (\<lambda>b m s w. case m of None \<Rightarrow> w | Some x \<Rightarrow> w\<lparr>w_meta := (w_meta w)(p := x)\<rparr>)"

definition restore_metadata :: "string \<Rightarrow> 'm option \<Rightarrow> ('m, 's, unit) op" where
  "restore_metadata p v =
     change (\<lambda>w. case v of None \<Rightarrow> None | Some x \<Rightarrow> Some (w\<lparr>w_meta := (w_meta w)(p := x)\<rparr>))
            (\<lambda>b m s w. case m of None \<Rightarrow> w | Some x \<Rightarrow> w\<lparr>w_meta := (w_meta w)(p := x)\<rparr>)"

definition left_system :: "'s option \<Rightarrow> ('m, 's) world \<Rightarrow> ('m, 's) world" where
  "left_system s w = (case s of None \<Rightarrow> w | Some x \<Rightarrow> w\<lparr>w_system := x\<rparr>)"

definition quiesce :: "('m, 's) setup_env \<Rightarrow> ('m, 's, unit) op" where
  "quiesce env = change (\<lambda>w. Some (w\<lparr>w_system := se_quiesce env (w_system w)\<rparr>)) (\<lambda>b m s w. left_system s w)"

definition restore_system :: "'s option \<Rightarrow> ('m, 's, unit) op" where
  "restore_system v =
     change (\<lambda>w. case v of None \<Rightarrow> None | Some x \<Rightarrow> Some (w\<lparr>w_system := x\<rparr>)) (\<lambda>b m s w. left_system s w)"

definition save :: "('m, 's) journal \<Rightarrow> ('m, 's, unit) op" where
  "save j = change (\<lambda>w. Some (w\<lparr>w_journal := Some j\<rparr>)) (\<lambda>b m s w. w)"

section \<open>The journal\<close>

definition backup_name :: "nat \<Rightarrow> string" where
  "backup_name i = ''old-'' @ itoa_nat i"

definition staged_name :: "nat \<Rightarrow> string" where
  "staged_name i = ''new-'' @ itoa_nat i"

definition setup_phases :: "string list" where
  "setup_phases = [''prepared'', ''applying'', ''rolling-back'', ''committed'', ''rolled-back'']"

definition final_phase :: "string \<Rightarrow> bool" where
  "final_phase p = (p = ''committed'' \<or> p = ''rolled-back'')"

definition target_key :: "('m, 's) setup_env \<Rightarrow> string \<Rightarrow> string" where
  "target_key env p = to_lower (se_clean env p)"

datatype ('m, 's) load_result = Missing | LoadError | Loaded "('m, 's) journal"

fun load_items :: "('m, 's) setup_env \<Rightarrow> bool \<Rightarrow> nat \<Rightarrow> 'm setup_entry list \<Rightarrow> string set \<Rightarrow> ('m, 's, unit) op" where
  "load_items env final i [] seen w = (w, Some ())"
| "load_items env final i (e # es) seen w =
     (let key = target_key env (en_target e) in
      if key \<in> seen then (w, None)
      else andthen (if final then give () else validate_target env (en_target e)) (\<lambda>_.
           andthen (ensure (en_backup e = backup_name i \<and> (en_staged e = '''' \<or> en_staged e = staged_name i))) (\<lambda>_.
           load_items env final (Suc i) es (insert key seen))) w)"

definition load :: "('m, 's) setup_env \<Rightarrow> ('m, 's) world \<Rightarrow> ('m, 's) world \<times> ('m, 's) load_result" where
  "load env w =
     (case ask w of
        (Fault t b m s, w1) \<Rightarrow> (w1, LoadError)
      | (Fine, w1) \<Rightarrow>
          (case w_journal w1 of
             None \<Rightarrow> (w1, Missing)
           | Some j \<Rightarrow>
               if jr_version j \<noteq> 1 \<or> jr_items j = [] \<or> 64 < length (jr_items j) \<or> jr_phase j \<notin> set setup_phases
               then (w1, LoadError)
               else (case load_items env (final_phase (jr_phase j)) 0 (jr_items j) {} w1 of
                       (w2, None) \<Rightarrow> (w2, LoadError)
                     | (w2, Some u) \<Rightarrow> (w2, Loaded j))))"

definition load_existing :: "('m, 's) setup_env \<Rightarrow> ('m, 's, ('m, 's) journal) op" where
  "load_existing env w = (case load env w of (w1, Loaded j) \<Rightarrow> (w1, Some j) | (w1, _) \<Rightarrow> (w1, None))"

section \<open>Rollback and recovery\<close>

text \<open>The check of the backups before anything is overwritten.\<close>

fun verify_backups :: "('m, 's) setup_env \<Rightarrow> 'm setup_entry list \<Rightarrow> ('m, 's, unit) op" where
  "verify_backups env [] w = (w, Some ())"
| "verify_backups env (e # es) w =
     (if en_existed e
      then andthen (hash_root env (en_backup e)) (\<lambda>h. andthen (ensure (h = en_old_hash e)) (\<lambda>_. verify_backups env es)) w
      else verify_backups env es w)"

text \<open>Whether every file is still the old one; failures of a call count as changed.\<close>

fun still_old :: "('m, 's) setup_env \<Rightarrow> 'm setup_entry list \<Rightarrow> ('m, 's) world \<Rightarrow> ('m, 's) world \<times> bool" where
  "still_old env [] w = (w, True)"
| "still_old env (e # es) w =
     (let (w1, here) =
        (if en_existed e
         then (case hash_target env (en_target e) w of (w1, h) \<Rightarrow> (w1, h = Some (en_old_hash e)))
         else (case look (\<lambda>v. Some (w_files v (en_target e) = None \<and> \<not> w_special v (en_target e))) w of
                 (w1, r) \<Rightarrow> (w1, r = Some True)));
        (w2, rest) = still_old env es w1
      in (w2, here \<and> rest))"

definition rollback_item :: "('m, 's) setup_env \<Rightarrow> 'm setup_entry \<Rightarrow> ('m, 's, unit) op" where
  "rollback_item env e =
     andthen (validate_target env (en_target e)) (\<lambda>_.
       if en_existed e then (\<lambda>w.
         case hash_target env (en_target e) w of (w1, h) \<Rightarrow>
           andthen (if h = Some (en_old_hash e) then give ()
                else andthen (prepare_target env (en_target e)) (\<lambda>_. copy_to_target (en_backup e) (en_target e)))
               (\<lambda>_. restore_metadata (en_target e) (en_metadata e)) w1)
       else (\<lambda>w.
         case look (\<lambda>v. if w_files v (en_target e) = None \<and> \<not> w_special v (en_target e) then None else Some ()) w of (w1, r) \<Rightarrow>
           andthen (if r = None then give () else prepare_target env (en_target e)) (\<lambda>_. remove_target (en_target e)) w1))"

fun rollback_items :: "('m, 's) setup_env \<Rightarrow> 'm setup_entry list \<Rightarrow> ('m, 's, unit) op" where
  "rollback_items env [] w = (w, Some ())"
| "rollback_items env (e # es) w = andthen (rollback_item env e) (\<lambda>_. rollback_items env es) w"

text \<open>Stopping the services; when that fails and nothing was changed yet, their configuration is
  restored before the error is returned.\<close>

definition quiesce_rollback :: "('m, 's) setup_env \<Rightarrow> ('m, 's) journal \<Rightarrow> ('m, 's, unit) op" where
  "quiesce_rollback env j w =
     (case quiesce env w of
        (w1, Some u) \<Rightarrow> (w1, Some ())
      | (w1, None) \<Rightarrow>
          (case still_old env (jr_items j) w1 of
             (w2, True) \<Rightarrow> (fst (restore_system (jr_system j) w2), None)
           | (w2, False) \<Rightarrow> (w2, None)))"

definition rollback :: "('m, 's) setup_env \<Rightarrow> ('m, 's, unit) op" where
  "rollback env w =
     (case load env w of
        (w1, Missing) \<Rightarrow> (w1, Some ())
      | (w1, LoadError) \<Rightarrow> (w1, None)
      | (w1, Loaded j) \<Rightarrow>
          if final_phase (jr_phase j) then (w1, Some ())
          else
            andthen (verify_backups env (jr_items j)) (\<lambda>_.
            andthen (save (j\<lparr>jr_phase := ''rolling-back''\<rparr>)) (\<lambda>_.
            andthen (quiesce_rollback env j) (\<lambda>_.
            andthen (rollback_items env (jr_items j)) (\<lambda>_.
            andthen (restore_system (jr_system j)) (\<lambda>_.
            save (j\<lparr>jr_phase := ''rolled-back''\<rparr>)))))) w1)"

definition remove_root :: "string \<Rightarrow> ('m, 's) world \<Rightarrow> ('m, 's) world" where
  "remove_root n w = (case ask w of (Fine, w1) \<Rightarrow> w1\<lparr>w_root := (w_root w1)(n := None)\<rparr> | (Fault t b m s, w1) \<Rightarrow> w1)"

fun cleanup :: "'m setup_entry list \<Rightarrow> ('m, 's) world \<Rightarrow> ('m, 's) world" where
  "cleanup [] w = w"
| "cleanup (e # es) w =
     (let w1 = remove_root (en_backup e) w
      in cleanup es (if en_staged e \<noteq> '''' then remove_root (en_staged e) w1 else w1))"

definition recover :: "('m, 's) setup_env \<Rightarrow> ('m, 's, unit) op" where
  "recover env w =
     (case load env w of
        (w1, Missing) \<Rightarrow> (w1, Some ())
      | (w1, LoadError) \<Rightarrow> (w1, None)
      | (w1, Loaded j) \<Rightarrow> if final_phase (jr_phase j) then (cleanup (jr_items j) w1, Some ()) else rollback env w1)"

section \<open>Begin, apply and commit\<close>

text \<open>What \<open>os.Lstat\<close> says of a path: absent, a regular file, or something else.\<close>

datatype path_kind = Absent | RegularFile | SpecialFile

definition lstat :: "string \<Rightarrow> ('m, 's, path_kind) op" where
  "lstat p = look (\<lambda>w. Some (if w_special w p then SpecialFile else if w_files w p = None then Absent else RegularFile))"

definition fresh_entry :: "string \<Rightarrow> nat \<Rightarrow> 'm setup_entry" where
  "fresh_entry p i = \<lparr>en_target = p, en_existed = False, en_backup = backup_name i, en_old_hash = '''', en_staged = '''',
     en_hash = '''', en_metadata = None\<rparr>"

definition backup_item :: "('m, 's) setup_env \<Rightarrow> nat \<Rightarrow> string \<Rightarrow> ('m, 's, 'm setup_entry) op" where
  "backup_item env i p =
     andthen (lstat p) (\<lambda>kind.
       case kind of
         SpecialFile \<Rightarrow> (\<lambda>w. (w, None))
       | Absent \<Rightarrow> give (fresh_entry p i)
       | RegularFile \<Rightarrow>
           andthen (look (\<lambda>w. Some (w_meta w p))) (\<lambda>m.
           andthen (hash_target env p) (\<lambda>old.
           andthen (copy_to_root p (backup_name i)) (\<lambda>_.
           andthen (hash_root env (backup_name i)) (\<lambda>h.
           andthen (ensure (h = old)) (\<lambda>_.
           give ((fresh_entry p i)\<lparr>en_existed := True, en_metadata := Some m, en_old_hash := old\<rparr>)))))))"

definition stage_item :: "('m, 's) setup_env \<Rightarrow> nat \<Rightarrow> string \<Rightarrow> 'm setup_entry \<Rightarrow> ('m, 's, 'm setup_entry) op" where
  "stage_item env i source e =
     (if source = '''' then give e
      else
        andthen (lstat source) (\<lambda>kind.
        andthen (ensure (kind = RegularFile)) (\<lambda>_.
        andthen (hash_target env source) (\<lambda>new.
        andthen (copy_to_root source (staged_name i)) (\<lambda>_.
        andthen (hash_root env (staged_name i)) (\<lambda>h.
        andthen (ensure (h = new)) (\<lambda>_.
        give (e\<lparr>en_staged := staged_name i, en_hash := new\<rparr>))))))))"

fun begin_items ::
  "('m, 's) setup_env \<Rightarrow> nat \<Rightarrow> (string \<times> string) list \<Rightarrow> string set \<Rightarrow> ('m, 's, 'm setup_entry list) op" where
  "begin_items env i [] seen w = (w, Some [])"
| "begin_items env i ((p, source) # items) seen w =
     andthen (validate_target env p) (\<lambda>_.
     andthen (ensure (target_key env p \<notin> seen)) (\<lambda>_.
     andthen (backup_item env i p) (\<lambda>e.
     andthen (stage_item env i source e) (\<lambda>e1.
     andthen (begin_items env (Suc i) items (insert (target_key env p) seen)) (\<lambda>es.
     give (e1 # es)))))) w"

definition begin_setup :: "('m, 's) setup_env \<Rightarrow> (string \<times> string) list \<Rightarrow> ('m, 's, unit) op" where
  "begin_setup env items =
     andthen (recover env) (\<lambda>_.
     andthen (ensure (items \<noteq> [] \<and> length items \<le> 64)) (\<lambda>_.
     andthen (begin_items env 0 items {}) (\<lambda>es.
     andthen (look (\<lambda>w. Some (w_system w))) (\<lambda>s.
     save \<lparr>jr_version = 1, jr_phase = ''prepared'', jr_items = es, jr_system = Some s\<rparr>))))"

fun verify_staged :: "('m, 's) setup_env \<Rightarrow> 'm setup_entry list \<Rightarrow> ('m, 's, unit) op" where
  "verify_staged env [] w = (w, Some ())"
| "verify_staged env (e # es) w =
     (if en_staged e \<noteq> ''''
      then andthen (hash_root env (en_staged e)) (\<lambda>h. andthen (ensure (h = en_hash e)) (\<lambda>_. verify_staged env es)) w
      else verify_staged env es w)"

text \<open>Which staged files need no replacement, in the order of the items.\<close>

fun unchanged_items :: "('m, 's) setup_env \<Rightarrow> 'm setup_entry list \<Rightarrow> ('m, 's) world \<Rightarrow> ('m, 's) world \<times> bool list" where
  "unchanged_items env [] w = (w, [])"
| "unchanged_items env (e # es) w =
     (let (w1, same) =
        (if en_staged e \<noteq> '''' \<and> en_existed e \<and> en_old_hash e = en_hash e
         then (case hash_target env (en_target e) w of (w1, h) \<Rightarrow> (w1, h = Some (en_hash e)))
         else (w, False));
        (w2, rest) = unchanged_items env es w1
      in (w2, same # rest))"

fun replace_items :: "('m, 's) setup_env \<Rightarrow> ('m setup_entry \<times> bool) list \<Rightarrow> ('m, 's, unit) op" where
  "replace_items env [] w = (w, Some ())"
| "replace_items env ((e, same) # es) w =
     (if en_staged e = '''' then replace_items env es w
      else
        andthen (validate_target env (en_target e)) (\<lambda>_.
        andthen (prepare_target env (en_target e)) (\<lambda>_.
          if same then replace_items env es
          else
            andthen (replace_target (en_staged e) (en_target e)) (\<lambda>_.
            andthen (prepare_target env (en_target e)) (\<lambda>_.
            replace_items env es)))) w)"

definition apply_setup :: "('m, 's) setup_env \<Rightarrow> ('m, 's, unit) op" where
  "apply_setup env =
     andthen (load_existing env) (\<lambda>j.
     andthen (ensure (jr_phase j = ''prepared'')) (\<lambda>_.
     andthen (verify_staged env (jr_items j)) (\<lambda>_.
     andthen (save (j\<lparr>jr_phase := ''applying''\<rparr>)) (\<lambda>_.
     andthen (quiesce env) (\<lambda>_ w.
       case unchanged_items env (jr_items j) w of (w1, same) \<Rightarrow>
         andthen (look (\<lambda>v. Some ())) (\<lambda>_. replace_items env (zip (jr_items j) same)) w1)))))"

fun verify_installed :: "('m, 's) setup_env \<Rightarrow> 'm setup_entry list \<Rightarrow> ('m, 's, unit) op" where
  "verify_installed env [] w = (w, Some ())"
| "verify_installed env (e # es) w =
     (if en_staged e \<noteq> ''''
      then andthen (hash_target env (en_target e)) (\<lambda>h. andthen (ensure (h = en_hash e)) (\<lambda>_. verify_installed env es)) w
      else verify_installed env es w)"

definition commit_setup :: "('m, 's) setup_env \<Rightarrow> ('m, 's, unit) op" where
  "commit_setup env =
     andthen (load_existing env) (\<lambda>j.
     andthen (ensure (jr_phase j = ''applying'')) (\<lambda>_.
     andthen (verify_installed env (jr_items j)) (\<lambda>_.
     andthen (save (j\<lparr>jr_phase := ''committed''\<rparr>)) (\<lambda>_ w. (cleanup (jr_items j) w, Some ())))))"

section \<open>Runs\<close>

text \<open>The calls of the installer's helper, each in a process of its own, and what happens between
  them while a transaction is open: the installer writes files of the plan itself, and services
  are changed.\<close>

datatype setup_call = Apply | Commit | Rollback | Recover

fun run_setup :: "('m, 's) setup_env \<Rightarrow> setup_call \<Rightarrow> ('m, 's, unit) op" where
  "run_setup env Apply = apply_setup env"
| "run_setup env Commit = commit_setup env"
| "run_setup env Rollback = rollback env"
| "run_setup env Recover = recover env"

definition open_target :: "('m, 's) world \<Rightarrow> string \<Rightarrow> bool" where
  "open_target w p =
     (case w_journal w of None \<Rightarrow> False
      | Some j \<Rightarrow> \<not> final_phase (jr_phase j) \<and> p \<in> en_target ` set (jr_items j))"

inductive setup_step :: "('m, 's) setup_env \<Rightarrow> ('m, 's) world \<Rightarrow> ('m, 's) world \<Rightarrow> bool" for env where
  call: "run_setup env c (w\<lparr>w_answers := as\<rparr>) = (w', r) \<Longrightarrow> setup_step env w w'"
| installer: "open_target w p \<Longrightarrow> setup_step env w (w\<lparr>w_files := (w_files w)(p := b), w_meta := (w_meta w)(p := m)\<rparr>)"
| services: "open_target w p \<Longrightarrow> setup_step env w (w\<lparr>w_system := s\<rparr>)"

inductive setup_run :: "('m, 's) setup_env \<Rightarrow> ('m, 's) world \<Rightarrow> ('m, 's) world \<Rightarrow> bool" for env where
  start: "setup_run env w w"
| step: "setup_run env w w' \<Longrightarrow> setup_step env w' w'' \<Longrightarrow> setup_run env w w''"

end
