(* ===== verification/SetupFacts.thy ===== *)
theory SetupFacts
  imports SetupTransaction
begin

text \<open>
  The lemmas of the setup transaction: which parts of the world each operation may touch, what
  a complete rollback restores, and the invariant that every run of faulty calls keeps.
\<close>

section \<open>What a call touches\<close>

text \<open>Everything but the files and rights of some targets, the system state and the answers is
  the same.\<close>

definition frame :: "string set \<Rightarrow> ('m, 's) world \<Rightarrow> ('m, 's) world \<Rightarrow> bool" where
  "frame ts w w' \<longleftrightarrow>
     w_root w' = w_root w \<and> w_special w' = w_special w \<and> w_journal w' = w_journal w \<and>
     (\<forall>p. p \<notin> ts \<longrightarrow> w_files w' p = w_files w p \<and> w_meta w' p = w_meta w p)"

text \<open>Only the answers are consumed.\<close>

definition quiet :: "('m, 's) world \<Rightarrow> ('m, 's) world \<Rightarrow> bool" where
  "quiet w w' \<longleftrightarrow> w' = w\<lparr>w_answers := w_answers w'\<rparr>"

lemma frame_refl [simp, intro]: "frame ts w w"
  by (simp add: frame_def)

lemma frame_trans [trans]: "frame ts w w' \<Longrightarrow> frame ts w' w'' \<Longrightarrow> frame ts w w''"
  by (auto simp: frame_def)

lemma frame_mono: "frame ts w w' \<Longrightarrow> ts \<subseteq> us \<Longrightarrow> frame us w w'"
  by (auto simp: frame_def)

lemma quiet_refl [simp, intro]: "quiet w w"
  by (simp add: quiet_def)

lemma quiet_trans [trans]: "quiet w w' \<Longrightarrow> quiet w' w'' \<Longrightarrow> quiet w w''"
  by (cases w; cases w'; cases w'') (auto simp: quiet_def)

lemma quietD:
  "quiet w w' \<Longrightarrow> w_files w' = w_files w \<and> w_special w' = w_special w \<and> w_meta w' = w_meta w \<and> w_root w' = w_root w \<and>
     w_journal w' = w_journal w \<and> w_system w' = w_system w"
  by (cases w; cases w') (auto simp: quiet_def)

lemma quiet_frame: "quiet w w' \<Longrightarrow> frame ts w w'"
  by (auto simp: frame_def dest: quietD)

lemma ask_quiet: "ask w = (a, w1) \<Longrightarrow> quiet w w1"
  by (auto simp: ask_def quiet_def split: list.splits)

lemma look_quiet [simp]: "quiet w (fst (look f w))"
  by (auto simp: look_def split: prod.splits answer.splits dest: ask_quiet)

lemma look_Some: "look f w = (w1, Some x) \<Longrightarrow> quiet w w1 \<and> f w1 = Some x"
  by (auto simp: look_def split: prod.splits answer.splits dest: ask_quiet)

lemma change_Some: "change f g w = (w2, Some u) \<Longrightarrow> \<exists>w1. quiet w w1 \<and> f w1 = Some w2"
  by (auto simp: change_def split: prod.splits answer.splits option.splits dest: ask_quiet)

lemma change_frame:
  assumes "\<And>v v'. f v = Some v' \<Longrightarrow> frame ts v v'" "\<And>b m s v. frame ts v (g b m s v)"
  shows "frame ts w (fst (change f g w))"
  using assms
  by (auto simp: change_def split: prod.splits answer.splits option.splits
      dest!: ask_quiet intro: frame_trans[OF quiet_frame] quiet_frame)

lemma andthen_Some: "andthen m f w = (w2, Some y) \<Longrightarrow> \<exists>w1 x. m w = (w1, Some x) \<and> f x w1 = (w2, Some y)"
  by (auto simp: andthen_def split: prod.splits option.splits)

lemma andthen_frame:
  assumes "frame ts w (fst (m w))" "\<And>x v. frame ts v (fst (f x v))"
  shows "frame ts w (fst (andthen m f w))"
  using assms by (auto simp: andthen_def split: prod.splits option.splits) (metis frame_trans fst_conv)

lemma andthen_quiet:
  assumes "quiet w (fst (m w))" "\<And>x v. quiet v (fst (f x v))"
  shows "quiet w (fst (andthen m f w))"
  using assms by (auto simp: andthen_def split: prod.splits option.splits) (metis quiet_trans fst_conv)

lemma ensure_fst [simp]: "fst (ensure b w) = w"
  by (simp add: ensure_def)

lemma give_fst [simp]: "fst (give x w) = w"
  by (simp add: give_def)

lemma ensure_Some [simp]: "ensure b w = (w1, Some u) \<longleftrightarrow> w1 = w \<and> b"
  by (auto simp: ensure_def)

lemma give_Some [simp]: "give x w = (w1, Some y) \<longleftrightarrow> w1 = w \<and> y = x"
  by (auto simp: give_def)

section \<open>Frames of the calls\<close>

lemma hash_quiet [simp]:
  "quiet w (fst (hash_target env p w))" "quiet w (fst (hash_root env n w))" "quiet w (fst (validate_target env p w))"
  "quiet w (fst (lstat p w))"
  by (simp_all add: hash_target_def hash_root_def validate_target_def lstat_def)

lemma call_frames:
  "frame {p} w (fst (copy_to_target n p w))" "frame {p} w (fst (remove_target p w))"
  "frame {p} w (fst (prepare_target env p w))" "frame {p} w (fst (restore_metadata p v w))"
  "frame ts w (fst (quiesce env w))" "frame ts w (fst (restore_system x w))"
  unfolding copy_to_target_def remove_target_def prepare_target_def restore_metadata_def quiesce_def restore_system_def
  by (rule change_frame; force simp: frame_def left_file_def left_system_def split: option.splits if_splits)+

lemma copy_retry_frame: "frame {p} w (fst (copy_retry k n p w))"
proof (induction k arbitrary: w)
  case (Suc k)
  show ?case
    using frame_trans[OF call_frames(1) Suc.IH]
    by (auto simp: call_frames split: list.splits answer.splits bool.splits)
qed (simp add: call_frames)

lemma replace_target_frame: "frame {p} w (fst (replace_target n p w))"
  by (simp add: replace_target_def copy_retry_frame)

lemma save_cases:
  "save j w = (w1, r) \<Longrightarrow>
     w_files w1 = w_files w \<and> w_special w1 = w_special w \<and> w_meta w1 = w_meta w \<and> w_root w1 = w_root w \<and>
     w_system w1 = w_system w \<and> (if r = None then w_journal w1 = w_journal w else w_journal w1 = Some j)"
  by (auto simp: save_def change_def split: prod.splits answer.splits dest!: ask_quiet quietD)

lemma load_items_quiet: "quiet w (fst (load_items env final i es seen w))"
proof (induction es arbitrary: i seen w final)
  case (Cons e es)
  show ?case
    by (auto simp: Let_def intro!: andthen_quiet Cons.IH)
qed simp

lemma load_quiet: "quiet w (fst (load env w))"
  using load_items_quiet[of _ env]
  by (auto simp: load_def split: prod.splits answer.splits option.splits dest!: ask_quiet)
    (metis fst_conv quiet_trans)+

lemma load_Loaded: "load env w = (w1, Loaded j) \<Longrightarrow> quiet w w1 \<and> w_journal w = Some j"
  using load_quiet[of w env] load_items_quiet[of _ env]
  by (auto simp: load_def split: prod.splits answer.splits option.splits if_splits dest!: ask_quiet quietD)

lemma load_Missing: "load env w = (w1, Missing) \<Longrightarrow> quiet w w1 \<and> w_journal w = None"
  using load_quiet[of w env]
  by (auto simp: load_def split: prod.splits answer.splits option.splits if_splits dest!: ask_quiet quietD)

lemma load_existing_cases:
  "load_existing env w = (w1, r) \<Longrightarrow> quiet w w1 \<and> (\<forall>j. r = Some j \<longrightarrow> w_journal w = Some j)"
  using load_quiet[of w env] load_Loaded[of env w]
  by (auto simp: load_existing_def split: prod.splits load_result.splits)

lemma verify_backups_quiet: "quiet w (fst (verify_backups env es w))"
  by (induction es arbitrary: w) (auto intro!: andthen_quiet)

lemma verify_staged_quiet: "quiet w (fst (verify_staged env es w))"
  by (induction es arbitrary: w) (auto intro!: andthen_quiet)

lemma verify_installed_quiet: "quiet w (fst (verify_installed env es w))"
  by (induction es arbitrary: w) (auto intro!: andthen_quiet)

lemma still_old_quiet: "quiet w (fst (still_old env es w))"
proof (induction es arbitrary: w)
  case (Cons e es)
  show ?case
    by (auto simp: Let_def split_beta intro: quiet_trans[OF hash_quiet(1) Cons.IH] quiet_trans[OF look_quiet Cons.IH])
qed simp

lemma unchanged_items_quiet: "quiet w (fst (unchanged_items env es w))"
proof (induction es arbitrary: w)
  case (Cons e es)
  show ?case
    by (auto simp: Let_def split_beta intro: quiet_trans[OF hash_quiet(1) Cons.IH] Cons.IH)
qed simp

lemma rollback_item_frame: "frame {en_target e} w (fst (rollback_item env e w))"
proof -
  note quiet = quiet_frame[OF hash_quiet(1)] quiet_frame[OF look_quiet]
  have old: "frame {en_target e} v (fst (andthen (if b then give () else andthen (prepare_target env (en_target e))
      (\<lambda>_. copy_to_target (en_backup e) (en_target e))) (\<lambda>_. restore_metadata (en_target e) (en_metadata e)) v))" for b v
    by (cases b; simp) (intro andthen_frame call_frames; simp)+
  have new: "frame {en_target e} v (fst (andthen (if b then give () else prepare_target env (en_target e))
      (\<lambda>_. remove_target (en_target e)) v))" for b v
    by (cases b; simp) (intro andthen_frame call_frames; simp)+
  show ?thesis
    unfolding rollback_item_def split_beta
    by (cases "en_existed e"; simp)
      (intro andthen_frame quiet_frame[OF hash_quiet(3)] frame_trans[OF quiet(1) old] frame_trans[OF quiet(2) new])+
qed

lemma rollback_items_frame: "frame (en_target ` set es) w (fst (rollback_items env es w))"
proof (induction es arbitrary: w)
  case (Cons e es)
  have "frame (en_target ` set (e # es)) v (fst (rollback_item env e v))" for v
    by (rule frame_mono[OF rollback_item_frame]) simp
  moreover have "frame (en_target ` set (e # es)) v (fst (rollback_items env es v))" for v
    by (rule frame_mono[OF Cons.IH]) auto
  ultimately show ?case by (simp add: andthen_frame)
qed simp

lemma replace_items_frame: "frame (en_target ` fst ` set es) w (fst (replace_items env es w))"
proof (induction es arbitrary: w)
  case (Cons x es)
  obtain e same where x: "x = (e, same)" by fastforce
  let ?ts = "en_target ` fst ` set (x # es)"
  have prepare: "frame ?ts v (fst (prepare_target env (en_target e) v))" for v
    by (rule frame_mono[OF call_frames(3)]) (simp add: x)
  have replace: "frame ?ts v (fst (replace_target n (en_target e) v))" for n v
    by (rule frame_mono[OF replace_target_frame]) (simp add: x)
  have rest: "frame ?ts v (fst (replace_items env es v))" for v
    by (rule frame_mono[OF Cons.IH]) auto
  have tail: "frame ?ts v (fst ((if same then replace_items env es
      else andthen (replace_target (en_staged e) (en_target e)) (\<lambda>_. andthen (prepare_target env (en_target e)) (\<lambda>_. replace_items env es))) v))" for v
    by (cases same, simp_all only: if_True if_False) (intro andthen_frame replace prepare rest)+
  have "frame ?ts w (fst (andthen (validate_target env (en_target e)) (\<lambda>_. andthen (prepare_target env (en_target e)) (\<lambda>_. if same then replace_items env es
      else andthen (replace_target (en_staged e) (en_target e)) (\<lambda>_. andthen (prepare_target env (en_target e)) (\<lambda>_. replace_items env es)))) w))"
    by (intro andthen_frame quiet_frame[OF hash_quiet(3)] prepare tail)
  then show ?case using rest by (simp add: x)
qed simp

section \<open>What a complete rollback restores\<close>

definition item_restored :: "('m, 's) setup_env \<Rightarrow> 'm setup_entry \<Rightarrow> ('m, 's) world \<Rightarrow> bool" where
  "item_restored env e w \<longleftrightarrow>
     (if en_existed e
      then map_option (se_sha env) (w_files w (en_target e)) = Some (en_old_hash e) \<and> en_metadata e = Some (w_meta w (en_target e))
      else w_files w (en_target e) = None)"

definition backed :: "('m, 's) setup_env \<Rightarrow> 'm setup_entry list \<Rightarrow> ('m, 's) world \<Rightarrow> bool" where
  "backed env es w \<longleftrightarrow>
     (\<forall>e\<in>set es. en_existed e \<longrightarrow> map_option (se_sha env) (w_root w (en_backup e)) = Some (en_old_hash e) \<and> en_metadata e \<noteq> None)"

lemma backed_Cons:
  "backed env (e # es) w \<longleftrightarrow>
     (en_existed e \<longrightarrow> map_option (se_sha env) (w_root w (en_backup e)) = Some (en_old_hash e) \<and> en_metadata e \<noteq> None) \<and> backed env es w"
  by (auto simp: backed_def)

lemma backed_root: "w_root w' = w_root w \<Longrightarrow> backed env es w' = backed env es w"
  by (simp add: backed_def)

lemma frame_root: "frame ts w w' \<Longrightarrow> w_root w' = w_root w"
  by (simp add: frame_def)

lemma item_restored_frame: "frame ts w w' \<Longrightarrow> en_target e \<notin> ts \<Longrightarrow> item_restored env e w \<Longrightarrow> item_restored env e w'"
  by (auto simp: frame_def item_restored_def)

lemma copy_to_target_Some:
  "copy_to_target n p w = (w', Some u) \<Longrightarrow> w_files w' p = w_root w n \<and> w_root w n \<noteq> None \<and> w_meta w' = w_meta w"
  by (auto simp: copy_to_target_def dest!: change_Some quietD split: if_splits option.splits)

lemma prepare_target_Some: "prepare_target env p w = (w', Some u) \<Longrightarrow> w_files w' = w_files w \<and> w_root w' = w_root w"
  by (auto simp: prepare_target_def dest!: change_Some quietD)

lemma restore_metadata_Some:
  "restore_metadata p v w = (w', Some u) \<Longrightarrow> w_files w' = w_files w \<and> v = Some (w_meta w' p)"
  by (auto simp: restore_metadata_def dest!: change_Some quietD split: option.splits)

lemma remove_target_Some: "remove_target p w = (w', Some u) \<Longrightarrow> w_files w' p = None"
  by (auto simp: remove_target_def dest!: change_Some)

lemma hash_target_Some: "hash_target env p w = (w', Some h) \<Longrightarrow> quiet w w' \<and> map_option (se_sha env) (w_files w p) = Some h"
  by (auto simp: hash_target_def dest!: look_Some dest: quietD)

lemma hash_root_Some: "hash_root env p w = (w', Some h) \<Longrightarrow> quiet w w' \<and> map_option (se_sha env) (w_root w p) = Some h"
  by (auto simp: hash_root_def dest!: look_Some dest: quietD)

lemma validate_target_Some: "validate_target env p w = (w', Some u) \<Longrightarrow> quiet w w' \<and> se_valid env p"
  by (auto simp: validate_target_def dest!: look_Some split: if_splits)

lemma rollback_item_restores:
  assumes "rollback_item env e w = (w', Some u)" "backed env [e] w"
  shows "item_restored env e w'"
proof -
  obtain w1 where w1: "quiet w w1" "se_valid env (en_target e)"
    "(if en_existed e then (\<lambda>w.
         case hash_target env (en_target e) w of (w1, h) \<Rightarrow>
           andthen (if h = Some (en_old_hash e) then give ()
                else andthen (prepare_target env (en_target e)) (\<lambda>_. copy_to_target (en_backup e) (en_target e)))
               (\<lambda>_. restore_metadata (en_target e) (en_metadata e)) w1)
       else (\<lambda>w.
         case look (\<lambda>v. if w_files v (en_target e) = None \<and> \<not> w_special v (en_target e) then None else Some ()) w of (w1, r) \<Rightarrow>
           andthen (if r = None then give () else prepare_target env (en_target e)) (\<lambda>_. remove_target (en_target e)) w1)) w1 = (w', Some u)"
    using andthen_Some[OF assms(1)[unfolded rollback_item_def]] by (auto dest!: validate_target_Some)
  show ?thesis
  proof (cases "en_existed e")
    case True
    obtain w2 h where h: "hash_target env (en_target e) w1 = (w2, h)" by fastforce
    have "quiet w1 w2" using hash_quiet(1)[of w1 env "en_target e"] h by simp
    then have root: "w_root w2 = w_root w" using w1(1) by (simp add: quietD)
    obtain w3 where w3: "(if h = Some (en_old_hash e) then give ()
          else andthen (prepare_target env (en_target e)) (\<lambda>_. copy_to_target (en_backup e) (en_target e))) w2 = (w3, Some ())"
      "restore_metadata (en_target e) (en_metadata e) w3 = (w', Some u)"
      using w1(3) True h by (auto dest!: andthen_Some)
    have "map_option (se_sha env) (w_files w3 (en_target e)) = Some (en_old_hash e)"
    proof (cases "h = Some (en_old_hash e)")
      case True
      then show ?thesis using w3(1) h by (auto dest!: hash_target_Some dest: quietD)
    next
      case False
      then show ?thesis
        using w3(1) assms(2) \<open>en_existed e\<close> root
        by (auto simp: backed_def dest!: andthen_Some copy_to_target_Some prepare_target_Some)
    qed
    then show ?thesis using True w3(2) by (auto simp: item_restored_def dest!: restore_metadata_Some)
  next
    case False
    then show ?thesis
      using w1(3) by (auto simp: item_restored_def split: prod.splits dest!: andthen_Some remove_target_Some)
  qed
qed

lemma rollback_items_restore:
  assumes "rollback_items env es w = (w', Some u)" "backed env es w" "distinct (map en_target es)" "e \<in> set es"
  shows "item_restored env e w'"
  using assms
proof (induction es arbitrary: w)
  case (Cons d es)
  obtain w1 where w1: "rollback_item env d w = (w1, Some ())" "rollback_items env es w1 = (w', Some u)"
    using andthen_Some[OF Cons.prems(1)[unfolded rollback_items.simps]] by auto
  have "w_root w1 = w_root w" using rollback_item_frame[of d w env] w1(1) by (simp add: frame_root)
  then have kept: "backed env es w1" using Cons.prems(2) by (simp add: backed_Cons backed_root[of w1 w])
  show ?case
  proof (cases "e = d")
    case True
    have "item_restored env d w1" using rollback_item_restores[OF w1(1)] Cons.prems(2) by (simp add: backed_def)
    moreover have "frame (en_target ` set es) w1 w'" using rollback_items_frame[of es w1 env] w1(2) by simp
    moreover have "en_target d \<notin> en_target ` set es" using Cons.prems(3) by auto
    ultimately show ?thesis unfolding True by (metis item_restored_frame)
  next
    case False
    then show ?thesis using Cons.IH[OF w1(2) kept] Cons.prems(3,4) by simp
  qed
qed simp

section \<open>The invariant of a transaction\<close>

text \<open>
  The journal of a transaction that began in a world with the files \<open>F\<close>, the rights \<open>M\<close> and
  the services \<open>S\<close>, up to its phase.
\<close>

definition plan_for :: "('m, 's) setup_env \<Rightarrow> (string \<Rightarrow> bytes option) \<Rightarrow> (string \<Rightarrow> 'm) \<Rightarrow> 's \<Rightarrow> ('m, 's) journal \<Rightarrow> bool" where
  "plan_for env F M S j \<longleftrightarrow>
     jr_version j = 1 \<and> jr_items j \<noteq> [] \<and> length (jr_items j) \<le> 64 \<and> jr_system j = Some S \<and>
     distinct (map (\<lambda>e. target_key env (en_target e)) (jr_items j)) \<and>
     (\<forall>i<length (jr_items j). en_backup (jr_items j ! i) = backup_name i \<and>
        (en_staged (jr_items j ! i) = '''' \<or> en_staged (jr_items j ! i) = staged_name i)) \<and>
     (\<forall>e\<in>set (jr_items j). se_valid env (en_target e) \<and>
        (if en_existed e
         then map_option (se_sha env) (F (en_target e)) = Some (en_old_hash e) \<and> en_metadata e = Some (M (en_target e))
         else F (en_target e) = None))"

definition item_installed :: "('m, 's) setup_env \<Rightarrow> 'm setup_entry \<Rightarrow> ('m, 's) world \<Rightarrow> bool" where
  "item_installed env e w \<longleftrightarrow>
     (en_staged e \<noteq> '''' \<longrightarrow> map_option (se_sha env) (w_files w (en_target e)) = Some (en_hash e))"

abbreviation plan_targets :: "('m, 's) journal \<Rightarrow> string set" where
  "plan_targets j \<equiv> en_target ` set (jr_items j)"

definition in_phase ::
  "('m, 's) setup_env \<Rightarrow> (string \<Rightarrow> bytes option) \<Rightarrow> (string \<Rightarrow> 'm) \<Rightarrow> 's \<Rightarrow> ('m, 's) journal \<Rightarrow> string \<Rightarrow> ('m, 's) world \<Rightarrow> bool" where
  "in_phase env F M S j ph w \<longleftrightarrow>
     w_journal w = Some (j\<lparr>jr_phase := ph\<rparr>) \<and> ph \<in> set setup_phases \<and>
     (\<forall>p\<in>plan_targets j. \<not> w_special w p) \<and>
     (\<forall>p. p \<notin> plan_targets j \<longrightarrow> w_files w p = F p \<and> w_meta w p = M p) \<and>
     (\<not> final_phase ph \<longrightarrow> backed env (jr_items j) w) \<and>
     (ph = ''rolled-back'' \<longrightarrow> (\<forall>e\<in>set (jr_items j). item_restored env e w) \<and> w_system w = S) \<and>
     (ph = ''committed'' \<longrightarrow> (\<forall>e\<in>set (jr_items j). item_installed env e w))"

lemma in_phase_quiet: "quiet w w' \<Longrightarrow> in_phase env F M S j ph w' = in_phase env F M S j ph w"
  using quietD[of w w'] by (simp add: in_phase_def backed_def item_restored_def item_installed_def)

lemma in_phase_after: "in_phase env F M S j ph w \<Longrightarrow> quiet w w' \<Longrightarrow> in_phase env F M S j ph w'"
  by (simp add: in_phase_quiet)

lemma in_phase_answers [simp]: "in_phase env F M S j ph (w\<lparr>w_answers := as\<rparr>) = in_phase env F M S j ph w"
  by (rule in_phase_quiet) (simp add: quiet_def)

lemma in_phase_frame:
  assumes "in_phase env F M S j ph w" "\<not> final_phase ph" "frame (plan_targets j) w w'"
  shows "in_phase env F M S j ph w'"
  using assms by (auto simp: in_phase_def frame_def backed_def final_phase_def)

lemma in_phase_save:
  assumes "in_phase env F M S j ph w" "\<not> final_phase ph" "save (j\<lparr>jr_phase := new\<rparr>) w = (w', r)"
    "new \<in> set setup_phases" "new = ''rolled-back'' \<Longrightarrow> (\<forall>e\<in>set (jr_items j). item_restored env e w) \<and> w_system w = S"
    "new = ''committed'' \<Longrightarrow> (\<forall>e\<in>set (jr_items j). item_installed env e w)"
  shows "in_phase env F M S j (if r = None then ph else new) w'"
  using assms(1,2,4-) save_cases[OF assms(3)]
  by (auto simp: in_phase_def backed_def item_restored_def item_installed_def final_phase_def split: if_splits)

lemma distinct_targets: "plan_for env F M S j \<Longrightarrow> distinct (map en_target (jr_items j))"
  by (auto simp: plan_for_def distinct_map inj_on_def)

lemma remove_root_same:
  "w_files (remove_root n w) = w_files w \<and> w_special (remove_root n w) = w_special w \<and> w_meta (remove_root n w) = w_meta w \<and>
   w_journal (remove_root n w) = w_journal w \<and> w_system (remove_root n w) = w_system w"
  by (auto simp: remove_root_def split: prod.splits answer.splits dest!: ask_quiet quietD)

lemma cleanup_same:
  "w_files (cleanup es w) = w_files w \<and> w_special (cleanup es w) = w_special w \<and> w_meta (cleanup es w) = w_meta w \<and>
   w_journal (cleanup es w) = w_journal w \<and> w_system (cleanup es w) = w_system w"
  by (induction es arbitrary: w) (simp_all add: Let_def remove_root_same)

lemma in_phase_cleanup:
  "in_phase env F M S j ph w \<Longrightarrow> final_phase ph \<Longrightarrow> in_phase env F M S j ph (cleanup es w)"
  by (auto simp: in_phase_def item_restored_def item_installed_def cleanup_same)

lemma verify_installed_Some:
  "verify_installed env es w = (w', Some u) \<Longrightarrow> e \<in> set es \<Longrightarrow> item_installed env e w"
proof (induction es arbitrary: w)
  case (Cons d es)
  show ?case
  proof (cases "en_staged d = ''''")
    case True
    then show ?thesis using Cons by (auto simp: item_installed_def)
  next
    case False
    then obtain w1 where w1: "quiet w w1" "map_option (se_sha env) (w_files w (en_target d)) = Some (en_hash d)"
      "verify_installed env es w1 = (w', Some u)"
      using Cons.prems(1) by (auto dest!: andthen_Some hash_target_Some)
    then show ?thesis using Cons.IH[OF w1(3)] Cons.prems(2) by (auto simp: item_installed_def dest: quietD)
  qed
qed simp

text \<open>Every operation keeps the invariant, and only the phase moves: forward, and never out of a
  final phase.\<close>

definition setup_inv ::
  "('m, 's) setup_env \<Rightarrow> (string \<Rightarrow> bytes option) \<Rightarrow> (string \<Rightarrow> 'm) \<Rightarrow> 's \<Rightarrow> ('m, 's) journal \<Rightarrow> ('m, 's) world \<Rightarrow> bool" where
  "setup_inv env F M S j w \<longleftrightarrow> plan_for env F M S j \<and> (\<exists>ph. in_phase env F M S j ph w)"

lemma andthen_cases:
  assumes "andthen m f w = (w', r)"
  obtains (fail) "m w = (w', None)" "r = None" | (go) w1 x where "m w = (w1, Some x)" "f x w1 = (w', r)"
  using assms by (auto simp: andthen_def split: prod.splits option.splits)

lemma apply_keeps:
  assumes "in_phase env F M S j ph w" "apply_setup env w = (w', r)"
  shows "\<exists>ph'. in_phase env F M S j ph' w' \<and> (final_phase ph \<longrightarrow> ph' = ph \<and> quiet w w') \<and> (r = Some () \<longrightarrow> \<not> final_phase ph')"
  using assms(2) unfolding apply_setup_def
proof (cases rule: andthen_cases)
  case fail
  then have "quiet w w'" using load_existing_cases[of env w w' None] by simp
  then show ?thesis using assms(1) fail(2) by (intro exI[of _ ph]) (simp add: in_phase_quiet[of w w'])
next
  case (go w1 k)
  have q1: "quiet w w1" and k: "k = j\<lparr>jr_phase := ph\<rparr>"
    using load_existing_cases[OF go(1)] assms(1) by (auto simp: in_phase_def)
  have in1: "in_phase env F M S j ph w1" by (rule in_phase_after[OF assms(1) q1])
  from go(2) show ?thesis
  proof (cases rule: andthen_cases)
    case fail
    then have "w' = w1" by (simp add: ensure_def)
    then show ?thesis using in1 q1 fail by auto
  next
    case (go w2 u)
    have ph: "ph = ''prepared''" and w2: "w2 = w1" using go(1) k by auto
    have nonfinal: "\<not> final_phase ph" by (simp add: ph final_phase_def)
    from go(2) show ?thesis
    proof (cases rule: andthen_cases)
      case fail
      then show ?thesis
        using in_phase_after[OF in1[folded w2] verify_staged_quiet[of w2 env "jr_items k"]] nonfinal by auto
    next
      case (go w3 u3)
      have in3: "in_phase env F M S j ph w3"
        using in_phase_after[OF in1[folded w2] verify_staged_quiet[of w2 env "jr_items k"]] go(1) by simp
      from go(2) show ?thesis
      proof (cases rule: andthen_cases)
        case fail
        then show ?thesis using in_phase_save[OF in3 nonfinal, of "''applying''" w' None] nonfinal
          by (auto simp: k setup_phases_def)
      next
        case (go w4 u4)
        have in4: "in_phase env F M S j ''applying'' w4"
          using in_phase_save[OF in3 nonfinal, of "''applying''" w4 "Some ()"] go(1) by (auto simp: k setup_phases_def)
        have "frame (plan_targets j) w4 w'"
          using go(2)
        proof (cases rule: andthen_cases)
          case fail
          then show ?thesis using call_frames(5)[of "plan_targets j" w4 env] by simp
        next
          case (go w5 u5)
          have f5: "frame (plan_targets j) w4 w5" using call_frames(5)[of "plan_targets j" w4 env] go(1) by simp
          obtain w6 same where same: "unchanged_items env (jr_items k) w5 = (w6, same)" by fastforce
          have f6: "frame (plan_targets j) w5 w6"
            using quiet_frame[OF unchanged_items_quiet[of w5 env "jr_items k"]] same by simp
          have items: "en_target ` fst ` set (zip (jr_items k) same) \<subseteq> plan_targets j" by (auto simp: k dest: set_zip_leftD)
          have "frame (plan_targets j) w6 (fst (andthen (look (\<lambda>v. Some ())) (\<lambda>_. replace_items env (zip (jr_items k) same)) w6))"
            by (intro andthen_frame quiet_frame[OF look_quiet] frame_mono[OF replace_items_frame items])
          then show ?thesis using go(2) same f5 f6 by (metis (no_types, lifting) case_prod_conv frame_trans fst_conv)
        qed
        then have "in_phase env F M S j ''applying'' w'" using in_phase_frame[OF in4] by (simp add: final_phase_def)
        then show ?thesis using nonfinal by (auto simp: final_phase_def)
      qed
    qed
  qed
qed

lemma quiesce_rollback_frame: "frame ts w (fst (quiesce_rollback env j w))"
proof -
  have "frame ts w w1" if "quiesce env w = (w1, r)" for w1 r using call_frames(5)[of ts w env] that by simp
  moreover have "frame ts w1 w2" if "still_old env es w1 = (w2, b)" for w1 w2 es b
    using quiet_frame[OF still_old_quiet[of w1 env es]] that by simp
  ultimately show ?thesis
    unfolding quiesce_rollback_def
    by (auto split: prod.splits option.splits bool.splits) (metis call_frames(6) frame_trans)+
qed

lemma restore_system_Some:
  "restore_system v w = (w', Some u) \<Longrightarrow> w_files w' = w_files w \<and> w_meta w' = w_meta w \<and> v = Some (w_system w')"
  by (auto simp: restore_system_def dest!: change_Some quietD split: option.splits)

text \<open>The part of a rollback after the journal says so.\<close>

lemma rollback_rest:
  assumes inp: "in_phase env F M S j ''rolling-back'' w" and plan: "plan_for env F M S j"
    and run: "andthen (quiesce_rollback env (j\<lparr>jr_phase := x\<rparr>)) (\<lambda>_.
            andthen (rollback_items env (jr_items j)) (\<lambda>_.
            andthen (restore_system (jr_system j)) (\<lambda>_.
            save (j\<lparr>jr_phase := ''rolled-back''\<rparr>)))) w = (w', r)"
  shows "in_phase env F M S j (if r = None then ''rolling-back'' else ''rolled-back'') w'"
  using run
proof (cases rule: andthen_cases)
  case fail
  then show ?thesis
    using in_phase_frame[OF inp, of w'] quiesce_rollback_frame[of "plan_targets j" w env "j\<lparr>jr_phase := x\<rparr>"]
    by (simp add: final_phase_def)
next
  case (go w1 u1)
  have in1: "in_phase env F M S j ''rolling-back'' w1"
    using in_phase_frame[OF inp, of w1] quiesce_rollback_frame[of "plan_targets j" w env "j\<lparr>jr_phase := x\<rparr>"] go(1)
    by (simp add: final_phase_def)
  from go(2) show ?thesis
  proof (cases rule: andthen_cases)
    case fail
    then show ?thesis
      using in_phase_frame[OF in1, of w'] rollback_items_frame[of "jr_items j" w1 env] by (simp add: final_phase_def)
  next
    case (go w2 u2)
    have in2: "in_phase env F M S j ''rolling-back'' w2"
      using in_phase_frame[OF in1, of w2] rollback_items_frame[of "jr_items j" w1 env] go(1) by (simp add: final_phase_def)
    have "backed env (jr_items j) w1" using in1 by (simp add: in_phase_def final_phase_def)
    then have restored: "\<forall>e\<in>set (jr_items j). item_restored env e w2"
      using rollback_items_restore[of env "jr_items j" w1 w2 u2] go(1) distinct_targets[OF plan] by blast
    from go(2) show ?thesis
    proof (cases rule: andthen_cases)
      case fail
      then show ?thesis
        using in_phase_frame[OF in2, of w'] call_frames(6)[of "plan_targets j" w2 "jr_system j"] by (simp add: final_phase_def)
    next
      case (go w3 u3)
      have in3: "in_phase env F M S j ''rolling-back'' w3"
        using in_phase_frame[OF in2, of w3] call_frames(6)[of "plan_targets j" w2 "jr_system j"] go(1) by (simp add: final_phase_def)
      have "(\<forall>e\<in>set (jr_items j). item_restored env e w3) \<and> w_system w3 = S"
        using restored restore_system_Some[of "jr_system j" w2 w3 u3] go(1) plan by (simp add: item_restored_def plan_for_def)
      then show ?thesis
        using in_phase_save[OF in3 _ go(2)] by (auto simp: final_phase_def setup_phases_def)
    qed
  qed
qed

lemma rollback_keeps:
  assumes inp: "in_phase env F M S j ph w" and plan: "plan_for env F M S j" and run: "rollback env w = (w', r)"
  shows "\<exists>ph'. in_phase env F M S j ph' w' \<and> (final_phase ph \<longrightarrow> ph' = ph \<and> quiet w w') \<and>
    (r = Some () \<longrightarrow> ph' = (if final_phase ph then ph else ''rolled-back''))"
proof -
  obtain w1 l where l: "load env w = (w1, l)" by fastforce
  have q: "quiet w w1" using load_quiet[of w env] l by simp
  have in1: "in_phase env F M S j ph w1" by (rule in_phase_after[OF inp q])
  have journal: "w_journal w = Some (j\<lparr>jr_phase := ph\<rparr>)" using inp by (simp add: in_phase_def)
  consider "l = LoadError" | "l = Loaded (j\<lparr>jr_phase := ph\<rparr>)"
    using l journal load_Missing[of env w w1] load_Loaded[of env w w1] by (cases l) auto
  then show ?thesis
  proof cases
    case 1
    then show ?thesis using run l q in1 by (auto simp: rollback_def)
  next
    case 2
    show ?thesis
    proof (cases "final_phase ph")
      case True
      then show ?thesis using run l 2 q in1 by (auto simp: rollback_def)
    next
      case False
      have seq: "andthen (verify_backups env (jr_items j)) (\<lambda>_.
            andthen (save (j\<lparr>jr_phase := ''rolling-back''\<rparr>)) (\<lambda>_.
            andthen (quiesce_rollback env (j\<lparr>jr_phase := ph\<rparr>)) (\<lambda>_.
            andthen (rollback_items env (jr_items j)) (\<lambda>_.
            andthen (restore_system (jr_system j)) (\<lambda>_.
            save (j\<lparr>jr_phase := ''rolled-back''\<rparr>)))))) w1 = (w', r)"
        using run l 2 False by (simp add: rollback_def)
      then show ?thesis
      proof (cases rule: andthen_cases)
        case fail
        then show ?thesis
          using in_phase_after[OF in1 verify_backups_quiet[of w1 env "jr_items j"]] False by auto
      next
        case (go w2 u2)
        have in2: "in_phase env F M S j ph w2"
          using in_phase_after[OF in1 verify_backups_quiet[of w1 env "jr_items j"]] go(1) by simp
        from go(2) show ?thesis
        proof (cases rule: andthen_cases)
          case fail
          then show ?thesis using in_phase_save[OF in2 False fail(1)] False by (auto simp: setup_phases_def)
        next
          case (go w3 u3)
          have "in_phase env F M S j ''rolling-back'' w3"
            using in_phase_save[OF in2 False go(1)] by (auto simp: setup_phases_def)
          from rollback_rest[OF this plan go(2)] show ?thesis using False by (cases r) auto
        qed
      qed
    qed
  qed
qed

lemma commit_keeps:
  assumes inp: "in_phase env F M S j ph w" and run: "commit_setup env w = (w', r)"
  shows "\<exists>ph'. in_phase env F M S j ph' w' \<and> (final_phase ph \<longrightarrow> ph' = ph \<and> quiet w w') \<and>
    (r = Some () \<longrightarrow> ph' = ''committed'') \<and> w_files w' = w_files w \<and> w_meta w' = w_meta w \<and> w_system w' = w_system w"
  using run unfolding commit_setup_def
proof (cases rule: andthen_cases)
  case fail
  then have "quiet w w'" using load_existing_cases[of env w w' None] by simp
  then show ?thesis using in_phase_after[OF inp] fail(2) by (auto dest: quietD)
next
  case (go w1 k)
  have q: "quiet w w1" and k: "k = j\<lparr>jr_phase := ph\<rparr>"
    using load_existing_cases[OF go(1)] inp by (auto simp: in_phase_def)
  note in1 = in_phase_after[OF inp q]
  from go(2) show ?thesis
  proof (cases rule: andthen_cases)
    case fail
    then show ?thesis using in1 q by (auto simp: ensure_def dest: quietD)
  next
    case (go w2 u)
    have ph: "ph = ''applying''" and w2: "w2 = w1" using go(1) k by auto
    have nonfinal: "\<not> final_phase ph" by (simp add: ph final_phase_def)
    obtain w3 r3 where v: "verify_installed env (jr_items k) w2 = (w3, r3)" by fastforce
    have q3: "quiet w2 w3" using verify_installed_quiet[of w2 env "jr_items k"] v by simp
    note in3 = in_phase_after[OF in1[folded w2] q3]
    have same: "w_files w3 = w_files w \<and> w_meta w3 = w_meta w \<and> w_system w3 = w_system w" using q q3 w2 by (simp add: quietD)
    from go(2) show ?thesis
    proof (cases rule: andthen_cases)
      case fail
      then show ?thesis using in3 v same nonfinal by auto
    next
      case (go w3' u3)
      have inst: "\<forall>e\<in>set (jr_items j). item_installed env e w3"
        using verify_installed_Some[OF go(1)] q3 by (auto simp: k item_installed_def dest: quietD)
      have w3: "w3' = w3" using go(1) v by simp
      from go(2) show ?thesis
      proof (cases rule: andthen_cases)
        case fail
        then show ?thesis using in_phase_save[OF in3 nonfinal, of "''committed''" w' None] inst nonfinal same save_cases[OF fail(1)] w3
          by (auto simp: k setup_phases_def)
      next
        case (go w4 u4)
        have "in_phase env F M S j ''committed'' w4"
          using in_phase_save[OF in3 nonfinal, of "''committed''" w4 "Some ()"] go(1) inst by (auto simp: k w3 setup_phases_def)
        then show ?thesis
          using go(2) save_cases[OF go(1)] same nonfinal w3 in_phase_cleanup[of env F M S j "''committed''" w4 "jr_items k"]
          by (auto simp: cleanup_same final_phase_def)
      qed
    qed
  qed
qed

lemma recover_keeps:
  assumes inp: "in_phase env F M S j ph w" and plan: "plan_for env F M S j" and run: "recover env w = (w', r)"
  shows "\<exists>ph'. in_phase env F M S j ph' w' \<and>
    (final_phase ph \<longrightarrow> ph' = ph \<and> w_files w' = w_files w \<and> w_meta w' = w_meta w \<and> w_system w' = w_system w) \<and>
    (r = Some () \<longrightarrow> ph' = (if final_phase ph then ph else ''rolled-back''))"
proof -
  obtain w1 l where l: "load env w = (w1, l)" by fastforce
  have q: "quiet w w1" using load_quiet[of w env] l by simp
  note in1 = in_phase_after[OF inp q]
  have journal: "w_journal w = Some (j\<lparr>jr_phase := ph\<rparr>)" using inp by (simp add: in_phase_def)
  consider "l = LoadError" | "l = Loaded (j\<lparr>jr_phase := ph\<rparr>)"
    using l journal load_Missing[of env w w1] load_Loaded[of env w w1] by (cases l) auto
  then show ?thesis
  proof cases
    case 1
    then show ?thesis using run l q in1 by (auto simp: recover_def dest: quietD)
  next
    case 2
    show ?thesis
    proof (cases "final_phase ph")
      case True
      then show ?thesis using run l 2 q in_phase_cleanup[OF in1] by (auto simp: recover_def cleanup_same dest: quietD)
    next
      case False
      then have "rollback env w1 = (w', r)" using run l 2 by (simp add: recover_def)
      from rollback_keeps[OF in1 plan this] False show ?thesis by auto
    qed
  qed
qed

end
