(* ===== verification/SetupRuns.thy ===== *)
theory SetupRuns
  imports SetupFacts
begin

text \<open>
  Whole transactions of the setup: what beginning one establishes, that a rollback without
  faults succeeds, and the properties of every run.
\<close>

section \<open>Beginning a transaction\<close>

text \<open>Only some files of the root and the answers change.\<close>

definition stored :: "string set \<Rightarrow> ('m, 's) world \<Rightarrow> ('m, 's) world \<Rightarrow> bool" where
  "stored ns w w' \<longleftrightarrow>
     w_files w' = w_files w \<and> w_special w' = w_special w \<and> w_meta w' = w_meta w \<and> w_journal w' = w_journal w \<and>
     w_system w' = w_system w \<and> (\<forall>n. n \<notin> ns \<longrightarrow> w_root w' n = w_root w n)"

lemma stored_refl [simp, intro]: "stored ns w w"
  by (simp add: stored_def)

lemma stored_trans [trans]: "stored ns w w' \<Longrightarrow> stored ns w' w'' \<Longrightarrow> stored ns w w''"
  by (simp add: stored_def)

lemma stored_mono: "stored ns w w' \<Longrightarrow> ns \<subseteq> ms \<Longrightarrow> stored ms w w'"
  by (auto simp: stored_def)

lemma quiet_stored: "quiet w w' \<Longrightarrow> stored ns w w'"
  by (auto simp: stored_def dest: quietD)

lemma andthen_stored:
  assumes "stored ns w (fst (m w))" "\<And>x v. stored ns v (fst (f x v))"
  shows "stored ns w (fst (andthen m f w))"
  using assms by (auto simp: andthen_def split: prod.splits option.splits) (metis stored_trans fst_conv)

lemma copy_to_root_stored: "stored {n} w (fst (copy_to_root p n w))"
  by (auto simp: copy_to_root_def change_def stored_def left_file_def split: prod.splits answer.splits option.splits
      dest!: ask_quiet quietD)

lemma copy_to_root_Some: "copy_to_root p n w = (w', Some u) \<Longrightarrow> w_root w' n = w_files w p"
  by (auto simp: copy_to_root_def dest!: change_Some quietD split: option.splits)

lemma lstat_Some:
  "lstat p w = (w', Some k) \<Longrightarrow>
     quiet w w' \<and> k = (if w_special w p then SpecialFile else if w_files w p = None then Absent else RegularFile)"
  unfolding lstat_def by (drule look_Some) (auto dest: quietD)

lemma names_distinct:
  "backup_name i = backup_name k \<longleftrightarrow> i = k" "staged_name i = staged_name k \<longleftrightarrow> i = k" "backup_name i \<noteq> staged_name k"
  "staged_name i \<noteq> ''''" "staged_name i \<noteq> backup_name k"
proof -
  have "itoa_nat i = itoa_nat k \<longleftrightarrow> i = k" by (metis option.inject parse_nat_itoa)
  then show "backup_name i = backup_name k \<longleftrightarrow> i = k" "staged_name i = staged_name k \<longleftrightarrow> i = k"
    by (simp_all add: backup_name_def staged_name_def)
qed (simp_all add: backup_name_def staged_name_def)

lemma backup_item_stored: "stored {backup_name i} w (fst (backup_item env i p w))"
proof -
  have reg: "stored {backup_name i} v (fst (andthen (look (\<lambda>w. Some (w_meta w p))) (\<lambda>m.
           andthen (hash_target env p) (\<lambda>old.
           andthen (copy_to_root p (backup_name i)) (\<lambda>_.
           andthen (hash_root env (backup_name i)) (\<lambda>h.
           andthen (ensure (h = old)) (\<lambda>_.
           give ((fresh_entry p i)\<lparr>en_existed := True, en_metadata := Some m, en_old_hash := old\<rparr>)))))) v))" for v
    by (intro andthen_stored quiet_stored[OF look_quiet] quiet_stored[OF hash_quiet(1)] quiet_stored[OF hash_quiet(2)]
        copy_to_root_stored) simp_all
  show ?thesis
    unfolding backup_item_def
  proof (rule andthen_stored[OF quiet_stored[OF hash_quiet(4)]])
    fix k v
    show "stored {backup_name i} v (fst ((case k of SpecialFile \<Rightarrow> (\<lambda>w. (w, None)) | Absent \<Rightarrow> give (fresh_entry p i) | RegularFile \<Rightarrow>
        andthen (look (\<lambda>w. Some (w_meta w p))) (\<lambda>m.
           andthen (hash_target env p) (\<lambda>old.
           andthen (copy_to_root p (backup_name i)) (\<lambda>_.
           andthen (hash_root env (backup_name i)) (\<lambda>h.
           andthen (ensure (h = old)) (\<lambda>_.
           give ((fresh_entry p i)\<lparr>en_existed := True, en_metadata := Some m, en_old_hash := old\<rparr>))))))) v))"
      by (cases k) (simp_all add: reg)
  qed
qed

lemma stage_item_stored: "stored {staged_name i} w (fst (stage_item env i src e w))"
proof (cases "src = ''''")
  case False
  have "stored {staged_name i} w (fst (andthen (lstat src) (\<lambda>kind.
        andthen (ensure (kind = RegularFile)) (\<lambda>_.
        andthen (hash_target env src) (\<lambda>new.
        andthen (copy_to_root src (staged_name i)) (\<lambda>_.
        andthen (hash_root env (staged_name i)) (\<lambda>h.
        andthen (ensure (h = new)) (\<lambda>_.
        give (e\<lparr>en_staged := staged_name i, en_hash := new\<rparr>))))))) w))"
    by (intro andthen_stored quiet_stored[OF hash_quiet(1)] quiet_stored[OF hash_quiet(2)] quiet_stored[OF hash_quiet(4)]
        copy_to_root_stored) simp_all
  then show ?thesis using False by (simp add: stage_item_def)
qed (simp add: stage_item_def)

text \<open>What an entry says of the world it was made in.\<close>

definition entry_of ::
  "('m, 's) setup_env \<Rightarrow> nat \<Rightarrow> string \<Rightarrow> string \<Rightarrow> ('m, 's) world \<Rightarrow> 'm setup_entry \<Rightarrow> bool" where
  "entry_of env i p src w e \<longleftrightarrow>
     en_target e = p \<and> en_backup e = backup_name i \<and> \<not> w_special w p \<and>
     (if en_existed e
      then map_option (se_sha env) (w_files w p) = Some (en_old_hash e) \<and> en_metadata e = Some (w_meta w p)
      else w_files w p = None) \<and>
     (if src = '''' then en_staged e = ''''
      else en_staged e = staged_name i \<and> map_option (se_sha env) (w_files w src) = Some (en_hash e))"

lemma backup_item_Some:
  assumes "backup_item env i p w = (w', Some e)"
  shows "entry_of env i p '''' w e \<and> backed env [e] w'"
proof -
  obtain w1 k where w1: "quiet w w1" "k = (if w_special w p then SpecialFile else if w_files w p = None then Absent else RegularFile)"
    "(case k of SpecialFile \<Rightarrow> (\<lambda>w. (w, None)) | Absent \<Rightarrow> give (fresh_entry p i) | RegularFile \<Rightarrow>
        andthen (look (\<lambda>w. Some (w_meta w p))) (\<lambda>m.
           andthen (hash_target env p) (\<lambda>old.
           andthen (copy_to_root p (backup_name i)) (\<lambda>_.
           andthen (hash_root env (backup_name i)) (\<lambda>h.
           andthen (ensure (h = old)) (\<lambda>_.
           give ((fresh_entry p i)\<lparr>en_existed := True, en_metadata := Some m, en_old_hash := old\<rparr>))))))) w1 = (w', Some e)"
    using assms unfolding backup_item_def by (auto dest!: andthen_Some lstat_Some)
  show ?thesis
  proof (cases k)
    case Absent
    then show ?thesis using w1 by (auto simp: entry_of_def backed_def fresh_entry_def split: if_splits)
  next
    case SpecialFile
    then show ?thesis using w1 by simp
  next
    case RegularFile
    then obtain m w2 old w3 w4 w5 h where
      m: "look (\<lambda>w. Some (w_meta w p)) w1 = (w2, Some m)" and old: "hash_target env p w2 = (w3, Some old)"
      and cp: "copy_to_root p (backup_name i) w3 = (w4, Some ())" and h: "hash_root env (backup_name i) w4 = (w5, Some h)"
      and eq: "h = old" "w' = w5" "e = (fresh_entry p i)\<lparr>en_existed := True, en_metadata := Some m, en_old_hash := old\<rparr>"
      using w1(3) by (auto dest!: andthen_Some)
    have "\<not> w_special w p" using w1(2) RegularFile by (auto split: if_splits)
    moreover have "m = w_meta w p" using look_Some[OF m] w1(1) by (auto dest!: quietD)
    moreover have "map_option (se_sha env) (w_files w p) = Some old"
      using hash_target_Some[OF old] look_Some[OF m] w1(1) by (auto dest!: quietD)
    moreover have "map_option (se_sha env) (w_root w' (backup_name i)) = Some old"
      using hash_root_Some[OF h] eq by (auto dest: quietD)
    ultimately show ?thesis using eq by (simp add: entry_of_def backed_def fresh_entry_def)
  qed
qed

definition staged_root :: "('m, 's) setup_env \<Rightarrow> 'm setup_entry list \<Rightarrow> ('m, 's) world \<Rightarrow> bool" where
  "staged_root env es w \<longleftrightarrow>
     (\<forall>e\<in>set es. en_staged e \<noteq> '''' \<longrightarrow> map_option (se_sha env) (w_root w (en_staged e)) = Some (en_hash e))"

lemma stage_item_Some:
  assumes "stage_item env i src e w = (w', Some e')" "entry_of env i p '''' w e"
  shows "entry_of env i p src w e' \<and> en_existed e' = en_existed e \<and> en_old_hash e' = en_old_hash e \<and>
    en_metadata e' = en_metadata e \<and> staged_root env [e'] w'"
proof (cases "src = ''''")
  case False
  obtain w1 w2 new w3 w4 h where 1: "quiet w w1" "hash_target env src w1 = (w2, Some new)" and
    "copy_to_root src (staged_name i) w2 = (w3, Some ())" and h: "hash_root env (staged_name i) w3 = (w4, Some h)" and
    e': "e' = e\<lparr>en_staged := staged_name i, en_hash := new\<rparr>" "h = new" "w' = w4"
    using assms(1) False unfolding stage_item_def by (auto dest!: andthen_Some lstat_Some)
  have "map_option (se_sha env) (w_files w src) = Some new" using hash_target_Some[OF 1(2)] 1(1) by (auto dest!: quietD)
  moreover have "map_option (se_sha env) (w_root w' (staged_name i)) = Some new"
    using hash_root_Some[OF h] e' by (auto dest: quietD)
  ultimately show ?thesis using e' assms(2) False by (auto simp: entry_of_def staged_root_def)
qed (use assms in \<open>auto simp: stage_item_def entry_of_def staged_root_def\<close>)

text \<open>The names of the root that the items from an index on use.\<close>

definition names_from :: "nat \<Rightarrow> string set" where
  "names_from i = {n. \<exists>k\<ge>i. n = backup_name k \<or> n = staged_name k}"

lemma names_from_simps:
  "backup_name i \<in> names_from i" "staged_name i \<in> names_from i" "names_from (Suc i) \<subseteq> names_from i"
  "backup_name i \<notin> names_from (Suc i)" "staged_name i \<notin> names_from (Suc i)"
  by (auto simp: names_from_def names_distinct dest: Suc_leD)

lemma begin_items_stored: "stored (names_from i) w (fst (begin_items env i items seen w))"
proof (induction env i items seen w rule: begin_items.induct)
  case (2 env i p src items seen w)
  have "stored (names_from i) v (fst (begin_items env (Suc i) items (insert (target_key env p) seen) v))" for v
    using "2.IH" names_from_simps(3) stored_mono by blast
  moreover have "stored (names_from i) v (fst (stage_item env i src e v))" for v and e :: "'a setup_entry"
    by (rule stored_mono[OF stage_item_stored]) (simp add: names_from_simps)
  moreover have "stored (names_from i) v (fst (backup_item env i p v))" for v
    by (rule stored_mono[OF backup_item_stored]) (simp add: names_from_simps)
  ultimately show ?case
    unfolding begin_items.simps by (intro andthen_stored quiet_stored[OF hash_quiet(3)]) simp_all
qed simp

lemma entry_of_stored: "stored ns w w' \<Longrightarrow> entry_of env i p src w' e = entry_of env i p src w e"
  by (simp add: entry_of_def stored_def)

lemma backed_stored:
  "stored ns w w' \<Longrightarrow> backed env [e] w \<Longrightarrow> en_backup e \<notin> ns \<Longrightarrow> backed env [e] w'"
  by (auto simp: backed_def stored_def)

lemma staged_root_stored:
  "stored ns w w' \<Longrightarrow> staged_root env [e] w \<Longrightarrow> en_staged e \<notin> ns \<Longrightarrow> staged_root env [e] w'"
  by (auto simp: staged_root_def stored_def)

lemma begin_items_Some:
  assumes "begin_items env i items seen w = (w', Some es)"
  shows "length es = length items \<and> (\<forall>k<length items. entry_of env (i + k) (fst (items ! k)) (snd (items ! k)) w (es ! k)) \<and>
    backed env es w' \<and> staged_root env es w' \<and> distinct (map (\<lambda>e. target_key env (en_target e)) es) \<and>
    (\<forall>e\<in>set es. target_key env (en_target e) \<notin> seen \<and> se_valid env (en_target e))"
  using assms
proof (induction items arbitrary: i seen w w' es)
  case (Cons item items)
  obtain p src where item: "item = (p, src)" by fastforce
  obtain w1 w2 e w3 e1 rest where
    valid: "validate_target env p w = (w1, Some ())" and new: "target_key env p \<notin> seen" and
    b: "backup_item env i p w1 = (w2, Some e)" and s: "stage_item env i src e w2 = (w3, Some e1)" and
    r: "begin_items env (Suc i) items (insert (target_key env p) seen) w3 = (w', Some rest)" and es: "es = e1 # rest"
    using Cons.prems unfolding item begin_items.simps by (auto dest!: andthen_Some)
  have q: "quiet w w1" "se_valid env p" using validate_target_Some[OF valid] by auto
  have s2: "stored {backup_name i} w1 w2" using backup_item_stored[of i w1 env p] b by simp
  have s3: "stored {staged_name i} w2 w3" using stage_item_stored[of i w2 env src e] s by simp
  have s4: "stored (names_from (Suc i)) w3 w'"
    using begin_items_stored[of "Suc i" w3 env items "insert (target_key env p) seen"] r by simp
  have all: "stored UNIV w w3"
    using quiet_stored[OF q(1)] s2 s3 by (metis stored_mono stored_trans top_greatest)
  note B = backup_item_Some[OF b]
  have "entry_of env i p '''' w2 e" using B entry_of_stored[OF s2] by blast
  note S = stage_item_Some[OF s this]
  have E: "entry_of env i p src w e1" using S entry_of_stored[OF s2] entry_of_stored[OF quiet_stored[OF q(1)]] by blast
  note IH = Cons.IH[OF r]
  have len: "length es = length (item # items)" using IH es by simp
  have ent: "entry_of env (i + k) (fst ((item # items) ! k)) (snd ((item # items) ! k)) w (es ! k)" if "k < length (item # items)" for k
    using that IH E entry_of_stored[OF all] by (cases k) (auto simp: item es)
  have name: "en_backup e1 = backup_name i" "en_staged e1 \<noteq> '''' \<Longrightarrow> en_staged e1 = staged_name i"
    using E by (auto simp: entry_of_def split: if_splits)
  have "en_backup e = backup_name i" using B by (simp add: entry_of_def)
  then have "backed env [e1] w2" using B S name by (simp add: backed_def)
  then have "backed env [e1] w3" by (rule backed_stored[OF s3]) (simp add: name names_distinct)
  then have bk: "backed env [e1] w'" by (rule backed_stored[OF s4]) (simp add: name names_from_simps)
  have "staged_root env [e1] w'"
  proof (cases "en_staged e1 = ''''")
    case False
    then have "en_staged e1 \<notin> names_from (Suc i)" using name(2) names_from_simps(5) by simp
    then show ?thesis using staged_root_stored[OF s4] S by blast
  qed (simp add: staged_root_def)
  moreover have "backed env es w'" using bk IH by (auto simp: es backed_def)
  moreover have "en_target e1 = p" using E by (simp add: entry_of_def)
  ultimately have "staged_root env es w'" "backed env es w'" "distinct (map (\<lambda>e. target_key env (en_target e)) es)"
    "\<forall>e\<in>set es. target_key env (en_target e) \<notin> seen \<and> se_valid env (en_target e)"
    using IH new q(2) by (auto simp: es staged_root_def)
  then show ?case using len ent by blast
qed (simp add: backed_def staged_root_def)

text \<open>A world without an open transaction.\<close>

definition idle_world :: "('m, 's) world \<Rightarrow> bool" where
  "idle_world w = (case w_journal w of None \<Rightarrow> True | Some j \<Rightarrow> final_phase (jr_phase j))"

lemma recover_idle: "idle_world w \<Longrightarrow> stored UNIV w (fst (recover env w))"
  using load_quiet[of w env]
  by (auto simp: recover_def idle_world_def stored_def cleanup_same split: prod.splits load_result.splits
      dest!: load_Loaded dest: quietD)

lemma begin_items_untouched: "stored UNIV v (fst (begin_items env 0 items {} v))"
  by (rule stored_mono[OF begin_items_stored]) simp


lemma begin_setup_Some:
  assumes idle: "idle_world w" and run: "begin_setup env items w = (w', Some ())"
  shows "\<exists>j. plan_for env (w_files w) (w_meta w) (w_system w) j \<and>
    in_phase env (w_files w) (w_meta w) (w_system w) j ''prepared'' w' \<and> staged_root env (jr_items j) w' \<and>
    length (jr_items j) = length items \<and>
    (\<forall>k<length items. entry_of env k (fst (items ! k)) (snd (items ! k)) w (jr_items j ! k))"
proof -
  obtain w1 w3 es w4 s where
    r: "recover env w = (w1, Some ())" and len: "items \<noteq> []" "length items \<le> 64" and
    b: "begin_items env 0 items {} w1 = (w3, Some es)" and l: "look (\<lambda>w. Some (w_system w)) w3 = (w4, Some s)" and
    sv: "save \<lparr>jr_version = 1, jr_phase = ''prepared'', jr_items = es, jr_system = Some s\<rparr> w4 = (w', Some ())"
    using run unfolding begin_setup_def by (auto dest!: andthen_Some)
  define j where "j = \<lparr>jr_version = 1, jr_phase = ''prepared'', jr_items = es, jr_system = Some s\<rparr>"
  have s1: "stored UNIV w w1" using recover_idle[OF idle, of env] r by simp
  have s3: "stored UNIV w1 w3" using begin_items_untouched[of w1 env items] b by simp
  note L = look_Some[OF l]
  note E = begin_items_Some[OF b]
  note S = save_cases[OF sv]
  have same: "w_files w' = w_files w" "w_meta w' = w_meta w" "w_special w' = w_special w" "s = w_system w" "w_root w' = w_root w3"
    using s1 s3 L S by (auto simp: stored_def dest!: quietD)
  have len': "length es = length items" using E by simp
  have ent: "entry_of env k (fst (items ! k)) (snd (items ! k)) w (es ! k)" if "k < length items" for k
    using E that entry_of_stored[OF s1] by (metis add_0)
  have each: "\<exists>k p src. entry_of env k p src w e" if "e \<in> set es" for e
    using that ent len' by (metis in_set_conv_nth)
  have names: "en_backup (es ! k) = backup_name k \<and> (en_staged (es ! k) = '''' \<or> en_staged (es ! k) = staged_name k)"
    if "k < length es" for k using ent[of k] that len' by (auto simp: entry_of_def split: if_splits)
  have old: "se_valid env (en_target e) \<and>
      (if en_existed e
       then map_option (se_sha env) (w_files w (en_target e)) = Some (en_old_hash e) \<and> en_metadata e = Some (w_meta w (en_target e))
       else w_files w (en_target e) = None) \<and> \<not> w_special w (en_target e)" if "e \<in> set es" for e
    using each[OF that] E that by (auto simp: entry_of_def)
  have "plan_for env (w_files w) (w_meta w) (w_system w) j"
    using len len' names old E same(4) by (auto simp: plan_for_def j_def)
  moreover have "in_phase env (w_files w) (w_meta w) (w_system w) j ''prepared'' w'"
    using S old E same by (auto simp: in_phase_def j_def setup_phases_def backed_def)
  moreover have "staged_root env (jr_items j) w'" using E same(5) by (simp add: staged_root_def j_def)
  ultimately show ?thesis using len' ent by (intro exI[of _ j]) (simp add: j_def)
qed

section \<open>Runs\<close>

lemma run_setup_keeps:
  assumes "in_phase env F M S j ph w" "plan_for env F M S j" "run_setup env c w = (w', r)"
  shows "\<exists>ph'. in_phase env F M S j ph' w' \<and>
    (final_phase ph \<longrightarrow> ph' = ph \<and> w_files w' = w_files w \<and> w_meta w' = w_meta w \<and> w_system w' = w_system w)"
proof (cases c)
  case Apply
  then show ?thesis using apply_keeps[OF assms(1)] assms(3) by (force dest: quietD)
next
  case Commit
  then show ?thesis using commit_keeps[OF assms(1)] assms(3) by (force dest: quietD)
next
  case Rollback
  then show ?thesis using rollback_keeps[OF assms(1,2)] assms(3) by (force dest: quietD)
next
  case Recover
  then show ?thesis using recover_keeps[OF assms(1,2)] assms(3) by force
qed

lemma setup_step_keeps:
  assumes "setup_step env w w'" "in_phase env F M S j ph w" "plan_for env F M S j"
  shows "\<exists>ph'. in_phase env F M S j ph' w' \<and>
    (final_phase ph \<longrightarrow> ph' = ph \<and> w_files w' = w_files w \<and> w_meta w' = w_meta w \<and> w_system w' = w_system w)"
  using assms(1)
proof cases
  case (call c as r)
  have "in_phase env F M S j ph (w\<lparr>w_answers := as\<rparr>)" using assms(2) by simp
  from run_setup_keeps[OF this assms(3) call] show ?thesis by simp
next
  case (installer p b m)
  then have open_p: "\<not> final_phase ph" "p \<in> plan_targets j" using assms(2) by (auto simp: open_target_def in_phase_def)
  have "in_phase env F M S j ph w'"
    by (rule in_phase_frame[OF assms(2) open_p(1)]) (use installer(1) open_p(2) in \<open>auto simp: frame_def\<close>)
  then show ?thesis using open_p by blast
next
  case (services p s)
  then have open_p: "\<not> final_phase ph" using assms(2) by (auto simp: open_target_def in_phase_def)
  have "in_phase env F M S j ph w'"
    by (rule in_phase_frame[OF assms(2) open_p(1)]) (use services(1) in \<open>auto simp: frame_def\<close>)
  then show ?thesis using open_p by blast
qed

lemma setup_run_keeps:
  assumes "setup_run env w w'" "in_phase env F M S j ph w" "plan_for env F M S j"
  shows "\<exists>ph'. in_phase env F M S j ph' w' \<and>
    (final_phase ph \<longrightarrow> ph' = ph \<and> w_files w' = w_files w \<and> w_meta w' = w_meta w \<and> w_system w' = w_system w)"
  using assms(1,2)
proof (induction arbitrary: ph)
  case (start w)
  then show ?case by blast
next
  case (step w w' w'')
  then obtain ph' where ph': "in_phase env F M S j ph' w'"
    "final_phase ph \<longrightarrow> ph' = ph \<and> w_files w' = w_files w \<and> w_meta w' = w_meta w \<and> w_system w' = w_system w" by blast
  from setup_step_keeps[OF step.hyps(2) ph'(1) assms(3)] ph'(2) show ?case by (metis (no_types, lifting))
qed

section \<open>Calls without faults\<close>

lemma calm_calls [simp]:
  assumes "w_answers w = []"
  shows "ask w = (Fine, w)" "look f w = (w, f w)"
    "change g h w = (case g w of None \<Rightarrow> (w, None) | Some w2 \<Rightarrow> (w2, Some ()))"
  using assms by (simp_all add: ask_def look_def change_def)

lemma calm_load_items:
  assumes "w_answers w = []" "\<forall>k<length es. en_backup (es ! k) = backup_name (i + k) \<and>
      (en_staged (es ! k) = '''' \<or> en_staged (es ! k) = staged_name (i + k))"
    "distinct (map (\<lambda>e. target_key env (en_target e)) es)" "\<forall>e\<in>set es. target_key env (en_target e) \<notin> seen \<and> se_valid env (en_target e)"
  shows "load_items env final i es seen w = (w, Some ())"
  using assms
proof (induction es arbitrary: i seen)
  case (Cons e es)
  have "en_backup e = backup_name i \<and> (en_staged e = '''' \<or> en_staged e = staged_name i)" using Cons.prems(2)[rule_format, of 0] by simp
  moreover have "load_items env final (Suc i) es (insert (target_key env (en_target e)) seen) w = (w, Some ())"
  proof (rule Cons.IH[OF Cons.prems(1)])
    show "\<forall>k<length es. en_backup (es ! k) = backup_name (Suc i + k) \<and> (en_staged (es ! k) = [] \<or> en_staged (es ! k) = staged_name (Suc i + k))"
    proof (intro allI impI)
      fix k assume "k < length es"
      then show "en_backup (es ! k) = backup_name (Suc i + k) \<and> (en_staged (es ! k) = [] \<or> en_staged (es ! k) = staged_name (Suc i + k))"
        using Cons.prems(2)[rule_format, of "Suc k"] by simp
    qed
  qed (use Cons.prems(3,4) in \<open>auto simp: image_iff\<close>)
  ultimately show ?case
    using Cons.prems(1,4) by (auto simp: Let_def andthen_def validate_target_def ensure_def give_def)
qed simp

lemma calm_load:
  assumes "w_answers w = []" "in_phase env F M S j ph w" "plan_for env F M S j"
  shows "load env w = (w, Loaded (j\<lparr>jr_phase := ph\<rparr>))"
proof -
  have "load_items env (final_phase ph) 0 (jr_items j) {} w = (w, Some ())"
    using assms(3) by (intro calm_load_items[OF assms(1)]) (auto simp: plan_for_def)
  then show ?thesis using assms by (auto simp: load_def in_phase_def plan_for_def not_less[symmetric])
qed

lemma calm_verify_backups:
  assumes "w_answers w = []" "backed env es w"
  shows "verify_backups env es w = (w, Some ())"
  using assms
  by (induction es) (auto simp: backed_Cons andthen_def hash_root_def ensure_def split: option.splits)

lemma calm_rollback_item:
  assumes "w_answers w = []" "backed env [e] w" "se_valid env (en_target e)" "\<not> w_special w (en_target e)"
  shows "\<exists>w'. rollback_item env e w = (w', Some ()) \<and> w_answers w' = []"
proof (cases "en_existed e")
  case True
  then obtain b m where "w_root w (en_backup e) = Some b" "en_metadata e = Some m" using assms(2) by (auto simp: backed_def)
  then show ?thesis using True assms(1,3,4)
    by (auto simp: rollback_item_def andthen_def validate_target_def hash_target_def give_def prepare_target_def
        copy_to_target_def restore_metadata_def)
next
  case False
  then show ?thesis using assms(1,3,4)
    by (auto simp: rollback_item_def andthen_def validate_target_def give_def prepare_target_def remove_target_def)
qed

lemma calm_rollback_items:
  assumes "w_answers w = []" "backed env es w" "\<forall>e\<in>set es. se_valid env (en_target e) \<and> \<not> w_special w (en_target e)"
  shows "\<exists>w'. rollback_items env es w = (w', Some ()) \<and> w_answers w' = []"
  using assms
proof (induction es arbitrary: w)
  case (Cons e es)
  obtain w1 where w1: "rollback_item env e w = (w1, Some ())" "w_answers w1 = []"
    using calm_rollback_item[of w env e] Cons.prems by (auto simp: backed_def)
  have f: "frame {en_target e} w w1" using rollback_item_frame[of e w env] w1(1) by simp
  have "\<exists>w'. rollback_items env es w1 = (w', Some ()) \<and> w_answers w' = []"
    using Cons.prems(2,3) f by (intro Cons.IH w1(2)) (auto simp: backed_Cons backed_root[OF frame_root[OF f]] frame_def)
  then show ?case using w1(1) by (auto simp: andthen_def)
qed simp

lemma calm_rollback:
  assumes calm: "w_answers w = []" and inp: "in_phase env F M S j ph w" and plan: "plan_for env F M S j"
  shows "\<exists>w'. rollback env w = (w', Some ()) \<and> w_answers w' = []"
proof (cases "final_phase ph")
  case True
  then show ?thesis using calm_load[OF assms] calm by (simp add: rollback_def)
next
  case False
  let ?w = "w\<lparr>w_journal := Some (j\<lparr>jr_phase := ''rolling-back''\<rparr>), w_system := se_quiesce env (w_system w)\<rparr>"
  have "backed env (jr_items j) ?w" using inp False by (simp add: in_phase_def backed_def)
  moreover have "\<forall>e\<in>set (jr_items j). se_valid env (en_target e) \<and> \<not> w_special ?w (en_target e)"
    using inp plan by (auto simp: in_phase_def plan_for_def)
  ultimately obtain w' where w': "rollback_items env (jr_items j) ?w = (w', Some ())" "w_answers w' = []"
    using calm_rollback_items[of ?w env "jr_items j"] calm by auto
  have "jr_system j = Some S" using plan by (simp add: plan_for_def)
  then show ?thesis
    using calm_load[OF assms] calm_verify_backups[OF calm, of env "jr_items j"] inp False calm w'
    by (simp add: rollback_def andthen_def save_def quiesce_rollback_def quiesce_def restore_system_def in_phase_def)
qed







section \<open>Properties\<close>

definition committed_world :: "('m, 's) world \<Rightarrow> bool" where
  "committed_world w = (case w_journal w of None \<Rightarrow> False | Some j \<Rightarrow> jr_phase j = ''committed'')"

text \<open>Every path has its old contents (as SHA-256 sees them), old files their rights, and the
  services their configuration.\<close>

definition restored_world :: "('m, 's) setup_env \<Rightarrow> ('m, 's) world \<Rightarrow> ('m, 's) world \<Rightarrow> bool" where
  "restored_world env w0 w \<longleftrightarrow>
     (\<forall>p. map_option (se_sha env) (w_files w p) = map_option (se_sha env) (w_files w0 p) \<and>
        (w_files w0 p \<noteq> None \<longrightarrow> w_meta w p = w_meta w0 p)) \<and> w_system w = w_system w0"

lemma rolled_back_restored:
  assumes "plan_for env (w_files w0) (w_meta w0) (w_system w0) j"
    "in_phase env (w_files w0) (w_meta w0) (w_system w0) j ''rolled-back'' w"
  shows "restored_world env w0 w"
proof -
  have "map_option (se_sha env) (w_files w p) = map_option (se_sha env) (w_files w0 p) \<and>
      (w_files w0 p \<noteq> None \<longrightarrow> w_meta w p = w_meta w0 p)" for p
  proof (cases "p \<in> plan_targets j")
    case True
    then obtain e where e: "e \<in> set (jr_items j)" "p = en_target e" by blast
    then have "item_restored env e w" using assms(2) by (simp add: in_phase_def)
    then show ?thesis using assms(1) e by (auto simp: plan_for_def item_restored_def split: if_splits)
  next
    case False
    then show ?thesis using assms(2) by (simp add: in_phase_def)
  qed
  then show ?thesis using assms(2) by (simp add: restored_world_def in_phase_def)
qed

text \<open>
  C18. The installer's transaction never loses the old version. After a transaction began, whatever
  sequence of calls follows, with faults or a loss of power at any system call and half-written
  files, and whatever the installer writes to the files of the plan and the services: a rollback
  that meets no fault succeeds, and a rollback that succeeds leaves a committed installation as
  it is and otherwise restores every file, its rights and the services.
\<close>
theorem setup_recoverable:
  assumes "idle_world w0" "begin_setup env items w0 = (w1, Some ())" "setup_run env w1 w2"
  shows "(\<exists>w3. rollback env (w2\<lparr>w_answers := []\<rparr>) = (w3, Some ())) \<and>
    (\<forall>as w3. rollback env (w2\<lparr>w_answers := as\<rparr>) = (w3, Some ()) \<longrightarrow>
       (if committed_world w2 then w_files w3 = w_files w2 \<and> w_meta w3 = w_meta w2 \<and> w_system w3 = w_system w2
        else restored_world env w0 w3))"
proof -
  let ?F = "w_files w0" and ?M = "w_meta w0" and ?S = "w_system w0"
  obtain j where j: "plan_for env ?F ?M ?S j" "in_phase env ?F ?M ?S j ''prepared'' w1"
    using begin_setup_Some[OF assms(1,2)] by blast
  obtain ph where ph: "in_phase env ?F ?M ?S j ph w2" using setup_run_keeps[OF assms(3) j(2,1)] by blast
  have com: "committed_world w2 \<longleftrightarrow> ph = ''committed''" using ph by (simp add: committed_world_def in_phase_def)
  show ?thesis
  proof (intro conjI allI impI)
    show "\<exists>w3. rollback env (w2\<lparr>w_answers := []\<rparr>) = (w3, Some ())"
      using calm_rollback[of "w2\<lparr>w_answers := []\<rparr>" env ?F ?M ?S j ph] ph j(1) by auto
    fix as w3
    assume run: "rollback env (w2\<lparr>w_answers := as\<rparr>) = (w3, Some ())"
    have "in_phase env ?F ?M ?S j ph (w2\<lparr>w_answers := as\<rparr>)" using ph by simp
    from rollback_keeps[OF this j(1) run] obtain ph' where ph': "in_phase env ?F ?M ?S j ph' w3"
      "final_phase ph \<longrightarrow> ph' = ph \<and> quiet (w2\<lparr>w_answers := as\<rparr>) w3" "ph' = (if final_phase ph then ph else ''rolled-back'')"
      by blast
    show "if committed_world w2 then w_files w3 = w_files w2 \<and> w_meta w3 = w_meta w2 \<and> w_system w3 = w_system w2
        else restored_world env w0 w3"
    proof (cases "ph = ''committed''")
      case True
      then show ?thesis using com ph'(2) by (auto simp: final_phase_def dest: quietD)
    next
      case False
      then have "ph' = ''rolled-back''" using ph'(3) by (auto simp: final_phase_def split: if_splits)
      then show ?thesis using rolled_back_restored[OF j(1)] ph'(1) com False by simp
    qed
  qed
qed

lemma installed_payload:
  assumes "in_phase env F M S j ''committed'' w" "k < length items" "length (jr_items j) = length items"
    "entry_of env k (fst (items ! k)) (snd (items ! k)) w0 (jr_items j ! k)" "snd (items ! k) \<noteq> ''''"
  shows "map_option (se_sha env) (w_files w (fst (items ! k))) = map_option (se_sha env) (w_files w0 (snd (items ! k)))"
proof -
  have "item_installed env (jr_items j ! k) w" using assms(1-3) by (simp add: in_phase_def)
  then show ?thesis using assms(4,5) names_distinct(4) by (auto simp: entry_of_def item_installed_def)
qed

text \<open>
  C19. A commit is durable: once it has reported success, every payload of the plan is in place with
  the contents that were given when the transaction began, and no later call, rollbacks and
  recoveries with any faults included, changes an installed file, its rights or the services.
\<close>
theorem setup_commit_durable:
  assumes "idle_world w0" "begin_setup env items w0 = (w1, Some ())" "setup_run env w1 w2"
    "commit_setup env (w2\<lparr>w_answers := as\<rparr>) = (w3, Some ())" "setup_run env w3 w4"
  shows "w_files w4 = w_files w3 \<and> w_meta w4 = w_meta w3 \<and> w_system w4 = w_system w3 \<and>
    (\<forall>k<length items. snd (items ! k) \<noteq> '''' \<longrightarrow>
       map_option (se_sha env) (w_files w4 (fst (items ! k))) = map_option (se_sha env) (w_files w0 (snd (items ! k))))"
proof -
  let ?F = "w_files w0" and ?M = "w_meta w0" and ?S = "w_system w0"
  obtain j where j: "plan_for env ?F ?M ?S j" "in_phase env ?F ?M ?S j ''prepared'' w1" "length (jr_items j) = length items"
    "\<forall>k<length items. entry_of env k (fst (items ! k)) (snd (items ! k)) w0 (jr_items j ! k)"
    using begin_setup_Some[OF assms(1,2)] by blast
  obtain ph where "in_phase env ?F ?M ?S j ph w2" using setup_run_keeps[OF assms(3) j(2,1)] by blast
  then have "in_phase env ?F ?M ?S j ph (w2\<lparr>w_answers := as\<rparr>)" by simp
  then have c3: "in_phase env ?F ?M ?S j ''committed'' w3" using commit_keeps[OF _ assms(4)] by blast
  have fin: "final_phase ''committed''" by (simp add: final_phase_def)
  obtain c4: "in_phase env ?F ?M ?S j ''committed'' w4" and
    same: "w_files w4 = w_files w3 \<and> w_meta w4 = w_meta w3 \<and> w_system w4 = w_system w3"
    using setup_run_keeps[OF assms(5) c3 j(1)] fin by auto
  show ?thesis using same installed_payload[OF c4 _ j(3)] j(4) by blast
qed



section \<open>Retrying a locked file\<close>







section \<open>A transaction\<close>

definition sample_setup :: "(nat, bool) setup_env" where
  "sample_setup = \<lparr>se_sha = map (\<lambda>b. if b = 1 then CHR ''a'' else CHR ''b''), se_clean = (\<lambda>p. p), se_valid = (\<lambda>p. True),
     se_prepare = (\<lambda>m. 0), se_quiesce = (\<lambda>s. False)\<rparr>"

definition sample_world :: "(nat, bool) world" where
  "sample_world = \<lparr>w_files = [''app'' \<mapsto> [1], ''new'' \<mapsto> [2, 2]], w_special = (\<lambda>p. False), w_meta = (\<lambda>p. 7),
     w_root = (\<lambda>n. None), w_journal = None, w_system = True, w_answers = []\<rparr>"

definition sample_items :: "(string \<times> string) list" where
  "sample_items = [(''app'', ''new'')]"

definition sample_begun :: "(nat, bool) world" where
  "sample_begun = fst (begin_setup sample_setup sample_items sample_world)"

text \<open>The power fails while the application is being overwritten.\<close>

definition sample_torn :: "(nat, bool) world" where
  "sample_torn = fst (apply_setup sample_setup
     (sample_begun\<lparr>w_answers := replicate 8 Fine @ replicate 20 (Fault False (Some [2]) (Some 3) (Some False))\<rparr>))"

lemma sample_begin: "idle_world sample_world" "begin_setup sample_setup sample_items sample_world = (sample_begun, Some ())"
proof -
  have "snd (begin_setup sample_setup sample_items sample_world) = Some ()" by code_simp
  then show "begin_setup sample_setup sample_items sample_world = (sample_begun, Some ())"
    by (simp add: sample_begun_def prod_eq_iff)
qed (simp add: idle_world_def sample_world_def)

lemma sample_run: "setup_run sample_setup sample_begun sample_torn"
proof -
  have "run_setup sample_setup Apply (sample_begun\<lparr>w_answers := replicate 8 Fine @ replicate 20 (Fault False (Some [2]) (Some 3) (Some False))\<rparr>) =
      (sample_torn, snd (apply_setup sample_setup (sample_begun\<lparr>w_answers := replicate 8 Fine @ replicate 20 (Fault False (Some [2]) (Some 3) (Some False))\<rparr>)))"
    by (simp add: sample_torn_def)
  then show ?thesis by (blast intro: setup_run.intros setup_step.call)
qed

theorem setup_recoverable_witness:
  "w_files sample_torn ''app'' = Some [2] \<and>
   (\<exists>w3. rollback sample_setup (sample_torn\<lparr>w_answers := []\<rparr>) = (w3, Some ()) \<and> restored_world sample_setup sample_world w3)"
proof -
  have torn: "w_files sample_torn ''app'' = Some [2]" "\<not> committed_world sample_torn" by code_simp+
  show ?thesis using torn setup_recoverable[OF sample_begin sample_run] by metis
qed



definition sample_applied :: "(nat, bool) world" where
  "sample_applied = fst (apply_setup sample_setup (sample_begun\<lparr>w_answers := []\<rparr>))"

definition sample_committed :: "(nat, bool) world" where
  "sample_committed = fst (commit_setup sample_setup (sample_applied\<lparr>w_answers := []\<rparr>))"

theorem setup_commit_durable_witness:
  "map_option (se_sha sample_setup) (w_files sample_committed ''app'') = Some ''bb''"
proof -
  have "snd (apply_setup sample_setup (sample_begun\<lparr>w_answers := []\<rparr>)) = Some ()"
    "snd (commit_setup sample_setup (sample_applied\<lparr>w_answers := []\<rparr>)) = Some ()" by code_simp+
  then have app: "run_setup sample_setup Apply (sample_begun\<lparr>w_answers := []\<rparr>) = (sample_applied, Some ())"
    and com: "commit_setup sample_setup (sample_applied\<lparr>w_answers := []\<rparr>) = (sample_committed, Some ())"
    by (simp_all add: sample_applied_def[symmetric] sample_committed_def[symmetric] prod_eq_iff)
  have run: "setup_run sample_setup sample_begun sample_applied"
    by (rule setup_run.step[OF setup_run.start]) (rule setup_step.call[OF app])
  from setup_commit_durable[OF sample_begin run com setup_run.start]
  have "map_option (se_sha sample_setup) (w_files sample_committed ''app'') = map_option (se_sha sample_setup) (w_files sample_world ''new'')"
    by (simp add: sample_items_def)
  also have "\<dots> = Some ''bb''" by code_simp
  finally show ?thesis .
qed

end
