(* ===== verification/SteamFramer.thy ===== *)
theory SteamFramer
  imports GoNet
begin

text \<open>
  The incremental HTTP framer of the Steam observer, \<open>steamHTTPFramer\<close> of
  \<open>engine/internal/proxy/steam_observer.go\<close>. It is fed the bytes of one direction as they are
  forwarded, in pieces of any size, and calls back with complete headers, body bytes and the
  end of every message. The three callbacks are functions on the state of whoever observes.
  Slicing with a negative length would be a panic, the result None.
\<close>

section \<open>The framer\<close>

datatype framer_state = InHeader | InBody | InCrlf | InChunk | InTrailer

record framer =
  fr_header :: bytes
  fr_remaining :: int
  fr_state :: framer_state
  fr_chunked :: bool
  fr_trailers :: int

record 'o framer_calls =
  fc_header :: "bytes \<Rightarrow> 'o \<Rightarrow> (int \<times> bool \<times> bool) \<times> 'o"
  fc_body :: "bytes \<Rightarrow> 'o \<Rightarrow> 'o"
  fc_done :: "'o \<Rightarrow> 'o"

definition new_framer :: framer where
  "new_framer = \<lparr>fr_header = [], fr_remaining = 0, fr_state = InHeader, fr_chunked = False, fr_trailers = 0\<rparr>"

definition steam_sniff_limit :: nat where
  "steam_sniff_limit = 16 * 1024"

definition crlf :: bytes where
  "crlf = [13, 10]"

definition has_suffix :: "bytes \<Rightarrow> bytes \<Rightarrow> bool" where
  "has_suffix s p = (length p \<le> length s \<and> drop (length s - length p) s = p)"

definition hex_byte :: "u8 \<Rightarrow> nat option" where
  "hex_byte b = hex_val (char_of (unat b))"

fun parse_hex_bytes :: "bytes \<Rightarrow> nat \<Rightarrow> nat option" where
  "parse_hex_bytes [] acc = Some acc"
| "parse_hex_bytes (b # bs) acc = (case hex_byte b of None \<Rightarrow> None | Some d \<Rightarrow> parse_hex_bytes bs (acc * 16 + d))"

text \<open>\<open>strings.Cut\<close> at the semicolon and \<open>strconv.ParseUint(size, 16, 63)\<close>.\<close>

definition chunk_size :: "bytes \<Rightarrow> nat option" where
  "chunk_size line =
     (let digits = takeWhile (\<lambda>b. b \<noteq> 59) line in
      if digits = [] then None
      else case parse_hex_bytes digits 0 of None \<Rightarrow> None | Some n \<Rightarrow> if n < 2 ^ 63 then Some n else None)"

text \<open>A step that takes one byte; the result is False when the framing is not understood.\<close>

definition take_crlf :: "framer \<Rightarrow> 'o \<Rightarrow> u8 \<Rightarrow> framer \<times> 'o \<times> bool" where
  "take_crlf f ob b =
     (let h = fr_header f @ [b] in
      if length h = 2 then (if h \<noteq> crlf then (f\<lparr>fr_header := h\<rparr>, ob, False)
                            else (f\<lparr>fr_header := [], fr_state := InChunk\<rparr>, ob, True))
      else (f\<lparr>fr_header := h\<rparr>, ob, True))"

definition take_line :: "'o framer_calls \<Rightarrow> framer \<Rightarrow> 'o \<Rightarrow> u8 \<Rightarrow> framer \<times> 'o \<times> bool" where
  "take_line c f ob b =
     (let h = fr_header f @ [b] in
      if 4096 < length h then (f\<lparr>fr_header := h\<rparr>, ob, False)
      else if \<not> has_suffix h crlf then (f\<lparr>fr_header := h\<rparr>, ob, True)
      else
        let line = take (length h - 2) h; f1 = f\<lparr>fr_header := []\<rparr> in
        if fr_state f = InTrailer then
          let f2 = f1\<lparr>fr_trailers := fr_trailers f + int (length line) + 2\<rparr> in
          if int steam_sniff_limit < fr_trailers f2 then (f2, ob, False)
          else if line = [] then (f2\<lparr>fr_state := InHeader\<rparr>, fc_done c ob, True) else (f2, ob, True)
        else case chunk_size line of None \<Rightarrow> (f1, ob, False)
        | Some n \<Rightarrow>
            (if n = 0 then (f1\<lparr>fr_remaining := 0, fr_state := InTrailer, fr_trailers := 0\<rparr>, ob, True)
             else (f1\<lparr>fr_remaining := int n, fr_state := InBody\<rparr>, ob, True)))"

definition take_header :: "'o framer_calls \<Rightarrow> framer \<Rightarrow> 'o \<Rightarrow> u8 \<Rightarrow> framer \<times> 'o \<times> bool" where
  "take_header c f ob b =
     (let h = fr_header f @ [b] in
      if steam_sniff_limit < length h then (f\<lparr>fr_header := h\<rparr>, ob, False)
      else if \<not> has_suffix h (crlf @ crlf) then (f\<lparr>fr_header := h\<rparr>, ob, True)
      else case fc_header c h ob of ((n, chunked, ok), ob1) \<Rightarrow>
        let f1 = f\<lparr>fr_header := []\<rparr> in
        if \<not> ok \<or> n < 0 \<and> \<not> chunked then (f1, ob1, False)
        else
          let f2 = f1\<lparr>fr_remaining := n, fr_chunked := chunked\<rparr> in
          if chunked then (f2\<lparr>fr_state := InChunk\<rparr>, ob1, True)
          else if 0 < n then (f2\<lparr>fr_state := InBody\<rparr>, ob1, True)
          else (f2, fc_done c ob1, True))"

definition take_byte :: "'o framer_calls \<Rightarrow> framer \<Rightarrow> 'o \<Rightarrow> u8 \<Rightarrow> framer \<times> 'o \<times> bool" where
  "take_byte c f ob b =
     (case fr_state f of
        InCrlf \<Rightarrow> take_crlf f ob b
      | InChunk \<Rightarrow> take_line c f ob b
      | InTrailer \<Rightarrow> take_line c f ob b
      | _ \<Rightarrow> take_header c f ob b)"

text \<open>The end of a body, or of one chunk of it.\<close>

definition take_body :: "'o framer_calls \<Rightarrow> framer \<Rightarrow> 'o \<Rightarrow> bytes \<Rightarrow> framer \<times> 'o" where
  "take_body c f ob part =
     (let ob1 = fc_body c part ob; f1 = f\<lparr>fr_remaining := fr_remaining f - int (length part)\<rparr> in
      if fr_remaining f1 \<noteq> 0 then (f1, ob1)
      else if fr_chunked f then (f1\<lparr>fr_state := InCrlf\<rparr>, ob1)
      else (f1\<lparr>fr_state := InHeader\<rparr>, fc_done c ob1))"

lemma take_body_ends: "fr_remaining f = 0 \<Longrightarrow> part = [] \<Longrightarrow> fr_state (fst (take_body c f ob part)) \<noteq> InBody"
  by (simp add: take_body_def Let_def)

lemma take_body_stays:
  assumes "take_body c f ob (take n (b # bs)) = (f1, ob1)" "n = nat (min (fr_remaining f) (1 + int (length bs)))"
    "\<not> fr_remaining f < 0" "fr_state f1 = InBody"
  shows "Suc (length bs) - n < Suc (length bs)"
proof -
  have "fr_remaining f \<noteq> 0"
    using take_body_ends[of f "take n (b # bs)" c ob] assms by (cases n) auto
  then show ?thesis using assms(2,3) by (simp add: min_def)
qed

function framer_feed :: "'o framer_calls \<Rightarrow> framer \<Rightarrow> 'o \<Rightarrow> bytes \<Rightarrow> (framer \<times> 'o \<times> bool) option" where
  "framer_feed c f ob [] = Some (f, ob, True)"
| "framer_feed c f ob (b # bs) =
     (if fr_state f = InBody then
        if fr_remaining f < 0 then None
        else
          let n = nat (min (fr_remaining f) (int (length (b # bs)))) in
          case take_body c f ob (take n (b # bs)) of (f1, ob1) \<Rightarrow> framer_feed c f1 ob1 (drop n (b # bs))
      else case take_byte c f ob b of
        (f1, ob1, True) \<Rightarrow> framer_feed c f1 ob1 bs
      | (f1, ob1, False) \<Rightarrow> Some (f1, ob1, False))"
  by pat_completeness auto

termination
proof (relation "measures [\<lambda>(c, f, ob, data). length data, \<lambda>(c, f, ob, data). if fr_state f = InBody then 1 else 0]", simp_all, goal_cases)
  case (1 c f ob b bs n f1 ob1)
  then show ?case using take_body_stays[of c f ob n b bs f1 ob1] by auto
qed

end
