(* ===== verification/SteamPool.thy ===== *)
theory SteamPool
  imports Health DualStack
begin

text \<open>
  The candidate addresses of the Steam CDN optimizer: which hosts and addresses it accepts, and
  how the answers of several adapters become a small pool (\<open>steam_cdn.go\<close>,
  \<open>steam_candidate_pool.go\<close>, \<open>steam_accounting.go\<close>, \<open>steam_speed_probe.go\<close>).
\<close>

section \<open>Hosts and addresses\<close>

definition host_label_ok :: "string \<Rightarrow> bool" where
  "host_label_ok l =
     (l \<noteq> '''' \<and> length l \<le> 63 \<and> hd l \<noteq> CHR ''-'' \<and> last l \<noteq> CHR ''-'' \<and>
      list_all (\<lambda>c. let n = of_char c :: nat in 97 \<le> n \<and> n \<le> 122 \<or> 48 \<le> n \<and> n \<le> 57 \<or> c = CHR ''-'') l)"

definition steam_hosts :: "string list" where
  "steam_hosts =
     [''cdn.mileweb.cs.steampowered.com.8686c.com'', ''cdn-ws.content.steamchina.com'', ''cdn-qc.content.steamchina.com'',
      ''cdn-ali.content.steamchina.com'', ''dl1.steam.clngaa.com'', ''gstore-y.bal.manlaxy.com'', ''xz.sycontroller.com'',
      ''gstore.val.manlaxy.com'', ''xz.pphimalayanrt.com'', ''st.dl.eccdnx.com'', ''dl.steam.clngaa.com'']"

definition string_suffix :: "string \<Rightarrow> string \<Rightarrow> bool" where
  "string_suffix s p = (length p \<le> length s \<and> drop (length s - length p) s = p)"

definition steam_download_host :: "string \<Rightarrow> bool" where
  "steam_download_host host0 =
     (let host = normalize_domain host0 in
      if 253 < length host \<or> host = '''' then False
      else if \<not> list_all host_label_ok (split_on CHR ''.'' host) then False
      else string_suffix host ''.steamcontent.com'' \<or> host \<in> set steam_hosts)"

text \<open>\<open>IsGlobalUnicast\<close> and \<open>IsPrivate\<close> of \<open>net.IP\<close>.\<close>

definition ip_global_unicast :: "bytes \<Rightarrow> bool" where
  "ip_global_unicast ip =
     ((length ip = 4 \<or> length ip = 16) \<and> as16 ip \<noteq> v4_prefix @ replicate 4 255 \<and> \<not> ip_unspecified ip \<and>
      \<not> ip_loopback ip \<and> \<not> ip_multicast ip \<and> \<not> ip_link_local ip)"

definition ip_private :: "bytes \<Rightarrow> bool" where
  "ip_private ip =
     (case to4 ip of
        Some b \<Rightarrow> b ! 0 = 10 \<or> b ! 0 = 172 \<and> and (b ! 1) 0xF0 = 16 \<or> b ! 0 = 192 \<and> b ! 1 = 168
      | None \<Rightarrow> length ip = 16 \<and> and (ip ! 0) 0xFE = 0xFC)"

definition public_cdn_ip :: "string \<Rightarrow> bool" where
  "public_cdn_ip value =
     (case parse_ip value of None \<Rightarrow> False
      | Some ip \<Rightarrow>
          if \<not> ip_global_unicast ip \<or> ip_private ip \<or> ip_loopback ip \<or> ip_link_local ip then False
          else case to4 ip of None \<Rightarrow> True
          | Some b \<Rightarrow> b ! 0 \<noteq> 0 \<and> \<not> (b ! 0 = 100 \<and> 64 \<le> b ! 1 \<and> b ! 1 \<le> 127) \<and> \<not> (b ! 0 = 198 \<and> (b ! 1 = 18 \<or> b ! 1 = 19)))"

text \<open>\<open>Unix()\<close>: seconds since 1970.\<close>

definition unix_seconds :: "time \<Rightarrow> int" where
  "unix_seconds now = now div second - 62135596800"

section \<open>Candidates\<close>

record cdn_candidate =
  cc_ip :: string
  cc_expires :: time

definition rotate_steam_candidates :: "'a list \<Rightarrow> int \<Rightarrow> 'a list" where
  "rotate_steam_candidates xs rotation =
     (if xs = [] then xs
      else
        let r = (if rotation < 0 then - (- rotation mod int (length xs)) else rotation mod int (length xs));
            offset = nat (if r < 0 then r + int (length xs) else r)
        in drop offset xs @ take offset xs)"

text \<open>The shortest expiry of every address, over all groups.\<close>

fun shortest_expiry :: "cdn_candidate list \<Rightarrow> (string \<rightharpoonup> time) \<Rightarrow> (string \<rightharpoonup> time)" where
  "shortest_expiry [] m = m"
| "shortest_expiry (c # cs) m =
     shortest_expiry cs
       (case m (cc_ip c) of
          None \<Rightarrow> m(cc_ip c \<mapsto> cc_expires c)
        | Some old \<Rightarrow> if cc_expires c < old then m(cc_ip c \<mapsto> cc_expires c) else m)"

text \<open>One round over the groups at an index; it stops when the pool is full.\<close>

fun merge_round ::
  "nat \<Rightarrow> nat \<Rightarrow> (string \<rightharpoonup> time) \<Rightarrow> cdn_candidate list list \<Rightarrow> cdn_candidate list \<Rightarrow> cdn_candidate list" where
  "merge_round limit i expires [] result = result"
| "merge_round limit i expires (g # gs) result =
     (if length g \<le> i then merge_round limit i expires gs result
      else
        let c = g ! i in
        if cc_ip c \<in> cc_ip ` set result then merge_round limit i expires gs result
        else
          let result1 = result @ [c\<lparr>cc_expires := the (expires (cc_ip c))\<rparr>] in
          if length result1 = limit then result1 else merge_round limit i expires gs result1)"

fun merge_rounds ::
  "nat \<Rightarrow> nat \<Rightarrow> nat \<Rightarrow> (string \<rightharpoonup> time) \<Rightarrow> cdn_candidate list list \<Rightarrow> cdn_candidate list \<Rightarrow> cdn_candidate list" where
  "merge_rounds limit 0 i expires gss result = result"
| "merge_rounds limit (Suc k) i expires gss result =
     (if length result < limit
      then merge_rounds limit k (Suc i) expires gss (merge_round limit i expires gss result)
      else result)"

definition merge_steam_candidate_pool :: "cdn_candidate list list \<Rightarrow> nat \<Rightarrow> cdn_candidate list" where
  "merge_steam_candidate_pool gss limit =
     merge_rounds limit 64 0 (shortest_expiry (concat gss) Map.empty) gss []"

definition merge_steam_candidates :: "cdn_candidate list list \<Rightarrow> cdn_candidate list" where
  "merge_steam_candidates gss = merge_steam_candidate_pool gss 8"

text \<open>\<open>mergeSteamSources\<close>: the pool and where every address was seen.\<close>

definition steam_sources :: "cdn_candidate list \<Rightarrow> cdn_candidate list \<Rightarrow> (string \<Rightarrow> string)" where
  "steam_sources dns_candidates observed =
     (let sources1 = fold (\<lambda>c m. m(cc_ip c := ''dns'')) dns_candidates (\<lambda>_. '''')
      in fold (\<lambda>c m. m(cc_ip c := (if m (cc_ip c) = ''dns'' then ''dns_and_session'' else ''session''))) observed sources1)"

definition merge_steam_sources ::
  "cdn_candidate list \<Rightarrow> cdn_candidate list \<Rightarrow> cdn_candidate list \<times> (string \<Rightarrow> string)" where
  "merge_steam_sources dns_candidates observed =
     (merge_steam_candidate_pool [dns_candidates, observed] 32, steam_sources dns_candidates observed)"

text \<open>\<open>steamCandidatesForAdapter\<close>.\<close>

fun adapter_candidates ::
  "adapter \<Rightarrow> string \<Rightarrow> time \<Rightarrow> cdn_candidate list \<Rightarrow> cdn_candidate list \<Rightarrow> cdn_candidate list" where
  "adapter_candidates a original now [] result = result"
| "adapter_candidates a original now (c # cs) result =
     (case parse_ip (cc_ip c) of
        None \<Rightarrow> adapter_candidates a original now cs result
      | Some ip \<Rightarrow>
          if \<not> public_cdn_ip (cc_ip c) \<or> cc_expires c \<le> now then adapter_candidates a original now cs result
          else
            let c1 = c\<lparr>cc_ip := ip_string ip\<rparr> in
            if cc_ip c1 = original \<or> cc_ip c1 \<in> cc_ip ` set result \<or> \<not> adapter_supports_network a (network_for_ip ''tcp'' (Some ip))
            then adapter_candidates a original now cs result
            else
              let result1 = result @ [c1] in
              if length result1 = 8 then result1 else adapter_candidates a original now cs result1)"

definition steam_candidates_for_adapter :: "cdn_candidate list \<Rightarrow> adapter \<Rightarrow> string \<Rightarrow> time \<Rightarrow> cdn_candidate list" where
  "steam_candidates_for_adapter pool a original now = adapter_candidates a original now pool []"

section \<open>Collecting\<close>

text \<open>
  \<open>collectSteamCandidates\<close>: the queries, one for every adapter and record type it has an address
  for; the answer of a job, None when it failed, was not asked in time or did not say when it
  expires; and the group it contributes (at most 64 addresses of the asked family). The groups
  keep the order of the jobs, whoever answered first; when the caller is done, nothing is collected.
\<close>

definition cdn_lifetime :: duration where
  "cdn_lifetime = 600000000000"

definition steam_jobs :: "adapter list \<Rightarrow> (adapter \<times> bool) list" where
  "steam_jobs adapters =
     concat (map (\<lambda>a. (if source_ip a = '''' then [] else [(a, True)]) @ (if source_ipv6 a = '''' then [] else [(a, False)])) adapters)"

fun group_addresses :: "bool \<Rightarrow> time \<Rightarrow> string list \<Rightarrow> cdn_candidate list \<Rightarrow> cdn_candidate list" where
  "group_addresses v4 expiry [] found = found"
| "group_addresses v4 expiry (value # values) found =
     (case parse_ip value of
        None \<Rightarrow> group_addresses v4 expiry values found
      | Some ip \<Rightarrow>
          if \<not> public_cdn_ip value \<or> (to4 ip \<noteq> None) \<noteq> v4 then group_addresses v4 expiry values found
          else if ip_string ip \<in> cc_ip ` set found then group_addresses v4 expiry values found
          else
            let found1 = found @ [\<lparr>cc_ip = ip_string ip, cc_expires = expiry\<rparr>] in
            if length found1 = 64 then found1 else group_addresses v4 expiry values found1)"

definition steam_group :: "time \<Rightarrow> bool \<Rightarrow> (string \<times> string list \<times> time option) option \<Rightarrow> cdn_candidate list" where
  "steam_group now v4 answer =
     (case answer of
        Some (address, addresses, Some expires) \<Rightarrow>
          let expiry = (if expires < now + cdn_lifetime then expires else now + cdn_lifetime) in
          if expiry \<le> now then [] else group_addresses v4 expiry (address # addresses) []
      | _ \<Rightarrow> [])"

definition collect_steam_candidates ::
  "bool \<Rightarrow> time \<Rightarrow> adapter list \<Rightarrow> (adapter \<times> bool \<Rightarrow> (string \<times> string list \<times> time option) option) \<Rightarrow> int option \<Rightarrow> cdn_candidate list" where
  "collect_steam_candidates parent_done now adapters answer rotation =
     (if parent_done then []
      else let gss = map (\<lambda>job. steam_group now (snd job) (answer job)) (steam_jobs adapters);
          rotated = (case rotation of None \<Rightarrow> gss | Some r \<Rightarrow> map (\<lambda>g. rotate_steam_candidates g r) gss)
      in merge_steam_candidate_pool rotated 32)"

end
