(* ===== verification/SteamObserver.thy ===== *)
theory SteamObserver
  imports SteamFramer SteamPool
begin

text \<open>
  The observer of plain HTTP connections to the Steam CDN (\<open>steam_observer.go\<close>): which requests
  may be replayed as probes (\<open>steamRequestURI\<close>), and the observer that follows the requests and
  responses of one connection, keeps the first bytes of a body as reference and counts the time
  in which nothing was outstanding. \<open>http.ReadRequest\<close>, \<open>http.ReadResponse\<close>, \<open>url.Parse\<close> and
  \<open>url.ParseQuery\<close> are functions of the environment: a message is the record of what the code
  reads of it.
\<close>

section \<open>Requests\<close>

record http_request =
  rq_proto :: nat
  rq_method :: string
  rq_length :: int
  rq_chunked :: bool
  rq_cookie :: string
  rq_authorization :: string
  rq_user :: bool
  rq_raw_path :: string
  rq_path :: string
  rq_range :: string
  rq_upgrade :: string
  rq_raw_query :: string
  rq_force_query :: bool
  rq_query :: "(string \<times> string list) list option"
  rq_host :: string
  rq_request_uri :: string

text \<open>\<open>strconv.ParseInt(v, 10, 64)\<close>.\<close>

fun digits_value :: "string \<Rightarrow> int \<Rightarrow> int option" where
  "digits_value [] acc = Some acc"
| "digits_value (c # cs) acc = (case digit_val c of None \<Rightarrow> None | Some d \<Rightarrow> digits_value cs (acc * 10 + int d))"

definition parse_int64 :: "string \<Rightarrow> int option" where
  "parse_int64 s =
     (let neg = (s \<noteq> '''' \<and> hd s = CHR ''-'');
          ds = (if s \<noteq> '''' \<and> (hd s = CHR ''-'' \<or> hd s = CHR ''+'') then tl s else s)
      in if ds = '''' then None
         else case digits_value ds 0 of None \<Rightarrow> None
         | Some n \<Rightarrow>
             let v = (if neg then - n else n) in
             if v < - (2 ^ 63) \<or> 2 ^ 63 \<le> v then None else Some v)"

text \<open>The pattern of a chunk path: \<open>/depot/<digits>/chunk/<40 hex digits>\<close>.\<close>

definition steam_chunk_pattern :: "string \<Rightarrow> bool" where
  "steam_chunk_pattern path =
     (case split_on CHR ''/'' path of
        [e, depot, n, chunk, h] \<Rightarrow>
          e = '''' \<and> depot = ''depot'' \<and> chunk = ''chunk'' \<and> n \<noteq> '''' \<and> list_all (\<lambda>c. digit_val c \<noteq> None) n \<and>
          length h = 40 \<and> list_all (\<lambda>c. hex_val c \<noteq> None) h
      | _ \<Rightarrow> False)"

definition query_get :: "(string \<times> string list) list \<Rightarrow> string \<Rightarrow> string" where
  "query_get q k = (case map_of q k of Some (v # _) \<Rightarrow> v | _ \<Rightarrow> '''')"

definition host_without_80 :: "string \<Rightarrow> string" where
  "host_without_80 host0 =
     (let host = normalize_domain host0 in
      case split_host_port host of Some (h, p) \<Rightarrow> if p = ''80'' then h else host | None \<Rightarrow> host)"

text \<open>The parameters a host's signed URLs have; None when its queries are not understood.\<close>

definition allowed_query :: "string \<Rightarrow> (string \<times> string list) list \<Rightarrow> string list option" where
  "allowed_query host q =
     (if host \<in> {''xz.pphimalayanrt.com'', ''xz.sycontroller.com''} then
        (if query_get q ''auth_key'' = '''' then None else Some [''auth_key'', ''reqhost'', ''reqaidabccty''])
      else if host \<in> {''st.dl.eccdnx.com'', ''gstore.val.manlaxy.com'', ''gstore-y.bal.manlaxy.com''} then
        Some [''expiration_time'', ''token'']
      else if host \<in> {''dl.steam.clngaa.com'', ''dl1.steam.clngaa.com''} then
        (if query_get q ''t'' = '''' \<or> query_get q ''k'' = '''' then None else Some [''t'', ''k'', ''rdkey''])
      else None)"

definition signed_query :: "time \<Rightarrow> string \<Rightarrow> (string \<times> string list) list \<Rightarrow> string" where
  "signed_query now host q =
     (case allowed_query host q of None \<Rightarrow> ''http_query''
      | Some allowed \<Rightarrow>
          if query_get q ''auth_key'' = '''' \<and> query_get q ''t'' = '''' \<and> length q \<noteq> length allowed \<or> q = [] then ''http_query''
          else if \<not> list_all (\<lambda>(k, v). k \<in> set allowed \<and> length v = 1 \<and> hd v \<noteq> '''' \<and> length (hd v) \<le> 512) q then ''http_query''
          else
            let expiry = (if query_get q ''t'' \<noteq> '''' then query_get q ''t'' else query_get q ''expiration_time'');
                expired = (expiry \<noteq> '''' \<and>
                  (case parse_int64 expiry of None \<Rightarrow> True | Some n \<Rightarrow> n \<le> unix_seconds now));
                auth = query_get q ''auth_key'';
                parts = split_on CHR ''-'' auth
            in if expired then ''http_signature_expired''
               else if auth \<noteq> '''' \<and> (length parts \<noteq> 4 \<or> parse_int64 (parts ! 0) = None) then ''http_query''
               else ''http_signed_eligible'')"

text \<open>\<open>steamRequestURI\<close>: the URI a probe may use, empty when there is none, and the reason.\<close>

definition steam_request_uri :: "time \<Rightarrow> http_request \<Rightarrow> string \<times> string" where
  "steam_request_uri now r =
     (if rq_method r \<noteq> ''GET'' then ('''', ''http_method'')
      else if 0 < rq_length r \<or> rq_chunked r then ('''', ''http_request_body'')
      else if rq_cookie r \<noteq> '''' \<or> rq_authorization r \<noteq> '''' \<or> rq_user r then ('''', ''http_credentials'')
      else if rq_raw_path r \<noteq> '''' \<or> \<not> steam_chunk_pattern (rq_path r) then ('''', ''http_path'')
      else if rq_range r \<noteq> '''' then ('''', ''http_client_range'')
      else if rq_raw_query r \<noteq> '''' \<or> rq_force_query r then
        (case rq_query r of None \<Rightarrow> ('''', ''http_query'')
         | Some q \<Rightarrow>
             let stage = signed_query now (host_without_80 (rq_host r)) q in
             if stage = ''http_signed_eligible'' then (rq_request_uri r, stage) else ('''', stage))
      else (rq_request_uri r, ''http_eligible''))"

section \<open>The observer\<close>

record http_response =
  rs_proto :: nat
  rs_status :: nat
  rs_length :: int
  rs_chunked :: bool
  rs_encoding :: string
  rs_no_body :: bool
  rs_location :: "(string \<times> string \<times> string \<times> string) option" \<comment> \<open>scheme, host, host name and port of the parsed Location\<close>

record observed_request =
  or_method :: string
  or_uri :: string
  or_at :: time

datatype observer_event =
    Noted string
  | Reference string bytes int time \<comment> \<open>the call of \<open>discoverObservedSteam\<close>\<close>
  | ResponseFailed

record watch =
  ob_pending :: "observed_request list"
  ob_current :: "observed_request option"
  ob_prefix :: bytes
  ob_total :: int
  ob_idle_total :: duration
  ob_idle_from :: "time option"
  ob_events :: "observer_event list"

record observer =
  ob_up :: framer
  ob_down :: framer
  ob_watch :: watch
  ob_stopped :: bool

record observer_env =
  oe_request :: "bytes \<Rightarrow> http_request option"
  oe_response :: "bytes \<Rightarrow> string \<Rightarrow> http_response option"
  oe_domain :: string
  oe_trial :: bool

definition new_observer :: "time \<Rightarrow> observer" where
  "new_observer now =
     \<lparr>ob_up = new_framer, ob_down = new_framer,
      ob_watch = \<lparr>ob_pending = [], ob_current = None, ob_prefix = [], ob_total = 0, ob_idle_total = 0,
        ob_idle_from = Some now, ob_events = []\<rparr>, ob_stopped = False\<rparr>"

definition noted :: "string \<Rightarrow> watch \<Rightarrow> watch" where
  "noted stage w = w\<lparr>ob_events := ob_events w @ [Noted stage]\<rparr>"

definition mark_busy :: "time \<Rightarrow> watch \<Rightarrow> watch" where
  "mark_busy now w =
     (case ob_idle_from w of None \<Rightarrow> w
      | Some t \<Rightarrow> w\<lparr>ob_idle_total := ob_idle_total w + (now - t), ob_idle_from := None\<rparr>)"

definition idle_time :: "time \<Rightarrow> observer \<Rightarrow> duration" where
  "idle_time now o1 =
     (case ob_idle_from (ob_watch o1) of None \<Rightarrow> ob_idle_total (ob_watch o1)
      | Some t \<Rightarrow> ob_idle_total (ob_watch o1) + (now - t))"

definition stop_observer :: "time \<Rightarrow> observer \<Rightarrow> observer" where
  "stop_observer now o1 =
     (if ob_stopped o1 then o1
      else o1\<lparr>ob_stopped := True,
        ob_watch := (mark_busy now (ob_watch o1))\<lparr>ob_pending := [], ob_current := None, ob_prefix := []\<rparr>,
        ob_up := (ob_up o1)\<lparr>fr_header := []\<rparr>, ob_down := (ob_down o1)\<lparr>fr_header := []\<rparr>\<rparr>)"

subsection \<open>Requests, on the way up\<close>

definition up_header :: "observer_env \<Rightarrow> time \<Rightarrow> bytes \<Rightarrow> watch \<Rightarrow> (int \<times> bool \<times> bool) \<times> watch" where
  "up_header env now h w =
     (case oe_request env h of None \<Rightarrow> ((0, False, False), w)
      | Some r \<Rightarrow>
          if rq_proto r \<noteq> 1 \<or> rq_upgrade r \<noteq> '''' \<or> 16 \<le> length (ob_pending w) then ((0, False, False), w)
          else if host_without_80 (rq_host r) \<noteq> oe_domain env then ((0, False, False), w)
          else
            case steam_request_uri now r of (uri, reason) \<Rightarrow>
              let w1 = noted reason w;
                  w2 = w1\<lparr>ob_pending := ob_pending w1 @ [\<lparr>or_method = rq_method r, or_uri = uri, or_at = now\<rparr>]\<rparr>
              in ((rq_length r, rq_chunked r, True), mark_busy now w2))"

definition up_calls :: "observer_env \<Rightarrow> time \<Rightarrow> watch framer_calls" where
  "up_calls env now = \<lparr>fc_header = up_header env now, fc_body = (\<lambda>_ w. w), fc_done = (\<lambda>w. w)\<rparr>"

subsection \<open>Responses, on the way down\<close>

definition redirect_stage :: "http_response \<Rightarrow> string" where
  "redirect_stage r =
     (case rs_location r of None \<Rightarrow> ''http_redirect_unsupported''
      | Some (scheme, host, host_name, port) \<Rightarrow>
          if scheme = '''' \<and> host = '''' then ''http_redirect_observed''
          else if scheme = ''http'' \<and> (port = '''' \<or> port = ''80'') then
            (if public_cdn_ip host_name then ''http_redirect_ip''
             else if steam_download_host host_name then ''http_redirect_observed''
             else ''http_redirect_unsupported'')
          else ''http_redirect_unsupported'')"

definition response_reason :: "time \<Rightarrow> observed_request \<Rightarrow> http_response \<Rightarrow> string" where
  "response_reason now current r =
     (if rs_status r \<noteq> 200 then ''http_response_status''
      else if rs_encoding r \<noteq> '''' then ''http_response_encoding''
      else if rs_chunked r then ''http_response_chunked''
      else if rs_length r \<le> 0 then ''http_response_length''
      else if 25000000000 < now - or_at current then ''http_response_stale''
      else '''')"

text \<open>A response that is not informational answers the oldest request.\<close>

definition begin_response ::
  "observer_env \<Rightarrow> time \<Rightarrow> observed_request \<Rightarrow> observed_request list \<Rightarrow> http_response \<Rightarrow> watch \<Rightarrow> watch" where
  "begin_response env now current rest r w =
     (let w1 = w\<lparr>ob_pending := rest, ob_total := rs_length r, ob_prefix := []\<rparr>;
          w2 = (if 300 \<le> rs_status r \<and> rs_status r < 400 then noted (redirect_stage r) w1 else w1);
          reason = response_reason now current r;
          w3 = (if reason \<noteq> '''' \<and> or_uri current \<noteq> '''' then noted reason w2 else w2);
          w4 = w3\<lparr>ob_current := Some (if reason \<noteq> '''' then current\<lparr>or_uri := ''''\<rparr> else current)\<rparr>;
          w5 = (if 400 \<le> rs_status r \<and> oe_trial env then w4\<lparr>ob_events := ob_events w4 @ [ResponseFailed]\<rparr> else w4)
      in if rs_status r = 401 \<or> rs_status r = 403 then noted ''http_signature_rejected'' w5 else w5)"

definition down_header :: "observer_env \<Rightarrow> time \<Rightarrow> bytes \<Rightarrow> watch \<Rightarrow> (int \<times> bool \<times> bool) \<times> watch" where
  "down_header env now h w =
     (case ob_pending w of [] \<Rightarrow> ((0, False, False), w)
      | current # rest \<Rightarrow>
          case oe_response env h (or_method current) of None \<Rightarrow> ((0, False, False), w)
          | Some r \<Rightarrow>
              if rs_proto r \<noteq> 1 \<or> rs_status r = 101 then ((0, False, False), w)
              else if 100 \<le> rs_status r \<and> rs_status r < 200 then ((0, False, True), w)
              else ((if rs_no_body r then 0 else rs_length r, rs_chunked r, True), begin_response env now current rest r w))"

definition down_body :: "bytes \<Rightarrow> watch \<Rightarrow> watch" where
  "down_body p w =
     (case ob_current w of None \<Rightarrow> w
      | Some current \<Rightarrow>
          if or_uri current = '''' then w
          else
            let prefix = ob_prefix w @ take (4096 - length (ob_prefix w)) p in
            if int (length prefix) = min 4096 (ob_total w)
            then w\<lparr>ob_events := ob_events w @ [Reference (or_uri current) prefix (ob_total w) (or_at current + 30000000000)],
                   ob_current := Some (current\<lparr>or_uri := ''''\<rparr>), ob_prefix := []\<rparr>
            else w\<lparr>ob_prefix := prefix\<rparr>)"

definition down_done :: "time \<Rightarrow> watch \<Rightarrow> watch" where
  "down_done now w =
     (let w1 = w\<lparr>ob_current := None, ob_prefix := []\<rparr> in
      if ob_pending w1 = [] then w1\<lparr>ob_idle_from := Some now\<rparr> else w1)"

definition down_calls :: "observer_env \<Rightarrow> time \<Rightarrow> watch framer_calls" where
  "down_calls env now = \<lparr>fc_header = down_header env now, fc_body = down_body, fc_done = down_done now\<rparr>"

subsection \<open>Operations\<close>

text \<open>\<open>feed\<close>; \<open>active\<close> says whether the optimizer still runs the generation of this connection.\<close>

definition observer_feed :: "observer_env \<Rightarrow> bool \<Rightarrow> time \<Rightarrow> bool \<Rightarrow> bytes \<Rightarrow> observer \<Rightarrow> observer option" where
  "observer_feed env active now up p o1 =
     (if ob_stopped o1 then Some o1
      else if \<not> active then Some (stop_observer now o1)
      else
        case (if up
              then map_option (\<lambda>(f, w, ok). (o1\<lparr>ob_up := f, ob_watch := w\<rparr>, ok)) (framer_feed (up_calls env now) (ob_up o1) (ob_watch o1) p)
              else map_option (\<lambda>(f, w, ok). (o1\<lparr>ob_down := f, ob_watch := w\<rparr>, ok)) (framer_feed (down_calls env now) (ob_down o1) (ob_watch o1) p))
        of None \<Rightarrow> None
        | Some (o2, ok) \<Rightarrow>
            Some (if ok then o2
                  else stop_observer now (o2\<lparr>ob_watch := noted ''http_observer_unsupported'' (ob_watch o2)\<rparr>)))"

text \<open>The timer of five seconds, \<open>expire\<close>.\<close>

definition stale_request :: "time \<Rightarrow> observed_request \<Rightarrow> observed_request" where
  "stale_request now r = (if 25000000000 \<le> now - or_at r then r\<lparr>or_uri := ''''\<rparr> else r)"

definition observer_expire :: "bool \<Rightarrow> time \<Rightarrow> observer \<Rightarrow> observer" where
  "observer_expire active now o1 =
     (if ob_stopped o1 then o1
      else if \<not> active then stop_observer now o1
      else if fr_header (ob_up o1) \<noteq> [] \<or> fr_header (ob_down o1) \<noteq> []
      then stop_observer now (o1\<lparr>ob_watch := noted ''http_header_timeout'' (ob_watch o1)\<rparr>)
      else
        let w = ob_watch o1; w1 = w\<lparr>ob_pending := map (stale_request now) (ob_pending w)\<rparr> in
        case ob_current w1 of
          Some c \<Rightarrow>
            if 25000000000 \<le> now - or_at c
            then o1\<lparr>ob_watch := w1\<lparr>ob_current := Some (c\<lparr>or_uri := ''''\<rparr>), ob_prefix := []\<rparr>\<rparr>
            else o1\<lparr>ob_watch := w1\<rparr>
        | None \<Rightarrow> o1\<lparr>ob_watch := w1\<rparr>)"


text \<open>What happens to an observer: bytes in either direction, the timer, and the end.\<close>

datatype observer_op = Feed bool time bool bytes | Expire bool time | Close time

fun observer_step :: "observer_env \<Rightarrow> observer_op \<Rightarrow> observer \<Rightarrow> observer option" where
  "observer_step env (Feed active now up p) o1 = observer_feed env active now up p o1"
| "observer_step env (Expire active now) o1 = Some (observer_expire active now o1)"
| "observer_step env (Close now) o1 = Some (stop_observer now o1)"

fun observer_run :: "observer_env \<Rightarrow> observer_op list \<Rightarrow> observer \<Rightarrow> observer option" where
  "observer_run env [] o1 = Some o1"
| "observer_run env (op # ops) o1 = (case observer_step env op o1 of None \<Rightarrow> None | Some o2 \<Rightarrow> observer_run env ops o2)"

end
