(* ===== verification/SteamFramerFacts.thy ===== *)
theory SteamFramerFacts
  imports SteamFramer
begin

text \<open>
  The lemmas of the HTTP framer: it never panics and keeps a bounded amount of bytes, what it
  reports does not depend on how the bytes are cut into pieces (for observers that do not look
  at the pieces themselves, the locale \<open>body_sink\<close>), and it finds the contents of a chunked body.
\<close>

section \<open>Well-formed states\<close>

definition framer_ok :: "framer \<Rightarrow> bool" where
  "framer_ok f \<longleftrightarrow>
     (case fr_state f of
        InHeader \<Rightarrow> length (fr_header f) \<le> steam_sniff_limit
      | InBody \<Rightarrow> fr_header f = [] \<and> 0 < fr_remaining f
      | InCrlf \<Rightarrow> length (fr_header f) < 2
      | _ \<Rightarrow> length (fr_header f) \<le> 4096)"

lemma framer_ok_new [simp]: "framer_ok new_framer"
  by (simp add: framer_ok_def new_framer_def)

lemma crlf_length [simp]: "length crlf = 2"
  by (simp add: crlf_def)

lemma take_crlf_ok:
  "framer_ok f \<Longrightarrow> fr_state f = InCrlf \<Longrightarrow> take_crlf f ob b = (f1, ob1, True) \<Longrightarrow> framer_ok f1 \<and> ob1 = ob \<and> fr_state f1 \<noteq> InBody"
  by (cases "fr_header f") (auto simp: take_crlf_def framer_ok_def Let_def split: if_splits)

lemma take_line_ok:
  "framer_ok f \<Longrightarrow> fr_state f \<in> {InChunk, InTrailer} \<Longrightarrow> take_line c f ob b = (f1, ob1, True) \<Longrightarrow> framer_ok f1"
  by (auto simp: take_line_def framer_ok_def Let_def split: if_splits option.splits)

lemma take_header_ok:
  "framer_ok f \<Longrightarrow> fr_state f = InHeader \<Longrightarrow> take_header c f ob b = (f1, ob1, True) \<Longrightarrow> framer_ok f1"
  by (auto simp: take_header_def framer_ok_def Let_def split: if_splits prod.splits)

lemma take_byte_ok:
  "framer_ok f \<Longrightarrow> fr_state f \<noteq> InBody \<Longrightarrow> take_byte c f ob b = (f1, ob1, True) \<Longrightarrow> framer_ok f1"
  by (cases "fr_state f")
    (auto simp: take_byte_def dest: take_crlf_ok take_line_ok[rotated -1] take_header_ok)

lemma take_body_ok:
  "framer_ok f \<Longrightarrow> fr_state f = InBody \<Longrightarrow> int (length part) \<le> fr_remaining f \<Longrightarrow> take_body c f ob part = (f1, ob1) \<Longrightarrow> framer_ok f1"
  by (auto simp: take_body_def framer_ok_def Let_def split: if_splits)

lemma framer_feed_ok:
  "framer_ok f \<Longrightarrow> \<exists>f1 ob1 ok. framer_feed c f ob data = Some (f1, ob1, ok) \<and> (ok \<longrightarrow> framer_ok f1)"
proof (induction c f ob data rule: framer_feed.induct)
  case (2 c f ob b bs)
  show ?case
  proof (cases "fr_state f = InBody")
    case True
    then have rem: "0 < fr_remaining f" using 2(3) by (simp add: framer_ok_def)
    define n where "n = nat (min (fr_remaining f) (int (length (b # bs))))"
    obtain f1 ob1 where t: "take_body c f ob (take n (b # bs)) = (f1, ob1)" by fastforce
    have "int (length (take n (b # bs))) \<le> fr_remaining f" using rem by (auto simp: n_def min_def)
    then have "framer_ok f1" using take_body_ok[OF 2(3) True _ t] by blast
    then have "\<exists>f2 ob2 ok. framer_feed c f1 ob1 (drop n (b # bs)) = Some (f2, ob2, ok) \<and> (ok \<longrightarrow> framer_ok f2)"
      using "2.IH"(1)[OF True _ n_def t[symmetric]] rem by simp
    moreover have "framer_feed c f ob (b # bs) = framer_feed c f1 ob1 (drop n (b # bs))"
      using True rem t by (simp add: n_def del: take_Cons drop_Cons)
    ultimately show ?thesis by simp
  next
    case False
    obtain f1 ob1 ok where t: "take_byte c f ob b = (f1, ob1, ok)" by (metis prod_cases3)
    show ?thesis
    proof (cases ok)
      case True
      then show ?thesis using "2.IH"(2)[OF False t[symmetric]] take_byte_ok[OF 2(3) False, of c ob b f1 ob1] t False by auto
    qed (use False t in auto)
  qed
qed auto

lemma framer_feed_body:
  assumes "fr_state f = InBody" "0 \<le> fr_remaining f" "data \<noteq> []" "n = nat (min (fr_remaining f) (int (length data)))"
    "take_body c f ob (take n data) = (f1, ob1)"
  shows "framer_feed c f ob data = framer_feed c f1 ob1 (drop n data)"
  using assms by (cases data) (simp_all del: take_Cons drop_Cons)

section \<open>Cutting the stream into pieces\<close>

locale body_sink =
  fixes c :: "'o framer_calls" and inv :: "'o \<Rightarrow> int \<Rightarrow> bool"
  assumes header_inv: "fc_header c h ob = ((n, chunked, True), ob1) \<Longrightarrow> if chunked then \<forall>m. inv ob1 m else 0 < n \<longrightarrow> inv ob1 n"
    and body_inv: "inv ob n \<Longrightarrow> int (length p) \<le> n \<Longrightarrow> inv (fc_body c p ob) (n - int (length p))"
    and body_any: "(\<And>m. inv ob m) \<Longrightarrow> inv (fc_body c p ob) n"
    and body_append: "inv ob n \<Longrightarrow> int (length p + length q) \<le> n \<Longrightarrow> p \<noteq> [] \<Longrightarrow> q \<noteq> [] \<Longrightarrow>
      fc_body c (p @ q) ob = fc_body c q (fc_body c p ob)"
begin

definition sink_inv :: "framer \<Rightarrow> 'o \<Rightarrow> bool" where
  "sink_inv f ob \<longleftrightarrow> framer_ok f \<and>
     (fr_state f \<noteq> InHeader \<longrightarrow> (if fr_chunked f then \<forall>m. inv ob m else fr_state f = InBody \<and> inv ob (fr_remaining f)))"

lemma take_byte_sink:
  assumes "sink_inv f ob" "fr_state f \<noteq> InBody" "take_byte c f ob b = (f1, ob1, True)"
  shows "sink_inv f1 ob1"
proof -
  have "framer_ok f" using assms(1) by (simp add: sink_inv_def)
  then have ok: "framer_ok f1" by (rule take_byte_ok[OF _ assms(2,3)])
  show ?thesis
  proof (cases "fr_state f")
    case InHeader
    then show ?thesis
      using assms ok
      by (auto simp: take_byte_def take_header_def sink_inv_def Let_def split: if_splits prod.splits dest!: header_inv)
  next
    case InCrlf
    then show ?thesis using assms ok
      by (auto simp: take_byte_def take_crlf_def sink_inv_def Let_def split: if_splits)
  next
    case InChunk
    then show ?thesis using assms ok
      by (auto simp: take_byte_def take_line_def sink_inv_def Let_def split: if_splits option.splits)
  next
    case InTrailer
    then show ?thesis using assms ok
      by (auto simp: take_byte_def take_line_def sink_inv_def Let_def split: if_splits option.splits)
  qed (use assms in simp)
qed

lemma take_body_sink:
  assumes "sink_inv f ob" "fr_state f = InBody" "int (length p) \<le> fr_remaining f" "take_body c f ob p = (f1, ob1)"
  shows "sink_inv f1 ob1"
proof -
  have ok: "framer_ok f1" using take_body_ok assms by (auto simp: sink_inv_def)
  then show ?thesis
    using assms body_inv[of ob "fr_remaining f" p] body_any[of ob p]
    by (auto simp: take_body_def sink_inv_def Let_def split: if_splits)
qed

lemma feed_sink:
  assumes "sink_inv f ob" "framer_feed c f ob p = Some (f1, ob1, True)"
  shows "sink_inv f1 ob1"
proof -
  have "c' = c \<Longrightarrow> sink_inv f ob \<Longrightarrow> framer_feed c' f ob p = Some (f1, ob1, True) \<Longrightarrow> sink_inv f1 ob1" for c'
  proof (induction c' f ob p rule: framer_feed.induct)
    case (2 c' f ob b bs)
    show ?case
    proof (cases "fr_state f = InBody")
      case True
      have rem: "0 < fr_remaining f" using 2(4) True by (simp add: sink_inv_def framer_ok_def)
      define n where "n = nat (min (fr_remaining f) (int (length (b # bs))))"
      obtain f2 ob2 where t: "take_body c' f ob (take n (b # bs)) = (f2, ob2)" by fastforce
      have "int (length (take n (b # bs))) \<le> fr_remaining f" using rem by (auto simp: n_def min_def)
      then have "sink_inv f2 ob2" using take_body_sink[OF 2(4) True] t 2(3) by blast
      moreover have "framer_feed c' f2 ob2 (drop n (b # bs)) = Some (f1, ob1, True)"
        using 2(5) framer_feed_body[OF True _ _ n_def t] rem by simp
      ultimately show ?thesis using "2.IH"(1)[OF True _ n_def t[symmetric]] rem 2(3) by simp
    next
      case False
      obtain f2 ob2 ok where t: "take_byte c' f ob b = (f2, ob2, ok)" by (metis prod_cases3)
      then have ok: ok using 2(5) False by (cases ok) auto
      with t have t1: "take_byte c f ob b = (f2, ob2, True)" using 2(3) by simp
      have "sink_inv f2 ob2" by (rule take_byte_sink[OF 2(4) False t1])
      then show ?thesis using "2.IH"(2)[OF False t[symmetric]] 2(3,5) t ok False by auto
    qed
  qed simp
  then show ?thesis using assms by blast
qed

lemma take_body_append:
  assumes "sink_inv f ob" "fr_state f = InBody" "p \<noteq> []" "q \<noteq> []" "int (length p + length q) \<le> fr_remaining f"
  shows "take_body c f ob (p @ q) = take_body c (f\<lparr>fr_remaining := fr_remaining f - int (length p)\<rparr>) (fc_body c p ob) q"
proof -
  have "inv ob (fr_remaining f)" using assms(1,2) by (auto simp: sink_inv_def split: if_splits)
  from body_append[OF this assms(5,3,4)] show ?thesis by (simp add: take_body_def Let_def algebra_simps)
qed

lemma feed_append:
  assumes "sink_inv f ob"
  shows "framer_feed c f ob (xs @ ys) =
    (case framer_feed c f ob xs of Some (f1, ob1, True) \<Rightarrow> framer_feed c f1 ob1 ys | r \<Rightarrow> r)"
proof -
  have "c' = c \<Longrightarrow> sink_inv f ob \<Longrightarrow> framer_feed c' f ob (xs @ ys) =
      (case framer_feed c' f ob xs of Some (f1, ob1, True) \<Rightarrow> framer_feed c' f1 ob1 ys | r \<Rightarrow> r)" for c'
  proof (induction c' f ob xs rule: framer_feed.induct)
    case (2 c' f ob b bs)
    let ?xs = "b # bs"
    note c' = 2(3)
    show ?case
    proof (cases "fr_state f = InBody")
      case True
      have rem: "0 < fr_remaining f" using 2(4) True by (simp add: sink_inv_def framer_ok_def)
      define n where "n = nat (min (fr_remaining f) (int (length ?xs)))"
      obtain f1 ob1 where t: "take_body c f ob (take n ?xs) = (f1, ob1)" by fastforce
      have one: "framer_feed c f ob ?xs = framer_feed c f1 ob1 (drop n ?xs)"
        by (rule framer_feed_body[OF True _ _ n_def t]) (use rem in simp_all)
      have "int (length (take n ?xs)) \<le> fr_remaining f" using rem by (auto simp: n_def min_def)
      then have inv1: "sink_inv f1 ob1" by (rule take_body_sink[OF 2(4) True _ t])
      have IH: "framer_feed c f1 ob1 (drop n ?xs @ ys) =
          (case framer_feed c f1 ob1 (drop n ?xs) of Some (f1, ob1, True) \<Rightarrow> framer_feed c f1 ob1 ys | r \<Rightarrow> r)"
        using "2.IH"(1)[OF True _ n_def t[folded c', symmetric], unfolded c'] rem inv1 by simp
      show ?thesis
      proof (cases "fr_remaining f \<le> int (length ?xs)")
        case fits: True
        then have n: "n = nat (min (fr_remaining f) (int (length (?xs @ ys))))" "n \<le> length ?xs" by (simp_all add: n_def)
        have "framer_feed c f ob (?xs @ ys) = framer_feed c f1 ob1 (drop n (?xs @ ys))"
          by (rule framer_feed_body[OF True _ _ n(1)]) (use rem t n(2) in \<open>simp_all del: take_Cons drop_Cons append_Cons\<close>)
        then show ?thesis using IH one n(2) unfolding c' by (simp del: take_Cons drop_Cons append_Cons)
      next
        case False
        then have n: "n = length ?xs" by (simp add: n_def)
        then have f1: "f1 = f\<lparr>fr_remaining := fr_remaining f - int (length ?xs)\<rparr>" "ob1 = fc_body c ?xs ob"
          using t False by (auto simp: take_body_def Let_def split: if_splits)
        have all: "framer_feed c f ob ?xs = Some (f1, ob1, True)" using one n by simp
        show ?thesis
        proof (cases "ys = []")
          case True
          then show ?thesis using all unfolding c' by simp
        next
          case ys: False
          define m where "m = nat (min (fr_remaining f1) (int (length ys)))"
          have m: "0 < m" using f1 False ys by (cases ys) (auto simp: m_def min_def)
          have part: "take m ys \<noteq> []" "int (length ?xs + length (take m ys)) \<le> fr_remaining f"
            using m ys f1 False by (auto simp: m_def min_def)
          obtain f2 ob2 where t2: "take_body c f1 ob1 (take m ys) = (f2, ob2)" by fastforce
          have "framer_feed c f1 ob1 ys = framer_feed c f2 ob2 (drop m ys)"
            by (rule framer_feed_body[OF _ _ ys m_def t2]) (use f1 True False in simp_all)
          moreover have "framer_feed c f ob (?xs @ ys) = framer_feed c f2 ob2 (drop (length ?xs + m) (?xs @ ys))"
          proof (rule framer_feed_body[OF True])
            show "length ?xs + m = nat (min (fr_remaining f) (int (length (?xs @ ys))))" using f1 False by (simp add: m_def)
            have "take_body c f ob (?xs @ take m ys) = take_body c f1 ob1 (take m ys)"
              unfolding f1 by (rule take_body_append[OF 2(4) True]) (use part in simp_all)
            then show "take_body c f ob (take (length ?xs + m) (?xs @ ys)) = (f2, ob2)"
              using t2 by (simp del: take_Cons append_Cons)
          qed (use rem in simp_all)
          ultimately show ?thesis using all unfolding c' by (simp del: append_Cons)
        qed
      qed
    next
      case False
      obtain f1 ob1 ok where t: "take_byte c f ob b = (f1, ob1, ok)" by (metis prod_cases3)
      show ?thesis
      proof (cases ok)
        case True
        then have "sink_inv f1 ob1" using take_byte_sink[OF 2(4) False] t by simp
        then show ?thesis using "2.IH"(2)[OF False t[folded c', symmetric], unfolded c'] t True False unfolding c' by simp
      qed (use False t c' in simp)
    qed
  qed simp
  then show ?thesis using assms by blast
qed

end

section \<open>Chunked bodies\<close>

text \<open>The chunks of a body, each with its size line, and their bytes on the wire with the last
  line (a chunk of size 0) and no trailers.\<close>

definition chunk_ok :: "bytes \<times> bytes \<Rightarrow> bool" where
  "chunk_ok ch = (case ch of (line, data) \<Rightarrow> data \<noteq> [] \<and> chunk_size line = Some (length data) \<and> 10 \<notin> set line \<and> length line \<le> 4094)"

definition chunk_bytes :: "bytes \<times> bytes \<Rightarrow> bytes" where
  "chunk_bytes ch = fst ch @ crlf @ snd ch @ crlf"

definition chunked_bytes :: "(bytes \<times> bytes) list \<Rightarrow> bytes" where
  "chunked_bytes chunks = concat (map chunk_bytes chunks) @ [48] @ crlf @ crlf"

lemma has_suffix_snoc: "has_suffix (h @ [b]) crlf \<longleftrightarrow> b = 10 \<and> h \<noteq> [] \<and> last h = 13"
  by (cases h rule: rev_cases) (auto simp: has_suffix_def crlf_def)

lemma feed_line_part:
  assumes "fr_state f \<in> {InChunk, InTrailer}" "10 \<notin> set q" "length (fr_header f) + length q \<le> 4096"
  shows "framer_feed c f ob (q @ rest) = framer_feed c (f\<lparr>fr_header := fr_header f @ q\<rparr>) ob rest"
  using assms
proof (induction q arbitrary: f)
  case (Cons b q)
  have "take_byte c f ob b = (f\<lparr>fr_header := fr_header f @ [b]\<rparr>, ob, True)"
    using Cons.prems by (auto simp: take_byte_def take_line_def has_suffix_snoc Let_def)
  then have "framer_feed c f ob ((b # q) @ rest) = framer_feed c (f\<lparr>fr_header := fr_header f @ [b]\<rparr>) ob (q @ rest)"
    using Cons.prems(1) by auto
  also have "\<dots> = framer_feed c (f\<lparr>fr_header := fr_header f @ b # q\<rparr>) ob rest"
    using Cons.IH[of "f\<lparr>fr_header := fr_header f @ [b]\<rparr>"] Cons.prems by simp
  finally show ?case .
qed simp

lemma feed_chunk_line:
  assumes "fr_state f = InChunk" "fr_header f = []" "10 \<notin> set line" "length line \<le> 4094" "chunk_size line = Some n"
  shows "framer_feed c f ob (line @ crlf @ rest) =
    framer_feed c (f\<lparr>fr_header := [], fr_remaining := int n, fr_state := (if n = 0 then InTrailer else InBody),
      fr_trailers := (if n = 0 then 0 else fr_trailers f)\<rparr>) ob rest"
proof -
  let ?f = "f\<lparr>fr_header := line @ [13]\<rparr>"
  have "framer_feed c f ob (line @ crlf @ rest) = framer_feed c f ob ((line @ [13]) @ [10] @ rest)" by (simp add: crlf_def)
  also have "\<dots> = framer_feed c ?f ob ([10] @ rest)"
    by (subst feed_line_part) (use assms in auto)
  also have "take_byte c ?f ob 10 = (f\<lparr>fr_header := [], fr_remaining := int n, fr_state := (if n = 0 then InTrailer else InBody),
      fr_trailers := (if n = 0 then 0 else fr_trailers f)\<rparr>, ob, True)"
    using assms by (cases f) (simp add: take_byte_def take_line_def has_suffix_snoc[of "line @ [13]" 10, simplified] Let_def)
  then have "framer_feed c ?f ob ([10] @ rest) = framer_feed c (f\<lparr>fr_header := [], fr_remaining := int n,
      fr_state := (if n = 0 then InTrailer else InBody), fr_trailers := (if n = 0 then 0 else fr_trailers f)\<rparr>) ob rest"
    using assms(1) by simp
  finally show ?thesis .
qed

lemma feed_chunk:
  assumes "fr_state f = InChunk" "fr_header f = []" "fr_chunked f" "chunk_ok ch"
  shows "framer_feed c f ob (chunk_bytes ch @ rest) = framer_feed c (f\<lparr>fr_remaining := 0\<rparr>) (fc_body c (snd ch) ob) rest"
proof -
  obtain line data where ch: "ch = (line, data)" by fastforce
  have ok: "data \<noteq> []" "chunk_size line = Some (length data)" "10 \<notin> set line" "length line \<le> 4094"
    using assms(4) by (simp_all add: chunk_ok_def ch)
  let ?f = "f\<lparr>fr_header := [], fr_remaining := int (length data), fr_state := InBody\<rparr>"
  let ?g = "f\<lparr>fr_header := [], fr_remaining := 0, fr_state := InCrlf\<rparr>"
  have "framer_feed c f ob (chunk_bytes ch @ rest) = framer_feed c ?f ob (data @ crlf @ rest)"
    using feed_chunk_line[OF assms(1,2) ok(3,4,2), of c ob "data @ crlf @ rest"] ok(1) by (simp add: chunk_bytes_def ch)
  also have "\<dots> = framer_feed c ?g (fc_body c data ob) (drop (length data) (data @ crlf @ rest))"
    by (rule framer_feed_body) (use assms(3) ok(1) in \<open>auto simp: take_body_def Let_def\<close>)
  also have "\<dots> = framer_feed c ?g (fc_body c data ob) ([13, 10] @ rest)" by (simp add: crlf_def)
  also have "\<dots> = framer_feed c (f\<lparr>fr_remaining := 0\<rparr>) (fc_body c data ob) rest"
    using assms(1,2) by (cases f) (simp add: take_byte_def take_crlf_def crlf_def Let_def)
  finally show ?thesis by (simp add: ch)
qed

lemma feed_last_chunk:
  assumes "fr_state f = InChunk" "fr_header f = []"
  shows "framer_feed c f ob ([48] @ crlf @ crlf @ rest) =
    framer_feed c (f\<lparr>fr_remaining := 0, fr_state := InHeader, fr_trailers := 2\<rparr>) (fc_done c ob) rest"
proof -
  have "chunk_size [48] = Some 0" by (simp add: chunk_size_def hex_byte_def hex_val_def of_char_of[where 'a=nat])
  then have "framer_feed c f ob ([48] @ crlf @ crlf @ rest) =
      framer_feed c (f\<lparr>fr_header := [], fr_remaining := 0, fr_state := InTrailer, fr_trailers := 0\<rparr>) ob ([13, 10] @ rest)"
    using feed_chunk_line[OF assms, of "[48]" 0 c ob "crlf @ rest"] by (simp add: crlf_def)
  also have "\<dots> = framer_feed c (f\<lparr>fr_remaining := 0, fr_state := InHeader, fr_trailers := 2\<rparr>) (fc_done c ob) rest"
    using assms by (cases f) (simp add: take_byte_def take_line_def has_suffix_def crlf_def Let_def steam_sniff_limit_def)
  finally show ?thesis .
qed

lemma feed_chunked:
  assumes "fr_state f = InChunk" "fr_header f = []" "fr_chunked f" "list_all chunk_ok chunks"
  shows "\<exists>f'. framer_feed c f ob (chunked_bytes chunks @ rest) =
      framer_feed c f' (fc_done c (fold (fc_body c) (map snd chunks) ob)) rest \<and>
    fr_state f' = InHeader \<and> fr_header f' = [] \<and> fr_remaining f' = 0"
  using assms
proof (induction chunks arbitrary: f ob)
  case Nil
  have "framer_feed c f ob (chunked_bytes [] @ rest) =
      framer_feed c (f\<lparr>fr_remaining := 0, fr_state := InHeader, fr_trailers := 2\<rparr>) (fc_done c ob) rest"
    using feed_last_chunk[OF Nil(1,2), of c ob rest] by (simp add: chunked_bytes_def)
  then show ?case using Nil by (intro exI[of _ "f\<lparr>fr_remaining := 0, fr_state := InHeader, fr_trailers := 2\<rparr>"]) simp
next
  case (Cons ch chunks)
  have "chunked_bytes (ch # chunks) @ rest = chunk_bytes ch @ (chunked_bytes chunks @ rest)" by (simp add: chunked_bytes_def)
  then have "framer_feed c f ob (chunked_bytes (ch # chunks) @ rest) =
      framer_feed c (f\<lparr>fr_remaining := 0\<rparr>) (fc_body c (snd ch) ob) (chunked_bytes chunks @ rest)"
    using feed_chunk[OF Cons.prems(1-3), of ch] Cons.prems(4) by simp
  then show ?case using Cons.IH[of "f\<lparr>fr_remaining := 0\<rparr>" "fc_body c (snd ch) ob"] Cons.prems by simp
qed

end
