(* ===== verification/SteamObserverFacts.thy ===== *)
theory SteamObserverFacts
  imports SteamObserver SteamFramerFacts
begin

text \<open>
  The observer: both directions are sinks of the framer, so nothing depends on how the bytes are
  cut; whatever is fed it never panics and stays within its bounds; a body of a known length
  gives exactly its first bytes as the reference of the request it answers.
\<close>

section \<open>The callbacks as sinks\<close>

definition down_inv :: "watch \<Rightarrow> int \<Rightarrow> bool" where
  "down_inv w n =
     (case ob_current w of None \<Rightarrow> True
      | Some c \<Rightarrow> or_uri c \<noteq> '''' \<longrightarrow> int (length (ob_prefix w)) + n = ob_total w \<and> length (ob_prefix w) < 4096)"

lemma noted_simps [simp]:
  "ob_pending (noted s w) = ob_pending w" "ob_current (noted s w) = ob_current w" "ob_prefix (noted s w) = ob_prefix w"
  "ob_total (noted s w) = ob_total w" "ob_events (noted s w) = ob_events w @ [Noted s]"
  by (simp_all add: noted_def)

lemma mark_busy_simps [simp]:
  "ob_pending (mark_busy t w) = ob_pending w" "ob_current (mark_busy t w) = ob_current w" "ob_prefix (mark_busy t w) = ob_prefix w"
  "ob_total (mark_busy t w) = ob_total w" "ob_events (mark_busy t w) = ob_events w"
  by (simp_all add: mark_busy_def split: option.splits)

lemma begin_response_simps [simp]:
  "ob_pending (begin_response env now current rest r w) = rest"
  "ob_current (begin_response env now current rest r w) =
     Some (if response_reason now current r \<noteq> '''' then current\<lparr>or_uri := ''''\<rparr> else current)"
  "ob_prefix (begin_response env now current rest r w) = []"
  "ob_total (begin_response env now current rest r w) = rs_length r"
  by (simp_all add: begin_response_def Let_def)

lemma reason_length: "response_reason now current r = '''' \<Longrightarrow> \<not> rs_chunked r \<and> 0 < rs_length r"
  by (simp add: response_reason_def split: if_splits)

text \<open>What a header that is understood does to the response in progress.\<close>

lemma down_header_cases:
  assumes "down_header env now h w = ((n, chunked, ok), w1)"
  obtains (same) "w1 = w" "n = 0" "\<not> chunked"
    | (begins) current rest r where "ob_pending w = current # rest" "oe_response env h (or_method current) = Some r" "ok"
        "w1 = begin_response env now current rest r w" "chunked = rs_chunked r" "n = (if rs_no_body r then 0 else rs_length r)"
  using assms by (auto simp: down_header_def split: list.splits option.splits if_split_asm)

lemma down_body_inv:
  assumes "down_inv w n" "int (length p) \<le> n"
  shows "down_inv (down_body p w) (n - int (length p))"
proof (cases "\<exists>c. ob_current w = Some c \<and> or_uri c \<noteq> ''''")
  case True
  then obtain c where c: "ob_current w = Some c" "or_uri c \<noteq> ''''" by blast
  have len: "int (length (ob_prefix w)) + n = ob_total w" "length (ob_prefix w) < 4096" using assms(1) c by (simp_all add: down_inv_def)
  show ?thesis
  proof (cases "length (ob_prefix w) + length p < 4096")
    case True
    then have "length p \<le> 4096 - length (ob_prefix w)" by simp
    then show ?thesis using c len True by (simp add: down_body_def down_inv_def Let_def)
  next
    case False
    then have "length (ob_prefix w @ take (4096 - length (ob_prefix w)) p) = 4096" "4096 \<le> ob_total w" using len assms(2) by auto
    then show ?thesis using c by (simp add: down_body_def down_inv_def Let_def)
  qed
next
  case False
  then show ?thesis by (auto simp: down_inv_def down_body_def split: option.splits)
qed

lemma down_body_append:
  assumes "down_inv w n" "int (length p) + int (length q) \<le> n" "q \<noteq> []"
  shows "down_body (p @ q) w = down_body q (down_body p w)"
proof (cases "\<exists>c. ob_current w = Some c \<and> or_uri c \<noteq> ''''")
  case True
  then obtain c where c: "ob_current w = Some c" "or_uri c \<noteq> ''''" by blast
  have len: "int (length (ob_prefix w)) + n = ob_total w" "length (ob_prefix w) < 4096" using assms(1) c by (simp_all add: down_inv_def)
  show ?thesis
  proof (cases "length (ob_prefix w) + length p < 4096")
    case True
    then have all: "take (4096 - length (ob_prefix w)) p = p" "take (4096 - length (ob_prefix w)) (p @ q) = p @ take (4096 - length (ob_prefix w) - length p) q"
      by simp_all
    have "1 \<le> int (length q)" using assms(3) by (cases q) simp_all
    then have "int (length (ob_prefix w) + length p) < ob_total w" using len assms(2) by linarith
    then have "int (length (ob_prefix w) + length p) \<noteq> min 4096 (ob_total w)" using True by (simp add: min_def)
    then have "down_body p w = w\<lparr>ob_prefix := ob_prefix w @ p\<rparr>" using c all(1) by (simp add: down_body_def Let_def)
    then show ?thesis using c all by (simp add: down_body_def Let_def)
  next
    case False
    then have "take (4096 - length (ob_prefix w)) (p @ q) = take (4096 - length (ob_prefix w)) p"
      "length (ob_prefix w @ take (4096 - length (ob_prefix w)) p) = 4096" "4096 \<le> ob_total w" using len assms(2) by auto
    then show ?thesis using c by (simp add: down_body_def Let_def)
  qed
next
  case False
  then show ?thesis by (auto simp: down_body_def split: option.splits)
qed

interpretation down: body_sink "down_calls env now" down_inv for env now
proof (unfold_locales, goal_cases)
  case (1 h ob n chunked ob1)
  then have "down_header env now h ob = ((n, chunked, True), ob1)" by (simp add: down_calls_def)
  then show ?case
    by (cases rule: down_header_cases) (auto simp: down_inv_def dest: reason_length)
next
  case (2 ob n p)
  then show ?case by (simp add: down_calls_def down_body_inv)
next
  case (3 ob p n)
  from 3[of 0] 3[of 1] show ?case by (simp add: down_inv_def down_calls_def down_body_def split: option.splits if_splits)
next
  case (4 ob n p q)
  then show ?case by (simp add: down_calls_def down_body_append)
qed

interpretation up: body_sink "up_calls env now" "\<lambda>_ _. True" for env now
  by unfold_locales (simp_all add: up_calls_def)

section \<open>Invariants through a feed\<close>

lemma take_line_watch: "fst (snd (take_line c f ob b)) \<in> {ob, fc_done c ob}"
  by (simp add: take_line_def Let_def split: option.split)

lemma take_header_watch:
  "fst (snd (take_header c f ob b)) \<in>
     {ob, snd (fc_header c (fr_header f @ [b]) ob), fc_done c (snd (fc_header c (fr_header f @ [b]) ob))}"
  by (simp add: take_header_def Let_def split: prod.split)

lemma take_crlf_watch: "fst (snd (take_crlf f ob b)) = ob"
  by (simp add: take_crlf_def Let_def)

lemma take_byte_inv:
  assumes "\<And>h w. P w \<Longrightarrow> P (snd (fc_header c h w))" "\<And>w. P w \<Longrightarrow> P (fc_done c w)" "P ob"
  shows "P (fst (snd (take_byte c f ob b)))"
  using take_line_watch[of c f ob b] take_header_watch[of c f ob b] assms
  by (cases "fr_state f") (auto simp: take_byte_def take_crlf_watch)

lemma feed_inv:
  assumes "\<And>h w. P w \<Longrightarrow> P (snd (fc_header c h w))" "\<And>p w. P w \<Longrightarrow> P (fc_body c p w)" "\<And>w. P w \<Longrightarrow> P (fc_done c w)"
    "P ob" "framer_feed c f ob data = Some (f1, ob1, ok)"
  shows "P ob1"
proof -
  have "c' = c \<Longrightarrow> P ob \<Longrightarrow> framer_feed c' f ob data = Some (f1, ob1, ok) \<Longrightarrow> P ob1" for c'
  proof (induction c' f ob data rule: framer_feed.induct)
    case (2 c' f ob b bs)
    show ?case
    proof (cases "fr_state f = InBody")
      case True
      define n where "n = nat (min (fr_remaining f) (int (length (b # bs))))"
      obtain f2 ob2 where t: "take_body c' f ob (take n (b # bs)) = (f2, ob2)" by fastforce
      have rem: "0 \<le> fr_remaining f" using True 2(5) by (auto split: if_splits)
      have "P ob2" using t 2(3,4) assms(2,3) by (auto simp: take_body_def Let_def split: if_splits)
      moreover have "framer_feed c' f2 ob2 (drop n (b # bs)) = Some (f1, ob1, ok)"
        using 2(5) framer_feed_body[OF True rem _ n_def t] by simp
      ultimately show ?thesis using "2.IH"(1)[OF True _ n_def t[symmetric]] rem 2(3) by simp
    next
      case False
      obtain f2 ob2 ok2 where t: "take_byte c' f ob b = (f2, ob2, ok2)" by (metis prod_cases3)
      have "P ob2" using take_byte_inv[of P c ob f b] assms(1,3) 2(3,4) t by simp
      then show ?thesis using "2.IH"(2)[OF False t[symmetric]] 2(3,5) t False by (cases ok2) auto
    qed
  qed simp
  then show ?thesis using assms(4,5) by blast
qed


section \<open>The observer\<close>

text \<open>A URI a probe may use: that of a request without body, cookies or credentials.\<close>

definition eligible_uri :: "string \<Rightarrow> bool" where
  "eligible_uri uri =
     (uri \<noteq> '''' \<and> (\<exists>r t. fst (steam_request_uri t r) = uri \<and> rq_method r = ''GET'' \<and> rq_length r \<le> 0 \<and> \<not> rq_chunked r \<and>
        rq_cookie r = '''' \<and> rq_authorization r = '''' \<and> \<not> rq_user r \<and> rq_range r = '''' \<and> steam_chunk_pattern (rq_path r)))"

lemma request_uri_eligible: "fst (steam_request_uri t r) \<noteq> '''' \<Longrightarrow> eligible_uri (fst (steam_request_uri t r))"
  unfolding eligible_uri_def
  by (rule conjI, assumption, rule exI[of _ r], rule exI[of _ t]) (auto simp: steam_request_uri_def split: if_splits)

definition request_ok :: "observed_request \<Rightarrow> bool" where
  "request_ok r = (or_uri r = '''' \<or> eligible_uri (or_uri r))"

definition event_ok :: "observer_event \<Rightarrow> bool" where
  "event_ok e =
     (case e of Reference uri prefix n t \<Rightarrow> eligible_uri uri \<and> 0 < n \<and> int (length prefix) = min 4096 n | _ \<Rightarrow> True)"

definition watch_ok :: "watch \<Rightarrow> bool" where
  "watch_ok w =
     (length (ob_pending w) \<le> 16 \<and> list_all request_ok (ob_pending w) \<and>
      (case ob_current w of None \<Rightarrow> True | Some c \<Rightarrow> request_ok c \<and> (or_uri c \<noteq> '''' \<longrightarrow> 0 < ob_total w)) \<and>
      length (ob_prefix w) \<le> 4096 \<and> list_all event_ok (ob_events w))"

lemma event_ok_noted [simp]: "event_ok (Noted s)" "event_ok ResponseFailed"
  by (simp_all add: event_ok_def)

lemma watch_ok_up: "watch_ok w \<Longrightarrow> watch_ok (snd (fc_header (up_calls env now) h w))"
proof -
  assume ok: "watch_ok w"
  have new: "request_ok \<lparr>or_method = m, or_uri = fst (steam_request_uri now r), or_at = now\<rparr>" for m r
    using request_uri_eligible[of now r] by (auto simp: request_ok_def)
  show ?thesis
    using ok new
    by (auto simp: up_calls_def up_header_def watch_ok_def Let_def split_beta split: option.splits)
qed

lemma begin_response_events:
  "list_all event_ok (ob_events w) \<Longrightarrow> list_all event_ok (ob_events (begin_response env now current rest r w))"
  by (simp add: begin_response_def Let_def)

lemma watch_ok_down: "watch_ok w \<Longrightarrow> watch_ok (snd (fc_header (down_calls env now) h w))"
proof -
  assume ok: "watch_ok w"
  obtain n ch g w1 where h: "down_header env now h w = ((n, ch, g), w1)" by (metis prod_cases4 prod.collapse)
  from h have "watch_ok w1"
  proof (cases rule: down_header_cases)
    case same
    then show ?thesis using ok by simp
  next
    case (begins current rest r)
    then show ?thesis
      using ok begin_response_events[of w env now current rest r] reason_length[of now current r]
      by (auto simp: watch_ok_def request_ok_def)
  qed
  then show ?thesis using h by (simp add: down_calls_def)
qed

lemma watch_ok_body: "watch_ok w \<Longrightarrow> watch_ok (fc_body (down_calls env now) p w)"
  by (auto simp: down_calls_def down_body_def watch_ok_def request_ok_def event_ok_def Let_def split: option.splits)

lemma watch_ok_done: "watch_ok w \<Longrightarrow> watch_ok (fc_done (down_calls env now) w)"
  by (auto simp: down_calls_def down_done_def watch_ok_def Let_def)

lemma watch_ok_feed_down:
  "framer_feed (down_calls env now) f w p = Some (f1, w1, ok) \<Longrightarrow> watch_ok w \<Longrightarrow> watch_ok w1"
  by (rule feed_inv[where P = watch_ok]) (auto intro: watch_ok_down watch_ok_body watch_ok_done)

lemma watch_ok_feed_up:
  "framer_feed (up_calls env now) f w p = Some (f1, w1, ok) \<Longrightarrow> watch_ok w \<Longrightarrow> watch_ok w1"
  by (rule feed_inv[where P = watch_ok]) (auto intro: watch_ok_up, auto simp: up_calls_def)

definition observer_ok :: "observer \<Rightarrow> bool" where
  "observer_ok o1 =
     (watch_ok (ob_watch o1) \<and>
      (if ob_stopped o1 then fr_header (ob_up o1) = [] \<and> fr_header (ob_down o1) = []
       else up.sink_inv (ob_up o1) (ob_watch o1) \<and> down.sink_inv (ob_down o1) (ob_watch o1)))"


lemma observer_ok_new: "observer_ok (new_observer t)"
  by (simp add: observer_ok_def new_observer_def watch_ok_def up.sink_inv_def down.sink_inv_def) (simp add: new_framer_def)

lemma stop_ok: "watch_ok (ob_watch o1) \<Longrightarrow> (ob_stopped o1 \<Longrightarrow> observer_ok o1) \<Longrightarrow> observer_ok (stop_observer now o1)"
  by (auto simp: stop_observer_def observer_ok_def watch_ok_def split: if_splits)

lemma stop_ok_noted:
  "watch_ok (ob_watch o1) \<Longrightarrow> \<not> ob_stopped o1 \<Longrightarrow> observer_ok (stop_observer now (o1\<lparr>ob_watch := noted s (ob_watch o1)\<rparr>))"
  by (rule stop_ok) (auto simp: watch_ok_def split: option.splits)

text \<open>The way up leaves the response in progress alone.\<close>

definition same_response :: "watch \<Rightarrow> watch \<Rightarrow> bool" where
  "same_response w w1 = (ob_current w1 = ob_current w \<and> ob_prefix w1 = ob_prefix w \<and> ob_total w1 = ob_total w)"

lemma up_same_response:
  "framer_feed (up_calls env now) f w p = Some (f1, w1, ok) \<Longrightarrow> same_response w w1"
  by (rule feed_inv[where P = "same_response w"])
    (auto simp: up_calls_def up_header_def same_response_def Let_def split_beta split: option.splits)

lemma down_inv_same: "same_response w w1 \<Longrightarrow> down_inv w1 = down_inv w"
  by (rule ext) (simp add: down_inv_def same_response_def cong: option.case_cong)

lemma down_inv_stale: "ob_current w = Some c \<Longrightarrow> or_uri c = '''' \<Longrightarrow> down_inv w n"
  by (simp add: down_inv_def)

lemma sink_inv_same: "same_response w w1 \<Longrightarrow> down.sink_inv f w \<Longrightarrow> down.sink_inv f w1"
  using down_inv_same[of w w1] unfolding down.sink_inv_def by metis

lemma sink_inv_stale:
  assumes "down.sink_inv f w" "same_response w w1 \<or> (\<exists>c. ob_current w1 = Some c \<and> or_uri c = '''')"
  shows "down.sink_inv f w1"
  using assms by (auto simp: down.sink_inv_def down_inv_same[of w w1] down_inv_stale split: if_splits)

lemma up_sink_any: "up.sink_inv f w \<Longrightarrow> up.sink_inv f w1"
  by (simp add: up.sink_inv_def)

lemma up_sink_framer: "up.sink_inv f w \<Longrightarrow> framer_ok f"
  by (simp add: up.sink_inv_def)

lemma feed_ok:
  assumes "observer_ok o1"
  shows "\<exists>o2. observer_feed env active now up p o1 = Some o2 \<and> observer_ok o2"
proof (cases "ob_stopped o1 \<or> \<not> active")
  case True
  then show ?thesis using assms stop_ok[of o1 now] by (auto simp: observer_feed_def observer_ok_def)
next
  case False
  then have o1: "\<not> ob_stopped o1" "active" "watch_ok (ob_watch o1)" "up.sink_inv (ob_up o1) (ob_watch o1)" "down.sink_inv (ob_down o1) (ob_watch o1)"
    using assms by (auto simp: observer_ok_def)
  have down_ok: "framer_ok (ob_down o1)" using o1(5) by (simp add: down.sink_inv_def)
  show ?thesis
  proof (cases up)
    case True
    obtain f w ok where f: "framer_feed (up_calls env now) (ob_up o1) (ob_watch o1) p = Some (f, w, ok)"
      using framer_feed_ok[OF up_sink_framer[OF o1(4)], of "up_calls env now" "ob_watch o1" p] by auto
    have w: "watch_ok w" "down.sink_inv (ob_down o1) w" "ok \<longrightarrow> up.sink_inv f w"
      using watch_ok_feed_up[OF f o1(3)] sink_inv_same[OF up_same_response[OF f] o1(5)] up.feed_sink[OF o1(4)] f by auto
    have "observer_ok (stop_observer now (o1\<lparr>ob_up := f, ob_watch := noted s w\<rparr>))" for s
      using stop_ok_noted[of "o1\<lparr>ob_up := f, ob_watch := w\<rparr>" now s] w o1(1) by simp
    then show ?thesis using o1 True f w by (auto simp: observer_feed_def observer_ok_def)
  next
    case False
    obtain f w ok where f: "framer_feed (down_calls env now) (ob_down o1) (ob_watch o1) p = Some (f, w, ok)"
      using framer_feed_ok[OF down_ok, of "down_calls env now" "ob_watch o1" p] by auto
    have w: "watch_ok w" "up.sink_inv (ob_up o1) w" "ok \<longrightarrow> down.sink_inv f w" using watch_ok_feed_down[OF f o1(3)] up_sink_any[OF o1(4)] down.feed_sink[OF o1(5)] f by auto
    have "observer_ok (stop_observer now (o1\<lparr>ob_down := f, ob_watch := noted s w\<rparr>))" for s
      using stop_ok_noted[of "o1\<lparr>ob_down := f, ob_watch := w\<rparr>" now s] w o1(1) by simp
    then show ?thesis using o1 False f w by (auto simp: observer_feed_def observer_ok_def)
  qed
qed

lemma stale_ok: "request_ok r \<Longrightarrow> request_ok (stale_request now r)"
  by (simp add: stale_request_def request_ok_def)

lemma expire_ok:
  assumes "observer_ok o1"
  shows "observer_ok (observer_expire active now o1)"
proof (cases "ob_stopped o1 \<or> \<not> active \<or> fr_header (ob_up o1) \<noteq> [] \<or> fr_header (ob_down o1) \<noteq> []")
  case True
  then show ?thesis using assms stop_ok[of o1 now] stop_ok_noted[of o1 now]
    by (auto simp: observer_expire_def observer_ok_def)
next
  case False
  then have o1: "watch_ok (ob_watch o1)" "up.sink_inv (ob_up o1) (ob_watch o1)" "down.sink_inv (ob_down o1) (ob_watch o1)"
    using assms by (auto simp: observer_ok_def)
  have pending: "list_all request_ok (map (stale_request now) (ob_pending (ob_watch o1)))"
    using o1(1) stale_ok by (auto simp: watch_ok_def list_all_iff)
  let ?w = "ob_watch (observer_expire active now o1)"
  have "watch_ok ?w" using False o1(1) pending
    by (auto simp: observer_expire_def watch_ok_def request_ok_def Let_def split: option.splits)
  moreover have "down.sink_inv (ob_down o1) ?w"
    by (rule sink_inv_stale[OF o1(3)]) (use False in \<open>auto simp: observer_expire_def same_response_def Let_def split: option.splits\<close>)
  moreover have "ob_up (observer_expire active now o1) = ob_up o1" "ob_down (observer_expire active now o1) = ob_down o1"
    "ob_stopped (observer_expire active now o1) = ob_stopped o1"
    using False by (auto simp: observer_expire_def Let_def split: option.splits)
  ultimately show ?thesis using up_sink_any[OF o1(2)] False by (simp add: observer_ok_def)
qed

lemma step_ok: "observer_ok o1 \<Longrightarrow> \<exists>o2. observer_step env op o1 = Some o2 \<and> observer_ok o2"
  by (cases op) (auto simp: feed_ok expire_ok intro!: stop_ok, auto simp: observer_ok_def)

lemma run_ok: "observer_ok o1 \<Longrightarrow> \<exists>o2. observer_run env ops o1 = Some o2 \<and> observer_ok o2"
proof (induction ops arbitrary: o1)
  case (Cons op ops)
  obtain o2 where "observer_step env op o1 = Some o2" "observer_ok o2" using step_ok[OF Cons.prems] by blast
  with Cons.IH[of o2] show ?case by simp
qed simp



section \<open>Pieces\<close>

lemma feed_pieces:
  assumes "observer_ok o1"
  shows "observer_feed env active now up (p @ q) o1 =
    (case observer_feed env active now up p o1 of None \<Rightarrow> None | Some o2 \<Rightarrow> observer_feed env active now up q o2)"
proof (cases "ob_stopped o1 \<or> \<not> active")
  case True
  then show ?thesis by (auto simp: observer_feed_def stop_observer_def)
next
  case False
  then have o1: "\<not> ob_stopped o1" "active" "up.sink_inv (ob_up o1) (ob_watch o1)" "down.sink_inv (ob_down o1) (ob_watch o1)"
    using assms by (auto simp: observer_ok_def)
  have stopped: "ob_stopped (stop_observer now x)" for x by (simp add: stop_observer_def)
  show ?thesis
  proof (cases up)
    case True
    then show ?thesis
      using o1 stopped up.feed_append[OF o1(3), of env now p q]
      by (cases "framer_feed (up_calls env now) (ob_up o1) (ob_watch o1) p")
        (auto simp: observer_feed_def split: bool.splits option.splits)
  next
    case False
    then show ?thesis
      using o1 stopped down.feed_append[OF o1(4), of env now p q]
      by (cases "framer_feed (down_calls env now) (ob_down o1) (ob_watch o1) p")
        (auto simp: observer_feed_def split: bool.splits option.splits)
  qed
qed

lemma feed_empty: "observer_ok o1 \<Longrightarrow> active \<Longrightarrow> observer_feed env active now up [] o1 = Some o1"
  by (cases o1) (auto simp: observer_feed_def)


section \<open>The reference\<close>

definition complete_header :: "bytes \<Rightarrow> bool" where
  "complete_header h =
     (length h \<le> steam_sniff_limit \<and> has_suffix h (crlf @ crlf) \<and>
      list_all (\<lambda>k. \<not> has_suffix (take k h) (crlf @ crlf)) [0..<length h])"

lemma feed_header_part:
  assumes "fr_state f = InHeader" "length (fr_header f @ q) \<le> steam_sniff_limit"
    "\<And>k. 0 < k \<Longrightarrow> k \<le> length q \<Longrightarrow> \<not> has_suffix (fr_header f @ take k q) (crlf @ crlf)"
  shows "framer_feed c f w (q @ rest) = framer_feed c (f\<lparr>fr_header := fr_header f @ q\<rparr>) w rest"
  using assms
proof (induction q arbitrary: f)
  case (Cons b q)
  have "\<not> has_suffix (fr_header f @ [b]) (crlf @ crlf)" using Cons.prems(3)[of 1] by simp
  then have "take_byte c f w b = (f\<lparr>fr_header := fr_header f @ [b]\<rparr>, w, True)"
    using Cons.prems(1,2) by (simp add: take_byte_def take_header_def Let_def)
  then have "framer_feed c f w ((b # q) @ rest) = framer_feed c (f\<lparr>fr_header := fr_header f @ [b]\<rparr>) w (q @ rest)"
    using Cons.prems(1) by simp
  also have "\<dots> = framer_feed c (f\<lparr>fr_header := fr_header f @ b # q\<rparr>) w rest"
  proof -
    have "\<not> has_suffix (fr_header f @ [b] @ take k q) (crlf @ crlf)" if "k \<le> length q" for k
      using Cons.prems(3)[of "Suc k"] that by simp
    then show ?thesis using Cons.IH[of "f\<lparr>fr_header := fr_header f @ [b]\<rparr>"] Cons.prems(1,2) by simp
  qed
  finally show ?case .
qed simp

lemma feed_header:
  assumes "fr_state f = InHeader" "fr_header f = []" "complete_header h" "fc_header c h w = ((n, False, True), w1)" "0 < n"
  shows "framer_feed c f w (h @ rest) = framer_feed c (f\<lparr>fr_remaining := n, fr_chunked := False, fr_state := InBody\<rparr>) w1 rest"
proof (cases h rule: rev_cases)
  case Nil
  with assms(3) show ?thesis by (simp add: complete_header_def has_suffix_def)
next
  case (snoc q b)
  have part: "\<not> has_suffix (take k q) (crlf @ crlf)" if "k \<le> length q" for k
  proof -
    have "\<not> has_suffix (take k h) (crlf @ crlf)" using assms(3) snoc that by (auto simp: complete_header_def list_all_iff)
    then show ?thesis using that snoc by simp
  qed
  have "framer_feed c f w (h @ rest) = framer_feed c (f\<lparr>fr_header := q\<rparr>) w (b # rest)"
    using feed_header_part[of f q c w "b # rest"] assms(1-3) part snoc by (simp add: complete_header_def)
  also have "take_byte c (f\<lparr>fr_header := q\<rparr>) w b = (f\<lparr>fr_header := [], fr_remaining := n, fr_chunked := False, fr_state := InBody\<rparr>, w1, True)"
    using assms snoc by (simp add: take_byte_def take_header_def complete_header_def Let_def)
  then have "framer_feed c (f\<lparr>fr_header := q\<rparr>) w (b # rest) =
      framer_feed c (f\<lparr>fr_header := [], fr_remaining := n, fr_chunked := False, fr_state := InBody\<rparr>) w1 rest"
    using assms(1) by simp
  finally show ?thesis using assms(2) by (cases f) simp
qed

lemma feed_plain_body:
  assumes "fr_state f = InBody" "\<not> fr_chunked f" "fr_remaining f = int (length body)" "body \<noteq> []"
  shows "framer_feed c f w body = Some (f\<lparr>fr_remaining := 0, fr_state := InHeader\<rparr>, fc_done c (fc_body c body w), True)"
  using framer_feed_body[OF assms(1) _ assms(4), of "length body" c w] assms by (simp add: take_body_def Let_def)

text \<open>A response that may serve as reference.\<close>

definition reference_response :: "time \<Rightarrow> observed_request \<Rightarrow> http_response \<Rightarrow> bool" where
  "reference_response now current r =
     (rs_proto r = 1 \<and> rs_status r = 200 \<and> rs_encoding r = '''' \<and> \<not> rs_chunked r \<and> \<not> rs_no_body r \<and> 0 < rs_length r \<and>
      now - or_at current \<le> 25000000000)"

lemma reference_feed:
  assumes o1: "\<not> ob_stopped o1" "fr_state (ob_down o1) = InHeader" "fr_header (ob_down o1) = []"
    and req: "ob_pending (ob_watch o1) = current # rest" "or_uri current \<noteq> ''''"
    and resp: "complete_header h" "oe_response env h (or_method current) = Some r" "reference_response now current r"
    and body: "int (length body) = rs_length r"
  shows "\<exists>o2. observer_feed env True now False (h @ body) o1 = Some o2 \<and> \<not> ob_stopped o2 \<and>
    ob_events (ob_watch o2) = ob_events (ob_watch o1) @ [Reference (or_uri current) (take 4096 body) (rs_length r) (or_at current + 30000000000)] \<and>
    ob_pending (ob_watch o2) = rest \<and> ob_current (ob_watch o2) = None \<and>
    fr_state (ob_down o2) = InHeader \<and> fr_header (ob_down o2) = []"
proof -
  let ?c = "down_calls env now" and ?f = "(ob_down o1)\<lparr>fr_remaining := rs_length r, fr_chunked := False, fr_state := InBody\<rparr>"
  define w1 where "w1 = begin_response env now current rest r (ob_watch o1)"
  have r: "rs_proto r = 1" "rs_status r = 200" "0 < rs_length r" "\<not> rs_chunked r" "\<not> rs_no_body r" "response_reason now current r = ''''"
    using resp(3) by (simp_all add: reference_response_def response_reason_def)
  have "fc_header ?c h (ob_watch o1) = ((rs_length r, False, True), w1)"
    using req resp r by (simp add: down_calls_def down_header_def w1_def)
  then have "framer_feed ?c (ob_down o1) (ob_watch o1) (h @ body) = framer_feed ?c ?f w1 body"
    by (rule feed_header[OF o1(2,3) resp(1) _ r(3)])
  also have "\<dots> = Some (?f\<lparr>fr_remaining := 0, fr_state := InHeader\<rparr>, fc_done ?c (fc_body ?c body w1), True)"
    by (rule feed_plain_body) (use body r(3) in auto)
  finally have feed: "framer_feed ?c (ob_down o1) (ob_watch o1) (h @ body) =
      Some (?f\<lparr>fr_remaining := 0, fr_state := InHeader\<rparr>, down_done now (down_body body w1), True)"
    by (simp add: down_calls_def)
  have ev: "ob_events w1 = ob_events (ob_watch o1)" using r by (simp add: w1_def begin_response_def)
  have w1: "ob_pending w1 = rest" "ob_current w1 = Some current" "ob_prefix w1 = []" "ob_total w1 = rs_length r"
    using r by (simp_all add: w1_def)
  have full: "int (length (take 4096 body)) = min 4096 (rs_length r)" using body by auto
  have "ob_events (down_done now (down_body body w1)) =
      ob_events w1 @ [Reference (or_uri current) (take 4096 body) (rs_length r) (or_at current + 30000000000)]"
    "ob_pending (down_done now (down_body body w1)) = rest" "ob_current (down_done now (down_body body w1)) = None"
    using w1 full req(2) by (simp_all add: down_body_def down_done_def Let_def)
  then show ?thesis using feed o1 ev by (simp add: observer_feed_def)
qed

fun observer_feeds :: "observer_env \<Rightarrow> time \<Rightarrow> bool \<Rightarrow> bytes list \<Rightarrow> observer \<Rightarrow> observer option" where
  "observer_feeds env now up [] o1 = Some o1"
| "observer_feeds env now up (p # ps) o1 =
     (case observer_feed env True now up p o1 of None \<Rightarrow> None | Some o2 \<Rightarrow> observer_feeds env now up ps o2)"

lemma feeds_concat:
  "observer_ok o1 \<Longrightarrow> observer_feeds env now up ps o1 = observer_feed env True now up (concat ps) o1"
proof (induction ps arbitrary: o1)
  case Nil
  then show ?case by (simp add: feed_empty)
next
  case (Cons p ps)
  then obtain o2 where "observer_feed env True now up p o1 = Some o2" "observer_ok o2" using feed_ok by blast
  with Cons show ?case by (simp add: feed_pieces)
qed


section \<open>Properties\<close>


text \<open>
  C27. On a connection in any state it can reach, the answer to the oldest request, a plain
  response of known length, may arrive in pieces of any size: the observer reports one reference,
  the URI of that request with the first 4096 bytes of the body, and is ready for the next
  response.
\<close>

theorem observer_reference:
  assumes "observer_run env ops (new_observer t) = Some o1"
    and "\<not> ob_stopped o1" "fr_state (ob_down o1) = InHeader" "fr_header (ob_down o1) = []"
    and "ob_pending (ob_watch o1) = current # rest" "or_uri current \<noteq> ''''"
    and "complete_header h" "oe_response env h (or_method current) = Some r" "reference_response now current r"
    and "int (length body) = rs_length r" "concat pieces = h @ body"
  shows "\<exists>o2. observer_feeds env now False pieces o1 = Some o2 \<and> \<not> ob_stopped o2 \<and>
    ob_events (ob_watch o2) = ob_events (ob_watch o1) @ [Reference (or_uri current) (take 4096 body) (rs_length r) (or_at current + 30000000000)] \<and>
    ob_pending (ob_watch o2) = rest \<and> ob_current (ob_watch o2) = None \<and>
    fr_state (ob_down o2) = InHeader \<and> fr_header (ob_down o2) = []"
proof -
  have "observer_ok o1" using run_ok[OF observer_ok_new, of env ops t] assms(1) by auto
  then show ?thesis using reference_feed[OF assms(2-10)] assms(11) by (simp add: feeds_concat)
qed

definition demo_request :: http_request where
  "demo_request =
     \<lparr>rq_proto = 1, rq_method = ''GET'', rq_length = 0, rq_chunked = False, rq_cookie = '''', rq_authorization = '''',
      rq_user = False, rq_raw_path = '''', rq_path = ''/depot/1/chunk/'' @ replicate 40 CHR ''a'', rq_range = '''',
      rq_upgrade = '''', rq_raw_query = '''', rq_force_query = False, rq_query = None, rq_host = ''a.steamcontent.com'',
      rq_request_uri = ''/depot/1''\<rparr>"

definition demo_env :: observer_env where
  "demo_env =
     \<lparr>oe_request = (\<lambda>h. Some demo_request),
      oe_response = (\<lambda>h m. Some \<lparr>rs_proto = 1, rs_status = 200, rs_length = 3, rs_chunked = False, rs_encoding = '''',
        rs_no_body = False, rs_location = None\<rparr>),
      oe_domain = ''a.steamcontent.com'', oe_trial = False\<rparr>"

definition demo_header :: bytes where
  "demo_header = [65, 13, 10, 13, 10]"

lemma demo_path: "steam_chunk_pattern (rq_path demo_request)"
  by code_simp

lemma demo_host: "host_without_80 (rq_host demo_request) = ''a.steamcontent.com''"
  by code_simp

lemma demo_uri: "steam_request_uri 0 demo_request = (''/depot/1'', ''http_eligible'')"
  by (simp add: steam_request_uri_def demo_path) (simp add: demo_request_def)

lemma demo_feed:
  "framer_feed (up_calls demo_env 0) new_framer (ob_watch (new_observer 0)) demo_header =
   Some (new_framer, \<lparr>ob_pending = [\<lparr>or_method = ''GET'', or_uri = ''/depot/1'', or_at = 0\<rparr>], ob_current = None, ob_prefix = [],
     ob_total = 0, ob_idle_total = 0, ob_idle_from = None, ob_events = [Noted ''http_eligible'']\<rparr>, True)"
  by (simp add: demo_header_def new_framer_def take_byte_def take_header_def steam_sniff_limit_def has_suffix_def crlf_def
      up_calls_def up_header_def new_observer_def demo_host demo_uri demo_env_def Let_def noted_def mark_busy_def)
    (simp add: demo_request_def)

lemma observer_reference_witness:
  "\<exists>o1 o2. observer_run demo_env [Feed True 0 True demo_header] (new_observer 0) = Some o1 \<and>
     observer_feeds demo_env 5 False [[65, 13], [10, 13, 10, 7], [8, 9]] o1 = Some o2 \<and>
     last (ob_events (ob_watch o2)) = Reference ''/depot/1'' [7, 8, 9] 3 30000000000"
proof -
  let ?c = "\<lparr>or_method = ''GET'', or_uri = ''/depot/1'', or_at = 0\<rparr>"
  let ?r = "\<lparr>rs_proto = 1, rs_status = 200, rs_length = 3, rs_chunked = False, rs_encoding = '''', rs_no_body = False, rs_location = None\<rparr>"
  let ?o1 = "(new_observer 0)\<lparr>ob_watch := \<lparr>ob_pending = [?c], ob_current = None, ob_prefix = [], ob_total = 0, ob_idle_total = 0,
      ob_idle_from = None, ob_events = [Noted ''http_eligible'']\<rparr>\<rparr>"
  have run: "observer_run demo_env [Feed True 0 True demo_header] (new_observer 0) = Some ?o1"
    using demo_feed by (simp add: observer_feed_def) (simp add: new_observer_def)
  have "\<exists>o2. observer_feeds demo_env 5 False [[65, 13], [10, 13, 10, 7], [8, 9]] ?o1 = Some o2 \<and> \<not> ob_stopped o2 \<and>
      ob_events (ob_watch o2) = ob_events (ob_watch ?o1) @ [Reference (or_uri ?c) (take 4096 [7, 8, 9]) (rs_length ?r) (or_at ?c + 30000000000)] \<and>
      ob_pending (ob_watch o2) = [] \<and> ob_current (ob_watch o2) = None \<and>
      fr_state (ob_down o2) = InHeader \<and> fr_header (ob_down o2) = []"
  proof (rule observer_reference[OF run, where h = demo_header])
    show "complete_header demo_header" by code_simp
    show "fr_state (ob_down ?o1) = InHeader" "fr_header (ob_down ?o1) = []" "\<not> ob_stopped ?o1"
      by (simp_all add: new_observer_def new_framer_def)
    show "oe_response demo_env demo_header (or_method ?c) = Some ?r" by (simp add: demo_env_def)
    show "reference_response 5 ?c ?r" by (simp add: reference_response_def)
    show "concat [[65, 13], [10, 13, 10, 7], [8, 9]] = demo_header @ [7, 8, 9]" by (simp add: demo_header_def)
  qed simp_all
  then show ?thesis using run by auto
qed

end
