(* ===== verification/SteamPoolFacts.thy ===== *)
theory SteamPoolFacts
  imports SteamPool
begin

text \<open>
  The candidate pool: it stays within its limit and names no address twice, every address
  expires with the earliest answer that named it, and no answer crowds out another: the first
  address of every group is in, as long as there are no more groups than places.
\<close>

section \<open>One round\<close>

definition pool_addresses :: "cdn_candidate list \<Rightarrow> string set" where
  "pool_addresses cs = cc_ip ` set cs"

lemma merge_round_bounds:
  "length result < limit \<Longrightarrow> length (merge_round limit i expires gss result) \<le> limit"
  by (induction limit i expires gss result rule: merge_round.induct) (auto simp: Let_def)

lemma merge_round_distinct:
  "distinct (map cc_ip result) \<Longrightarrow> distinct (map cc_ip (merge_round limit i expires gss result))"
  by (induction limit i expires gss result rule: merge_round.induct) (auto simp: Let_def)

lemma merge_round_grows: "set result \<subseteq> set (merge_round limit i expires gss result)"
proof (induction limit i expires gss result rule: merge_round.induct)
  case (2 limit i expires g gs result)
  then show ?case by (auto simp: Let_def)
qed simp

lemma merge_round_from:
  "c \<in> set (merge_round limit i expires gss result) \<Longrightarrow>
   c \<in> set result \<or> (\<exists>g\<in>set gss. \<exists>c'\<in>set g. c = c'\<lparr>cc_expires := the (expires (cc_ip c'))\<rparr>)"
proof (induction limit i expires gss result rule: merge_round.induct)
  case (2 limit i expires g gs result)
  let ?r1 = "result @ [(g ! i)\<lparr>cc_expires := the (expires (cc_ip (g ! i)))\<rparr>]"
  consider (skip) "length g \<le> i" | (dup) "i < length g" "cc_ip (g ! i) \<in> cc_ip ` set result"
    | (add) "i < length g" "cc_ip (g ! i) \<notin> cc_ip ` set result" by linarith
  then show ?case
  proof cases
    case skip
    with 2 show ?thesis by auto
  next
    case dup
    then have "c \<in> set (merge_round limit i expires gs result)" using "2.prems" by (simp add: Let_def)
    with dup "2.IH"(2) show ?thesis by auto
  next
    case add
    then have "c \<in> set ?r1 \<or> c \<in> set (merge_round limit i expires gs ?r1) \<and> length ?r1 \<noteq> limit"
      using "2.prems" by (simp add: Let_def split: if_splits)
    moreover have "g ! i \<in> set g" using add by simp
    ultimately show ?thesis using "2.IH"(3)[of "g ! i" ?r1] add by auto
  qed
qed simp

text \<open>A round with room for all its groups takes the address of every one of them.\<close>

lemma merge_round_all:
  assumes "length result + length gss \<le> limit" "g \<in> set gss" "i < length g"
  shows "cc_ip (g ! i) \<in> pool_addresses (merge_round limit i expires gss result)"
  using assms
proof (induction limit i expires gss result rule: merge_round.induct)
  case (2 limit i expires h gs result)
  let ?r1 = "result @ [(h ! i)\<lparr>cc_expires := the (expires (cc_ip (h ! i)))\<rparr>]"
  have kept: "cc_ip (h ! i) \<in> pool_addresses (merge_round limit i expires gs r)" if "cc_ip (h ! i) \<in> cc_ip ` set r" for r
    using that merge_round_grows[of r limit i expires gs] by (auto simp: pool_addresses_def)
  consider (short) "length h \<le> i" | (dup) "i < length h" "cc_ip (h ! i) \<in> cc_ip ` set result"
    | (add) "i < length h" "cc_ip (h ! i) \<notin> cc_ip ` set result" by linarith
  then show ?case
  proof cases
    case short
    then show ?thesis using 2 by (auto simp: Let_def)
  next
    case dup
    then show ?thesis using 2 kept[of result] by (auto simp: Let_def)
  next
    case add
    have step: "merge_round limit i expires (h # gs) result =
        (if length ?r1 = limit then ?r1 else merge_round limit i expires gs ?r1)"
      using add by (simp add: Let_def)
    show ?thesis
    proof (cases "length ?r1 = limit")
      case True
      then have "gs = []" using "2.prems"(1) by (cases gs) auto
      then show ?thesis using step True 2 by (auto simp: pool_addresses_def)
    next
      case False
      then have "cc_ip (g ! i) \<in> pool_addresses (merge_round limit i expires gs ?r1)"
        using "2.IH"(3)[of "h ! i" ?r1] "2.prems" add kept[of ?r1] by auto
      then show ?thesis using step False by simp
    qed
  qed
qed simp

section \<open>The pool\<close>

lemma merge_rounds_bounds:
  "length result \<le> limit \<Longrightarrow> length (merge_rounds limit k i expires gss result) \<le> limit"
  by (induction limit k i expires gss result rule: merge_rounds.induct) (auto simp: merge_round_bounds)

lemma merge_rounds_distinct:
  "distinct (map cc_ip result) \<Longrightarrow> distinct (map cc_ip (merge_rounds limit k i expires gss result))"
  by (induction limit k i expires gss result rule: merge_rounds.induct) (auto simp: merge_round_distinct)

lemma merge_rounds_grows: "set result \<subseteq> set (merge_rounds limit k i expires gss result)"
proof (induction limit k i expires gss result rule: merge_rounds.induct)
  case (2 limit k i expires gss result)
  then show ?case using merge_round_grows[of result limit i expires gss] by auto
qed simp

lemma merge_rounds_from:
  "c \<in> set (merge_rounds limit k i expires gss result) \<Longrightarrow>
   c \<in> set result \<or> (\<exists>g\<in>set gss. \<exists>c'\<in>set g. c = c'\<lparr>cc_expires := the (expires (cc_ip c'))\<rparr>)"
proof (induction limit k i expires gss result rule: merge_rounds.induct)
  case (2 limit k i expires gss result)
  show ?case
  proof (cases "length result < limit")
    case True
    then show ?thesis using 2 merge_round_from[of c limit i expires gss result] by auto
  next
    case False
    then show ?thesis using 2 by simp
  qed
qed simp

definition is_shortest :: "cdn_candidate list \<Rightarrow> string \<Rightarrow> time \<Rightarrow> bool" where
  "is_shortest cs ip t = ((\<exists>c\<in>set cs. cc_ip c = ip \<and> cc_expires c = t) \<and> (\<forall>c\<in>set cs. cc_ip c = ip \<longrightarrow> t \<le> cc_expires c))"

lemma shortest_expiry_min:
  assumes "\<And>ip. case m ip of None \<Rightarrow> ip \<notin> cc_ip ` set before | Some t \<Rightarrow> is_shortest before ip t"
  shows "case shortest_expiry cs m ip of None \<Rightarrow> ip \<notin> cc_ip ` set (before @ cs) | Some t \<Rightarrow> is_shortest (before @ cs) ip t"
  using assms
proof (induction cs m arbitrary: before rule: shortest_expiry.induct)
  case (1 m)
  then show ?case by (metis (no_types, lifting) append_Nil2 shortest_expiry.simps(1))
next
  case (2 c cs m)
  let ?m = "case m (cc_ip c) of None \<Rightarrow> m(cc_ip c \<mapsto> cc_expires c)
      | Some old \<Rightarrow> if cc_expires c < old then m(cc_ip c \<mapsto> cc_expires c) else m"
  have "case ?m ip of None \<Rightarrow> ip \<notin> cc_ip ` set (before @ [c]) | Some t \<Rightarrow> is_shortest (before @ [c]) ip t" for ip
    using "2.prems"[of ip] "2.prems"[of "cc_ip c"]
    by (auto simp: is_shortest_def image_iff split: option.splits if_splits) force+
  from "2.IH"[of "before @ [c]", OF this] show ?case by (simp only: shortest_expiry.simps append_assoc append.simps)
qed

lemma shortest_expiry_some:
  assumes "c \<in> set cs"
  shows "is_shortest cs (cc_ip c) (the (shortest_expiry cs Map.empty (cc_ip c)))"
  using shortest_expiry_min[where m = Map.empty and before = "[]" and cs = cs and ip = "cc_ip c"] assms by (auto split: option.splits)

lemma pool_from:
  assumes "c \<in> set (merge_steam_candidate_pool gss limit)"
  shows "is_shortest (concat gss) (cc_ip c) (cc_expires c)"
proof -
  from assms obtain g c' where g: "g \<in> set gss" "c' \<in> set g"
    "c = c'\<lparr>cc_expires := the (shortest_expiry (concat gss) Map.empty (cc_ip c'))\<rparr>"
    unfolding merge_steam_candidate_pool_def using merge_rounds_from by fastforce
  then show ?thesis using shortest_expiry_some[of c' "concat gss"] by auto
qed

lemma pool_bounds: "length (merge_steam_candidate_pool gss limit) \<le> limit"
  by (simp add: merge_steam_candidate_pool_def merge_rounds_bounds)

lemma pool_distinct: "distinct (map cc_ip (merge_steam_candidate_pool gss limit))"
  by (simp add: merge_steam_candidate_pool_def merge_rounds_distinct)

lemma pool_firsts:
  assumes "length gss \<le> limit" "g \<in> set gss" "g \<noteq> []"
  shows "cc_ip (hd g) \<in> pool_addresses (merge_steam_candidate_pool gss limit)"
proof -
  let ?e = "shortest_expiry (concat gss) Map.empty"
  have pos: "0 < limit" using assms by (cases gss) auto
  have "cc_ip (g ! 0) \<in> pool_addresses (merge_round limit 0 ?e gss [])"
    by (rule merge_round_all) (use assms in auto)
  moreover have "merge_rounds limit 64 0 ?e gss [] = merge_rounds limit 63 1 ?e gss (merge_round limit 0 ?e gss [])"
    using merge_rounds.simps(2)[of limit 63 0 ?e gss "[]"] pos by (simp del: merge_rounds.simps)
  ultimately show ?thesis
    using merge_rounds_grows[of "merge_round limit 0 ?e gss []" limit 63 1 ?e gss] assms(3)
    by (auto simp: merge_steam_candidate_pool_def pool_addresses_def hd_conv_nth simp del: merge_rounds.simps)
qed


section \<open>What is collected\<close>

definition group_ok :: "bool \<Rightarrow> time \<Rightarrow> string set \<Rightarrow> cdn_candidate \<Rightarrow> bool" where
  "group_ok v4 expiry vs c =
     (cc_expires c = expiry \<and>
      (\<exists>v\<in>vs. \<exists>ip. parse_ip v = Some ip \<and> public_cdn_ip v \<and> (to4 ip \<noteq> None) = v4 \<and> cc_ip c = ip_string ip))"

lemma group_ok_mono: "group_ok v4 expiry vs c \<Longrightarrow> vs \<subseteq> ws \<Longrightarrow> group_ok v4 expiry ws c"
  by (auto simp: group_ok_def)



lemma rotated_set: "set (drop n xs @ take n xs) = set xs"
  by (metis Un_commute append_take_drop_id set_append)

lemma rotate_set [simp]: "set (rotate_steam_candidates xs r) = set xs"
  by (simp only: rotate_steam_candidates_def Let_def rotated_set split: if_split) simp



section \<open>The candidates of an adapter\<close>




section \<open>Properties\<close>

text \<open>
  C30. Merging the answers of several adapters into a pool of a given size: the pool is never
  larger, names no address twice, gives every address the earliest of the expiries it was seen
  with, and, when there are at least as many places as answers, holds the first address of every
  nonempty answer: a large answer crowds out no other adapter and no other family.
\<close>

theorem steam_pool_fair:
  "length (merge_steam_candidate_pool gss limit) \<le> limit \<and>
   distinct (map cc_ip (merge_steam_candidate_pool gss limit)) \<and>
   (\<forall>c\<in>set (merge_steam_candidate_pool gss limit). is_shortest (concat gss) (cc_ip c) (cc_expires c)) \<and>
   (length gss \<le> limit \<longrightarrow>
      (\<forall>g\<in>set gss. g \<noteq> [] \<longrightarrow> cc_ip (hd g) \<in> pool_addresses (merge_steam_candidate_pool gss limit)))"
  using pool_bounds pool_distinct pool_from pool_firsts by blast

lemma steam_pool_fair_witness:
  "merge_steam_candidate_pool
     [map (\<lambda>n. \<lparr>cc_ip = n, cc_expires = 5\<rparr>) [''a'', ''b'', ''c''], [\<lparr>cc_ip = ''b'', cc_expires = 3\<rparr>, \<lparr>cc_ip = ''d'', cc_expires = 9\<rparr>]] 3
     = [\<lparr>cc_ip = ''a'', cc_expires = 5\<rparr>, \<lparr>cc_ip = ''b'', cc_expires = 3\<rparr>, \<lparr>cc_ip = ''d'', cc_expires = 9\<rparr>] \<and>
   ''b'' \<in> pool_addresses (merge_steam_candidate_pool
     [map (\<lambda>n. \<lparr>cc_ip = n, cc_expires = 5\<rparr>) [''a'', ''b'', ''c''], [\<lparr>cc_ip = ''b'', cc_expires = 3\<rparr>, \<lparr>cc_ip = ''d'', cc_expires = 9\<rparr>]] 3)"
proof -
  let ?gss = "[map (\<lambda>n. \<lparr>cc_ip = n, cc_expires = 5\<rparr>) [''a'', ''b'', ''c''],
     [\<lparr>cc_ip = ''b'', cc_expires = 3\<rparr>, \<lparr>cc_ip = ''d'', cc_expires = (9::int)\<rparr>]]"
  have "\<forall>g\<in>set ?gss. g \<noteq> [] \<longrightarrow> cc_ip (hd g) \<in> pool_addresses (merge_steam_candidate_pool ?gss 3)"
    using steam_pool_fair[of ?gss 3] by simp
  then show ?thesis by code_simp
qed



end
