(* ===== verification/SteamCdn.thy ===== *)
theory SteamCdn
  imports SteamPool Complex_Main "HOL-Library.AList"
begin

text \<open>
  What the Steam CDN optimizer has learned (\<open>steamCDN\<close> of \<open>steam_cdn.go\<close>,
  \<open>steam_evaluation.go\<close>, \<open>steam_accounting.go\<close>, \<open>steam_observed_probe.go\<close>,
  \<open>steam_speed_probe.go\<close> and \<open>steam_http_probe.go\<close>). A Go map is an association list whose order
  is the order of the iteration, which the code does not rely on; the address of an entry is
  that of its key. Every operation holds the mutex and reads the clock once, \<open>now\<close>. Byte
  counters and generations are 64-bit words, a \<open>float64\<close> is an exact rational.
\<close>

section \<open>The state\<close>

record cdn_key =
  ck_adapter :: string
  ck_domain :: string
  ck_port :: string
  ck_ip :: string

record load_sample =
  ls_samples :: u64
  ls_bytes :: u64
  ls_bps :: rat
  ls_at :: time

record cdn_entry =
  en_validated :: bool
  en_expires :: time
  en_cooldown :: time
  en_perf_cooldown :: bool
  en_source :: string
  en_baseline :: string
  en_selections :: u64
  en_successes :: u64
  en_samples :: u64
  en_scored :: u64
  en_bytes :: u64
  en_bps :: rat
  en_last_sample :: time
  en_load :: int
  en_loads :: "(int \<times> load_sample) list"
  en_preferred :: bool
  en_advantage :: int
  en_slow :: int
  en_slow_since :: time
  en_slow_eligible :: bool
  en_window :: int
  en_evaluated :: time
  en_probe_bps :: rat
  en_probed_at :: time
  en_probe_attempt :: time
  en_reason :: string
  en_admission :: string

definition new_entry :: cdn_entry where
  "new_entry =
     \<lparr>en_validated = False, en_expires = zero_time, en_cooldown = zero_time, en_perf_cooldown = False, en_source = '''',
      en_baseline = '''', en_selections = 0, en_successes = 0, en_samples = 0, en_scored = 0, en_bytes = 0, en_bps = 0,
      en_last_sample = zero_time, en_load = 0, en_loads = [], en_preferred = False, en_advantage = 0, en_slow = 0,
      en_slow_since = zero_time, en_slow_eligible = False, en_window = 0, en_evaluated = zero_time, en_probe_bps = 0,
      en_probed_at = zero_time, en_probe_attempt = zero_time, en_reason = '''', en_admission = ''''\<rparr>"

record cdn_slot =
  sl_second :: int
  sl_bytes :: u64
  sl_switched :: u64

record cdn_traffic =
  tf_switched_active :: int
  tf_switched :: u64
  tf_original :: u64
  tf_failures :: u64
  tf_slots :: "cdn_slot list"
  tf_active :: int
  tf_trials :: int

definition new_traffic :: cdn_traffic where
  "new_traffic =
     \<lparr>tf_switched_active = 0, tf_switched = 0, tf_original = 0, tf_failures = 0,
      tf_slots = replicate 5 \<lparr>sl_second = 0, sl_bytes = 0, sl_switched = 0\<rparr>, tf_active = 0, tf_trials = 0\<rparr>"

record failure_window =
  fw_at :: time
  fw_until :: time
  fw_count :: int

record cdn_diagnostic =
  dg_domain :: string
  dg_adapter :: string
  dg_ip :: string
  dg_stage :: string
  dg_at :: time

record cdn =
  c_enabled :: bool
  c_generation :: u64
  c_started :: time
  c_switched :: u64
  c_original :: u64
  c_transfer_failures :: u64
  c_observed :: "(cdn_key \<times> time) list"
  c_failures :: "(string \<times> failure_window) list"
  c_entries :: "(cdn_key \<times> cdn_entry) list"
  c_traffic :: "(cdn_key \<times> cdn_traffic) list"
  c_decisions :: "(string \<times> u64) list"
  c_stages :: "(string \<times> u64) list"
  c_effective :: u64
  c_discovery :: "(string \<times> time) list"
  c_probing :: int
  c_recognized :: u64
  c_diagnostics :: "cdn_diagnostic list"
  c_replacements :: u64
  c_fallbacks :: u64
  c_speed_at :: time
  c_speed_bytes :: int
  c_speed_attempts :: int
  c_budget_at :: time
  c_budget_bytes :: int
  c_budget_attempts :: int
  c_observers :: int

definition steam_failure_key :: "cdn_key \<Rightarrow> string" where
  "steam_failure_key k = ck_adapter k @ ''/'' @ ck_domain k @ '':'' @ ck_port k"

definition ten_seconds :: duration where
  "ten_seconds = 10000000000"

section \<open>Starting over\<close>

text \<open>\<open>configure\<close>: the budgets and the number of observers survive. \<open>started\<close> says whether it ran before.\<close>

definition cdn_zero :: cdn where
  "cdn_zero =
     \<lparr>c_enabled = False, c_generation = 0, c_started = zero_time, c_switched = 0, c_original = 0, c_transfer_failures = 0,
      c_observed = [], c_failures = [], c_entries = [], c_traffic = [], c_decisions = [], c_stages = [], c_effective = 0,
      c_discovery = [], c_probing = 0, c_recognized = 0, c_diagnostics = [], c_replacements = 0, c_fallbacks = 0,
      c_speed_at = zero_time, c_speed_bytes = 0, c_speed_attempts = 0, c_budget_at = zero_time, c_budget_bytes = 0,
      c_budget_attempts = 0, c_observers = 0\<rparr>"

definition cdn_configure :: "time \<Rightarrow> bool \<Rightarrow> bool \<Rightarrow> bool \<Rightarrow> cdn \<Rightarrow> cdn" where
  "cdn_configure now started enabled reset c =
     (if started \<and> c_enabled c = enabled \<and> \<not> reset then c
      else c\<lparr>c_enabled := enabled, c_generation := c_generation c + 1, c_started := now, c_switched := 0, c_original := 0,
        c_transfer_failures := 0, c_observed := [], c_failures := [], c_entries := [], c_traffic := [], c_decisions := [],
        c_stages := [], c_effective := 0, c_discovery := [], c_probing := 0, c_recognized := 0, c_diagnostics := [],
        c_replacements := 0, c_fallbacks := 0\<rparr>)"

definition new_steam_cdn :: "time \<Rightarrow> bool \<Rightarrow> cdn" where
  "new_steam_cdn now enabled = cdn_configure now False enabled True cdn_zero"

text \<open>\<open>ConfigureSteamCDN\<close>, less the snapshot it returns; the root context decides \<open>active\<close>.\<close>

definition cdn_active :: "bool \<Rightarrow> cdn \<Rightarrow> bool" where
  "cdn_active root_done c = (c_enabled c \<and> \<not> root_done)"

definition configure_steam_cdn :: "time \<Rightarrow> bool \<Rightarrow> bool option \<Rightarrow> bool \<Rightarrow> cdn \<Rightarrow> cdn" where
  "configure_steam_cdn now root_done enabled reset c =
     (case enabled of
        Some e \<Rightarrow> cdn_configure now True e reset c
      | None \<Rightarrow> if reset then cdn_configure now True (cdn_active root_done c) True c else c)"

section \<open>Expiry\<close>

definition busy :: "cdn \<Rightarrow> cdn_key \<Rightarrow> bool" where
  "busy c k = (case map_of (c_traffic c) k of None \<Rightarrow> False | Some t \<Rightarrow> 0 < tf_active t \<or> 0 < tf_trials t)"

fun prune_entries :: "(cdn_key \<Rightarrow> bool) \<Rightarrow> time \<Rightarrow> (cdn_key \<times> cdn_entry) list \<Rightarrow> (cdn_key \<times> cdn_entry) list" where
  "prune_entries in_use now [] = []"
| "prune_entries in_use now ((k, e) # es) =
     (if now < en_expires e then (k, e) # prune_entries in_use now es
      else if in_use k
      then (k, e\<lparr>en_validated := False, en_preferred := False, en_advantage := 0, en_reason := ''validation_expired''\<rparr>)
             # prune_entries in_use now es
      else prune_entries in_use now es)"

definition cdn_prune :: "time \<Rightarrow> cdn \<Rightarrow> cdn" where
  "cdn_prune now c =
     (let entries = prune_entries (busy c) now (c_entries c) in
      c\<lparr>c_observed := filter (\<lambda>(k, t). now < t) (c_observed c),
        c_failures := filter (\<lambda>(k, w). \<not> (fw_until w \<le> now \<and> minute < now - fw_at w)) (c_failures c),
        c_entries := entries,
        c_traffic := filter (\<lambda>(k, t). k \<in> fst ` set entries \<or> 0 < tf_active t \<or> 0 < tf_trials t) (c_traffic c),
        c_discovery := filter (\<lambda>(k, t). now < t) (c_discovery c)\<rparr>)"

section \<open>Evidence\<close>

definition reset_performance :: "cdn_entry \<Rightarrow> cdn_entry" where
  "reset_performance e =
     e\<lparr>en_samples := 0, en_bytes := 0, en_scored := 0, en_bps := 0, en_last_sample := zero_time, en_loads := [], en_load := 0,
       en_preferred := False, en_advantage := 0, en_slow := 0, en_slow_since := zero_time, en_window := 0,
       en_slow_eligible := False\<rparr>"

definition active_elapsed :: "time \<Rightarrow> time \<Rightarrow> duration \<Rightarrow> duration \<Rightarrow> duration" where
  "active_elapsed start now idle_start idle_now = max 0 ((now - start) - (idle_now - idle_start))"

definition oldest_load :: "(int \<times> load_sample) list \<Rightarrow> int" where
  "oldest_load loads =
     fold (\<lambda>(l, s) oldest.
       if oldest = 0 \<or> ls_at s < (case map_of loads oldest of None \<Rightarrow> zero_time | Some o1 \<Rightarrow> ls_at o1) then l else oldest) loads 0"

definition save_load :: "cdn_entry \<Rightarrow> cdn_entry" where
  "save_load e =
     (let loads = (if map_of (en_loads e) (en_load e) = None \<and> 8 \<le> length (en_loads e)
                   then AList.delete (oldest_load (en_loads e)) (en_loads e) else en_loads e)
      in e\<lparr>en_loads := AList.update (en_load e)
             \<lparr>ls_samples = en_samples e, ls_bytes = en_bytes e, ls_bps = en_bps e, ls_at = en_last_sample e\<rparr> loads\<rparr>)"

text \<open>The sample under another load than the last one continues what was saved for that load.\<close>

definition switch_load :: "time \<Rightarrow> int \<Rightarrow> cdn_entry \<Rightarrow> cdn_entry" where
  "switch_load now load e0 =
     (if 0 < en_load e0 \<and> en_load e0 \<noteq> load then
        let e = save_load e0;
            none = \<lparr>ls_samples = 0, ls_bytes = 0, ls_bps = 0, ls_at = zero_time\<rparr>;
            saved = (case map_of (en_loads e) load of None \<Rightarrow> none | Some s \<Rightarrow> s);
            s = (if ten_seconds \<le> now - ls_at saved then none else saved)
        in e\<lparr>en_samples := ls_samples s, en_bytes := ls_bytes s, en_bps := ls_bps s, en_scored := ls_samples s,
             en_advantage := 0, en_slow := 0, en_slow_since := zero_time, en_preferred := False, en_reason := ''load_mismatch''\<rparr>
      else e0)"

definition add_sample :: "time \<Rightarrow> int \<Rightarrow> u64 \<Rightarrow> duration \<Rightarrow> cdn_entry \<Rightarrow> cdn_entry" where
  "add_sample now load amount elapsed e0 =
     (let e1 = (if en_last_sample e0 \<noteq> zero_time \<and> ten_seconds \<le> now - en_last_sample e0
                then (reset_performance e0)\<lparr>en_reason := ''insufficient_samples''\<rparr> else e0);
          e2 = (switch_load now load e1)\<lparr>en_load := load, en_slow_eligible := elapsed \<le> 2000000000\<rparr>;
          bps = of_nat (unat amount) * 1000000000 / of_int elapsed;
          e3 = e2\<lparr>en_bps := (if en_samples e2 = 0 then bps else en_bps e2 * (3 / 4) + bps * (1 / 4)),
                 en_bytes := en_bytes e2 + amount, en_samples := en_samples e2 + 1, en_last_sample := now\<rparr>
      in save_load e3)"

definition cdn_observe :: "time \<Rightarrow> cdn_key \<Rightarrow> u64 \<Rightarrow> u64 \<Rightarrow> duration \<Rightarrow> cdn \<Rightarrow> cdn" where
  "cdn_observe now k generation amount elapsed c =
     (if amount < 64 * 1024 \<or> elapsed < 100000000 then c
      else if \<not> c_enabled c \<or> generation \<noteq> c_generation c then c
      else case map_of (c_entries c) k of None \<Rightarrow> c
      | Some e \<Rightarrow>
          if en_expires e \<le> now then c
          else
            let load = (case map_of (c_traffic c) k of None \<Rightarrow> 1 | Some t \<Rightarrow> max 1 (tf_active t))
            in c\<lparr>c_entries := AList.update k (add_sample now load amount elapsed e) (c_entries c)\<rparr>)"

end
