(* ===== verification/SteamTrial.thy ===== *)
theory SteamTrial
  imports SteamCdn
begin

text \<open>
  The decisions of the Steam CDN optimizer: the score of an alternative address against the
  original one, when a connection may try an alternative (\<open>useTrial\<close>), what its transfers and
  failures change, and the budgets of the probes.
\<close>

section \<open>Scores\<close>

definition comparable_baseline :: "time \<Rightarrow> cdn_entry \<Rightarrow> cdn_entry option \<Rightarrow> cdn_entry option" where
  "comparable_baseline now e base =
     (case base of None \<Rightarrow> None
      | Some b \<Rightarrow>
          if en_load e = 0 \<or> en_load b = en_load e then Some b
          else case map_of (en_loads b) (en_load e) of None \<Rightarrow> None
          | Some s \<Rightarrow>
              if ten_seconds \<le> now - ls_at s then None
              else Some (b\<lparr>en_samples := ls_samples s, en_bytes := ls_bytes s, en_bps := ls_bps s, en_last_sample := ls_at s,
                en_load := en_load e\<rparr>))"

definition promotion_reason :: "time \<Rightarrow> cdn_entry \<Rightarrow> cdn_entry option \<Rightarrow> string" where
  "promotion_reason now e base =
     (if en_samples e < 5 \<or> en_bytes e < 8 * 1024 * 1024 then ''insufficient_samples''
      else if ten_seconds \<le> now - en_last_sample e \<or> en_samples e \<le> en_scored e then ''stale_samples''
      else case base of None \<Rightarrow> ''baseline_missing''
      | Some b \<Rightarrow>
          if en_samples b < 3 \<or> en_bps b \<le> 0 \<or> ten_seconds \<le> now - en_last_sample b then ''baseline_missing''
          else if 0 < en_load e \<and> 0 < en_load b \<and> en_load e \<noteq> en_load b then ''load_mismatch''
          else if en_bps e \<le> en_bps b * (115 / 100) then ''advantage_insufficient''
          else ''advantage_window'')"

text \<open>Fresh useful samples on both paths, and the alternative is clearly slower.\<close>

definition slow_candidate :: "time \<Rightarrow> cdn_entry \<Rightarrow> cdn_entry option \<Rightarrow> bool" where
  "slow_candidate now e base =
     (en_scored e < en_samples e \<and> now - en_last_sample e < ten_seconds \<and> en_slow_eligible e \<and> 5 \<le> en_samples e \<and>
      (case base of None \<Rightarrow> False
       | Some b \<Rightarrow>
           3 \<le> en_samples b \<and> now - en_last_sample b < ten_seconds \<and> 0 < en_bps b \<and> (en_load e = 0 \<or> en_load b = en_load e) \<and>
           (en_bps e < en_bps b * (1 / 4) \<or> 8 * 1024 * 1024 \<le> en_bytes e \<and> en_bps e < en_bps b * (3 / 4))))"

definition score_slow :: "time \<Rightarrow> bool \<Rightarrow> bool \<Rightarrow> cdn_entry \<times> string \<Rightarrow> cdn_entry \<times> string" where
  "score_slow now consecutive slow er =
     (case er of (e, reason) \<Rightarrow>
        if slow then
          let e1 = (if en_slow e = 0 \<or> \<not> consecutive then e\<lparr>en_slow_since := now, en_slow := 0\<rparr> else e);
              e2 = e1\<lparr>en_slow := en_slow e1 + 1\<rparr>
          in if 4 \<le> en_slow e2 \<and> 15000000000 \<le> now - en_slow_since e2
             then (e2\<lparr>en_cooldown := now + minute, en_perf_cooldown := True\<rparr>, ''slow_candidate'')
             else (e2, reason)
        else (e\<lparr>en_slow := 0, en_slow_since := zero_time\<rparr>, reason))"

definition score_advantage :: "bool \<Rightarrow> cdn_entry \<times> string \<Rightarrow> cdn_entry \<times> string" where
  "score_advantage consecutive er =
     (case er of (e, reason) \<Rightarrow>
        if reason = ''advantage_window'' then
          let windows = (if consecutive then en_advantage e else 0) + 1
          in (e\<lparr>en_advantage := windows, en_preferred := 2 \<le> windows\<rparr>, if 2 \<le> windows then ''preferred'' else reason)
        else (e\<lparr>en_advantage := 0, en_preferred := False\<rparr>, reason))"

definition paused :: "time \<Rightarrow> (string \<times> failure_window) list \<Rightarrow> cdn_key \<Rightarrow> bool" where
  "paused now failed k = (case map_of failed (steam_failure_key k) of None \<Rightarrow> False | Some w \<Rightarrow> now < fw_until w)"

definition evaluate_entry ::
  "time \<Rightarrow> (string \<times> failure_window) list \<Rightarrow> cdn_key \<Rightarrow> cdn_entry option \<Rightarrow> cdn_entry \<Rightarrow> cdn_entry" where
  "evaluate_entry now failed k base0 e0 =
     (if \<not> en_validated e0 \<or> en_expires e0 \<le> now then e0\<lparr>en_preferred := False\<rparr>
      else if paused now failed k then e0\<lparr>en_preferred := False, en_reason := ''route_paused''\<rparr>
      else if now < en_cooldown e0 then e0\<lparr>en_preferred := False\<rparr>
      else
        let e1 = (if en_perf_cooldown e0 then reset_performance (e0\<lparr>en_perf_cooldown := False\<rparr>) else e0);
            window = unix_seconds now div 5
        in if en_window e1 = window then e1
           else
             let consecutive = (en_window e1 = window - 1);
                 e2 = e1\<lparr>en_window := window, en_evaluated := now\<rparr>;
                 base = comparable_baseline now e2 base0
             in case score_advantage consecutive
                       (score_slow now consecutive (slow_candidate now e2 base) (e2, promotion_reason now e2 base))
                of (e3, reason) \<Rightarrow> e3\<lparr>en_scored := en_samples e3, en_reason := reason\<rparr>)"

text \<open>\<open>evaluateGeneration\<close>, every five seconds.\<close>

definition entry_baseline :: "cdn \<Rightarrow> cdn_key \<Rightarrow> string \<Rightarrow> cdn_entry option" where
  "entry_baseline c k ip = map_of (c_entries c) (k\<lparr>ck_ip := ip\<rparr>)"

fun evaluate_entries :: "time \<Rightarrow> (cdn_key \<times> cdn_entry) list \<Rightarrow> cdn \<Rightarrow> cdn" where
  "evaluate_entries now [] c = c"
| "evaluate_entries now ((k, e) # es) c =
     evaluate_entries now es
       (if en_baseline e = '''' then c
        else c\<lparr>c_entries := AList.update k (evaluate_entry now (c_failures c) k (entry_baseline c k (en_baseline e)) e) (c_entries c)\<rparr>)"

definition evaluate_generation :: "time \<Rightarrow> bool \<Rightarrow> u64 \<Rightarrow> cdn \<Rightarrow> cdn" where
  "evaluate_generation now root_done generation c =
     (if \<not> c_enabled c \<or> generation \<noteq> c_generation c \<or> root_done then c
      else let c1 = cdn_prune now c in evaluate_entries now (c_entries c1) c1)"

section \<open>Transfers\<close>

definition count_failure :: "time \<Rightarrow> failure_window \<Rightarrow> failure_window" where
  "count_failure now w0 =
     (let w1 = (if minute < now - fw_at w0 then w0\<lparr>fw_at := now, fw_count := 0\<rparr> else w0);
          w2 = w1\<lparr>fw_count := fw_count w1 + 1\<rparr>
      in if 3 \<le> fw_count w2 then w2\<lparr>fw_until := now + minute\<rparr> else w2)"

definition account_transfer :: "time \<Rightarrow> cdn_key \<Rightarrow> u64 \<Rightarrow> int \<Rightarrow> u64 \<Rightarrow> bool \<Rightarrow> bool \<Rightarrow> cdn \<Rightarrow> cdn" where
  "account_transfer now k generation delta amount switched failed c =
     (if \<not> c_enabled c \<or> generation \<noteq> c_generation c then c
      else case map_of (c_traffic c) k of None \<Rightarrow> c
      | Some t \<Rightarrow>
          let t1 = (if switched then t\<lparr>tf_switched_active := max 0 (tf_switched_active t + delta), tf_switched := tf_switched t + amount\<rparr>
                    else t\<lparr>tf_original := tf_original t + amount\<rparr>);
              c1 = (if switched then c\<lparr>c_switched := c_switched c + amount\<rparr> else c\<lparr>c_original := c_original c + amount\<rparr>)
          in if \<not> failed \<or> \<not> switched then c1\<lparr>c_traffic := AList.update k t1 (c_traffic c1)\<rparr>
             else
               let c2 = c1\<lparr>c_traffic := AList.update k (t1\<lparr>tf_failures := tf_failures t1 + 1\<rparr>) (c_traffic c1),
                           c_transfer_failures := c_transfer_failures c1 + 1\<rparr>;
                   fk = steam_failure_key k
               in case map_of (c_failures c2) fk of
                    Some w \<Rightarrow> c2\<lparr>c_failures := AList.update fk (count_failure now w) (c_failures c2)\<rparr>
                  | None \<Rightarrow>
                      if 512 \<le> length (c_failures c2) then c2
                      else c2\<lparr>c_failures := AList.update fk (count_failure now \<lparr>fw_at = now, fw_until = zero_time, fw_count = 0\<rparr>) (c_failures c2)\<rparr>)"

definition count_slot :: "int \<Rightarrow> u64 \<Rightarrow> bool \<Rightarrow> cdn_slot list \<Rightarrow> cdn_slot list" where
  "count_slot sec amount switched slots =
     (let i = nat (sec mod 5);
          s0 = (if sl_second (slots ! i) \<noteq> sec then \<lparr>sl_second = sec, sl_bytes = 0, sl_switched = 0\<rparr> else slots ! i)
      in slots[i := s0\<lparr>sl_bytes := sl_bytes s0 + amount, sl_switched := (if switched then sl_switched s0 + amount else sl_switched s0)\<rparr>])"

text \<open>\<open>trafficChange\<close>; every caller gives the attribution.\<close>

definition traffic_change :: "time \<Rightarrow> cdn_key \<Rightarrow> u64 \<Rightarrow> int \<Rightarrow> u64 \<Rightarrow> bool \<Rightarrow> bool \<Rightarrow> cdn \<Rightarrow> cdn" where
  "traffic_change now k generation delta amount trial switched c =
     (if \<not> c_enabled c \<or> generation \<noteq> c_generation c then c
      else if map_of (c_traffic c) k = None \<and> 512 \<le> length (c_traffic c) then c
      else
        let t0 = (case map_of (c_traffic c) k of None \<Rightarrow> new_traffic | Some t \<Rightarrow> t);
            t1 = t0\<lparr>tf_active := max 0 (tf_active t0 + delta),
                    tf_trials := (if trial then max 0 (tf_trials t0 + delta) else tf_trials t0),
                    tf_slots := count_slot (unix_seconds now) amount switched (tf_slots t0)\<rparr>
        in account_transfer now k generation delta amount switched False (c\<lparr>c_traffic := AList.update k t1 (c_traffic c)\<rparr>))"

definition cdn_outcome :: "time \<Rightarrow> cdn_key \<Rightarrow> u64 \<Rightarrow> bool \<Rightarrow> cdn \<Rightarrow> cdn" where
  "cdn_outcome now k generation success c =
     (if \<not> c_enabled c \<or> generation \<noteq> c_generation c then c
      else if success then c\<lparr>c_replacements := c_replacements c + 1\<rparr>
      else
        let c1 = c\<lparr>c_fallbacks := c_fallbacks c + 1\<rparr> in
        case map_of (c_entries c1) k of None \<Rightarrow> c1
        | Some e \<Rightarrow> c1\<lparr>c_entries := AList.update k (reset_performance (e\<lparr>en_cooldown := now + minute\<rparr>)) (c_entries c1)\<rparr>)"

definition finish_transfer :: "time \<Rightarrow> cdn_key \<Rightarrow> u64 \<Rightarrow> u64 \<Rightarrow> bool \<Rightarrow> cdn \<Rightarrow> cdn" where
  "finish_transfer now k generation amount failed c =
     (if \<not> c_enabled c \<or> generation \<noteq> c_generation c then c
      else case map_of (c_entries c) k of None \<Rightarrow> c
      | Some e \<Rightarrow>
          if failed then c\<lparr>c_entries := AList.update k ((reset_performance e)\<lparr>en_cooldown := now + minute\<rparr>) (c_entries c)\<rparr>
          else if 64 * 1024 \<le> amount then c\<lparr>c_entries := AList.update k (e\<lparr>en_successes := en_successes e + 1\<rparr>) (c_entries c)\<rparr>
          else c)"

definition release_trial :: "cdn_key \<Rightarrow> u64 \<Rightarrow> cdn \<Rightarrow> cdn" where
  "release_trial k generation c =
     (if generation \<noteq> c_generation c then c
      else case map_of (c_traffic c) k of None \<Rightarrow> c
      | Some t \<Rightarrow>
          if 0 < tf_trials t then c\<lparr>c_traffic := AList.update k (t\<lparr>tf_trials := tf_trials t - 1\<rparr>) (c_traffic c)\<rparr> else c)"

section \<open>Trials\<close>

text \<open>The order of strings by their bytes.\<close>

fun string_less :: "string \<Rightarrow> string \<Rightarrow> bool" where
  "string_less a [] = False"
| "string_less [] (y # ys) = True"
| "string_less (x # xs) (y # ys) =
     ((of_char x :: nat) < of_char y \<or> x = y \<and> string_less xs ys)"

definition explore_score :: "time \<Rightarrow> cdn_entry \<Rightarrow> rat" where
  "explore_score now e = (if minute \<le> now - en_probed_at e \<or> en_expires e \<le> now then 0 else en_probe_bps e)"

definition explore_before :: "time \<Rightarrow> cdn_key \<times> cdn_entry \<Rightarrow> cdn_key \<times> cdn_entry \<Rightarrow> bool" where
  "explore_before now a b =
     (if en_selections (snd a) \<noteq> en_selections (snd b) then en_selections (snd a) < en_selections (snd b)
      else if explore_score now (snd a) \<noteq> explore_score now (snd b) then explore_score now (snd b) < explore_score now (snd a)
      else string_less (ck_ip (fst a)) (ck_ip (fst b)))"

definition same_route :: "cdn_key \<Rightarrow> cdn_key \<Rightarrow> bool" where
  "same_route k route = (ck_adapter k = ck_adapter route \<and> ck_domain k = ck_domain route \<and> ck_port k = ck_port route)"

definition group_trials :: "cdn_key \<Rightarrow> cdn \<Rightarrow> int" where
  "group_trials route c =
     sum_list (map (\<lambda>(k, t).
       if same_route k route \<and> (case map_of (c_entries c) k of None \<Rightarrow> True | Some e \<Rightarrow> \<not> en_preferred e) then tf_trials t else 0)
       (c_traffic c))"

text \<open>The first loop of \<open>useTrial\<close>: every alternative is scored against the original.\<close>

definition rate_alternative :: "time \<Rightarrow> cdn_key \<Rightarrow> cdn \<Rightarrow> cdn_key \<times> cdn_entry \<Rightarrow> cdn_key \<times> cdn_entry" where
  "rate_alternative now original c ke =
     (case ke of (k, e0) \<Rightarrow>
        if \<not> same_route k original \<or> ck_ip k = ck_ip original \<or> \<not> en_validated e0 then (k, e0)
        else
          let e1 = (if en_baseline e0 \<noteq> ck_ip original then e0\<lparr>en_advantage := 0, en_preferred := False\<rparr> else e0)
          in (k, evaluate_entry now (c_failures c) k (map_of (c_entries c) original) (e1\<lparr>en_baseline := ck_ip original\<rparr>)))"

definition is_alternative :: "cdn_key \<Rightarrow> cdn_key \<times> cdn_entry \<Rightarrow> bool" where
  "is_alternative original ke =
     (same_route (fst ke) original \<and> ck_ip (fst ke) \<noteq> ck_ip original \<and> en_validated (snd ke))"

text \<open>
  The second loop: an entry that may not be used (with the reason it is left with), or one that
  competes with the best so far. \<open>explore\<close>, \<open>has_preferred\<close>, the trials of the group and the
  original's entry are fixed during the loop.
\<close>

definition trial_allowed :: "time \<Rightarrow> cdn_key \<Rightarrow> cdn \<Rightarrow> cdn_key \<times> cdn_entry \<Rightarrow> bool" where
  "trial_allowed now original c ke =
     (is_alternative original ke \<and> en_cooldown (snd ke) \<le> now \<and>
      \<not> (map_of (c_traffic c) (fst ke) = None \<and> 512 \<le> length (c_traffic c)) \<and> \<not> paused now (c_failures c) (fst ke) \<and>
      (case map_of (c_traffic c) (fst ke) of None \<Rightarrow> True
       | Some t \<Rightarrow> if en_preferred (snd ke) then tf_trials t < 4 else tf_trials t \<le> 0) \<and>
      (en_preferred (snd ke) \<or> group_trials original c < 2))"

definition trial_reason :: "time \<Rightarrow> cdn_key \<Rightarrow> cdn \<Rightarrow> cdn_key \<times> cdn_entry \<Rightarrow> cdn_entry" where
  "trial_reason now original c ke =
     (if \<not> is_alternative original ke \<or> now < en_cooldown (snd ke) \<or>
         map_of (c_traffic c) (fst ke) = None \<and> 512 \<le> length (c_traffic c)
      then snd ke
      else if paused now (c_failures c) (fst ke) then (snd ke)\<lparr>en_reason := ''route_paused''\<rparr>
      else if (case map_of (c_traffic c) (fst ke) of None \<Rightarrow> False
               | Some t \<Rightarrow> \<not> en_preferred (snd ke) \<and> 0 < tf_trials t \<or> en_preferred (snd ke) \<and> 4 \<le> tf_trials t)
      then snd ke
      else if \<not> en_preferred (snd ke) \<and> 2 \<le> group_trials original c then (snd ke)\<lparr>en_admission := ''group_trial_limit''\<rparr>
      else snd ke)"

definition bootstraps :: "time \<Rightarrow> bool \<Rightarrow> cdn_key \<Rightarrow> cdn \<Rightarrow> cdn_entry \<Rightarrow> bool" where
  "bootstraps now has_preferred original c e =
     (\<not> has_preferred \<and> group_trials original c = 0 \<and> en_selections e = 0 \<and>
      (case map_of (c_entries c) original of None \<Rightarrow> False
       | Some b \<Rightarrow> 3 \<le> en_samples b \<and> now - en_last_sample b < ten_seconds))"

definition prefers ::
  "time \<Rightarrow> bool \<Rightarrow> bool \<Rightarrow> cdn_key \<Rightarrow> cdn \<Rightarrow> (cdn_key \<times> cdn_entry) option \<Rightarrow> cdn_key \<times> cdn_entry \<Rightarrow> (cdn_key \<times> cdn_entry) option" where
  "prefers now explore has_preferred original c selected ke =
     (let bootstrap = bootstraps now has_preferred original c (snd ke) in
      if \<not> trial_allowed now original c ke \<or> \<not> explore \<and> \<not> en_preferred (snd ke) \<and> \<not> bootstrap then selected
      else case selected of None \<Rightarrow> Some ke
      | Some best \<Rightarrow>
          if (explore \<or> bootstrap) \<and> explore_before now ke best \<or>
             \<not> explore \<and> \<not> bootstrap \<and>
               (en_bps (snd best) < en_bps (snd ke) \<or> en_bps (snd ke) = en_bps (snd best) \<and> string_less (ck_ip (fst ke)) (ck_ip (fst best)))
          then Some ke else selected)"

definition pick_trial :: "time \<Rightarrow> bool \<Rightarrow> bool \<Rightarrow> cdn_key \<Rightarrow> cdn \<Rightarrow> (cdn_key \<times> cdn_entry) option" where
  "pick_trial now explore has_preferred original c =
     fold (\<lambda>ke selected. prefers now explore has_preferred original c selected ke) (c_entries c) None"

definition rate_route :: "time \<Rightarrow> cdn_key \<Rightarrow> cdn \<Rightarrow> cdn" where
  "rate_route now original c = c\<lparr>c_entries := map (rate_alternative now original c) (c_entries c)\<rparr>"

definition explain_route :: "time \<Rightarrow> cdn_key \<Rightarrow> cdn \<Rightarrow> cdn" where
  "explain_route now original c = c\<lparr>c_entries := map (\<lambda>ke. (fst ke, trial_reason now original c ke)) (c_entries c)\<rparr>"

text \<open>The place is taken before dialing, under the same lock.\<close>

definition reserve_trial :: "cdn_key \<Rightarrow> cdn \<Rightarrow> cdn" where
  "reserve_trial k c =
     (let t = (case map_of (c_traffic c) k of None \<Rightarrow> new_traffic | Some t \<Rightarrow> t) in
      c\<lparr>c_entries := map (\<lambda>(k', e'). (k', if k' = k then e'\<lparr>en_selections := en_selections e' + 1\<rparr> else e')) (c_entries c),
        c_traffic := AList.update k (t\<lparr>tf_trials := tf_trials t + 1\<rparr>) (c_traffic c)\<rparr>)"

definition use_trial :: "time \<Rightarrow> string \<Rightarrow> string \<Rightarrow> string \<Rightarrow> string \<Rightarrow> cdn \<Rightarrow> (string \<times> u64) \<times> cdn" where
  "use_trial now adapter_name host port original_ip c =
     (if \<not> c_enabled c then (('''', c_generation c), c)
      else
        let c1 = cdn_prune now c;
            route = adapter_name @ ''/'' @ host @ '':'' @ port;
            made = (case map_of (c_decisions c1) route of None \<Rightarrow> 0 | Some n \<Rightarrow> n)
        in if 512 \<le> length (c_decisions c1) \<and> made = 0 then (('''', c_generation c), c1)
           else
             let n = made + 1;
                 original = \<lparr>ck_adapter = adapter_name, ck_domain = host, ck_port = port, ck_ip = original_ip\<rparr>;
                 explore = (n mod 8 = 0);
                 c3 = rate_route now original (c1\<lparr>c_decisions := AList.update route n (c_decisions c1)\<rparr>);
                 has_preferred = list_ex (\<lambda>ke. is_alternative original ke \<and> en_preferred (snd ke)) (c_entries c3)
             in if has_preferred \<and> n mod 8 = 7 then (('''', c_generation c), c3)
                else
                  let c4 = explain_route now original c3
                  in case pick_trial now explore has_preferred original c3 of
                       None \<Rightarrow> (('''', c_generation c), c4)
                     | Some (k, e) \<Rightarrow> ((ck_ip k, c_generation c), reserve_trial k c4))"

end
