(* ===== verification/SteamProbe.thy ===== *)
theory SteamProbe
  imports SteamTrial
begin

text \<open>
  What the Steam CDN optimizer does around its trials: connections it recognizes, discovery jobs
  and their slots, the addresses a job admits or rejects, the budgets of probe requests, and its
  bounded diagnostics. \<open>cdn_op\<close> lists everything that happens to the state of \<open>steamCDN\<close>.
\<close>

section \<open>Diagnostics and budgets\<close>

definition cdn_note :: "time \<Rightarrow> u64 \<Rightarrow> string \<Rightarrow> string \<Rightarrow> string \<Rightarrow> string \<Rightarrow> cdn \<Rightarrow> cdn" where
  "cdn_note now generation host adapter_name ip stage c =
     (if \<not> c_enabled c \<or> generation \<noteq> c_generation c then c
      else
        let count = (case map_of (c_stages c) stage of None \<Rightarrow> 0 | Some n \<Rightarrow> n);
            c1 = c\<lparr>c_stages := AList.update stage (count + 1) (c_stages c)\<rparr>
        in if list_ex (\<lambda>d. dg_domain d = host \<and> dg_adapter d = adapter_name \<and> dg_ip d = ip \<and> dg_stage d = stage \<and>
                  now - dg_at d < 30000000000) (c_diagnostics c1)
           then c1
           else
             let ds = (if 64 \<le> length (c_diagnostics c1) then tl (c_diagnostics c1) else c_diagnostics c1)
             in c1\<lparr>c_diagnostics := ds @ [\<lparr>dg_domain = host, dg_adapter = adapter_name, dg_ip = ip, dg_stage = stage, dg_at = now\<rparr>]\<rparr>)"

definition speed_probe_size :: int where
  "speed_probe_size = 256 * 1024"

definition speed_probe_budget :: int where
  "speed_probe_budget = 4 * 1024 * 1024"

definition reserve_speed_probe :: "time \<Rightarrow> bool \<Rightarrow> int \<Rightarrow> cdn \<Rightarrow> bool \<times> cdn" where
  "reserve_speed_probe now root_done amount c =
     (let c1 = (if minute \<le> now - c_speed_at c then c\<lparr>c_speed_at := now, c_speed_bytes := 0, c_speed_attempts := 0\<rparr> else c) in
      if \<not> c_enabled c1 \<or> root_done \<or> amount < 1 \<or> speed_probe_size + 1 < amount \<or> 16 \<le> c_speed_attempts c1 \<or>
         speed_probe_budget < c_speed_bytes c1 + amount
      then (False, c1)
      else (True, c1\<lparr>c_speed_bytes := c_speed_bytes c1 + amount, c_speed_attempts := c_speed_attempts c1 + 1\<rparr>))"

text \<open>The budget of the short probes, in \<open>probeSteamRange\<close>.\<close>

definition reserve_probe :: "time \<Rightarrow> int \<Rightarrow> cdn \<Rightarrow> bool \<times> cdn" where
  "reserve_probe now len c =
     (let c1 = (if minute \<le> now - c_budget_at c then c\<lparr>c_budget_at := now, c_budget_bytes := 0, c_budget_attempts := 0\<rparr> else c) in
      if c_enabled c1 \<and> c_budget_bytes c1 + len + 1 \<le> 256 * 1024 \<and> c_budget_attempts c1 < 64
      then (True, c1\<lparr>c_budget_bytes := c_budget_bytes c1 + (len + 1), c_budget_attempts := c_budget_attempts c1 + 1\<rparr>)
      else (False, c1))"

text \<open>
  The checks of \<open>probeSteamRange\<close> before a request leaves: the scope, the context, the budget. The
  len is at most 4096, for an extended probe \<open>speed_probe_size\<close>; \<open>uri_ok\<close> is \<open>validSteamProbeURI\<close>.
\<close>

definition admit_probe ::
  "time \<Rightarrow> bool \<Rightarrow> bool \<Rightarrow> string \<Rightarrow> string \<Rightarrow> bool \<Rightarrow> int \<Rightarrow> bool \<Rightarrow> cdn \<Rightarrow> string \<times> cdn" where
  "admit_probe now ctx_done root_done host ip uri_ok len extended c =
     (let limit = (if extended then speed_probe_size else 4096) in
      if \<not> steam_download_host host \<or> \<not> public_cdn_ip ip \<or> \<not> uri_ok \<or> len < 1 \<or> limit < len then (''invalid probe scope'', c)
      else if ctx_done then (''http_probe_cancelled'', c)
      else if extended then
        (case reserve_speed_probe now root_done (len + 1) c of (ok, c1) \<Rightarrow> (if ok then '''' else ''http_speed_budget'', c1))
      else (case reserve_probe now len c of (ok, c1) \<Rightarrow> (if ok then '''' else ''http_budget'', c1)))"

section \<open>Discovery\<close>

definition observed_candidates :: "time \<Rightarrow> string \<Rightarrow> string \<Rightarrow> cdn \<Rightarrow> cdn_candidate list" where
  "observed_candidates now host port c =
     (let found = map (\<lambda>(k, t). \<lparr>cc_ip = ck_ip k, cc_expires = t\<rparr>)
            (filter (\<lambda>(k, t). ck_domain k = host \<and> ck_port k = port \<and> now < t \<and> public_cdn_ip (ck_ip k)) (c_observed c));
          ordered = fold (\<lambda>x ys. takeWhile (\<lambda>y. string_less (cc_ip y) (cc_ip x)) ys @ [x] @
                          dropWhile (\<lambda>y. string_less (cc_ip y) (cc_ip x)) ys) found []
      in merge_steam_candidate_pool [rotate_steam_candidates ordered (unix_seconds now div 30)] 32)"

text \<open>
  A job starts when there is a free slot and the key was not probed recently; the key is
  \<open>host:port\<close>, for an observed connection with the adapter in front.
\<close>

definition begin_discovery :: "time \<Rightarrow> string \<Rightarrow> u64 option \<Rightarrow> cdn \<Rightarrow> bool \<times> cdn" where
  "begin_discovery now key generation c0 =
     (let c = cdn_prune now c0 in
      if \<not> c_enabled c \<or> (case generation of None \<Rightarrow> False | Some g \<Rightarrow> c_generation c \<noteq> g) \<or> 2 \<le> c_probing c \<or>
         64 \<le> length (c_discovery c) \<or> (case map_of (c_discovery c) key of None \<Rightarrow> False | Some t \<Rightarrow> now < t)
      then (False, c)
      else (True, c\<lparr>c_discovery := AList.update key (now + 30000000000) (c_discovery c), c_probing := c_probing c + 1\<rparr>))"

definition end_discovery :: "u64 \<Rightarrow> cdn \<Rightarrow> cdn" where
  "end_discovery generation c = (if generation = c_generation c then c\<lparr>c_probing := c_probing c - 1\<rparr> else c)"

text \<open>A verified candidate becomes an entry: in \<open>probeSteamCandidates\<close> and in \<open>validateObservedSteam\<close>.\<close>

definition revalidated :: "time \<Rightarrow> string \<Rightarrow> cdn_entry \<Rightarrow> cdn_entry" where
  "revalidated expires source e =
     e\<lparr>en_expires := expires, en_validated := True, en_source := source,
       en_reason := (if en_reason e = ''validation_expired'' then ''stale_samples'' else en_reason e)\<rparr>"

definition admit_candidate :: "time \<Rightarrow> u64 \<Rightarrow> cdn_key \<Rightarrow> string \<Rightarrow> time \<Rightarrow> string \<Rightarrow> cdn \<Rightarrow> cdn" where
  "admit_candidate now generation k source expires discovery_key c =
     (if c_enabled c \<and> generation = c_generation c \<and> length (c_entries c) < 512 \<and> now < expires then
        let c1 = c\<lparr>c_entries := AList.update k
              (case map_of (c_entries c) k of
                 Some old \<Rightarrow> revalidated expires source old
               | None \<Rightarrow> new_entry\<lparr>en_source := source, en_validated := True, en_expires := expires\<rparr>) (c_entries c)\<rparr>;
            expiry = (case map_of (c_discovery c1) discovery_key of None \<Rightarrow> zero_time | Some t \<Rightarrow> t)
        in if expiry < expires then c1\<lparr>c_discovery := AList.update discovery_key expires (c_discovery c1)\<rparr> else c1
      else c)"

definition admit_observed :: "time \<Rightarrow> bool \<Rightarrow> u64 \<Rightarrow> cdn_key \<Rightarrow> string \<Rightarrow> time \<Rightarrow> cdn \<Rightarrow> bool \<times> cdn" where
  "admit_observed now ctx_done generation k source expires c =
     (if c_enabled c \<and> generation = c_generation c \<and> \<not> ctx_done \<and> now < expires then
        case map_of (c_entries c) k of
          Some e \<Rightarrow> (True, c\<lparr>c_entries := AList.update k (revalidated expires (if source = '''' then ''dns'' else source) e) (c_entries c)\<rparr>)
        | None \<Rightarrow>
            if 512 \<le> length (c_entries c) then (False, c)
            else (True, c\<lparr>c_entries := AList.update k (revalidated expires (if source = '''' then ''dns'' else source) new_entry) (c_entries c)\<rparr>)
      else (False, c))"

text \<open>A candidate whose bytes are not those of the original loses its validation.\<close>

definition reject_content :: "u64 \<Rightarrow> cdn_key \<Rightarrow> cdn \<Rightarrow> cdn" where
  "reject_content generation k c =
     (if c_enabled c \<and> generation = c_generation c then
        case map_of (c_entries c) k of None \<Rightarrow> c
        | Some e \<Rightarrow> c\<lparr>c_entries := AList.update k (e\<lparr>en_validated := False, en_preferred := False, en_probe_bps := 0,
                         en_reason := ''content_mismatch''\<rparr>) (c_entries c)\<rparr>
      else c)"

section \<open>Speed samples\<close>

text \<open>
  \<open>measureSteamCandidates\<close>: which verified candidates are measured, the least recently attempted
  first and at most two, and what the start and the end of a measurement change.
\<close>

definition due_for_speed :: "time \<Rightarrow> cdn_entry \<Rightarrow> bool" where
  "due_for_speed now e =
     (en_validated e \<and> now < en_expires e \<and> en_cooldown e \<le> now \<and> minute \<le> now - en_probe_attempt e)"

definition speed_targets :: "time \<Rightarrow> cdn_key \<Rightarrow> cdn_candidate list \<Rightarrow> cdn \<Rightarrow> cdn_key list" where
  "speed_targets now route verified c =
     (let due = concat (map (\<lambda>cand. let k = route\<lparr>ck_ip := cc_ip cand\<rparr> in
                  case map_of (c_entries c) k of None \<Rightarrow> [] | Some e \<Rightarrow> if due_for_speed now e then [(k, en_probe_attempt e)] else [])
                verified);
          before = (\<lambda>(k, t) (k', t'). if t = t' then string_less (ck_ip k) (ck_ip k') else t < t');
          ordered = fold (\<lambda>x ys. takeWhile (\<lambda>y. \<not> before x y) ys @ [x] @ dropWhile (\<lambda>y. \<not> before x y) ys) due []
      in take 2 (map fst ordered))"

definition begin_speed_sample :: "time \<Rightarrow> u64 \<Rightarrow> cdn_key \<Rightarrow> cdn \<Rightarrow> bool \<times> cdn" where
  "begin_speed_sample now generation k c =
     (case map_of (c_entries c) k of None \<Rightarrow> (False, c)
      | Some e \<Rightarrow>
          if c_enabled c \<and> generation = c_generation c \<and> en_validated e \<and> now < en_expires e \<and> en_cooldown e \<le> now
          then (True, c\<lparr>c_entries := AList.update k (e\<lparr>en_probe_attempt := now\<rparr>) (c_entries c)\<rparr>)
          else (False, c))"

definition end_speed_sample :: "time \<Rightarrow> bool \<Rightarrow> u64 \<Rightarrow> cdn_key \<Rightarrow> string \<Rightarrow> nat \<Rightarrow> duration \<Rightarrow> cdn \<Rightarrow> cdn" where
  "end_speed_sample now ctx_done generation k stage amount elapsed c =
     (case map_of (c_entries c) k of None \<Rightarrow> c
      | Some e \<Rightarrow>
          if c_enabled c \<and> generation = c_generation c \<and> now < en_expires e \<and> \<not> ctx_done then
            let e1 = (if stage = ''http_speed_sampled'' \<and> 0 < elapsed
                      then e\<lparr>en_probe_bps := of_nat amount * 1000000000 / of_int elapsed, en_probed_at := now\<rparr> else e);
                e2 = (if stage = ''http_content_mismatch''
                      then e1\<lparr>en_validated := False, en_preferred := False, en_probe_bps := 0, en_reason := ''content_mismatch''\<rparr> else e1)
            in c\<lparr>c_entries := AList.update k e2 (c_entries c)\<rparr>
          else c)"

text \<open>A switched connection that has carried 64 KiB counts once as effective.\<close>

definition count_effective :: "u64 \<Rightarrow> cdn \<Rightarrow> cdn" where
  "count_effective generation c = (if c_generation c = generation then c\<lparr>c_effective := c_effective c + 1\<rparr> else c)"

text \<open>\<open>choose\<close>, the selection by throughput alone.\<close>

definition choosable :: "time \<Rightarrow> cdn_key \<Rightarrow> cdn_key \<times> cdn_entry \<Rightarrow> bool" where
  "choosable now route ke = (same_route (fst ke) route \<and> en_validated (snd ke) \<and> en_cooldown (snd ke) \<le> now)"

definition keep_best :: "('a \<Rightarrow> 'a \<Rightarrow> bool) \<Rightarrow> 'a list \<Rightarrow> 'a option" where
  "keep_best better xs = fold (\<lambda>x best. case best of None \<Rightarrow> Some x | Some b \<Rightarrow> if better x b then Some x else best) xs None"

definition cdn_choose :: "time \<Rightarrow> string \<Rightarrow> string \<Rightarrow> string \<Rightarrow> cdn \<Rightarrow> (string \<times> u64) \<times> cdn" where
  "cdn_choose now adapter_name domain port c =
     (if \<not> c_enabled c then (('''', c_generation c), c)
      else
        let c1 = cdn_prune now c;
            es = filter (choosable now \<lparr>ck_adapter = adapter_name, ck_domain = domain, ck_port = port, ck_ip = ''''\<rparr>) (c_entries c1);
            selections = sum_list (map (\<lambda>ke. en_selections (snd ke)) es);
            faster = (\<lambda>a b. en_bps (snd b) < en_bps (snd a) \<or> en_bps (snd a) = en_bps (snd b) \<and> string_less (ck_ip (fst a)) (ck_ip (fst b)));
            rarer = (\<lambda>a b. en_selections (snd a) < en_selections (snd b) \<or>
                            en_selections (snd a) = en_selections (snd b) \<and> string_less (ck_ip (fst a)) (ck_ip (fst b)))
        in case (keep_best faster es, keep_best rarer es) of
             (Some best, Some explore) \<Rightarrow>
               let (k, e) = (if en_selections (snd explore) = 0 \<or> selections mod 8 = 0 then explore else best)
               in ((ck_ip k, c_generation c1), c1\<lparr>c_entries := AList.update k (e\<lparr>en_selections := en_selections e + 1\<rparr>) (c_entries c1)\<rparr>)
           | _ \<Rightarrow> (('''', c_generation c1), c1))"

section \<open>Recognized connections\<close>

text \<open>The locked part of \<open>prepareSteamCDN\<close>: the original address is noted and has an entry.\<close>

definition recognize :: "time \<Rightarrow> cdn_key \<Rightarrow> cdn \<Rightarrow> cdn" where
  "recognize now k c0 =
     (let c = c0\<lparr>c_recognized := c_recognized c0 + 1\<rparr> in
      if \<not> c_enabled c then c
      else
        let c1 = (if length (c_observed c) < 512 \<or> (case map_of (c_observed c) k of None \<Rightarrow> False | Some t \<Rightarrow> t \<noteq> zero_time)
                  then c\<lparr>c_observed := AList.update k (now + 2 * minute) (c_observed c)\<rparr> else c)
        in case map_of (c_entries c1) k of
             Some e \<Rightarrow>
               if en_expires e \<le> now
               then c1\<lparr>c_entries := AList.update k ((reset_performance e)\<lparr>en_validated := False, en_probe_bps := 0,
                        en_probed_at := zero_time, en_probe_attempt := zero_time, en_reason := '''',
                        en_expires := now + cdn_lifetime\<rparr>) (c_entries c1)\<rparr>
               else c1
           | None \<Rightarrow>
               if length (c_entries c1) < 512
               then c1\<lparr>c_entries := AList.update k (new_entry\<lparr>en_selections := 1, en_expires := now + cdn_lifetime\<rparr>) (c_entries c1)\<rparr>
               else c1)"

text \<open>Whether the optimizer looks at a connection at all.\<close>

definition recognizes :: "bool \<Rightarrow> bool \<Rightarrow> cdn \<Rightarrow> string \<Rightarrow> string \<Rightarrow> string \<Rightarrow> bool" where
  "recognizes direct root_done c host port original_ip =
     (\<not> direct \<and> cdn_active root_done c \<and> (port = ''80'' \<or> port = ''443'') \<and> steam_download_host host \<and> public_cdn_ip original_ip)"

text \<open>A slot for an observer, \<open>newSteamObserver\<close>, and its return in \<open>stopLocked\<close>.\<close>

definition take_observer :: "bool \<Rightarrow> string \<Rightarrow> u64 \<Rightarrow> cdn \<Rightarrow> bool \<times> cdn" where
  "take_observer root_done port generation c =
     (if port \<noteq> ''80'' \<or> \<not> cdn_active root_done c \<or> generation \<noteq> c_generation c \<or> 64 \<le> c_observers c then (False, c)
      else (True, c\<lparr>c_observers := c_observers c + 1\<rparr>))"

definition drop_observer :: "cdn \<Rightarrow> cdn" where
  "drop_observer c = c\<lparr>c_observers := c_observers c - 1\<rparr>"

section \<open>Everything that happens\<close>

datatype cdn_op =
    Configure bool "bool option" bool
  | Evaluate bool u64
  | Observe cdn_key u64 u64 duration
  | Traffic cdn_key u64 int u64 bool
  | Account cdn_key u64 u64 bool bool
  | Outcome cdn_key u64 bool
  | Finish cdn_key u64 u64 bool
  | UseTrial string string string string
  | ReleaseTrial cdn_key u64
  | Note u64 string string string string
  | SpeedProbe bool int
  | ShortProbe int
  | BeginDiscovery string "u64 option"
  | EndDiscovery u64
  | Admit u64 cdn_key string time string
  | AdmitObserved bool u64 cdn_key string time
  | RejectContent u64 cdn_key
  | Recognize cdn_key
  | BeginSpeed u64 cdn_key
  | EndSpeed bool u64 cdn_key string nat duration
  | Effective u64
  | Choose string string string
  | TakeObserver bool string u64
  | DropObserver
  | Snapshot

fun cdn_step :: "time \<Rightarrow> cdn_op \<Rightarrow> cdn \<Rightarrow> cdn" where
  "cdn_step now (Configure root_done enabled reset) c = configure_steam_cdn now root_done enabled reset c"
| "cdn_step now (Evaluate root_done g) c = evaluate_generation now root_done g c"
| "cdn_step now (Observe k g amount elapsed) c = cdn_observe now k g amount elapsed c"
| "cdn_step now (Traffic k g delta amount switched) c = traffic_change now k g delta amount False switched c"
| "cdn_step now (Account k g amount switched failed) c = account_transfer now k g 0 amount switched failed c"
| "cdn_step now (Outcome k g success) c = cdn_outcome now k g success c"
| "cdn_step now (Finish k g amount failed) c = finish_transfer now k g amount failed c"
| "cdn_step now (UseTrial a host port ip) c = snd (use_trial now a host port ip c)"
| "cdn_step now (ReleaseTrial k g) c = release_trial k g c"
| "cdn_step now (Note g host a ip stage) c = cdn_note now g host a ip stage c"
| "cdn_step now (SpeedProbe root_done amount) c = snd (reserve_speed_probe now root_done amount c)"
| "cdn_step now (ShortProbe len) c = snd (reserve_probe now len c)"
| "cdn_step now (BeginDiscovery key g) c = snd (begin_discovery now key g c)"
| "cdn_step now (EndDiscovery g) c = end_discovery g c"
| "cdn_step now (Admit g k source expires key) c = admit_candidate now g k source expires key c"
| "cdn_step now (AdmitObserved ctx_done g k source expires) c = snd (admit_observed now ctx_done g k source expires c)"
| "cdn_step now (RejectContent g k) c = reject_content g k c"
| "cdn_step now (Recognize k) c = recognize now k c"
| "cdn_step now (BeginSpeed g k) c = snd (begin_speed_sample now g k c)"
| "cdn_step now (EndSpeed ctx_done g k stage n elapsed) c = end_speed_sample now ctx_done g k stage n elapsed c"
| "cdn_step now (Effective g) c = count_effective g c"
| "cdn_step now (Choose a domain port) c = snd (cdn_choose now a domain port c)"
| "cdn_step now (TakeObserver root_done port g) c = snd (take_observer root_done port g c)"
| "cdn_step now DropObserver c = drop_observer c"
| "cdn_step now Snapshot c = cdn_prune now c"

fun cdn_run :: "(time \<times> cdn_op) list \<Rightarrow> cdn \<Rightarrow> cdn" where
  "cdn_run [] c = c"
| "cdn_run ((now, op) # ops) c = cdn_run ops (cdn_step now op c)"

end
