(* ===== verification/SteamTrialFacts.thy ===== *)
theory SteamTrialFacts
  imports SteamProbe
begin

text \<open>
  The optimizer's state stays within its bounds whatever happens; the address a connection may
  try is a verified one, with a place among the trials reserved; an alternative is preferred only
  on evidence; the probe budget survives switching the optimizer off and on.
\<close>

section \<open>Bounded tables\<close>

definition bounded_map :: "nat \<Rightarrow> ('k \<times> 'v) list \<Rightarrow> bool" where
  "bounded_map n al = (distinct (map fst al) \<and> length al \<le> n)"

lemma length_alist_update: "length (AList.update k v al) = (if map_of al k = None then Suc (length al) else length al)"
  by (induction al) auto

lemma bounded_update:
  "bounded_map n al \<Longrightarrow> map_of al k \<noteq> None \<or> length al < n \<Longrightarrow> bounded_map n (AList.update k v al)"
  by (auto simp: bounded_map_def length_alist_update distinct_update)

lemma bounded_filter [intro]: "bounded_map n al \<Longrightarrow> bounded_map n (filter P al)"
  by (auto simp: bounded_map_def intro: distinct_map_filter order_trans[OF length_filter_le])

lemma bounded_map_fst: "map fst bl = map fst al \<Longrightarrow> bounded_map n bl = bounded_map n al"
  by (metis bounded_map_def length_map)

lemma bounded_subseq: "bounded_map n (kv # al) \<Longrightarrow> bounded_map n al"
  by (simp add: bounded_map_def)

lemma bounded_nil [simp]: "bounded_map n []"
  by (simp add: bounded_map_def)

lemma all_update: "list_all P al \<Longrightarrow> P (k, v) \<Longrightarrow> list_all P (AList.update k v al)"
  by (induction al) auto

lemma all_map_of: "list_all P al \<Longrightarrow> map_of al k = Some v \<Longrightarrow> P (k, v)"
  by (auto simp: list_all_iff dest: map_of_SomeD)

section \<open>The bounds\<close>

definition traffic_ok :: "cdn_traffic \<Rightarrow> bool" where
  "traffic_ok t = (0 \<le> tf_trials t \<and> tf_trials t \<le> 4 \<and> 0 \<le> tf_active t \<and> 0 \<le> tf_switched_active t \<and> length (tf_slots t) = 5)"

definition tables_ok :: "cdn \<Rightarrow> bool" where
  "tables_ok c =
     (bounded_map 512 (c_entries c) \<and> bounded_map 512 (c_traffic c) \<and> bounded_map 512 (c_failures c) \<and>
      bounded_map 512 (c_observed c) \<and> bounded_map 512 (c_decisions c) \<and> length (c_diagnostics c) \<le> 64 \<and>
      list_all (\<lambda>(k, t). traffic_ok t) (c_traffic c) \<and> c_probing c \<le> 2 \<and> c_observers c \<le> 64)"

definition budgets_ok :: "cdn \<Rightarrow> bool" where
  "budgets_ok c =
     (0 \<le> c_speed_bytes c \<and> c_speed_bytes c \<le> speed_probe_budget \<and> c_speed_attempts c \<le> 16 \<and>
      c_budget_bytes c \<le> 256 * 1024 \<and> c_budget_attempts c \<le> 64)"

definition same_budgets :: "cdn \<Rightarrow> cdn \<Rightarrow> bool" where
  "same_budgets c c1 =
     (c_speed_at c1 = c_speed_at c \<and> c_speed_bytes c1 = c_speed_bytes c \<and> c_speed_attempts c1 = c_speed_attempts c \<and>
      c_budget_at c1 = c_budget_at c \<and> c_budget_bytes c1 = c_budget_bytes c \<and> c_budget_attempts c1 = c_budget_attempts c)"

lemma same_budgets_refl [simp]: "same_budgets c c"
  by (simp add: same_budgets_def)

lemma same_budgets_trans: "same_budgets c c1 \<Longrightarrow> same_budgets c1 c2 \<Longrightarrow> same_budgets c c2"
  by (simp add: same_budgets_def)

lemma traffic_ok_new: "traffic_ok new_traffic"
  by (simp add: traffic_ok_def new_traffic_def)

lemma tables_entry:
  "tables_ok c \<Longrightarrow> map_of (c_entries c) k \<noteq> None \<or> length (c_entries c) < 512 \<Longrightarrow>
   tables_ok (c\<lparr>c_entries := AList.update k e (c_entries c)\<rparr>)"
  by (simp add: tables_ok_def bounded_update)

lemma tables_entries: "tables_ok c \<Longrightarrow> map fst es = map fst (c_entries c) \<Longrightarrow> tables_ok (c\<lparr>c_entries := es\<rparr>)"
  by (simp add: tables_ok_def bounded_map_fst[of es])

lemma tables_traffic:
  "tables_ok c \<Longrightarrow> traffic_ok t \<Longrightarrow> map_of (c_traffic c) k \<noteq> None \<or> length (c_traffic c) < 512 \<Longrightarrow>
   tables_ok (c\<lparr>c_traffic := AList.update k t (c_traffic c)\<rparr>)"
  by (simp add: tables_ok_def bounded_update all_update)

lemma traffic_of: "tables_ok c \<Longrightarrow> map_of (c_traffic c) k = Some t \<Longrightarrow> traffic_ok t"
  using all_map_of[of "\<lambda>(k, t). traffic_ok t" "c_traffic c" k t] by (simp add: tables_ok_def)

lemma prune_entries_keys:
  "distinct (map fst es) \<Longrightarrow> distinct (map fst (prune_entries f now es)) \<and> fst ` set (prune_entries f now es) \<subseteq> fst ` set es \<and>
   length (prune_entries f now es) \<le> length es"
  by (induction f now es rule: prune_entries.induct) auto

lemma prune_tables: "tables_ok c \<Longrightarrow> tables_ok (cdn_prune now c)"
  using prune_entries_keys[of "c_entries c" "busy c" now]
  by (auto simp: tables_ok_def cdn_prune_def Let_def bounded_map_def list_all_iff intro: distinct_map_filter
      order_trans[OF length_filter_le])

lemma prune_budgets [simp]: "same_budgets c (cdn_prune now c)"
  by (simp add: same_budgets_def cdn_prune_def Let_def)

lemma prune_fields [simp]:
  "c_enabled (cdn_prune now c) = c_enabled c" "c_generation (cdn_prune now c) = c_generation c"
  "c_decisions (cdn_prune now c) = c_decisions c"
  by (simp_all add: cdn_prune_def Let_def)

section \<open>Operations\<close>

definition keeps :: "cdn \<Rightarrow> cdn \<Rightarrow> bool" where
  "keeps c c1 \<longleftrightarrow> (tables_ok c \<longrightarrow> tables_ok c1) \<and> same_budgets c c1"

lemma keeps_refl [simp]: "keeps c c"
  by (simp add: keeps_def)

lemma keeps_trans: "keeps c c1 \<Longrightarrow> keeps c1 c2 \<Longrightarrow> keeps c c2"
  by (auto simp: keeps_def intro: same_budgets_trans)

lemma keeps_prune [simp]: "keeps c (cdn_prune now c)"
  by (simp add: keeps_def prune_tables)

lemma keeps_entry:
  "map_of (c_entries c) k \<noteq> None \<or> length (c_entries c) < 512 \<Longrightarrow>
   keeps c (c\<lparr>c_entries := AList.update k e (c_entries c)\<rparr>)"
  by (simp add: keeps_def tables_entry same_budgets_def)

lemma configure_keeps: "keeps c (cdn_configure now started enabled reset c)"
  by (simp add: keeps_def cdn_configure_def tables_ok_def same_budgets_def)

lemma configure_steam_keeps: "keeps c (configure_steam_cdn now root_done enabled reset c)"
  by (simp add: configure_steam_cdn_def configure_keeps split: option.split)

lemma observe_keeps: "keeps c (cdn_observe now k g amount elapsed c)"
  by (auto simp: cdn_observe_def Let_def intro!: keeps_entry split: option.split)

lemma evaluate_entries_keeps:
  "fst ` set es \<subseteq> fst ` set (c_entries c) \<Longrightarrow> keeps c (evaluate_entries now es c)"
proof (induction now es c rule: evaluate_entries.induct)
  case (2 now k e es c)
  let ?c = "if en_baseline e = '''' then c else
    c\<lparr>c_entries := AList.update k (evaluate_entry now (c_failures c) k (entry_baseline c k (en_baseline e)) e) (c_entries c)\<rparr>"
  have "map_of (c_entries c) k \<noteq> None" using 2(2) by (auto simp: map_of_eq_None_iff)
  then have "keeps c ?c" by (simp add: keeps_entry)
  moreover have "fst ` set es \<subseteq> fst ` set (c_entries ?c)" using 2(2) by (auto simp: dom_update)
  then have "keeps ?c (evaluate_entries now es ?c)" by (rule "2.IH")
  ultimately have "keeps c (evaluate_entries now es ?c)" by (rule keeps_trans)
  then show ?case by (simp only: evaluate_entries.simps)
qed simp

lemma evaluate_keeps: "keeps c (evaluate_generation now root_done g c)"
  using evaluate_entries_keeps[of "c_entries (cdn_prune now c)" "cdn_prune now c" now] keeps_trans[OF keeps_prune[of c now]]
  by (simp add: evaluate_generation_def Let_def)

lemma account_keeps: "keeps c (account_transfer now k g delta amount switched failed c)"
proof (cases "map_of (c_traffic c) k")
  case None
  then show ?thesis by (simp add: account_transfer_def)
next
  case (Some t)
  have "tables_ok (account_transfer now k g delta amount switched failed c)" if ok: "tables_ok c"
  proof -
    have t: "traffic_ok t" by (rule traffic_of[OF ok Some])
    have "bounded_map 512 (AList.update k t' (c_traffic c))" for t'
      using ok Some by (intro bounded_update) (auto simp: tables_ok_def)
    moreover have "list_all (\<lambda>(k, t). traffic_ok t) (AList.update k t' (c_traffic c))" if "traffic_ok t'" for t'
      using ok that by (intro all_update) (auto simp: tables_ok_def)
    ultimately show ?thesis
      using ok t Some
      by (auto simp: account_transfer_def Let_def tables_ok_def traffic_ok_def intro!: bounded_update split: option.split)
  qed
  then show ?thesis
    by (auto simp: keeps_def same_budgets_def account_transfer_def Let_def split: option.split)
qed

lemma traffic_keeps: "keeps c (traffic_change now k g delta amount False switched c)"
proof (cases "\<not> c_enabled c \<or> g \<noteq> c_generation c \<or> map_of (c_traffic c) k = None \<and> 512 \<le> length (c_traffic c)")
  case True
  then show ?thesis by (auto simp: traffic_change_def)
next
  case False
  define t0 where "t0 = (case map_of (c_traffic c) k of None \<Rightarrow> new_traffic | Some t \<Rightarrow> t)"
  define t1 where "t1 = t0\<lparr>tf_active := max 0 (tf_active t0 + delta), tf_slots := count_slot (unix_seconds now) amount switched (tf_slots t0)\<rparr>"
  let ?c = "c\<lparr>c_traffic := AList.update k t1 (c_traffic c)\<rparr>"
  have "keeps c ?c"
  proof -
    have "tables_ok c \<Longrightarrow> traffic_ok t1"
      using traffic_of[of c k] traffic_ok_new
      by (auto simp: t1_def t0_def traffic_ok_def count_slot_def Let_def split: option.split)
    then show ?thesis using False by (auto simp: keeps_def same_budgets_def intro!: tables_traffic)
  qed
  moreover have "traffic_change now k g delta amount False switched c = account_transfer now k g delta amount switched False ?c"
    using False by (auto simp: traffic_change_def Let_def t0_def t1_def)
  ultimately show ?thesis using keeps_trans account_keeps by metis
qed

lemma outcome_keeps: "keeps c (cdn_outcome now k g success c)"
proof -
  have "keeps c (c\<lparr>c_replacements := n\<rparr>)" "keeps c (c\<lparr>c_fallbacks := n\<rparr>)" for n
    by (simp_all add: keeps_def tables_ok_def same_budgets_def)
  then show ?thesis
    using keeps_trans[OF _ keeps_entry[of "c\<lparr>c_fallbacks := c_fallbacks c + 1\<rparr>" k]]
    by (auto simp: cdn_outcome_def Let_def simp del: cdn.update_convs split: option.split)
qed

lemma finish_keeps: "keeps c (finish_transfer now k g amount failed c)"
  by (auto simp: finish_transfer_def intro!: keeps_entry split: option.split)

lemma release_keeps: "keeps c (release_trial k g c)"
  using traffic_of[of c k]
  by (auto simp: release_trial_def keeps_def same_budgets_def traffic_ok_def intro!: tables_traffic split: option.split)

lemma note_keeps: "keeps c (cdn_note now g host a ip stage c)"
  by (auto simp: cdn_note_def Let_def keeps_def tables_ok_def same_budgets_def)

lemma begin_keeps: "keeps c (snd (begin_discovery now key g c))"
proof -
  have "keeps c1 (c1\<lparr>c_discovery := d, c_probing := c_probing c1 + 1\<rparr>)" if "c_probing c1 < 2" for c1 d
    using that by (simp add: keeps_def tables_ok_def same_budgets_def)
  then show ?thesis
    using keeps_trans[OF keeps_prune[of c now]] by (auto simp: begin_discovery_def Let_def)
qed

lemma end_keeps: "keeps c (end_discovery g c)"
  by (simp add: end_discovery_def keeps_def tables_ok_def same_budgets_def)

lemma discovery_keeps: "keeps c (c\<lparr>c_discovery := d\<rparr>)"
  by (simp add: keeps_def tables_ok_def same_budgets_def)

lemma admit_keeps: "keeps c (admit_candidate now g k source expires key c)"
  using keeps_entry[of c k] keeps_trans[OF keeps_entry[of c k] discovery_keeps] by (simp add: admit_candidate_def Let_def)

lemma admit_observed_keeps: "keeps c (snd (admit_observed now d g k source expires c))"
  by (auto simp: admit_observed_def intro!: keeps_entry split: option.split)

lemma reject_keeps: "keeps c (reject_content g k c)"
  by (auto simp: reject_content_def intro!: keeps_entry split: option.split)


lemma recognize_keeps: "keeps c (recognize now k c)"
proof -
  have one: "keeps c (c\<lparr>c_recognized := n\<rparr>)" for c n
    by (simp add: keeps_def tables_ok_def same_budgets_def)
  have two: "keeps c (c\<lparr>c_observed := AList.update k t (c_observed c)\<rparr>)"
    if "length (c_observed c) < 512 \<or> (case map_of (c_observed c) k of None \<Rightarrow> False | Some t \<Rightarrow> t \<noteq> zero_time)" for c t
    using that by (auto simp: keeps_def tables_ok_def same_budgets_def intro!: bounded_update split: option.splits)
  define c0 where "c0 = c\<lparr>c_recognized := c_recognized c + 1\<rparr>"
  define c1 where "c1 = (if length (c_observed c0) < 512 \<or> (case map_of (c_observed c0) k of None \<Rightarrow> False | Some t \<Rightarrow> t \<noteq> zero_time)
      then c0\<lparr>c_observed := AList.update k (now + 2 * minute) (c_observed c0)\<rparr> else c0)"
  have "keeps c c0" by (simp add: c0_def one)
  moreover have "keeps c0 c1" unfolding c1_def using two[of c0 "now + 2 * minute"] by (simp only: keeps_refl split: if_split) blast
  moreover have "recognize now k c = c0 \<or> keeps c1 (recognize now k c)"
    unfolding recognize_def Let_def c0_def[symmetric] c1_def[symmetric] by (simp add: keeps_entry split: option.split)
  ultimately show ?thesis using keeps_trans by metis
qed

lemma begin_speed_keeps: "keeps c (snd (begin_speed_sample now g k c))"
  by (auto simp: begin_speed_sample_def intro!: keeps_entry split: option.split)

lemma end_speed_keeps: "keeps c (end_speed_sample now d g k stage n elapsed c)"
  by (auto simp: end_speed_sample_def Let_def intro!: keeps_entry split: option.split)

lemma effective_keeps: "keeps c (count_effective g c)"
  by (simp add: count_effective_def keeps_def tables_ok_def same_budgets_def)

lemma take_observer_keeps: "keeps c (snd (take_observer r port g c))"
  by (auto simp: take_observer_def keeps_def tables_ok_def same_budgets_def)

lemma drop_observer_keeps: "keeps c (drop_observer c)"
  by (auto simp: drop_observer_def keeps_def tables_ok_def same_budgets_def)

lemma keep_best_in: "keep_best better xs = Some x \<Longrightarrow> x \<in> set xs"
proof -
  have "fold (\<lambda>x best. case best of None \<Rightarrow> Some x | Some b \<Rightarrow> if better x b then Some x else best) xs acc = Some x \<Longrightarrow>
      x \<in> set xs \<or> acc = Some x" for acc
  proof (induction xs arbitrary: acc)
    case (Cons y ys)
    then show ?case by (cases acc) (fastforce split: if_splits)+
  qed simp
  then show "keep_best better xs = Some x \<Longrightarrow> x \<in> set xs" unfolding keep_best_def by blast
qed

lemma choose_keeps: "keeps c (snd (cdn_choose now a domain port c))"
proof -
  have "keeps (cdn_prune now c) (cdn_prune now c \<lparr>c_entries := AList.update k e' (c_entries (cdn_prune now c))\<rparr>)"
    if "(k, e) \<in> set (c_entries (cdn_prune now c))" for k e e'
  proof (rule keeps_entry)
    have "map_of (c_entries (cdn_prune now c)) k \<noteq> None" using that weak_map_of_SomeI by fastforce
    then show "map_of (c_entries (cdn_prune now c)) k \<noteq> None \<or> length (c_entries (cdn_prune now c)) < 512" by blast
  qed
  from keeps_trans[OF keeps_prune this] show ?thesis
    by (auto simp: cdn_choose_def Let_def split: option.split prod.split if_splits dest!: keep_best_in)
qed

section \<open>Trials\<close>

lemma evaluate_entry_keeps [simp]:
  "en_validated (evaluate_entry now f k b e) = en_validated e" "en_expires (evaluate_entry now f k b e) = en_expires e"
  "en_selections (evaluate_entry now f k b e) = en_selections e"
  by (simp_all add: evaluate_entry_def Let_def score_advantage_def score_slow_def reset_performance_def split_beta)

lemma rate_alternative_fst [simp]: "fst (rate_alternative now original c ke) = fst ke"
  by (simp add: rate_alternative_def Let_def split_beta)

lemma rate_alternative_entry:
  "en_validated (snd (rate_alternative now original c ke)) = en_validated (snd ke)"
  "en_expires (snd (rate_alternative now original c ke)) = en_expires (snd ke)"
  by (simp_all add: rate_alternative_def Let_def split_beta)

lemma trial_reason_entry [simp]:
  "en_validated (trial_reason now original c ke) = en_validated (snd ke)" "en_expires (trial_reason now original c ke) = en_expires (snd ke)"
  "en_cooldown (trial_reason now original c ke) = en_cooldown (snd ke)" "en_preferred (trial_reason now original c ke) = en_preferred (snd ke)"
  by (simp_all add: trial_reason_def)

lemma map_fst_comp: "(\<And>ke. fst (f ke) = fst ke) \<Longrightarrow> map fst (map f es) = map fst es"
  by simp

lemma rate_keeps: "keeps c (rate_route now original c)"
  by (simp add: keeps_def rate_route_def same_budgets_def tables_entries map_fst_comp)

lemma explain_keeps: "keeps c (explain_route now original c)"
  by (simp add: keeps_def explain_route_def same_budgets_def tables_entries map_fst_comp)

lemma decisions_keeps:
  "map_of (c_decisions c) r \<noteq> None \<or> length (c_decisions c) < 512 \<Longrightarrow>
   keeps c (c\<lparr>c_decisions := AList.update r n (c_decisions c)\<rparr>)"
  by (simp add: keeps_def tables_ok_def same_budgets_def bounded_update)

lemma pick_trial_some:
  assumes "pick_trial now explore hp original c = Some ke"
  shows "ke \<in> set (c_entries c) \<and> trial_allowed now original c ke \<and>
    (explore \<or> en_preferred (snd ke) \<or> bootstraps now hp original c (snd ke))"
proof -
  let ?ok = "\<lambda>ke. trial_allowed now original c ke \<and> (explore \<or> en_preferred (snd ke) \<or> bootstraps now hp original c (snd ke))"
  have "fold (\<lambda>ke selected. prefers now explore hp original c selected ke) es sel = Some ke \<Longrightarrow>
      (\<forall>k. sel = Some k \<longrightarrow> ?ok k) \<Longrightarrow> (ke \<in> set es \<or> sel = Some ke) \<and> ?ok ke" for es sel
  proof (induction es arbitrary: sel)
    case (Cons x es)
    have "prefers now explore hp original c sel x = sel \<or> prefers now explore hp original c sel x = Some x \<and> ?ok x"
      by (simp add: prefers_def Let_def split: option.split)
    then consider "prefers now explore hp original c sel x = sel"
      | "prefers now explore hp original c sel x = Some x" "?ok x" by blast
    then show ?case
    proof cases
      case 1
      then show ?thesis using Cons.IH[of sel] Cons.prems by (metis (no_types, lifting) fold_simps(2) list.set_intros(2))
    next
      case 2
      then show ?thesis using Cons.IH[of "Some x"] Cons.prems
        by (metis (no_types, lifting) fold_simps(2) list.set_intros(1,2) option.inject)
    qed
  qed simp
  from this[of "c_entries c" None] assms show ?thesis by (simp add: pick_trial_def)
qed

lemma trial_place:
  assumes "trial_allowed now original c (k, e)"
  shows "map_of (c_traffic c) k \<noteq> None \<or> length (c_traffic c) < 512"
    and "map_of (c_traffic c) k = Some t \<Longrightarrow> tf_trials t < (if en_preferred e then 4 else 1)"
  using assms by (auto simp: trial_allowed_def split: option.splits if_splits)

lemma reserve_keeps:
  assumes "trial_allowed now original c (k, e)" "c_traffic c1 = c_traffic c"
  shows "keeps c1 (reserve_trial k c1)"
proof -
  define t where "t = (case map_of (c_traffic c1) k of None \<Rightarrow> new_traffic | Some t \<Rightarrow> t)"
  let ?es = "map (\<lambda>(k', e'). (k', if k' = k then e'\<lparr>en_selections := en_selections e' + 1\<rparr> else e')) (c_entries c1)"
  have es: "map fst ?es = map fst (c_entries c1)" by auto
  have "tables_ok c1 \<Longrightarrow> traffic_ok (t\<lparr>tf_trials := tf_trials t + 1\<rparr>)"
    using traffic_of[of c1 k] trial_place(2)[OF assms(1)] traffic_ok_new assms(2)
    by (auto simp: t_def traffic_ok_def new_traffic_def split: option.split if_splits)
  then have "tables_ok c1 \<Longrightarrow> tables_ok (c1\<lparr>c_entries := ?es, c_traffic := AList.update k (t\<lparr>tf_trials := tf_trials t + 1\<rparr>) (c_traffic c1)\<rparr>)"
    using tables_traffic[OF tables_entries[of c1, OF _ es], of "t\<lparr>tf_trials := tf_trials t + 1\<rparr>" k]
      trial_place(1)[OF assms(1)] assms(2) by simp
  then show ?thesis by (simp add: keeps_def reserve_trial_def Let_def t_def same_budgets_def)
qed

text \<open>What \<open>useTrial\<close> does, by its results.\<close>

lemma use_trial_cases:
  assumes "use_trial now a host port oip c = ((ip, g), c')"
  obtains (none) "ip = ''''" "keeps c c'"
    | (some) c3 k e original explore hp where
        "keeps c c3" "original = \<lparr>ck_adapter = a, ck_domain = host, ck_port = port, ck_ip = oip\<rparr>"
        "pick_trial now explore hp original c3 = Some (k, e)" "ip = ck_ip k" "c_failures c3 = c_failures (cdn_prune now c)"
        "c' = reserve_trial k (explain_route now original c3)"
        "c3 = rate_route now original (cdn_prune now c \<lparr>c_decisions := c_decisions c3\<rparr>)"
proof (cases "c_enabled c")
  case False
  then show ?thesis using assms none by (simp add: use_trial_def)
next
  case True
  define c1 where "c1 = cdn_prune now c"
  define route where "route = a @ ''/'' @ host @ '':'' @ port"
  define made where "made = (case map_of (c_decisions c1) route of None \<Rightarrow> 0 | Some n \<Rightarrow> n)"
  define original where "original = \<lparr>ck_adapter = a, ck_domain = host, ck_port = port, ck_ip = oip\<rparr>"
  define c2 where "c2 = c1\<lparr>c_decisions := AList.update route (made + 1) (c_decisions c1)\<rparr>"
  define c3 where "c3 = rate_route now original c2"
  define hp where "hp = list_ex (\<lambda>ke. is_alternative original ke \<and> en_preferred (snd ke)) (c_entries c3)"
  note defs = c1_def[symmetric] route_def[symmetric] made_def[symmetric] original_def[symmetric]
  have eq: "use_trial now a host port oip c =
      (if 512 \<le> length (c_decisions c1) \<and> made = 0 then (('''', c_generation c), c1)
       else if hp \<and> (made + 1) mod 8 = 7 then (('''', c_generation c), c3)
       else case pick_trial now ((made + 1) mod 8 = 0) hp original c3 of
              None \<Rightarrow> (('''', c_generation c), explain_route now original c3)
            | Some (k, e) \<Rightarrow> ((ck_ip k, c_generation c), reserve_trial k (explain_route now original c3)))"
    using True unfolding use_trial_def Let_def defs c2_def[symmetric] c3_def[symmetric] hp_def[symmetric] by simp
  show ?thesis
  proof (cases "512 \<le> length (c_decisions c1) \<and> made = 0")
    case True
    then have "ip = ''''" "c' = c1" using assms eq by simp_all
    then show ?thesis using none by (simp add: c1_def)
  next
    case False
    then have "map_of (c_decisions c1) route \<noteq> None \<or> length (c_decisions c1) < 512" by (auto simp: made_def split: option.splits)
    then have "keeps c1 c2" unfolding c2_def by (rule decisions_keeps)
    then have keeps: "keeps c c3"
      using keeps_trans[OF keeps_prune[of c now, folded c1_def] keeps_trans[OF _ rate_keeps]] by (simp add: c3_def)
    have c3: "c_failures c3 = c_failures (cdn_prune now c)" "c3 = rate_route now original (cdn_prune now c \<lparr>c_decisions := c_decisions c3\<rparr>)"
      by (simp_all add: c3_def c2_def rate_route_def c1_def)
    show ?thesis
    proof (cases "hp \<and> (made + 1) mod 8 = 7")
      case True
      then show ?thesis using assms none eq False keeps by simp
    next
      case more: False
      show ?thesis
      proof (cases "pick_trial now ((made + 1) mod 8 = 0) hp original c3")
        case None
        have "ip = ''''" "c' = explain_route now original c3" using assms eq False more None by simp_all
        then show ?thesis using none keeps_trans[OF keeps explain_keeps] by simp
      next
        case (Some ke)
        obtain k e where ke: "ke = (k, e)" by fastforce
        show ?thesis
          by (rule some[OF keeps original_def Some[unfolded ke] _ c3(1) _ c3(2)]) (use assms eq False more Some ke in simp_all)
      qed
    qed
  qed
qed

lemma use_trial_keeps: "keeps c (snd (use_trial now a host port oip c))"
proof -
  obtain ip g c' where u: "use_trial now a host port oip c = ((ip, g), c')" by (metis prod.exhaust)
  then show ?thesis
  proof (cases rule: use_trial_cases)
    case none
    then show ?thesis using u by simp
  next
    case (some c3 k e original explore hp)
    have "trial_allowed now original c3 (k, e)" using pick_trial_some[OF some(3)] by simp
    then have "keeps (explain_route now original c3) c'"
      unfolding some(6) by (rule reserve_keeps) (simp add: explain_route_def)
    then show ?thesis using u keeps_trans[OF keeps_trans[OF some(1) explain_keeps]] by simp
  qed
qed


section \<open>Everything together\<close>

lemma probe_budgets:
  "tables_ok (snd (reserve_speed_probe now r n c)) = tables_ok c" "tables_ok (snd (reserve_probe now n c)) = tables_ok c"
  by (simp_all add: reserve_speed_probe_def reserve_probe_def Let_def tables_ok_def)

lemma speed_probe_budgets: "budgets_ok c \<Longrightarrow> budgets_ok (snd (reserve_speed_probe now r n c))"
  by (auto simp: reserve_speed_probe_def Let_def budgets_ok_def speed_probe_budget_def)

lemma short_probe_budgets: "budgets_ok c \<Longrightarrow> budgets_ok (snd (reserve_probe now n c))"
  by (auto simp: reserve_probe_def Let_def budgets_ok_def)

lemmas cdn_keeps =
  configure_steam_keeps evaluate_keeps observe_keeps traffic_keeps account_keeps outcome_keeps finish_keeps use_trial_keeps
  release_keeps note_keeps begin_keeps end_keeps admit_keeps admit_observed_keeps reject_keeps recognize_keeps
  begin_speed_keeps end_speed_keeps effective_keeps choose_keeps take_observer_keeps drop_observer_keeps keeps_prune

fun probes :: "cdn_op \<Rightarrow> bool" where
  "probes (SpeedProbe _ _) = True"
| "probes (ShortProbe _) = True"
| "probes _ = False"

lemma step_keeps: "\<not> probes op \<Longrightarrow> keeps c (cdn_step now op c)"
  by (cases op) (simp_all add: cdn_keeps)

lemma step_tables: "tables_ok c \<Longrightarrow> tables_ok (cdn_step now op c)"
  using step_keeps[of op c now] probe_budgets by (cases op) (auto simp: keeps_def)

lemma step_budgets: "budgets_ok c \<Longrightarrow> budgets_ok (cdn_step now op c)"
  using step_keeps[of op c now] speed_probe_budgets short_probe_budgets
  by (cases op) (auto simp: keeps_def same_budgets_def budgets_ok_def)

lemma run_tables: "tables_ok c \<Longrightarrow> tables_ok (cdn_run ops c)"
  by (induction ops c rule: cdn_run.induct) (simp_all add: step_tables)

lemma run_budgets: "budgets_ok c \<Longrightarrow> budgets_ok (cdn_run ops c)"
  by (induction ops c rule: cdn_run.induct) (simp_all add: step_budgets)

lemma new_tables: "tables_ok (new_steam_cdn t enabled)"
  by (simp add: new_steam_cdn_def cdn_configure_def cdn_zero_def tables_ok_def)

lemma new_budgets: "budgets_ok (new_steam_cdn t enabled)"
  by (simp add: new_steam_cdn_def cdn_configure_def cdn_zero_def budgets_ok_def speed_probe_budget_def)

section \<open>The address of a trial\<close>

lemma prune_entry_valid: "(k, e) \<in> set (prune_entries f now es) \<Longrightarrow> en_validated e \<Longrightarrow> now < en_expires e"
  by (induction f now es rule: prune_entries.induct) (auto split: if_splits)

definition entry_of :: "cdn \<Rightarrow> cdn_key \<Rightarrow> cdn_entry option" where
  "entry_of c k = map_of (c_entries c) k"

definition trials_of :: "cdn \<Rightarrow> cdn_key \<Rightarrow> int" where
  "trials_of c k = (case map_of (c_traffic c) k of None \<Rightarrow> 0 | Some t \<Rightarrow> tf_trials t)"

lemma map_of_map_entries:
  "(\<And>ke. fst (f ke) = fst ke) \<Longrightarrow> map_of (map f al) k = map_option (\<lambda>e. snd (f (k, e))) (map_of al k)"
proof (induction al)
  case (Cons kv al)
  obtain k' v where kv: "kv = (k', v)" by fastforce
  moreover have "f (k', v) = (k', snd (f (k', v)))" using Cons.prems[of "(k', v)"] by (metis fst_conv prod.collapse)
  ultimately show ?case using Cons by (metis map_of_Cons_code(2) list.simps(9) option.map(2))
qed simp

lemma reserve_entries:
  "map_of (c_entries (reserve_trial k c)) k' =
     map_option (\<lambda>e. if k' = k then e\<lparr>en_selections := en_selections e + 1\<rparr> else e) (map_of (c_entries c) k')"
  by (simp add: reserve_trial_def Let_def split_beta map_of_map_entries)

lemma explain_entries:
  "map_of (c_entries (explain_route now original c)) k' =
     map_option (\<lambda>e. trial_reason now original c (k', e)) (map_of (c_entries c) k')"
  by (simp add: explain_route_def map_of_map_entries)

lemma reserve_trials: "trials_of (reserve_trial k c) k = trials_of c k + 1"
  by (simp add: trials_of_def reserve_trial_def Let_def update_conv' new_traffic_def split: option.split)

lemma sum_alist_update:
  fixes h :: "'k \<Rightarrow> 'v \<Rightarrow> int"
  assumes "distinct (map fst al)"
  shows "(\<Sum>(k', t)\<leftarrow>AList.update k v al. h k' t) =
    (\<Sum>(k', t)\<leftarrow>al. h k' t) - (case map_of al k of None \<Rightarrow> 0 | Some t \<Rightarrow> h k t) + h k v"
  using assms by (induction al) (auto split: option.splits)

lemma reserve_group:
  assumes "distinct (map fst (c_traffic c))" "same_route k route" "map_of (c_entries c) k = Some e" "\<not> en_preferred e"
  shows "group_trials route (reserve_trial k c) = group_trials route c + 1"
proof -
  define h where "h = (\<lambda>k' (t :: cdn_traffic). if same_route k' route \<and>
      (case map_of (c_entries c) k' of None \<Rightarrow> True | Some e \<Rightarrow> \<not> en_preferred e) then tf_trials t else 0)"
  define t where "t = (case map_of (c_traffic c) k of None \<Rightarrow> new_traffic | Some t \<Rightarrow> t)"
  have "(case map_of (c_entries (reserve_trial k c)) k' of None \<Rightarrow> True | Some e \<Rightarrow> \<not> en_preferred e) =
      (case map_of (c_entries c) k' of None \<Rightarrow> True | Some e \<Rightarrow> \<not> en_preferred e)" for k'
    by (simp add: reserve_entries split: option.split)
  moreover have "c_traffic (reserve_trial k c) = AList.update k (t\<lparr>tf_trials := tf_trials t + 1\<rparr>) (c_traffic c)"
    by (simp add: reserve_trial_def Let_def t_def)
  ultimately have "group_trials route (reserve_trial k c) =
      (\<Sum>(k', t)\<leftarrow>AList.update k (t\<lparr>tf_trials := tf_trials t + 1\<rparr>) (c_traffic c). h k' t)"
    by (simp add: group_trials_def h_def)
  also have "\<dots> = (\<Sum>(k', t)\<leftarrow>c_traffic c. h k' t) - (case map_of (c_traffic c) k of None \<Rightarrow> 0 | Some t \<Rightarrow> h k t) +
      h k (t\<lparr>tf_trials := tf_trials t + 1\<rparr>)"
    by (rule sum_alist_update[OF assms(1)])
  also have "(\<Sum>(k', t)\<leftarrow>c_traffic c. h k' t) = group_trials route c" by (simp add: group_trials_def h_def)
  finally show ?thesis using assms(2-4) by (simp add: h_def t_def new_traffic_def split: option.splits)
qed

lemma explain_group: "group_trials route (explain_route now original c) = group_trials route c"
proof -
  have "(case map_of (c_entries (explain_route now original c)) k' of None \<Rightarrow> True | Some e \<Rightarrow> \<not> en_preferred e) =
      (case map_of (c_entries c) k' of None \<Rightarrow> True | Some e \<Rightarrow> \<not> en_preferred e)" for k'
    by (simp add: explain_entries split: option.split)
  then show ?thesis by (simp add: group_trials_def explain_route_def)
qed

definition offered :: "time \<Rightarrow> cdn_key \<Rightarrow> string \<Rightarrow> cdn \<Rightarrow> bool" where
  "offered now k original_ip c =
     (ck_ip k \<noteq> original_ip \<and> \<not> paused now (c_failures c) k \<and> 1 \<le> trials_of c k \<and>
      (case entry_of c k of None \<Rightarrow> False
       | Some e \<Rightarrow> en_validated e \<and> now < en_expires e \<and> en_cooldown e \<le> now \<and>
           (if en_preferred e then trials_of c k \<le> 4 else trials_of c k = 1 \<and> group_trials k c \<le> 2)))"

lemma use_trial_offers:
  assumes "tables_ok c" "use_trial now a host port oip c = ((ip, g), c')" "ip \<noteq> ''''"
  shows "offered now \<lparr>ck_adapter = a, ck_domain = host, ck_port = port, ck_ip = ip\<rparr> oip c'"
  using assms(2)
proof (cases rule: use_trial_cases)
  case none
  then show ?thesis using assms(3) by simp
next
  case (some c3 k e original explore hp)
  let ?c4 = "explain_route now original c3"
  have allowed: "(k, e) \<in> set (c_entries c3)" "trial_allowed now original c3 (k, e)" using pick_trial_some[OF some(3)] by simp_all
  have ok3: "tables_ok c3" using some(1) assms(1) by (simp add: keeps_def)
  have ok: "tables_ok c'" using use_trial_keeps[of c now a host port oip] assms(1,2) by (simp add: keeps_def)
  have alt: "same_route k original" "ck_ip k \<noteq> oip" "en_validated e" "en_cooldown e \<le> now" "\<not> paused now (c_failures c3) k"
    "en_preferred e \<or> group_trials original c3 < 2"
    using allowed(2) some(2) by (auto simp: trial_allowed_def is_alternative_def)
  have key: "k = \<lparr>ck_adapter = a, ck_domain = host, ck_port = port, ck_ip = ip\<rparr>"
    using alt(1) some(2,4) by (cases k) (simp add: same_route_def)
  have e3: "map_of (c_entries c3) k = Some e"
    using ok3 allowed(1) by (simp add: tables_ok_def bounded_map_def)
  have expires: "now < en_expires e"
  proof -
    have "(k, e) \<in> rate_alternative now original (cdn_prune now c \<lparr>c_decisions := c_decisions c3\<rparr>) ` set (c_entries (cdn_prune now c))"
      using allowed(1) arg_cong[OF some(7), of c_entries] by (simp add: rate_route_def)
    then obtain ke where ke: "ke \<in> set (prune_entries (busy c) now (c_entries c))"
      "(k, e) = rate_alternative now original (cdn_prune now c \<lparr>c_decisions := c_decisions c3\<rparr>) ke"
      by (auto simp: cdn_prune_def Let_def)
    have "snd (rate_alternative now original (cdn_prune now c \<lparr>c_decisions := c_decisions c3\<rparr>) ke) = e"
      using ke(2) by (metis snd_conv)
    then have "en_validated (snd ke)" "en_expires (snd ke) = en_expires e"
      using rate_alternative_entry[of now original "cdn_prune now c \<lparr>c_decisions := c_decisions c3\<rparr>" ke] alt(3) by simp_all
    then show ?thesis using prune_entry_valid[of "fst ke" "snd ke"] ke(1) by fastforce
  qed
  let ?e = "(trial_reason now original c3 (k, e))\<lparr>en_selections := en_selections (trial_reason now original c3 (k, e)) + 1\<rparr>"
  have e4: "map_of (c_entries ?c4) k = Some (trial_reason now original c3 (k, e))" using e3 by (simp add: explain_entries)
  then have e': "entry_of c' k = Some ?e" unfolding some(6) by (simp add: entry_of_def reserve_entries)
  have trials4: "trials_of ?c4 k = trials_of c3 k" by (simp add: trials_of_def explain_route_def)
  have place: "0 \<le> trials_of c3 k" "trials_of c3 k < (if en_preferred e then 4 else 1)"
    using trial_place(2)[OF allowed(2)] traffic_of[OF ok3, of k]
    by (auto simp: trials_of_def traffic_ok_def split: option.split)
  then have trials: "trials_of c' k = trials_of c3 k + 1" unfolding some(6) using reserve_trials trials4 by simp
  have grp: "group_trials k c' \<le> 2" if "\<not> en_preferred e"
  proof -
    have "group_trials k c' = group_trials original c'" using alt(1) by (simp add: group_trials_def same_route_def)
    moreover have "group_trials original c' = group_trials original ?c4 + 1"
      unfolding some(6)
      by (rule reserve_group[OF _ alt(1) e4]) (use ok3 that in \<open>simp_all add: tables_ok_def bounded_map_def explain_route_def\<close>)
    ultimately show ?thesis using explain_group alt(6) that by simp
  qed
  have "c_failures c' = c_failures c3" unfolding some(6) by (simp add: reserve_trial_def explain_route_def Let_def)
  then show ?thesis
    using alt expires e' trials place grp unfolding key[symmetric] by (auto simp: offered_def)
qed


section \<open>Promotion\<close>

lemma score_slow_fields:
  "en_preferred (fst (score_slow now cons slow (e, r))) = en_preferred e"
  "en_advantage (fst (score_slow now cons slow (e, r))) = en_advantage e"
  "snd (score_slow now cons slow (e, r)) = ''advantage_window'' \<Longrightarrow>
     r = ''advantage_window'' \<and> en_cooldown (fst (score_slow now cons slow (e, r))) = en_cooldown e"
  by (auto simp: score_slow_def Let_def split: if_splits)

lemma promotion_reasonD:
  assumes "promotion_reason now e base = ''advantage_window''"
  shows "5 \<le> en_samples e \<and> 8 * 1024 * 1024 \<le> en_bytes e \<and> now - en_last_sample e < ten_seconds \<and>
    (\<exists>b. base = Some b \<and> 3 \<le> en_samples b \<and> 0 < en_bps b \<and> now - en_last_sample b < ten_seconds \<and>
       en_bps b * (115 / 100) < en_bps e)"
proof -
  have "\<not> (en_samples e < 5 \<or> en_bytes e < 8 * 1024 * 1024)"
    "\<not> (ten_seconds \<le> now - en_last_sample e \<or> en_samples e \<le> en_scored e)"
    using assms by (auto simp: promotion_reason_def split: if_splits)
  moreover from this assms obtain b where "base = Some b" by (auto simp: promotion_reason_def split: option.splits)
  ultimately show ?thesis using assms by (auto simp: promotion_reason_def not_less not_le split: if_splits)
qed

text \<open>
  C24. An alternative address becomes preferred only on evidence, and stays preferred only while
  nothing speaks against it: it is verified and unexpired, its route is not paused and it is not
  cooling down; and when a score makes it preferred, it had at least five fresh samples and
  8 MiB of useful data, was measured more than 15% faster than a fresh original with at least
  three samples, and had the advantage in the five-second window just before as well.
\<close>

theorem promotion_needs_evidence:
  assumes "en_preferred (evaluate_entry now failed k base e)"
  shows "en_validated e \<and> now < en_expires e \<and> \<not> paused now failed k \<and> en_cooldown (evaluate_entry now failed k base e) \<le> now \<and>
    (\<not> en_preferred e \<longrightarrow>
       5 \<le> en_samples e \<and> 8 * 1024 * 1024 \<le> en_bytes e \<and> now - en_last_sample e < ten_seconds \<and>
       1 \<le> en_advantage e \<and> en_window e = unix_seconds now div 5 - 1 \<and>
       (\<exists>b. comparable_baseline now e base = Some b \<and> 3 \<le> en_samples b \<and> 0 < en_bps b \<and>
          now - en_last_sample b < ten_seconds \<and> en_bps b * (115 / 100) < en_bps e))"
proof -
  define e1 where "e1 = (if en_perf_cooldown e then reset_performance (e\<lparr>en_perf_cooldown := False\<rparr>) else e)"
  define w where "w = unix_seconds now div 5"
  define e2 where "e2 = e1\<lparr>en_window := w, en_evaluated := now\<rparr>"
  define base2 where "base2 = comparable_baseline now e2 base"
  define cons where "cons = (en_window e1 = w - 1)"
  define sl where "sl = score_slow now cons (slow_candidate now e2 base2) (e2, promotion_reason now e2 base2)"
  have gate: "en_validated e" "now < en_expires e" "\<not> paused now failed k" "\<not> now < en_cooldown e"
    using assms by (auto simp: evaluate_entry_def split: if_splits)
  then have ev: "evaluate_entry now failed k base e = (if en_window e1 = w then e1
      else (fst (score_advantage cons sl))\<lparr>en_scored := en_samples (fst (score_advantage cons sl)), en_reason := snd (score_advantage cons sl)\<rparr>)"
    unfolding evaluate_entry_def Let_def e1_def w_def e2_def base2_def cons_def sl_def by (simp add: split_beta)
  have e1_cool: "en_cooldown e1 = en_cooldown e" by (simp add: e1_def reset_performance_def)
  show ?thesis
  proof (cases "en_window e1 = w")
    case True
    then have "en_preferred e1" using ev assms by simp
    then have "e1 = e" by (simp add: e1_def reset_performance_def split: if_splits)
    then show ?thesis using gate True ev assms by simp
  next
    case False
    have slp: "sl = (fst sl, snd sl)" by simp
    have win: "snd sl = ''advantage_window''" "2 \<le> (if cons then en_advantage (fst sl) else 0) + 1"
      using assms ev False by (auto simp: score_advantage_def split_beta Let_def split: if_splits)
    then have pr: "promotion_reason now e2 base2 = ''advantage_window''" "en_cooldown (fst sl) = en_cooldown e2"
      using score_slow_fields(3)[of now cons "slow_candidate now e2 base2" e2] unfolding sl_def by blast+
    have adv: "cons" "1 \<le> en_advantage e1"
      using win(2) score_slow_fields(2)[of now cons "slow_candidate now e2 base2" e2] by (auto simp: sl_def e2_def split: if_splits)
    have e1: "e1 = e" using adv(2) by (simp add: e1_def reset_performance_def split: if_splits)
    have cool: "en_cooldown (fst (score_advantage cons sl)) = en_cooldown e"
      using pr(2) e1 by (simp add: score_advantage_def split_beta Let_def e2_def)
    have base2: "base2 = comparable_baseline now e base" 
    proof -
      have load: "en_load e2 = en_load e" by (simp add: e2_def e1)
      show ?thesis unfolding base2_def comparable_baseline_def load by (rule refl)
    qed
    from promotion_reasonD[OF pr(1)] show ?thesis
      using gate adv e1 cool ev False unfolding base2 by (simp add: e2_def cons_def w_def)
  qed
qed

lemma promotion_needs_evidence_witness:
  "let b = new_entry\<lparr>en_samples := 3, en_bps := 100, en_last_sample := 62135596804 * second\<rparr>;
       e = new_entry\<lparr>en_validated := True, en_expires := 62135596900 * second, en_samples := 6, en_bytes := 9 * 1024 * 1024, en_bps := 200,
         en_last_sample := 62135596804 * second, en_advantage := 1, en_window := 0\<rparr>
   in en_preferred (evaluate_entry (62135596805 * second) [] \<lparr>ck_adapter = ''a'', ck_domain = ''d'', ck_port = ''80'', ck_ip = ''1''\<rparr> (Some b) e) \<and>
      en_bps b * (115 / 100) < en_bps e"
proof -
  let ?b = "new_entry\<lparr>en_samples := 3, en_bps := 100, en_last_sample := 62135596804 * second\<rparr>"
  let ?e = "new_entry\<lparr>en_validated := True, en_expires := 62135596900 * second, en_samples := 6, en_bytes := 9 * 1024 * 1024, en_bps := 200,
         en_last_sample := 62135596804 * second, en_advantage := 1, en_window := 0\<rparr>"
  let ?k = "\<lparr>ck_adapter = ''a'', ck_domain = ''d'', ck_port = ''80'', ck_ip = ''1''\<rparr>"
  have p: "en_preferred (evaluate_entry (62135596805 * second) [] ?k (Some ?b) ?e)" by code_simp
  have "\<not> en_preferred ?e" by (simp add: new_entry_def)
  with promotion_needs_evidence[OF p] have "\<exists>b. comparable_baseline (62135596805 * second) ?e (Some ?b) = Some b \<and> en_bps b * (115 / 100) < en_bps ?e"
    by blast
  then have "en_bps ?b * (115 / 100) < en_bps ?e" by (simp add: comparable_baseline_def new_entry_def)
  with p show ?thesis by (simp add: Let_def)
qed

section \<open>Properties\<close>


text \<open>
  C23. Whatever happened before, an address that a connection is told to try is an alternative for
  the same adapter, host and port: not the original one, verified, unexpired, not cooling down,
  its route not paused by failures. Its place is already taken: a preferred address carries at
  most four trials, any other address exactly this one, and its route at most two such.
\<close>

theorem trial_offer_sound:
  assumes "use_trial now a host port oip (cdn_run ops (new_steam_cdn t enabled)) = ((ip, g), c')" "ip \<noteq> ''''"
  shows "offered now \<lparr>ck_adapter = a, ck_domain = host, ck_port = port, ck_ip = ip\<rparr> oip c'"
  by (rule use_trial_offers[OF run_tables[OF new_tables] assms])


definition demo_route :: "string \<Rightarrow> cdn_key" where
  "demo_route ip = \<lparr>ck_adapter = ''a'', ck_domain = ''d'', ck_port = ''80'', ck_ip = ip\<rparr>"

definition demo_ops :: "(time \<times> cdn_op) list" where
  "demo_ops =
     (1, Admit 1 (demo_route ''2'') ''dns'' 100 ''d:80'') # replicate 7 (2, UseTrial ''a'' ''d'' ''80'' ''1'')"

lemma trial_offer_sound_witness:
  "\<exists>c'. use_trial 3 ''a'' ''d'' ''80'' ''1'' (cdn_run demo_ops (new_steam_cdn 0 True)) = ((''2'', 1), c') \<and>
     offered 3 (demo_route ''2'') ''1'' c'"
proof -
  have r: "fst (use_trial 3 ''a'' ''d'' ''80'' ''1'' (cdn_run demo_ops (new_steam_cdn 0 True))) = (''2'', 1)" by code_simp
  define c' where "c' = snd (use_trial 3 ''a'' ''d'' ''80'' ''1'' (cdn_run demo_ops (new_steam_cdn 0 True)))"
  have u: "use_trial 3 ''a'' ''d'' ''80'' ''1'' (cdn_run demo_ops (new_steam_cdn 0 True)) = ((''2'', 1), c')"
    using r unfolding c'_def by (metis prod.collapse)
  from trial_offer_sound[OF u] u show ?thesis unfolding demo_route_def by blast
qed

definition speed_granted :: "time \<Rightarrow> cdn_op \<Rightarrow> cdn \<Rightarrow> int" where
  "speed_granted now op c =
     (case op of SpeedProbe r n \<Rightarrow> if fst (reserve_speed_probe now r n c) then n else 0 | _ \<Rightarrow> 0)"

fun speed_total :: "(time \<times> cdn_op) list \<Rightarrow> cdn \<Rightarrow> int" where
  "speed_total [] c = 0"
| "speed_total ((now, op) # ops) c = speed_granted now op c + speed_total ops (cdn_step now op c)"

lemma speed_step:
  assumes "now - c_speed_at c < minute" "budgets_ok c"
  shows "c_speed_at (cdn_step now op c) = c_speed_at c \<and>
    c_speed_bytes (cdn_step now op c) = c_speed_bytes c + speed_granted now op c"
proof (cases "probes op")
  case False
  then show ?thesis using step_keeps[OF False, of c now] by (cases op) (auto simp: keeps_def same_budgets_def speed_granted_def)
next
  case True
  then show ?thesis using assms
    by (cases op) (auto simp: reserve_speed_probe_def reserve_probe_def speed_granted_def Let_def)
qed

lemma speed_run:
  "list_all (\<lambda>(now, op). now - c_speed_at c < minute) ops \<Longrightarrow> budgets_ok c \<Longrightarrow>
   c_speed_bytes c + speed_total ops c = c_speed_bytes (cdn_run ops c)"
proof (induction ops c rule: cdn_run.induct)
  case (2 now op ops c)
  then show ?case using speed_step[of now c op] by (simp add: step_budgets)
qed simp

text \<open>
  C26. The budget of the speed probes is spent before a request leaves and nothing gives it back:
  within the minute that the budget covers, the bytes granted, together with those already spent,
  stay within 4 MiB, also across failed probes and across switching the optimizer off, on and
  back to empty.
\<close>

theorem speed_budget_survives:
  assumes "c = cdn_run before (new_steam_cdn t enabled)" "list_all (\<lambda>(now, op). now - c_speed_at c < minute) ops"
  shows "c_speed_bytes c + speed_total ops c \<le> speed_probe_budget"
proof -
  have "budgets_ok c" by (simp add: assms(1) run_budgets new_budgets)
  from speed_run[OF assms(2) this] run_budgets[OF this, of ops] show ?thesis by (simp add: budgets_ok_def)
qed

lemma speed_budget_survives_witness:
  "speed_total [(100, SpeedProbe False 262144), (101, Configure False (Some False) True), (102, Configure False (Some True) True),
     (103, SpeedProbe False 262144)] (new_steam_cdn 0 True) = 524288 \<and>
   c_speed_bytes (new_steam_cdn 0 True) + 524288 \<le> speed_probe_budget"
proof -
  let ?ops = "[(100, SpeedProbe False 262144), (101, Configure False (Some False) True), (102, Configure False (Some True) True),
     (103, SpeedProbe False 262144)]"
  have t: "speed_total ?ops (new_steam_cdn 0 True) = 524288" by code_simp
  have "list_all (\<lambda>(now, op). now - c_speed_at (new_steam_cdn 0 True) < minute) ?ops" by code_simp
  from speed_budget_survives[OF _ this, of "[]" 0 True] t show ?thesis by simp
qed
end
