(* ===== verification/Spec2Isabelle.thy ===== *)
theory Spec2Isabelle
  imports Lifecycle RegistryFacts ResolverPathFacts ProxyConfigFacts DialFacts SocksFacts UdpFacts UpdaterFacts SetupRuns
    SteamObserverFacts SteamPoolFacts SteamTrialFacts
begin

text \<open>
  HypoMux spreads the connections of a machine over several network adapters. Its engine
  (\<open>src/engine\<close>) runs SOCKS and HTTP proxies; for every connection a scheduler picks an
  adapter, a resolver finds the addresses of the target through that adapter, sockets bound to
  it are opened, and what happens is fed back into health, performance and latency tables. The
  desktop application (\<open>src/desktop\<close>) starts the engine, installs and updates itself. An optional
  layer of the proxy, the Steam CDN optimizer, learns faster addresses for game downloads. These
  theories model the Go code of the engine's core, of the optimizer, of the installer's
  transaction and of the updater.

  Theories, by part of the program. A theory \<open>XFacts\<close> holds the lemmas and properties of the
  definitions of \<open>X\<close>.

  \<^item> \<open>MuxPrelude\<close>, \<open>GoNet\<close>, \<open>GoTime\<close>: generic lemmas, and the parts of the Go
    library that the code uses and that are modelled rather than assumed: \<open>netip\<close> addresses
    (parsing, printing, predicates), decimal and hexadecimal texts, \<open>time.AddDate\<close>.
  \<^item> \<open>HeapSift\<close>, \<open>DeadlineSpec\<close>, \<open>ExpiryIndex\<close>: the deadline index \<open>internal/expiry/index.go\<close> over
    \<open>container/heap\<close>. \<open>DeadlineSpec\<close> is the abstract contract (a map from keys to deadlines) as
    a locale with its client lemmas; \<open>ExpiryIndex\<close> interprets it with the heap and proves the
    refinement. The tables below store their expiry dates there and use only the contract.
  \<^item> \<open>Lifecycle\<close>: the states of the engine and their transitions, \<open>internal/runtime/runtime.go\<close>.
  \<^item> \<open>Adapter\<close>: the adapter record of \<open>internal/proxy/config.go\<close>, shared by the proxy theories.
  \<^item> \<open>Health\<close>: cool-downs, per-domain evidence and quarantine, per-family health,
    \<open>internal/proxy/health.go\<close> and \<open>family_health.go\<close>. The facts cover the partition of the
    candidates, the life of a quarantine and the absence of self-inflicted outages.
  \<^item> \<open>Performance\<close>: the adaptive table of \<open>adaptive.go\<close> and the allocator of
    \<open>adaptive_allocation.go\<close>: leases, link loads, shares with a floor and credits.
  \<^item> \<open>Latency\<close>: the latency table of \<open>latency.go\<close>: watched targets, samples, scores,
    hysteresis.
  \<^item> \<open>Rotation\<close>, \<open>Scheduler\<close>: \<open>scheduler.go\<close> and \<open>scheduling.go\<close>. \<open>Rotation\<close> is the
    abstract smooth weighted round robin and its fairness; \<open>Scheduler\<close> composes the three tables
    under every strategy, with leases and live updates.
  \<^item> \<open>Registry\<close>: the connection registry of \<open>registry.go\<close> as a step relation over sessions.
  \<^item> \<open>DnsWire\<close>, \<open>DnsConfig\<close>, \<open>Nat64\<close>: the wire format, the configuration and the NAT64 synthesis of
    \<open>internal/dns\<close>.
  \<^item> \<open>Resolver\<close>, \<open>WireQuery\<close>, \<open>ResolverPath\<close>: the resolver of \<open>internal/dns/resolver.go\<close>, the cache with
    coalescing of queries, and the query paths (DoH, custom DoH, DoT, plain UDP and TCP) with
    the policy that decides which of them may be used.
  \<^item> \<open>DualStack\<close>, \<open>Dial\<close>: opening a connection, \<open>dual_stack.go\<close> and \<open>dial.go\<close>: the race between
    addresses of both families and NAT64 through one adapter, and the attempts over two adapters.
  \<^item> \<open>ProxyConfig\<close>: normalisation of the engine's configuration.
  \<^item> \<open>SocksWire\<close>, \<open>UdpAssoc\<close>: the SOCKS front end \<open>socks.go\<close> and the UDP associations of \<open>udp.go\<close>
    with their flows, as steps of a run in which other connections use the scheduler too.
  \<^item> \<open>SteamPool\<close>, \<open>SteamFramer\<close>, \<open>SteamObserver\<close>, \<open>SteamCdn\<close>, \<open>SteamTrial\<close>, \<open>SteamProbe\<close>: the optimizer,
    \<open>steam_*.go\<close>. \<open>SteamPool\<close> is the candidate pool made of the answers of several adapters.
    \<open>SteamFramer\<close> follows the HTTP framing of forwarded bytes; the locale \<open>body_sink\<close> of
    \<open>SteamFramerFacts\<close> states what callbacks must promise for the result not to depend on the
    pieces the bytes come in, and \<open>SteamObserverFacts\<close> interprets it with the two directions of the
    observer. \<open>SteamCdn\<close> is the learning state with its samples, \<open>SteamTrial\<close> the scores, trials and
    transfers, \<open>SteamProbe\<close> discovery, probe budgets and \<open>cdn_op\<close>, the list of all operations on
    that state; \<open>SteamTrialFacts\<close> holds their invariants and properties.
  \<^item> \<open>SetupTransaction\<close>, \<open>SetupFacts\<close>, \<open>SetupRuns\<close>: the journalled installation of
    \<open>internal/setup/transaction.go\<close>. Every system call takes an answer from the environment, success or
    failure; losing power is the failure of all later calls. Renaming the journal is atomic.
    \<open>SetupRuns\<close> composes the calls of the installer into runs with any number of restarts.
  \<^item> \<open>ReleaseVersion\<close>, \<open>Updater\<close>: \<open>releaseversion/version.go\<close> and \<open>services/updater.go\<close> of the desktop.

  Correspondence. A struct is a record, an enumeration a datatype, a method a function that
  returns the changed state, an error a value of a sum or of an option, a loop a recursive
  function. Go maps are functions to an option or association lists; where the order of a
  map's iteration can be seen, it is an argument. A mutex makes a method atomic, so one call
  is one step; concurrent parts (the flows of an association, the sessions of the registry,
  the attempts of a dial, the callers of a coalesced query) are step relations or runs over
  explicit event lists, whose order is arbitrary. Everything that comes from outside is an
  argument: replies of the network, results of system calls, the clock (read once per locked
  operation), and functions of libraries that are not modelled (\<open>url.Parse\<close>, IDNA, JSON,
  \<open>mime\<close>, Ed25519, SHA-256, Authenticode). Rates and shares are rational numbers where the
  code has \<open>float64\<close>; texts are ASCII; the wording of errors and log lines is left out.

  Loops and bounds. \<open>expire_loop\<close> and \<open>room_loop\<close> get the size of the index as fuel, and every
  round removes an entry. The retries of a locked file in the installer end with the answers of
  the environment, whose number is their measure. \<open>skip_name\<close> allows the 129 rounds of the code's own bound. The DoT
  attempts (2), the adapters of a dial (2), the addresses of a target (16) and the attempts
  of a UDP flow (2) are the bounds of the code. All other loops recurse on their list or have
  a measure, so every definition is total.

  What the properties show, by theme.
  \<^item> Privacy of names: encrypted policies never fall back to plaintext DNS, and only allowed
    servers are asked (\<open>ResolverPathFacts\<close>).
  \<^item> Scheduling: only eligible adapters are chosen, weights are honoured, fallbacks do not
    make an outage, and blame needs a comparison (\<open>SchedulerFacts\<close>, \<open>HealthFacts\<close>, \<open>DialFacts\<close>).
  \<^item> Accounting: leases, link loads, active counters, UDP flows and the update flag are all
    given back on every path (\<open>PerformanceFacts\<close>, \<open>DialFacts\<close>, \<open>RegistryFacts\<close>, \<open>UdpFacts\<close>).
  \<^item> Bounds: caches, tables, flows, targets and parallel sockets.
  \<^item> Parsers: no out-of-range access, round trips of DNS, SOCKS, NAT64 and version formats.
  \<^item> Optimizer: an address is tried only when it is verified, in date and its place among the
    trials is reserved; it is preferred only on evidence; tables and probe traffic are bounded;
    what is observed does not depend on how the bytes are cut (\<open>SteamTrialFacts\<close>,
    \<open>SteamObserverFacts\<close>, \<open>SteamPoolFacts\<close>).
  \<^item> Installation: whatever fails and whenever, a restart brings back the old installation or
    keeps the complete new one (\<open>SetupRuns\<close>).
  \<^item> Updates: what is installed is what the publisher signed, there is no downgrade, and a
    mirror that serves something else stops the update (\<open>UpdaterFacts\<close>).

  Not modelled: the transports below the queries (TLS, HTTP/2 and their connection pools), the
  listeners and sockets, the HTTP front end, the requests of the optimizer's probes and its status
  report, the TUN supervisor, the RPC server and service host, Windows bindings, the desktop
  services other than the updater, and the TypeScript front end: they are plumbing around the
  standard library and the operating system.
\<close>

end
